(* ===== verification/Prelude.thy ===== *)
theory Prelude
  imports Main "HOL-Library.Monad_Syntax"
begin

text \<open>
  The shared base of the development: the names of the model's basic types, the fact
  collections the component theories extend, and generic lemmas on options and lists.

  A C pointer is a natural number and \<open>NULL\<close> is 0. A computation that dereferences
  pointers returns an \<open>option\<close>: \<open>None\<close> is a fault (a read or write through \<open>NULL\<close> or
  through a pointer to memory that is not live, a \<open>free\<close> of such a pointer) or a loop that does not
  end, so a theorem that a call returns \<open>Some\<close> states that it neither faults nor loops.
\<close>

type_synonym ptr = nat

abbreviation NULL :: ptr where
  "NULL \<equiv> 0"

named_theorems mem_ops "unfolding rules of the primitive memory accesses"
named_theorems state_defs "unfolding rules of the state machines' operations"

lemma bind_Some_iff [simp]:
  "(Option.bind x f = Some y) = (\<exists>a. x = Some a \<and> f a = Some y)"
  by (cases x) auto

lemma last_snoc_cases:
  obtains (empty) "xs = []" | (snoc) ys y where "xs = ys @ [y]"
  by (cases xs rule: rev_cases) auto

lemma map_upd_id: "m k = Some v \<Longrightarrow> m(k \<mapsto> v) = m"
  by auto

end
