(* ===== verification/Linked_List.thy ===== *)
theory Linked_List
  imports Prelude
begin

text \<open>
  The doubly linked list of \<open>gps/utils/linked_list.c\<close>, on an explicit memory.

  \<^item> \<open>list_element\<close>, \<open>list_state\<close>: the two structs. A data pointer is a value of a type
    \<open>'a\<close> (the list never looks behind it), a \<open>dealloc_func\<close> is \<open>None\<close> for \<open>NULL\<close> or
    names a function of type \<open>'f\<close>.
  \<^item> \<open>ll_mem\<close>: the live objects of both struct types, the next address \<open>malloc\<close>
    hands out, and the log of calls through \<open>dealloc_func\<close>.
  \<^item> one definition per function of the file. A \<open>void**\<close> parameter is an \<open>option\<close>
    (\<open>None\<close> for \<open>NULL\<close>) or a flag, and what is stored through it is part of the result;
    the result of \<open>malloc\<close> is the argument \<open>ok\<close>.
  \<^item> \<open>mem_inv\<close>: the well-formedness invariant (\<open>p_head\<close>, \<open>p_tail\<close>, \<open>next\<close> and
    \<open>prev\<close> agree, lists are disjoint, every live element is on exactly one list).
  \<^item> \<open>ll_rel\<close>: the memory represents a map from list handles to HOL lists; every function
    refines an operation on HOL lists.
\<close>

section \<open>Data\<close>

datatype linked_list_err_type =
    eLINKED_LIST_SUCCESS
  | eLINKED_LIST_FAILURE_GENERAL
  | eLINKED_LIST_INVALID_PARAMETER
  | eLINKED_LIST_INVALID_HANDLE
  | eLINKED_LIST_UNAVAILABLE_RESOURCE
  | eLINKED_LIST_INSUFFICIENT_BUFFER

fun ll_code :: "linked_list_err_type \<Rightarrow> int" where
  "ll_code eLINKED_LIST_SUCCESS = 0"
| "ll_code eLINKED_LIST_FAILURE_GENERAL = -1"
| "ll_code eLINKED_LIST_INVALID_PARAMETER = -2"
| "ll_code eLINKED_LIST_INVALID_HANDLE = -3"
| "ll_code eLINKED_LIST_UNAVAILABLE_RESOURCE = -4"
| "ll_code eLINKED_LIST_INSUFFICIENT_BUFFER = -5"

record ('a, 'f) list_element =
  el_next :: ptr
  el_prev :: ptr
  data_ptr :: 'a
  dealloc_func :: "'f option"

record list_state =
  p_head :: ptr
  p_tail :: ptr

record ('a, 'f) ll_mem =
  elems :: "ptr \<rightharpoonup> ('a, 'f) list_element"
  lists :: "ptr \<rightharpoonup> list_state"
  brk :: ptr
  calls :: "('f \<times> 'a) list"

section \<open>Memory accesses\<close>

definition set_next :: "ptr \<Rightarrow> ptr \<Rightarrow> ('a, 'f) ll_mem \<Rightarrow> ('a, 'f) ll_mem option" where
  "set_next p q m = do { e \<leftarrow> elems m p; Some (m\<lparr>elems := (elems m)(p \<mapsto> e\<lparr>el_next := q\<rparr>)\<rparr>) }"

definition set_prev :: "ptr \<Rightarrow> ptr \<Rightarrow> ('a, 'f) ll_mem \<Rightarrow> ('a, 'f) ll_mem option" where
  "set_prev p q m = do { e \<leftarrow> elems m p; Some (m\<lparr>elems := (elems m)(p \<mapsto> e\<lparr>el_prev := q\<rparr>)\<rparr>) }"

definition set_head :: "ptr \<Rightarrow> ptr \<Rightarrow> ('a, 'f) ll_mem \<Rightarrow> ('a, 'f) ll_mem option" where
  "set_head l q m = do { s \<leftarrow> lists m l; Some (m\<lparr>lists := (lists m)(l \<mapsto> s\<lparr>p_head := q\<rparr>)\<rparr>) }"

definition set_tail :: "ptr \<Rightarrow> ptr \<Rightarrow> ('a, 'f) ll_mem \<Rightarrow> ('a, 'f) ll_mem option" where
  "set_tail l q m = do { s \<leftarrow> lists m l; Some (m\<lparr>lists := (lists m)(l \<mapsto> s\<lparr>p_tail := q\<rparr>)\<rparr>) }"

definition free_elem :: "ptr \<Rightarrow> ('a, 'f) ll_mem \<Rightarrow> ('a, 'f) ll_mem option" where
  "free_elem p m = do { _ \<leftarrow> elems m p; Some (m\<lparr>elems := (elems m)(p := None)\<rparr>) }"

definition call_dealloc :: "'f option \<Rightarrow> 'a \<Rightarrow> ('a, 'f) ll_mem \<Rightarrow> ('a, 'f) ll_mem" where
  "call_dealloc df d m = (case df of None \<Rightarrow> m | Some f \<Rightarrow> m\<lparr>calls := calls m @ [(f, d)]\<rparr>)"

lemmas access_defs [mem_ops] =
  set_next_def set_prev_def set_head_def set_tail_def free_elem_def call_dealloc_def

section \<open>The functions of linked\_list.c\<close>

definition linked_list_init ::
    "bool \<Rightarrow> ptr option \<Rightarrow> ('a, 'f) ll_mem \<Rightarrow> linked_list_err_type \<times> ptr option \<times> ('a, 'f) ll_mem" where
  "linked_list_init ok list_data m =
     (case list_data of
        None \<Rightarrow> (eLINKED_LIST_INVALID_PARAMETER, None, m)
      | Some old \<Rightarrow>
          if \<not> ok then (eLINKED_LIST_FAILURE_GENERAL, Some old, m)
          else (eLINKED_LIST_SUCCESS, Some (brk m),
                m\<lparr>lists := (lists m)(brk m \<mapsto> \<lparr>p_head = NULL, p_tail = NULL\<rparr>), brk := Suc (brk m)\<rparr>))"

definition linked_list_add ::
    "bool \<Rightarrow> ptr \<Rightarrow> 'a option \<Rightarrow> 'f option \<Rightarrow> ('a, 'f) ll_mem
       \<Rightarrow> (linked_list_err_type \<times> ('a, 'f) ll_mem) option" where
  "linked_list_add ok list_data data_obj dealloc m =
     (if list_data = NULL then Some (eLINKED_LIST_INVALID_HANDLE, m)
      else case data_obj of
        None \<Rightarrow> Some (eLINKED_LIST_INVALID_PARAMETER, m)
      | Some d \<Rightarrow>
          if \<not> ok then Some (eLINKED_LIST_FAILURE_GENERAL, m)
          else do {
            let elem = brk m;
            let m = m\<lparr>elems := (elems m)(elem \<mapsto> \<lparr>el_next = NULL, el_prev = NULL,
                                        data_ptr = d, dealloc_func = dealloc\<rparr>),
                      brk := Suc elem\<rparr>;
            s \<leftarrow> lists m list_data;
            let tmp = p_head s;
            m \<leftarrow> set_head list_data elem m;
            m \<leftarrow> set_next elem tmp m;
            m \<leftarrow> (if tmp \<noteq> NULL then set_prev tmp elem m else set_tail list_data elem m);
            Some (eLINKED_LIST_SUCCESS, m)
          })"

definition linked_list_remove ::
    "ptr \<Rightarrow> bool \<Rightarrow> ('a, 'f) ll_mem \<Rightarrow> (linked_list_err_type \<times> 'a option \<times> ('a, 'f) ll_mem) option" where
  "linked_list_remove list_data data_obj_null m =
     (if list_data = NULL then Some (eLINKED_LIST_INVALID_HANDLE, None, m)
      else if data_obj_null then Some (eLINKED_LIST_INVALID_PARAMETER, None, m)
      else do {
        s \<leftarrow> lists m list_data;
        if p_tail s = NULL then Some (eLINKED_LIST_UNAVAILABLE_RESOURCE, None, m)
        else do {
          let tmp = p_tail s;
          e \<leftarrow> elems m tmp;
          m \<leftarrow> set_tail list_data (el_prev e) m;
          m \<leftarrow> (if el_prev e \<noteq> NULL then set_next (el_prev e) NULL m else set_head list_data (el_prev e) m);
          e \<leftarrow> elems m tmp;
          m \<leftarrow> free_elem tmp m;
          Some (eLINKED_LIST_SUCCESS, Some (data_ptr e), m)
        }
      })"

definition linked_list_empty :: "ptr \<Rightarrow> ('a, 'f) ll_mem \<Rightarrow> int option" where
  "linked_list_empty list_data m =
     (if list_data = NULL then Some (ll_code eLINKED_LIST_INVALID_HANDLE)
      else do { s \<leftarrow> lists m list_data; Some (if p_head s = NULL then 1 else 0) })"

partial_function (option) flush_loop ::
    "ptr \<Rightarrow> ('a, 'f) ll_mem \<Rightarrow> ('a, 'f) ll_mem option" where
  "flush_loop p_list m = do {
     s \<leftarrow> lists m p_list;
     if p_head s = NULL then Some m
     else do {
       e \<leftarrow> elems m (p_head s);
       m \<leftarrow> free_elem (p_head s) (call_dealloc (dealloc_func e) (data_ptr e) m);
       m \<leftarrow> set_head p_list (el_next e) m;
       flush_loop p_list m
     }
   }"

definition linked_list_flush ::
    "ptr \<Rightarrow> ('a, 'f) ll_mem \<Rightarrow> (linked_list_err_type \<times> ('a, 'f) ll_mem) option" where
  "linked_list_flush list_data m =
     (if list_data = NULL then Some (eLINKED_LIST_INVALID_HANDLE, m)
      else do {
        m \<leftarrow> flush_loop list_data m;
        m \<leftarrow> set_tail list_data NULL m;
        Some (eLINKED_LIST_SUCCESS, m)
      })"

definition linked_list_destroy ::
    "ptr option \<Rightarrow> ('a, 'f) ll_mem \<Rightarrow> (linked_list_err_type \<times> ptr option \<times> ('a, 'f) ll_mem) option" where
  "linked_list_destroy list_data m =
     (case list_data of
        None \<Rightarrow> Some (eLINKED_LIST_INVALID_HANDLE, None, m)
      | Some p_list \<Rightarrow> do {
          (_, m) \<leftarrow> linked_list_flush p_list m;
          m \<leftarrow> (if p_list = NULL then Some m
               else do { _ \<leftarrow> lists m p_list; Some (m\<lparr>lists := (lists m)(p_list := None)\<rparr>) });
          Some (eLINKED_LIST_SUCCESS, Some NULL, m)
        })"

text \<open>
  \<open>linked_list_search\<close> calls a comparison function that may itself have effects (the AGPS
  state machine sends its notifications from there), so the comparison threads a world \<open>'w\<close>.
  The out-parameter is \<open>None\<close> where nothing is stored through \<open>data_p\<close>, \<open>Some None\<close> where
  \<open>NULL\<close> is.
\<close>

definition unlink_elem :: "ptr \<Rightarrow> ptr \<Rightarrow> bool \<Rightarrow> ('a, 'f) ll_mem \<Rightarrow> ('a, 'f) ll_mem option" where
  "unlink_elem p_list tmp data_p_null m = do {
     e \<leftarrow> elems m tmp;
     m \<leftarrow> (if el_prev e = NULL then set_head p_list (el_next e) m
          else set_next (el_prev e) (el_next e) m);
     m \<leftarrow> (if el_next e = NULL then set_tail p_list (el_prev e) m
          else set_prev (el_next e) (el_prev e) m);
     m \<leftarrow> set_next tmp NULL m;
     m \<leftarrow> set_prev tmp NULL m;
     free_elem tmp (if data_p_null then call_dealloc (dealloc_func e) (data_ptr e) m else m)
   }"

partial_function (option) search_loop ::
    "ptr \<Rightarrow> bool \<Rightarrow> ('a \<Rightarrow> 'w \<Rightarrow> bool \<times> 'w) \<Rightarrow> bool \<Rightarrow> ptr \<Rightarrow> 'w \<Rightarrow> ('a, 'f) ll_mem
       \<Rightarrow> ('a option \<times> 'w \<times> ('a, 'f) ll_mem) option" where
  "search_loop p_list data_p_null equal rm_if_found tmp w m =
     (if tmp = NULL then Some (None, w, m)
      else do {
        e \<leftarrow> elems m tmp;
        case equal (data_ptr e) w of (found, w) \<Rightarrow>
          if found then do {
            m \<leftarrow> (if rm_if_found then unlink_elem p_list tmp data_p_null m else Some m);
            Some (Some (data_ptr e), w, m)
          }
          else search_loop p_list data_p_null equal rm_if_found (el_next e) w m
      })"

definition linked_list_search ::
    "ptr \<Rightarrow> bool \<Rightarrow> ('a \<Rightarrow> 'w \<Rightarrow> bool \<times> 'w) option \<Rightarrow> bool \<Rightarrow> 'w \<Rightarrow> ('a, 'f) ll_mem
       \<Rightarrow> (linked_list_err_type \<times> 'a option option \<times> 'w \<times> ('a, 'f) ll_mem) option" where
  "linked_list_search list_data data_p_null equal rm_if_found w m =
     (if list_data = NULL \<or> equal = None then Some (eLINKED_LIST_INVALID_HANDLE, None, w, m)
      else do {
        s \<leftarrow> lists m list_data;
        if p_tail s = NULL then Some (eLINKED_LIST_UNAVAILABLE_RESOURCE, None, w, m)
        else do {
          (found, w, m) \<leftarrow> search_loop list_data data_p_null (the equal) rm_if_found (p_head s) w m;
          Some (eLINKED_LIST_SUCCESS, (if data_p_null then None else Some found), w, m)
        }
      })"

section \<open>Segments of a doubly linked list\<close>

text \<open>
  \<open>lseg h prv p ps nxt lst\<close>: starting at \<open>p\<close>, whose \<open>prev\<close> is \<open>prv\<close>, the \<open>next\<close> pointers
  visit exactly \<open>ps\<close> and lead to \<open>nxt\<close>; \<open>lst\<close> is the last element visited (\<open>prv\<close> if none).
\<close>

fun lseg :: "(ptr \<rightharpoonup> ('a, 'f) list_element) \<Rightarrow> ptr \<Rightarrow> ptr \<Rightarrow> ptr list \<Rightarrow> ptr \<Rightarrow> ptr \<Rightarrow> bool" where
  "lseg h prv p [] nxt lst = (p = nxt \<and> lst = prv)"
| "lseg h prv p (a # as) nxt lst =
     (p = a \<and> a \<noteq> NULL \<and> (\<exists>e. h a = Some e \<and> el_prev e = prv \<and> lseg h a (el_next e) as nxt lst))"

lemma lseg_append:
  "lseg h prv p (as @ bs) nxt lst = (\<exists>x y. lseg h prv p as x y \<and> lseg h y x bs nxt lst)"
  by (induction as arbitrary: prv p) auto

lemma lseg_cong:
  "(\<And>a. a \<in> set as \<Longrightarrow> h' a = h a) \<Longrightarrow> lseg h' prv p as nxt lst = lseg h prv p as nxt lst"
  by (induction as arbitrary: prv p) auto

lemma lseg_live: "lseg h prv p as nxt lst \<Longrightarrow> a \<in> set as \<Longrightarrow> \<exists>e. h a = Some e"
  by (induction as arbitrary: prv p) auto

lemma lseg_nonnull: "lseg h prv p as nxt lst \<Longrightarrow> NULL \<notin> set as"
  by (induction as arbitrary: prv p) auto

lemma lseg_first: "lseg h prv p as nxt lst \<Longrightarrow> p = (if as = [] then nxt else hd as)"
  by (cases as) auto

lemma lseg_last: "lseg h prv p as nxt lst \<Longrightarrow> lst = (if as = [] then prv else last as)"
  by (induction as arbitrary: prv p) (auto split: if_splits)

lemma lseg_set_next_last:
  assumes "lseg h prv p (as @ [y]) nxt lst" and "y \<notin> set as" and "h y = Some e"
  shows "lseg (h(y \<mapsto> e\<lparr>el_next := q\<rparr>)) prv p (as @ [y]) q y"
proof -
  from assms obtain x z where "lseg h prv p as x z" and "x = y" "y \<noteq> NULL" "el_prev e = z"
    by (auto simp: lseg_append)
  moreover have "lseg (h(y \<mapsto> e\<lparr>el_next := q\<rparr>)) prv p as x z = lseg h prv p as x z"
    using assms(2) by (intro lseg_cong) auto
  ultimately show ?thesis by (auto simp: lseg_append)
qed

lemma lseg_set_prev_first:
  assumes "lseg h prv p (a # as) nxt lst" and "a \<notin> set as" and "h a = Some e"
  shows "lseg (h(a \<mapsto> e\<lparr>el_prev := q\<rparr>)) q p (a # as) nxt lst"
proof -
  have "lseg (h(a \<mapsto> e\<lparr>el_prev := q\<rparr>)) a (el_next e) as nxt lst = lseg h a (el_next e) as nxt lst"
    using assms(2) by (intro lseg_cong) auto
  with assms show ?thesis by auto
qed

section \<open>The invariant and the abstraction\<close>

definition mem_inv :: "('a, 'f) ll_mem \<Rightarrow> (ptr \<rightharpoonup> ptr list) \<Rightarrow> bool" where
  "mem_inv m N \<longleftrightarrow>
     dom N = dom (lists m) \<and>
     (\<forall>l ps s. N l = Some ps \<longrightarrow> lists m l = Some s \<longrightarrow>
        distinct ps \<and> lseg (elems m) NULL (p_head s) ps NULL (p_tail s)) \<and>
     (\<forall>l l' ps ps'. N l = Some ps \<longrightarrow> N l' = Some ps' \<longrightarrow> l \<noteq> l' \<longrightarrow> set ps \<inter> set ps' = {}) \<and>
     (\<forall>p. (\<exists>e. elems m p = Some e) \<longleftrightarrow> (\<exists>l ps. N l = Some ps \<and> p \<in> set ps)) \<and>
     (\<forall>p. elems m p \<noteq> None \<or> lists m p \<noteq> None \<longrightarrow> 0 < p \<and> p < brk m) \<and>
     0 < brk m"

definition vals :: "('a, 'f) ll_mem \<Rightarrow> ptr list \<Rightarrow> ('a \<times> 'f option) list" where
  "vals m ps = map (\<lambda>p. (data_ptr (the (elems m p)), dealloc_func (the (elems m p)))) ps"

definition ll_abs :: "('a, 'f) ll_mem \<Rightarrow> (ptr \<rightharpoonup> ptr list) \<Rightarrow> (ptr \<rightharpoonup> ('a \<times> 'f option) list)" where
  "ll_abs m N = (\<lambda>l. map_option (vals m) (N l))"

definition ll_rel :: "('a, 'f) ll_mem \<Rightarrow> (ptr \<rightharpoonup> ('a \<times> 'f option) list) \<Rightarrow> bool" where
  "ll_rel m \<sigma> \<longleftrightarrow> (\<exists>N. mem_inv m N \<and> \<sigma> = ll_abs m N)"

lemma vals_simps [simp]:
  "vals m [] = []"
  "vals m (p # ps) = (data_ptr (the (elems m p)), dealloc_func (the (elems m p))) # vals m ps"
  "vals m (ps @ qs) = vals m ps @ vals m qs"
  by (simp_all add: vals_def)

lemma vals_cong:
  "(\<And>p. p \<in> set ps \<Longrightarrow> elems m' p = elems m p) \<Longrightarrow> vals m' ps = vals m ps"
  by (simp add: vals_def)

lemma vals_upd_link:
  assumes "elems m' = (elems m)(p \<mapsto> e')" and "elems m p = Some e"
    and "data_ptr e' = data_ptr e" and "dealloc_func e' = dealloc_func e"
  shows "vals m' ps = vals m ps"
  using assms by (induction ps) (auto simp: vals_def)

lemma mem_invD:
  assumes "mem_inv m N" and "N l = Some ps"
  obtains s where "lists m l = Some s" and "distinct ps"
    and "lseg (elems m) NULL (p_head s) ps NULL (p_tail s)" and "0 < l" and "l < brk m"
  using assms unfolding mem_inv_def by (metis domD domI option.distinct(1))

lemma mem_inv_fresh:
  assumes "mem_inv m N"
  shows "elems m (brk m) = None" and "lists m (brk m) = None" and "0 < brk m"
    and "N l = Some ps \<Longrightarrow> p \<in> set ps \<Longrightarrow> p < brk m"
  using assms unfolding mem_inv_def by (metis less_irrefl option.distinct(1))+

text \<open>The frame rule: what an operation on list \<open>l\<close> must show to keep the whole memory well formed.\<close>

lemma upd_disjoint:
  assumes inv: "mem_inv m N" and Nl: "N l = Some ps"
    and F: "\<forall>p \<in> set ps' - set ps. brk m \<le> p"
    and k: "N k = Some qs" "k \<noteq> l"
  shows "set qs \<inter> set ps = {}" and "set qs \<inter> set ps' = {}"
proof -
  show 1: "set qs \<inter> set ps = {}"
    using inv Nl k unfolding mem_inv_def by metis
  show "set qs \<inter> set ps' = {}"
  proof (rule ccontr)
    assume "set qs \<inter> set ps' \<noteq> {}"
    then obtain p where p: "p \<in> set qs" "p \<in> set ps'" by blast
    with 1 have "brk m \<le> p" using F by blast
    with mem_inv_fresh(4) [OF inv k(1) p(1)] show False by simp
  qed
qed

lemma upd_elems_iff:
  assumes inv: "mem_inv m N" and Nl: "N l = Some ps"
    and S: "lseg (elems m') NULL h ps' NULL t"
    and E: "\<forall>p. p \<notin> set ps \<longrightarrow> p \<notin> set ps' \<longrightarrow> elems m' p = elems m p"
    and G: "\<forall>p \<in> set ps - set ps'. elems m' p = None"
    and F: "\<forall>p \<in> set ps' - set ps. brk m \<le> p"
  shows "(\<exists>e. elems m' p = Some e) \<longleftrightarrow> (\<exists>k qs. (N(l \<mapsto> ps')) k = Some qs \<and> p \<in> set qs)"
proof (cases "p \<in> set ps'")
  case True
  with lseg_live [OF S] have "\<exists>e. elems m' p = Some e" by blast
  moreover have "(N(l \<mapsto> ps')) l = Some ps' \<and> p \<in> set ps'" using True by simp
  ultimately show ?thesis by blast
next
  case out: False
  have other: "(\<exists>k qs. (N(l \<mapsto> ps')) k = Some qs \<and> p \<in> set qs) \<longleftrightarrow>
      (\<exists>k qs. N k = Some qs \<and> k \<noteq> l \<and> p \<in> set qs)"
    using out by (auto split: if_splits)
  have old: "(\<exists>e. elems m p = Some e) \<longleftrightarrow> (\<exists>k qs. N k = Some qs \<and> p \<in> set qs)"
    using inv unfolding mem_inv_def by blast
  show ?thesis
  proof (cases "p \<in> set ps")
    case True
    then have "\<not> (\<exists>k qs. N k = Some qs \<and> k \<noteq> l \<and> p \<in> set qs)"
      using upd_disjoint(1) [OF inv Nl F] by blast
    with True out G other show ?thesis by simp
  next
    case False
    with out E have "elems m' p = elems m p" by blast
    moreover have "(\<exists>k qs. N k = Some qs \<and> p \<in> set qs) \<longleftrightarrow> (\<exists>k qs. N k = Some qs \<and> k \<noteq> l \<and> p \<in> set qs)"
      using False Nl by (metis option.inject)
    ultimately show ?thesis using old other by simp
  qed
qed

lemma upd_lists_ok:
  assumes inv: "mem_inv m N" and Nl: "N l = Some ps"
    and L: "lists m' = (lists m)(l \<mapsto> s')"
    and S: "lseg (elems m') NULL (p_head s') ps' NULL (p_tail s')"
    and D: "distinct ps'"
    and E: "\<forall>p. p \<notin> set ps \<longrightarrow> p \<notin> set ps' \<longrightarrow> elems m' p = elems m p"
    and F: "\<forall>p \<in> set ps' - set ps. brk m \<le> p"
    and k: "(N(l \<mapsto> ps')) k = Some qs" "lists m' k = Some s"
  shows "distinct qs \<and> lseg (elems m') NULL (p_head s) qs NULL (p_tail s)"
proof (cases "k = l")
  case True with k L S D show ?thesis by auto
next
  case False
  with k L have kq: "N k = Some qs" "lists m k = Some s" by auto
  have "elems m' p = elems m p" if "p \<in> set qs" for p
    using upd_disjoint [OF inv Nl F kq(1) False] E that by blast
  then have "lseg (elems m') NULL (p_head s) qs NULL (p_tail s)
        = lseg (elems m) NULL (p_head s) qs NULL (p_tail s)"
    by (rule lseg_cong)
  moreover have "distinct qs \<and> lseg (elems m) NULL (p_head s) qs NULL (p_tail s)"
    using inv kq unfolding mem_inv_def by simp
  ultimately show ?thesis by simp
qed

lemma upd_addr:
  assumes inv: "mem_inv m N" and Nl: "N l = Some ps"
    and L: "lists m' = (lists m)(l \<mapsto> s')"
    and S: "lseg (elems m') NULL (p_head s') ps' NULL (p_tail s')"
    and E: "\<forall>p. p \<notin> set ps \<longrightarrow> p \<notin> set ps' \<longrightarrow> elems m' p = elems m p"
    and G: "\<forall>p \<in> set ps - set ps'. elems m' p = None"
    and F': "\<forall>p \<in> set ps'. p < brk m'" and B: "brk m \<le> brk m'"
    and p: "elems m' p \<noteq> None \<or> lists m' p \<noteq> None"
  shows "0 < p \<and> p < brk m'"
proof (cases "p \<in> set ps'")
  case True
  then have "0 < p" using lseg_nonnull [OF S] by (metis gr0I)
  with True F' show ?thesis by simp
next
  case False
  have "lists m l \<noteq> None" using mem_invD [OF inv Nl] by blast
  then have "elems m p \<noteq> None \<or> lists m p \<noteq> None"
    using p False E G L by (cases "p \<in> set ps"; cases "p = l") auto
  then have "0 < p \<and> p < brk m" using inv unfolding mem_inv_def by blast
  with B show ?thesis by simp
qed

lemma upd_apart:
  assumes inv: "mem_inv m N" and Nl: "N l = Some ps"
    and F: "\<forall>p \<in> set ps' - set ps. brk m \<le> p"
    and k: "(N(l \<mapsto> ps')) k = Some qs" "(N(l \<mapsto> ps')) k' = Some qs'" "k \<noteq> k'"
  shows "set qs \<inter> set qs' = {}"
proof -
  note disj = upd_disjoint(2) [OF inv Nl F]
  show ?thesis
  proof (cases "k = l")
    case True
    with k have "qs = ps'" "N k' = Some qs'" "k' \<noteq> l" by simp_all
    with disj [of k' qs'] show ?thesis by blast
  next
    case False
    with k(1) have kq: "N k = Some qs" by simp
    show ?thesis
    proof (cases "k' = l")
      case True
      with k(2) disj [OF kq False] show ?thesis by simp
    next
      case False
      with k(2) have "N k' = Some qs'" by simp
      from upd_disjoint(1) [OF inv this, of "[]"] kq k(3) show ?thesis by simp
    qed
  qed
qed

lemma mem_inv_upd:
  assumes inv: "mem_inv m N" and Nl: "N l = Some ps"
    and L: "lists m' = (lists m)(l \<mapsto> s')"
    and S: "lseg (elems m') NULL (p_head s') ps' NULL (p_tail s')"
    and D: "distinct ps'"
    and E: "\<forall>p. p \<notin> set ps \<longrightarrow> p \<notin> set ps' \<longrightarrow> elems m' p = elems m p"
    and G: "\<forall>p \<in> set ps - set ps'. elems m' p = None"
    and F: "\<forall>p \<in> set ps' - set ps. brk m \<le> p"
    and F': "\<forall>p \<in> set ps'. p < brk m'"
    and B: "brk m \<le> brk m'"
  shows "mem_inv m' (N(l \<mapsto> ps'))"
proof -
  have dm: "dom N = dom (lists m)" and pos: "0 < brk m"
    using inv unfolding mem_inv_def by simp_all
  show ?thesis
    unfolding mem_inv_def
  proof (intro conjI)
    show "dom (N(l \<mapsto> ps')) = dom (lists m')" using dm L by simp
    show "0 < brk m'" using pos B by simp
  qed (use upd_lists_ok [OF inv Nl L S D E F] upd_apart [OF inv Nl F]
        upd_elems_iff [OF inv Nl S E G F] upd_addr [OF inv Nl L S E G F' B] in simp_all)
qed

lemma ll_abs_upd:
  assumes inv: "mem_inv m N" and Nl: "N l = Some ps"
    and E: "\<forall>p. p \<notin> set ps \<longrightarrow> p \<notin> set ps' \<longrightarrow> elems m' p = elems m p"
    and F: "\<forall>p \<in> set ps' - set ps. brk m \<le> p"
  shows "ll_abs m' (N(l \<mapsto> ps')) = (ll_abs m N)(l \<mapsto> vals m' ps')"
proof
  fix k
  have "vals m' qs = vals m qs" if "N k = Some qs" "k \<noteq> l" for qs
    using upd_disjoint [OF inv Nl F that] E by (intro vals_cong) blast
  then show "ll_abs m' (N(l \<mapsto> ps')) k = ((ll_abs m N)(l \<mapsto> vals m' ps')) k"
    by (cases "N k") (auto simp: ll_abs_def)
qed

lemma ll_relE:
  assumes "ll_rel m \<sigma>" and "\<sigma> l = Some xs"
  obtains N ps s where "mem_inv m N" and "\<sigma> = ll_abs m N" and "N l = Some ps" and "xs = vals m ps"
    and "lists m l = Some s" and "distinct ps" and "lseg (elems m) NULL (p_head s) ps NULL (p_tail s)"
    and "0 < l" and "l < brk m"
proof -
  from assms obtain N ps where N: "mem_inv m N" "\<sigma> = ll_abs m N" "N l = Some ps" "xs = vals m ps"
    by (auto simp: ll_rel_def ll_abs_def)
  from mem_invD [OF N(1,3)] show thesis using N that by metis
qed

lemma ll_rel_updI:
  assumes "mem_inv m N" and "\<sigma> = ll_abs m N" and "N l = Some ps"
    and "lists m' = (lists m)(l \<mapsto> s')"
    and "lseg (elems m') NULL (p_head s') ps' NULL (p_tail s')"
    and "distinct ps'"
    and "\<forall>p. p \<notin> set ps \<longrightarrow> p \<notin> set ps' \<longrightarrow> elems m' p = elems m p"
    and "\<forall>p \<in> set ps - set ps'. elems m' p = None"
    and "\<forall>p \<in> set ps' - set ps. brk m \<le> p"
    and "\<forall>p \<in> set ps' - set ps. p < brk m'"
    and "brk m \<le> brk m'" and "xs = vals m' ps'"
  shows "ll_rel m' (\<sigma>(l \<mapsto> xs))"
proof -
  have "\<forall>p \<in> set ps'. p < brk m'"
    using mem_inv_fresh(4) [OF assms(1,3)] assms(10,11) by (metis DiffI less_le_trans)
  from mem_inv_upd [OF assms(1,3-9) this assms(11)] ll_abs_upd [OF assms(1,3,7,9)]
  show ?thesis unfolding ll_rel_def assms(2,12) by metis
qed

section \<open>Refinement: each function implements an operation on HOL lists\<close>

text \<open>A new element goes to the front.\<close>

lemma linked_list_add_refines:
  assumes rel: "ll_rel m \<sigma>" and l: "\<sigma> l = Some xs"
  shows "\<exists>m'. linked_list_add True l (Some d) f m = Some (eLINKED_LIST_SUCCESS, m')
            \<and> ll_rel m' (\<sigma>(l \<mapsto> (d, f) # xs)) \<and> calls m' = calls m"
proof -
  obtain N ps s where N: "mem_inv m N" "\<sigma> = ll_abs m N" "N l = Some ps" and xs: "xs = vals m ps"
    and s: "lists m l = Some s" and d: "distinct ps"
    and seg: "lseg (elems m) NULL (p_head s) ps NULL (p_tail s)" and l0: "0 < l"
    by (rule ll_relE [OF rel l])
  note fresh = mem_inv_fresh [OF N(1)]
  let ?a = "brk m"
  have a: "?a \<notin> set ps" using fresh(4) [OF N(3)] by blast
  show ?thesis
  proof (cases ps)
    case Nil
    with seg have "p_head s = NULL" by simp
    then show ?thesis
      using Nil s l0 fresh(1-3) xs
      by (auto simp: linked_list_add_def mem_ops Let_def intro!: ll_rel_updI [OF N, where ps' = "[brk m]"])
  next
    case (Cons b bs)
    with seg obtain e where e: "p_head s = b" "b \<noteq> NULL" "elems m b = Some e" by auto
    let ?new = "\<lparr>el_next = b, el_prev = NULL, data_ptr = d, dealloc_func = f\<rparr>"
    let ?h = "(elems m)(?a \<mapsto> ?new)"
    let ?h' = "?h(b \<mapsto> e\<lparr>el_prev := ?a\<rparr>)"
    have ab: "?a \<noteq> b" using a Cons by simp
    have "lseg ?h NULL b ps NULL (p_tail s) = lseg (elems m) NULL b ps NULL (p_tail s)"
      using a by (intro lseg_cong) auto
    then have "lseg ?h' ?a b ps NULL (p_tail s)"
      using seg e d Cons ab lseg_set_prev_first [of ?h NULL b b bs NULL "p_tail s" e ?a] by simp
    then have seg': "lseg ?h' NULL ?a (?a # ps) NULL (p_tail s)"
      using fresh(3) ab by simp
    let ?m = "m\<lparr>elems := ?h', lists := (lists m)(l \<mapsto> s\<lparr>p_head := ?a\<rparr>), brk := Suc ?a\<rparr>"
    have "vals ?m ps = vals m ps"
      using a e by (auto simp: vals_def)
    then have "ll_rel ?m (\<sigma>(l \<mapsto> (d, f) # xs))"
      using seg' d a ab Cons xs
      by (intro ll_rel_updI [OF N, where ps' = "?a # ps" and s' = "s\<lparr>p_head := ?a\<rparr>"]) auto
    moreover have "linked_list_add True l (Some d) f m = Some (eLINKED_LIST_SUCCESS, ?m)"
      using s l0 e ab by (auto simp: linked_list_add_def mem_ops Let_def fun_upd_twist intro!: ll_mem.equality)
    ultimately show ?thesis by simp
  qed
qed


text \<open>The element taken out is the last one: the oldest of those added.\<close>

lemma linked_list_remove_refines:
  assumes rel: "ll_rel m \<sigma>" and l: "\<sigma> l = Some (xs @ [(d, f)])"
  shows "\<exists>m'. linked_list_remove l False m = Some (eLINKED_LIST_SUCCESS, Some d, m')
            \<and> ll_rel m' (\<sigma>(l \<mapsto> xs)) \<and> calls m' = calls m"
proof -
  obtain N ps s where N: "mem_inv m N" "\<sigma> = ll_abs m N" "N l = Some ps" and xs: "xs @ [(d, f)] = vals m ps"
    and s: "lists m l = Some s" and dis: "distinct ps"
    and seg: "lseg (elems m) NULL (p_head s) ps NULL (p_tail s)" and l0: "0 < l"
    by (rule ll_relE [OF rel l])
  from xs have "ps \<noteq> []" by auto
  then obtain qs t where ps: "ps = qs @ [t]" by (cases ps rule: rev_cases) auto
  with seg obtain e where seg_q: "lseg (elems m) NULL (p_head s) qs t (el_prev e)"
    and e: "elems m t = Some e" "t \<noteq> NULL" "el_next e = NULL" "p_tail s = t"
    by (auto simp: lseg_append)
  have tq: "t \<notin> set qs" using dis ps by simp
  from xs ps e have v: "xs = vals m qs" "d = data_ptr e" by simp_all
  let ?s = "s\<lparr>p_tail := el_prev e\<rparr>"
  show ?thesis
  proof (cases qs rule: rev_cases)
    case Nil
    with seg_q have prev: "el_prev e = NULL" and hd: "p_head s = t" by simp_all
    let ?m = "m\<lparr>elems := (elems m)(t := None), lists := (lists m)(l \<mapsto> s\<lparr>p_head := NULL, p_tail := NULL\<rparr>)\<rparr>"
    have "ll_rel ?m (\<sigma>(l \<mapsto> xs))"
      using v Nil ps
      by (intro ll_rel_updI [OF N, where ps' = "[]" and s' = "s\<lparr>p_head := NULL, p_tail := NULL\<rparr>"]) auto
    moreover have "linked_list_remove l False m = Some (eLINKED_LIST_SUCCESS, Some d, ?m)"
      using s l0 e prev v by (auto simp: linked_list_remove_def mem_ops intro!: ll_mem.equality)
    ultimately show ?thesis by simp
  next
    case (snoc rs y)
    with seg_q obtain e' where y: "el_prev e = y" "y \<noteq> NULL" "elems m y = Some e'"
      by (auto simp: lseg_append)
    have yt: "y \<noteq> t" and yr: "y \<notin> set rs" using dis ps snoc by auto
    let ?h = "(elems m)(y \<mapsto> e'\<lparr>el_next := NULL\<rparr>)"
    have "lseg ?h NULL (p_head s) qs NULL y"
      using lseg_set_next_last [of "elems m" NULL "p_head s" rs y t "el_prev e" e' NULL] seg_q snoc yr y
      by simp
    then have seg': "lseg (?h(t := None)) NULL (p_head s) qs NULL y"
      using tq by (subst lseg_cong [where h = ?h]) auto
    let ?m = "m\<lparr>elems := ?h(t := None), lists := (lists m)(l \<mapsto> ?s)\<rparr>"
    have "vals ?m qs = vals m qs" using y tq by (auto simp: vals_def)
    then have "ll_rel ?m (\<sigma>(l \<mapsto> xs))"
      using seg' dis v ps y snoc
      by (intro ll_rel_updI [OF N, where ps' = qs and s' = ?s]) auto
    moreover have "linked_list_remove l False m = Some (eLINKED_LIST_SUCCESS, Some d, ?m)"
      using s l0 e y yt v by (simp add: linked_list_remove_def mem_ops)
    ultimately show ?thesis by simp
  qed
qed

lemma linked_list_remove_empty:
  assumes "ll_rel m \<sigma>" and "\<sigma> l = Some []"
  shows "linked_list_remove l False m = Some (eLINKED_LIST_UNAVAILABLE_RESOURCE, None, m)"
  using assms by (elim ll_relE) (auto simp: linked_list_remove_def vals_def)

lemma linked_list_empty_refines:
  assumes "ll_rel m \<sigma>" and "\<sigma> l = Some xs"
  shows "linked_list_empty l m = Some (if xs = [] then 1 else 0)"
  using assms
proof (elim ll_relE)
  fix N ps s assume "xs = vals m ps" "lists m l = Some s" "0 < l"
    "lseg (elems m) NULL (p_head s) ps NULL (p_tail s)"
  then show ?thesis by (cases ps) (auto simp: linked_list_empty_def vals_def)
qed

text \<open>Flushing calls the deallocation functions from the head on and leaves the empty list.\<close>

definition dealloc_calls :: "('a \<times> 'f option) list \<Rightarrow> ('f \<times> 'a) list" where
  "dealloc_calls xs = concat (map (\<lambda>(d, df). case df of None \<Rightarrow> [] | Some f \<Rightarrow> [(f, d)]) xs)"

lemma dealloc_calls_simps [simp]:
  "dealloc_calls [] = []"
  "dealloc_calls ((d, None) # xs) = dealloc_calls xs"
  "dealloc_calls ((d, Some f) # xs) = (f, d) # dealloc_calls xs"
  by (simp_all add: dealloc_calls_def)

lemma flush_loop_run:
  assumes "lists m l = Some s" and "lseg (elems m) prv (p_head s) ps NULL t" and "distinct ps"
  shows "flush_loop l m = Some (m\<lparr>elems := (elems m) |` (- set ps),
           lists := (lists m)(l \<mapsto> s\<lparr>p_head := NULL\<rparr>), calls := calls m @ dealloc_calls (vals m ps)\<rparr>)"
  using assms
proof (induction ps arbitrary: m s prv)
  case Nil
  then have "s\<lparr>p_head := NULL\<rparr> = s" by simp
  with Nil show ?case
    by (subst flush_loop.simps) (simp add: map_upd_id restrict_map_def)
next
  case (Cons a as)
  from Cons.prems obtain e where e: "p_head s = a" "a \<noteq> NULL" "elems m a = Some e"
    "lseg (elems m) a (el_next e) as NULL t" and a: "a \<notin> set as" "distinct as" by auto
  let ?m1 = "(call_dealloc (dealloc_func e) (data_ptr e) m)\<lparr>elems := (elems m)(a := None)\<rparr>"
  let ?m2 = "?m1\<lparr>lists := (lists m)(l \<mapsto> s\<lparr>p_head := el_next e\<rparr>)\<rparr>"
  have el: "elems (call_dealloc (dealloc_func e) (data_ptr e) m) = elems m"
    "lists (call_dealloc (dealloc_func e) (data_ptr e) m) = lists m"
    by (simp_all add: call_dealloc_def split: option.split)
  have step: "flush_loop l m = flush_loop l ?m2"
    using Cons.prems(1) e el by (subst flush_loop.simps) (simp add: free_elem_def set_head_def)
  have "lseg (elems ?m2) a (el_next e) as NULL t"
    using e(4) a by (subst lseg_cong [where h = "elems m"]) auto
  then have "flush_loop l ?m2 = Some (?m2\<lparr>elems := (elems ?m2) |` (- set as),
      lists := (lists ?m2)(l \<mapsto> s\<lparr>p_head := NULL\<rparr>), calls := calls ?m2 @ dealloc_calls (vals ?m2 as)\<rparr>)"
    using a by (subst Cons.IH [of ?m2 "s\<lparr>p_head := el_next e\<rparr>"]) auto
  moreover have "vals ?m2 as = vals m as" using a by (intro vals_cong) auto
  moreover have "((elems m)(a := None)) |` (- set as) = (elems m) |` (- set (a # as))"
    by (auto simp: restrict_map_def)
  ultimately show ?case
    using step e(3) by (cases "dealloc_func e") (auto simp: call_dealloc_def intro!: ll_mem.equality)
qed

lemma linked_list_flush_refines:
  assumes rel: "ll_rel m \<sigma>" and l: "\<sigma> l = Some xs"
  shows "\<exists>m'. linked_list_flush l m = Some (eLINKED_LIST_SUCCESS, m')
            \<and> ll_rel m' (\<sigma>(l \<mapsto> [])) \<and> calls m' = calls m @ dealloc_calls xs"
proof -
  obtain N ps s where N: "mem_inv m N" "\<sigma> = ll_abs m N" "N l = Some ps" and xs: "xs = vals m ps"
    and s: "lists m l = Some s" and dis: "distinct ps"
    and seg: "lseg (elems m) NULL (p_head s) ps NULL (p_tail s)" and l0: "0 < l"
    by (rule ll_relE [OF rel l])
  let ?s = "s\<lparr>p_head := NULL, p_tail := NULL\<rparr>"
  let ?m = "m\<lparr>elems := (elems m) |` (- set ps), lists := (lists m)(l \<mapsto> ?s),
              calls := calls m @ dealloc_calls xs\<rparr>"
  have "linked_list_flush l m = Some (eLINKED_LIST_SUCCESS, ?m)"
    using l0 xs flush_loop_run [OF s seg dis] by (simp add: linked_list_flush_def set_tail_def)
  moreover have "ll_rel ?m (\<sigma>(l \<mapsto> []))"
    by (intro ll_rel_updI [OF N, where ps' = "[]" and s' = ?s]) (auto simp: restrict_map_def)
  ultimately show ?thesis by simp
qed


text \<open>
  Searching: \<open>find_first\<close> is the search on a HOL list. It threads the world through the
  comparison, returns the position of the first hit and looks at nothing behind it.
\<close>

fun find_first :: "('a \<Rightarrow> 'w \<Rightarrow> bool \<times> 'w) \<Rightarrow> 'a list \<Rightarrow> 'w \<Rightarrow> nat option \<times> 'w" where
  "find_first eq [] w = (None, w)"
| "find_first eq (x # xs) w =
     (case eq x w of (found, w) \<Rightarrow>
        if found then (Some 0, w) else map_prod (map_option Suc) id (find_first eq xs w))"

lemma find_first_Some_less: "find_first eq xs w = (Some i, w') \<Longrightarrow> i < length xs"
proof (induction xs arbitrary: w i)
  case (Cons x xs)
  then show ?case
    by (cases "eq x w"; cases "find_first eq xs (snd (eq x w))") (auto split: if_splits)
qed simp

lemma relink_left:
  assumes "lseg h NULL hp as t pv" and "distinct as"
  shows "lseg (if as = [] then h else h(pv \<mapsto> (the (h pv))\<lparr>el_next := nx\<rparr>)) NULL
           (if as = [] then nx else hp) as nx pv"
proof (cases as rule: rev_cases)
  case Nil
  with assms show ?thesis by simp
next
  case (snoc qs y)
  with assms obtain e where "pv = y" "h y = Some e" by (auto simp: lseg_append)
  with lseg_set_next_last [of h NULL hp qs y t pv e nx] assms snoc show ?thesis by simp
qed

lemma relink_right:
  assumes "lseg h t nx bs NULL tp" and "distinct bs"
  shows "lseg (if bs = [] then h else h(nx \<mapsto> (the (h nx))\<lparr>el_prev := pv\<rparr>)) pv nx bs NULL
           (if bs = [] then pv else tp)"
proof (cases bs)
  case Nil
  with assms show ?thesis by simp
next
  case (Cons b cs)
  with assms obtain e where "nx = b" "h b = Some e" by auto
  with lseg_set_prev_first [of h t nx b cs NULL tp e pv] assms Cons show ?thesis by simp
qed

text \<open>The heap after the neighbours of \<open>t\<close> have been linked to each other and \<open>t\<close> is freed.\<close>

definition unlinked ::
    "ptr list \<Rightarrow> ptr list \<Rightarrow> ptr \<Rightarrow> (ptr \<rightharpoonup> ('a, 'f) list_element) \<Rightarrow> (ptr \<rightharpoonup> ('a, 'f) list_element)" where
  "unlinked as bs t h =
     (let e = the (h t);
          h1 = (if as = [] then h else h(el_prev e \<mapsto> (the (h (el_prev e)))\<lparr>el_next := el_next e\<rparr>));
          h2 = (if bs = [] then h1 else h1(el_next e \<mapsto> (the (h1 (el_next e)))\<lparr>el_prev := el_prev e\<rparr>))
      in h2(t := None))"

lemma unlinked_lseg:
  assumes seg: "lseg h NULL hp (as @ t # bs) NULL tp" and dis: "distinct (as @ t # bs)"
    and e: "h t = Some e"
  shows "lseg (unlinked as bs t h) NULL (if as = [] then el_next e else hp) (as @ bs) NULL
           (if bs = [] then el_prev e else tp)"
proof -
  from seg e have A: "lseg h NULL hp as t (el_prev e)" and B: "lseg h t (el_next e) bs NULL tp"
    by (auto simp: lseg_append)
  have pv: "as \<noteq> [] \<Longrightarrow> el_prev e \<in> set as" and nx: "bs \<noteq> [] \<Longrightarrow> el_next e \<in> set bs"
    using lseg_last [OF A] lseg_first [OF B] by auto
  define h1 where "h1 = (if as = [] then h else h(el_prev e \<mapsto> (the (h (el_prev e)))\<lparr>el_next := el_next e\<rparr>))"
  have A1: "lseg h1 NULL (if as = [] then el_next e else hp) as (el_next e) (el_prev e)"
    unfolding h1_def using relink_left [OF A] dis by simp
  have "lseg h1 t (el_next e) bs NULL tp"
    using B pv dis by (subst lseg_cong [where h = h]) (auto simp: h1_def)
  from relink_right [OF this] dis
  have B1: "lseg (if bs = [] then h1 else h1(el_next e \<mapsto> (the (h1 (el_next e)))\<lparr>el_prev := el_prev e\<rparr>))
      (el_prev e) (el_next e) bs NULL (if bs = [] then el_prev e else tp)" (is "lseg ?h2 _ _ _ _ _") by simp
  have A2: "lseg (?h2(t := None)) NULL (if as = [] then el_next e else hp) as (el_next e) (el_prev e)"
    using A1 nx dis by (subst lseg_cong [where h = h1]) auto
  have B2: "lseg (?h2(t := None)) (el_prev e) (el_next e) bs NULL (if bs = [] then el_prev e else tp)"
    using B1 dis by (subst lseg_cong [where h = ?h2]) auto
  have "unlinked as bs t h = ?h2(t := None)"
    using e by (simp add: unlinked_def h1_def Let_def)
  with A2 B2 show ?thesis unfolding lseg_append by (intro exI conjI) simp_all
qed

lemma unlink_elem_run:
  assumes s: "lists m l = Some s" and dis: "distinct (as @ t # bs)"
    and seg: "lseg (elems m) NULL (p_head s) (as @ t # bs) NULL (p_tail s)"
    and e: "elems m t = Some e"
  shows "unlink_elem l t dn m =
    Some (m\<lparr>elems := unlinked as bs t (elems m),
            lists := (lists m)(l \<mapsto> s\<lparr>p_head := (if as = [] then el_next e else p_head s),
                                        p_tail := (if bs = [] then el_prev e else p_tail s)\<rparr>),
            calls := calls m @ (if dn then dealloc_calls (vals m [t]) else [])\<rparr>)"
proof -
  from seg e have A: "lseg (elems m) NULL (p_head s) as t (el_prev e)"
    and B: "lseg (elems m) t (el_next e) bs NULL (p_tail s)"
    by (auto simp: lseg_append)
  have pv: "if as = [] then el_prev e = NULL else el_prev e \<in> set as \<and> el_prev e \<noteq> NULL"
    using lseg_last [OF A] lseg_nonnull [OF A] by (metis last_in_set)
  have nx: "if bs = [] then el_next e = NULL else el_next e \<in> set bs \<and> el_next e \<noteq> NULL"
    using lseg_first [OF B] lseg_nonnull [OF B] by (metis hd_in_set)
  have live: "as \<noteq> [] \<Longrightarrow> \<exists>x. elems m (el_prev e) = Some x" "bs \<noteq> [] \<Longrightarrow> \<exists>x. elems m (el_next e) = Some x"
    using lseg_live [OF A] lseg_live [OF B] pv nx by auto
  have ne: "as \<noteq> [] \<Longrightarrow> el_prev e \<noteq> t" "bs \<noteq> [] \<Longrightarrow> el_next e \<noteq> t"
    "as \<noteq> [] \<Longrightarrow> bs \<noteq> [] \<Longrightarrow> el_prev e \<noteq> el_next e"
    using pv nx dis by auto
  have dc: "call_dealloc (dealloc_func e) (data_ptr e) m' = m'\<lparr>calls := calls m' @ dealloc_calls (vals m [t])\<rparr>"
    for m' :: "('a, 'b) ll_mem"
    using e by (cases "dealloc_func e") (simp_all add: call_dealloc_def)
  show ?thesis
    using s e pv nx live ne
    by (cases "as = []"; cases "bs = []"; cases dn)
      (auto simp: unlink_elem_def unlinked_def dc set_head_def set_tail_def set_next_def set_prev_def
        free_elem_def Let_def map_upd_id intro!: ll_mem.equality)
qed


lemma unlinked_frame:
  assumes "lseg h NULL hp (as @ t # bs) NULL tp" and "distinct (as @ t # bs)" and "h t = Some e"
  shows "p \<notin> set (as @ t # bs) \<Longrightarrow> unlinked as bs t h p = h p"
    and "unlinked as bs t h t = None"
    and "p \<in> set (as @ bs) \<Longrightarrow> \<exists>x y. h p = Some x \<and> unlinked as bs t h p = Some y
           \<and> data_ptr y = data_ptr x \<and> dealloc_func y = dealloc_func x"
proof -
  from assms have A: "lseg h NULL hp as t (el_prev e)" and B: "lseg h t (el_next e) bs NULL tp"
    by (auto simp: lseg_append)
  have pv: "as \<noteq> [] \<Longrightarrow> el_prev e \<in> set as" and nx: "bs \<noteq> [] \<Longrightarrow> el_next e \<in> set bs"
    using lseg_last [OF A] lseg_first [OF B] by auto
  show "unlinked as bs t h t = None" by (simp add: unlinked_def Let_def)
  show "unlinked as bs t h p = h p" if "p \<notin> set (as @ t # bs)"
    using that pv nx assms(3) by (auto simp: unlinked_def Let_def)
  show "\<exists>x y. h p = Some x \<and> unlinked as bs t h p = Some y
           \<and> data_ptr y = data_ptr x \<and> dealloc_func y = dealloc_func x" if p: "p \<in> set (as @ bs)"
  proof -
    obtain x where "h p = Some x" using p lseg_live [OF A] lseg_live [OF B] by auto
    moreover have "p \<noteq> t" using p assms(2) by auto
    ultimately show ?thesis using assms(3) by (auto simp: unlinked_def Let_def)
  qed
qed

lemma unlink_elem_refines:
  assumes N: "mem_inv m N" "\<sigma> = ll_abs m N" "N l = Some (as @ t # bs)"
  shows "\<exists>m'. unlink_elem l t dn m = Some m' \<and> ll_rel m' (\<sigma>(l \<mapsto> vals m (as @ bs)))
     \<and> calls m' = calls m @ (if dn then dealloc_calls (vals m [t]) else [])"
proof -
  obtain s where s: "lists m l = Some s" and dis: "distinct (as @ t # bs)"
    and seg: "lseg (elems m) NULL (p_head s) (as @ t # bs) NULL (p_tail s)"
    by (rule mem_invD [OF N(1,3)])
  from seg obtain e where e: "elems m t = Some e" by (auto simp: lseg_append)
  note frame = unlinked_frame [OF seg dis e]
  let ?s = "s\<lparr>p_head := (if as = [] then el_next e else p_head s),
             p_tail := (if bs = [] then el_prev e else p_tail s)\<rparr>"
  let ?m = "m\<lparr>elems := unlinked as bs t (elems m), lists := (lists m)(l \<mapsto> ?s),
             calls := calls m @ (if dn then dealloc_calls (vals m [t]) else [])\<rparr>"
  have v: "vals m (as @ bs) = vals ?m (as @ bs)"
    unfolding vals_def using frame(3) by (intro map_cong refl) force
  have "ll_rel ?m (\<sigma>(l \<mapsto> vals m (as @ bs)))"
    using unlinked_lseg [OF seg dis e] dis frame(1,2) v
    by (intro ll_rel_updI [OF N, where ps' = "as @ bs" and s' = ?s]) (simp_all, auto)
  then show ?thesis
    using unlink_elem_run [OF s dis seg e] by simp
qed

lemma search_loop_run:
  assumes "lseg (elems m) prv p ps NULL t"
  shows "search_loop l dn eq rm p w m =
    (case find_first eq (map (\<lambda>p. data_ptr (the (elems m p))) ps) w of
       (None, w') \<Rightarrow> Some (None, w', m)
     | (Some i, w') \<Rightarrow> do {
         m' \<leftarrow> (if rm then unlink_elem l (ps ! i) dn m else Some m);
         Some (Some (data_ptr (the (elems m (ps ! i)))), w', m') })"
  using assms
proof (induction ps arbitrary: prv p w)
  case Nil
  then show ?case by (subst search_loop.simps) simp
next
  case (Cons a as)
  then obtain e where e: "p = a" "a \<noteq> NULL" "elems m a = Some e" "lseg (elems m) a (el_next e) as NULL t"
    by auto
  obtain b w1 where eq: "eq (data_ptr e) w = (b, w1)" by (cases "eq (data_ptr e) w")
  obtain r w2 where r: "find_first eq (map (\<lambda>p. data_ptr (the (elems m p))) as) w1 = (r, w2)"
    by (cases "find_first eq (map (\<lambda>p. data_ptr (the (elems m p))) as) w1")
  show ?case
    using e eq r Cons.IH [OF e(4), of w1]
    by (subst search_loop.simps) (cases b; cases r; simp)
qed

definition remove_nth :: "nat \<Rightarrow> 'a list \<Rightarrow> 'a list" where
  "remove_nth i xs = take i xs @ drop (Suc i) xs"

lemma linked_list_search_refines:
  assumes rel: "ll_rel m \<sigma>" and l: "\<sigma> l = Some xs" and ne: "xs \<noteq> []"
    and ff: "find_first eq (map fst xs) w = (r, w')"
  shows "\<exists>m'. linked_list_search l dn (Some eq) rm w m =
             Some (eLINKED_LIST_SUCCESS, (if dn then None else Some (map_option (\<lambda>i. fst (xs ! i)) r)), w', m')
          \<and> ll_rel m' (\<sigma>(l \<mapsto> (case r of Some i \<Rightarrow> if rm then remove_nth i xs else xs | None \<Rightarrow> xs)))
          \<and> calls m' = calls m @ (case r of Some i \<Rightarrow> if rm \<and> dn then dealloc_calls [xs ! i] else [] | None \<Rightarrow> [])"
proof -
  obtain N ps s where N: "mem_inv m N" "\<sigma> = ll_abs m N" "N l = Some ps" and xs: "xs = vals m ps"
    and s: "lists m l = Some s"
    and seg: "lseg (elems m) NULL (p_head s) ps NULL (p_tail s)" and l0: "0 < l"
    by (rule ll_relE [OF rel l])
  from ne xs have "ps \<noteq> []" by (auto simp: vals_def)
  then have tl: "p_tail s \<noteq> NULL"
    using lseg_last [OF seg] lseg_nonnull [OF seg] by (metis last_in_set)
  have fsts: "map fst xs = map (\<lambda>p. data_ptr (the (elems m p))) ps" by (simp add: xs vals_def)
  have same: "\<sigma>(l \<mapsto> xs) = \<sigma>" using l by (rule map_upd_id)
  note run = search_loop_run [OF seg, of l dn eq rm w, folded fsts, unfolded ff]
  show ?thesis
  proof (cases r)
    case None
    then show ?thesis
      using s tl l0 run rel same by (simp add: linked_list_search_def)
  next
    case (Some i)
    with find_first_Some_less [of eq "map fst xs" w i w'] ff have i: "i < length ps"
      by (simp add: xs vals_def)
    then have ps: "ps = take i ps @ ps ! i # drop (Suc i) ps" by (rule id_take_nth_drop)
    have vi: "fst (xs ! i) = data_ptr (the (elems m (ps ! i)))" "[xs ! i] = vals m [ps ! i]"
      "remove_nth i xs = vals m (take i ps @ drop (Suc i) ps)"
      using i by (simp_all add: xs vals_def remove_nth_def take_map drop_map)
    obtain m' where "unlink_elem l (ps ! i) dn m = Some m'"
      "ll_rel m' (\<sigma>(l \<mapsto> remove_nth i xs))" "calls m' = calls m @ (if dn then dealloc_calls [xs ! i] else [])"
      using unlink_elem_refines [OF N(1,2), of l "take i ps" "ps ! i" "drop (Suc i) ps" dn] N(3) ps vi by auto
    then show ?thesis
      using s tl l0 run rel same Some vi by (cases rm) (auto simp: linked_list_search_def)
  qed
qed

text \<open>Creating and destroying a list.\<close>

definition empty_mem :: "('a, 'f) ll_mem" where
  "empty_mem = \<lparr>elems = Map.empty, lists = Map.empty, brk = 1, calls = []\<rparr>"

lemma ll_rel_empty_mem: "ll_rel empty_mem Map.empty"
  unfolding ll_rel_def by (intro exI[of _ Map.empty]) (auto simp: mem_inv_def empty_mem_def ll_abs_def)

lemma vals_same_elems: "elems m' = elems m \<Longrightarrow> vals m' = vals m"
  by (rule ext) (simp add: vals_def)

lemma mem_inv_parts:
  assumes "mem_inv m N"
  shows "dom N = dom (lists m)"
    and "\<And>l ps s. N l = Some ps \<Longrightarrow> lists m l = Some s \<Longrightarrow>
        distinct ps \<and> lseg (elems m) NULL (p_head s) ps NULL (p_tail s)"
    and "\<And>l l' ps ps'. N l = Some ps \<Longrightarrow> N l' = Some ps' \<Longrightarrow> l \<noteq> l' \<Longrightarrow> set ps \<inter> set ps' = {}"
    and "\<And>p. (\<exists>e. elems m p = Some e) \<longleftrightarrow> (\<exists>l ps. N l = Some ps \<and> p \<in> set ps)"
    and "\<And>p. elems m p \<noteq> None \<or> lists m p \<noteq> None \<Longrightarrow> 0 < p \<and> p < brk m"
    and "0 < brk m"
  using assms unfolding mem_inv_def by blast+

text \<open>Lists without elements may come and go: only the map of handles changes.\<close>

lemma mem_inv_empty_list:
  assumes inv: "mem_inv m N" and Nl: "N l = None \<or> N l = Some []" and x: "x = None \<or> x = Some []"
    and L: "lists m' = (lists m)(l := map_option (\<lambda>_. \<lparr>p_head = NULL, p_tail = NULL\<rparr>) x)"
    and E: "elems m' = elems m" and B: "brk m \<le> brk m'" and l: "x \<noteq> None \<Longrightarrow> 0 < l \<and> l < brk m'"
  shows "mem_inv m' (N(l := x))" and "ll_abs m' (N(l := x)) = (ll_abs m N)(l := map_option (\<lambda>_. []) x)"
proof -
  note p = mem_inv_parts [OF inv]
  have mem: "(\<exists>k ps. (N(l := x)) k = Some ps \<and> q \<in> set ps) \<longleftrightarrow> (\<exists>k ps. N k = Some ps \<and> q \<in> set ps)" for q
    using Nl x by (metis fun_upd_apply list.set(1) empty_iff option.distinct(1) option.inject)
  have part: "N k = Some ps \<or> ps = []" if "(N(l := x)) k = Some ps" for k ps
    using that x by (cases "k = l") auto
  show "mem_inv m' (N(l := x))"
    unfolding mem_inv_def
  proof (intro conjI allI impI)
    show "dom (N(l := x)) = dom (lists m')" using p(1) L x by auto
    fix k ps s assume k: "(N(l := x)) k = Some ps" "lists m' k = Some s"
    show "distinct ps" "lseg (elems m') NULL (p_head s) ps NULL (p_tail s)"
      using k p(2) [of k ps s] x L E by (auto split: if_splits)
  next
    fix k k' ps ps' assume "(N(l := x)) k = Some ps" "(N(l := x)) k' = Some ps'" "k \<noteq> k'"
    then show "set ps \<inter> set ps' = {}" using part p(3) by (metis inf_bot_left inf_bot_right list.set(1))
  next
    fix q show "(\<exists>e. elems m' q = Some e) = (\<exists>k ps. (N(l := x)) k = Some ps \<and> q \<in> set ps)"
      using mem p(4) E by simp
  next
    fix q assume "elems m' q \<noteq> None \<or> lists m' q \<noteq> None"
    then have "(elems m q \<noteq> None \<or> lists m q \<noteq> None) \<or> (q = l \<and> x \<noteq> None)"
      using L E by (auto split: if_splits)
    then show "0 < q" "q < brk m'" using p(5) [of q] B l by auto
  next
    show "0 < brk m'" using p(6) B by simp
  qed
  show "ll_abs m' (N(l := x)) = (ll_abs m N)(l := map_option (\<lambda>_. []) x)"
    using x by (auto simp: ll_abs_def vals_same_elems [OF E] fun_eq_iff)
qed

lemma linked_list_init_refines:
  assumes rel: "ll_rel m \<sigma>"
  shows "\<exists>l m'. linked_list_init True (Some old) m = (eLINKED_LIST_SUCCESS, Some l, m')
      \<and> l \<noteq> NULL \<and> \<sigma> l = None \<and> ll_rel m' (\<sigma>(l \<mapsto> [])) \<and> calls m' = calls m"
proof -
  obtain N where N: "mem_inv m N" "\<sigma> = ll_abs m N" using rel by (auto simp: ll_rel_def)
  note fresh = mem_inv_fresh [OF N(1)]
  let ?m = "m\<lparr>lists := (lists m)(brk m \<mapsto> \<lparr>p_head = NULL, p_tail = NULL\<rparr>), brk := Suc (brk m)\<rparr>"
  have nb: "N (brk m) = None" using mem_inv_parts(1) [OF N(1)] fresh(2) by (metis domIff)
  have "mem_inv ?m (N(brk m := Some []))" "ll_abs ?m (N(brk m := Some [])) = (ll_abs m N)(brk m := Some [])"
    using mem_inv_empty_list [OF N(1), of "brk m" "Some []" ?m] fresh nb by simp_all
  then have "ll_rel ?m (\<sigma>(brk m \<mapsto> []))" unfolding N(2) by (metis ll_rel_def)
  then show ?thesis
    using fresh(3) nb by (simp add: linked_list_init_def N(2) ll_abs_def)
qed

lemma ll_rel_free_list:
  assumes rel: "ll_rel m \<sigma>" and l: "\<sigma> l = Some []"
  shows "ll_rel (m\<lparr>lists := (lists m)(l := None)\<rparr>) (\<sigma>(l := None))"
proof -
  obtain N where N: "mem_inv m N" "\<sigma> = ll_abs m N" using rel by (auto simp: ll_rel_def)
  with l have Nl: "N l = Some []" by (auto simp: ll_abs_def vals_def)
  let ?m = "m\<lparr>lists := (lists m)(l := None)\<rparr>"
  have "mem_inv ?m (N(l := None))" "ll_abs ?m (N(l := None)) = (ll_abs m N)(l := None)"
    using mem_inv_empty_list [OF N(1), of l None ?m] Nl by simp_all
  then show ?thesis unfolding N(2) by (metis ll_rel_def)
qed

lemma linked_list_destroy_refines:
  assumes rel: "ll_rel m \<sigma>" and l: "\<sigma> l = Some xs"
  shows "\<exists>m'. linked_list_destroy (Some l) m = Some (eLINKED_LIST_SUCCESS, Some NULL, m')
      \<and> ll_rel m' (\<sigma>(l := None)) \<and> calls m' = calls m @ dealloc_calls xs"
proof -
  obtain m1 where m1: "linked_list_flush l m = Some (eLINKED_LIST_SUCCESS, m1)"
    "ll_rel m1 (\<sigma>(l \<mapsto> []))" "calls m1 = calls m @ dealloc_calls xs"
    using linked_list_flush_refines [OF rel l] by blast
  from m1(2) obtain s where "lists m1 l = Some s" "0 < l" by (elim ll_relE [of m1 _ l "[]"]) auto
  with m1 ll_rel_free_list [OF m1(2), of l] show ?thesis
    by (simp add: linked_list_destroy_def)
qed

lemma ll_rel_no_leak:
  assumes "ll_rel m Map.empty"
  shows "elems m = Map.empty" and "lists m = Map.empty"
proof -
  obtain N where N: "mem_inv m N" "Map.empty = ll_abs m N" using assms by (auto simp: ll_rel_def)
  have "N = Map.empty"
  proof
    fix k from fun_cong [OF N(2), of k] show "N k = None" by (cases "N k") (auto simp: ll_abs_def)
  qed
  with N(1) have "\<forall>p. \<not> (\<exists>e. elems m p = Some e)" and "dom (lists m) = {}" by (simp_all add: mem_inv_def)
  then show "elems m = Map.empty" and "lists m = Map.empty" by (auto simp: fun_eq_iff)
qed

section \<open>The interface of the list\<close>

text \<open>
  What a client of the list relies on, for any implementation of the operations: adding at one end,
  taking out at the other, flushing. \<open>add_all\<close> and \<open>take_out\<close> are a client's loops over them.
\<close>

fun add_all ::
    "('d \<Rightarrow> 'm \<Rightarrow> (linked_list_err_type \<times> 'm) option) \<Rightarrow> 'd list \<Rightarrow> 'm \<Rightarrow> 'm option" where
  "add_all add [] m = Some m"
| "add_all add (d # ds) m =
     do { (err, m) \<leftarrow> add d m; if err = eLINKED_LIST_SUCCESS then add_all add ds m else None }"

fun take_out ::
    "('m \<Rightarrow> (linked_list_err_type \<times> 'd option \<times> 'm) option) \<Rightarrow> nat \<Rightarrow> 'm \<Rightarrow> ('d list \<times> 'm) option" where
  "take_out rem 0 m = Some ([], m)"
| "take_out rem (Suc n) m = do {
     (err, d, m) \<leftarrow> rem m;
     if err = eLINKED_LIST_SUCCESS then do { (ds, m) \<leftarrow> take_out rem n m; Some (the d # ds, m) } else None
   }"

locale list_store =
  fixes rel :: "'m \<Rightarrow> (ptr \<rightharpoonup> ('a \<times> 'f option) list) \<Rightarrow> bool"
    and log :: "'m \<Rightarrow> ('f \<times> 'a) list"
    and add :: "bool \<Rightarrow> ptr \<Rightarrow> 'a option \<Rightarrow> 'f option \<Rightarrow> 'm \<Rightarrow> (linked_list_err_type \<times> 'm) option"
    and rem :: "ptr \<Rightarrow> bool \<Rightarrow> 'm \<Rightarrow> (linked_list_err_type \<times> 'a option \<times> 'm) option"
    and is_empty :: "ptr \<Rightarrow> 'm \<Rightarrow> int option"
    and flush :: "ptr \<Rightarrow> 'm \<Rightarrow> (linked_list_err_type \<times> 'm) option"
  assumes add_law: "rel m \<sigma> \<Longrightarrow> \<sigma> l = Some xs \<Longrightarrow>
      \<exists>m'. add True l (Some d) f m = Some (eLINKED_LIST_SUCCESS, m')
         \<and> rel m' (\<sigma>(l \<mapsto> (d, f) # xs)) \<and> log m' = log m"
    and rem_law: "rel m \<sigma> \<Longrightarrow> \<sigma> l = Some (xs @ [(d, f)]) \<Longrightarrow>
      \<exists>m'. rem l False m = Some (eLINKED_LIST_SUCCESS, Some d, m')
         \<and> rel m' (\<sigma>(l \<mapsto> xs)) \<and> log m' = log m"
    and rem_nil: "rel m \<sigma> \<Longrightarrow> \<sigma> l = Some [] \<Longrightarrow>
      rem l False m = Some (eLINKED_LIST_UNAVAILABLE_RESOURCE, None, m)"
    and empty_law: "rel m \<sigma> \<Longrightarrow> \<sigma> l = Some xs \<Longrightarrow> is_empty l m = Some (if xs = [] then 1 else 0)"
    and flush_law: "rel m \<sigma> \<Longrightarrow> \<sigma> l = Some xs \<Longrightarrow>
      \<exists>m'. flush l m = Some (eLINKED_LIST_SUCCESS, m')
         \<and> rel m' (\<sigma>(l \<mapsto> [])) \<and> log m' = log m @ dealloc_calls xs"
begin

lemma add_all_run:
  assumes "rel m \<sigma>" and "\<sigma> l = Some xs"
  shows "\<exists>m'. add_all (\<lambda>d. add True l (Some d) f) ds m = Some m'
    \<and> rel m' (\<sigma>(l \<mapsto> rev (map (\<lambda>d. (d, f)) ds) @ xs)) \<and> log m' = log m"
  using assms
proof (induction ds arbitrary: m \<sigma> xs)
  case Nil
  then show ?case by (simp add: map_upd_id)
next
  case (Cons d ds)
  obtain m1 where m1: "add True l (Some d) f m = Some (eLINKED_LIST_SUCCESS, m1)"
    "rel m1 (\<sigma>(l \<mapsto> (d, f) # xs))" "log m1 = log m"
    using add_law [OF Cons.prems] by blast
  with Cons.IH [OF m1(2), of "(d, f) # xs", unfolded fun_upd_upd] show ?case by simp
qed

lemma take_out_run:
  assumes "rel m \<sigma>" and "\<sigma> l = Some (xs @ rev (map (\<lambda>d. (d, f)) ds))"
  shows "\<exists>m'. take_out (rem l False) (length ds) m = Some (ds, m') \<and> rel m' (\<sigma>(l \<mapsto> xs)) \<and> log m' = log m"
  using assms
proof (induction ds arbitrary: m \<sigma>)
  case Nil
  then show ?case by (simp add: map_upd_id)
next
  case (Cons d ds)
  obtain m1 where m1: "rem l False m = Some (eLINKED_LIST_SUCCESS, Some d, m1)"
    "rel m1 (\<sigma>(l \<mapsto> xs @ rev (map (\<lambda>d. (d, f)) ds)))" "log m1 = log m"
    using rem_law [OF Cons.prems(1), of l "xs @ rev (map (\<lambda>d. (d, f)) ds)" d f] Cons.prems(2) by auto
  with Cons.IH [OF m1(2), unfolded fun_upd_upd] show ?case by auto
qed

lemma round_trip:
  assumes "rel m \<sigma>" and "\<sigma> l = Some []"
  shows "\<exists>m1 m2. add_all (\<lambda>d. add True l (Some d) f) ds m = Some m1
    \<and> take_out (rem l False) (length ds) m1 = Some (ds, m2) \<and> rel m2 \<sigma> \<and> log m2 = log m"
proof -
  obtain m1 where m1: "add_all (\<lambda>d. add True l (Some d) f) ds m = Some m1"
    "rel m1 (\<sigma>(l \<mapsto> rev (map (\<lambda>d. (d, f)) ds)))" "log m1 = log m"
    using add_all_run [OF assms] by auto
  then obtain m2 where "take_out (rem l False) (length ds) m1 = Some (ds, m2)"
    "rel m2 (\<sigma>(l \<mapsto> []))" "log m2 = log m1"
    using take_out_run [OF m1(2), of l "[]" f ds] by auto
  with m1 assms(2) show ?thesis by (simp add: map_upd_id)
qed

end

interpretation ll: list_store ll_rel calls linked_list_add linked_list_remove linked_list_empty linked_list_flush
  by unfold_locales
    (auto intro: linked_list_add_refines linked_list_remove_refines linked_list_remove_empty
      linked_list_flush_refines simp: linked_list_empty_refines)

section \<open>Searching clients\<close>

text \<open>
  The search as clients see it: on a HOL list, with the position of the hit, the list that is left
  and the world after the comparisons. \<open>list_drain\<close> searches and removes until nothing is found;
  \<open>drain_loop\<close> is the same loop over an implementation of the search, handing \<open>NULL\<close> to it as the
  initial value of the out-parameter each time.
\<close>

definition list_search ::
    "('a \<Rightarrow> 'w \<Rightarrow> bool \<times> 'w) \<Rightarrow> bool \<Rightarrow> 'a list \<Rightarrow> 'w \<Rightarrow> nat option \<times> 'a list \<times> 'w" where
  "list_search eq rm xs w =
     (case find_first eq xs w of (r, w) \<Rightarrow>
        (r, (case r of Some i \<Rightarrow> if rm then remove_nth i xs else xs | None \<Rightarrow> xs), w))"

lemma length_list_search:
  "list_search eq True xs w = (Some i, xs', w') \<Longrightarrow> length xs' < length xs"
  by (auto simp: list_search_def remove_nth_def split: prod.splits dest!: find_first_Some_less)

function list_drain :: "('a \<Rightarrow> 'w \<Rightarrow> bool \<times> 'w) \<Rightarrow> 'a list \<Rightarrow> 'w \<Rightarrow> 'a list \<times> 'w" where
  "list_drain eq xs w =
     (case list_search eq True xs w of
        (None, xs, w) \<Rightarrow> (xs, w)
      | (Some i, xs, w) \<Rightarrow> list_drain eq xs w)"
  by pat_completeness auto
termination
  by (relation "measure (\<lambda>(_, xs, _). length xs)") (auto dest: length_list_search [OF sym])

declare list_drain.simps [simp del]

partial_function (option) drain_loop ::
    "('w \<Rightarrow> 'm \<Rightarrow> (linked_list_err_type \<times> 'a option option \<times> 'w \<times> 'm) option) \<Rightarrow> 'w \<Rightarrow> 'm \<Rightarrow> ('w \<times> 'm) option" where
  "drain_loop search w m = do {
     (_, s, w, m) \<leftarrow> search w m;
     (case s of Some (Some _) \<Rightarrow> drain_loop search w m | _ \<Rightarrow> Some (w, m))
   }"

lemma find_first_map: "find_first eq (map f xs) w = find_first (eq \<circ> f) xs w"
  by (induction xs arbitrary: w) (auto split: prod.split)

lemma list_search_map:
  "list_search eq rm (map f xs) w =
     (case list_search (eq \<circ> f) rm xs w of (r, ys, w) \<Rightarrow> (r, map f ys, w))"
  by (auto simp: list_search_def find_first_map remove_nth_def take_map drop_map
      split: prod.split option.split)

lemma list_drain_map:
  "list_drain eq (map f xs) w = (case list_drain (eq \<circ> f) xs w of (ys, w) \<Rightarrow> (map f ys, w))"
proof (induction "eq \<circ> f" xs w rule: list_drain.induct)
  case (1 xs w)
  obtain r ys w' where "list_search (eq \<circ> f) True xs w = (r, ys, w')" by (metis prod_cases3)
  with 1 show ?case
    by (subst (1 2) list_drain.simps) (cases r; simp add: list_search_map)
qed

text \<open>
  A comparison that hits at most where \<open>P\<close> holds and, where it does not, has no effect, drains
  the list of its hits: each is looked at with effect once, in the order of the list.
\<close>

lemma list_drain_filter:
  assumes hit: "\<And>x w. P x \<Longrightarrow> eq x w = (True, f x w)" and miss: "\<And>x w. \<not> P x \<Longrightarrow> eq x w = (False, w)"
  shows "list_drain eq xs w = (filter (\<lambda>x. \<not> P x) xs, fold f (filter P xs) w)"
proof -
  have skip: "find_first eq (ys @ zs) w = map_prod (map_option ((+) (length ys))) id (find_first eq zs w)"
    if "\<forall>y \<in> set ys. \<not> P y" for ys zs w
  proof -
    obtain r w' where "find_first eq zs w = (r, w')" by force
    then show ?thesis using that by (induction ys) (cases r; auto simp: miss)+
  qed
  have "list_drain eq (ys @ xs) w = (ys @ filter (\<lambda>x. \<not> P x) xs, fold f (filter P xs) w)"
    if "\<forall>y \<in> set ys. \<not> P y" for ys
    using that
  proof (induction xs arbitrary: ys w)
    case Nil
    then show ?case using skip [of ys "[]" w] by (subst list_drain.simps) (simp add: list_search_def)
  next
    case (Cons x xs)
    show ?case
    proof (cases "P x")
      case True
      then have "list_search eq True (ys @ x # xs) w = (Some (length ys), ys @ xs, f x w)"
        using skip [OF Cons.prems, of "x # xs" w] by (simp add: list_search_def hit remove_nth_def)
      with Cons True show ?thesis by (subst list_drain.simps) simp
    next
      case False
      with Cons.IH [of "ys @ [x]" w] Cons.prems show ?thesis by auto
    qed
  qed
  from this [of "[]"] show ?thesis by simp
qed

locale searchable =
  fixes rel :: "'m \<Rightarrow> (ptr \<rightharpoonup> ('a \<times> 'f option) list) \<Rightarrow> bool"
    and search :: "ptr \<Rightarrow> bool \<Rightarrow> ('a \<Rightarrow> 'w \<Rightarrow> bool \<times> 'w) option \<Rightarrow> bool \<Rightarrow> 'w \<Rightarrow> 'm
       \<Rightarrow> (linked_list_err_type \<times> 'a option option \<times> 'w \<times> 'm) option"
  assumes search_law: "rel m \<sigma> \<Longrightarrow> \<sigma> l = Some xs \<Longrightarrow> list_search (eq \<circ> fst) rm xs w = (r, ys, w') \<Longrightarrow>
      \<exists>err d m'. search l dn (Some eq) rm w m = Some (err, d, w', m') \<and> rel m' (\<sigma>(l \<mapsto> ys))
        \<and> (\<not> dn \<longrightarrow> (case d of Some (Some x) \<Rightarrow> (\<exists>i. r = Some i \<and> x = fst (xs ! i)) | _ \<Rightarrow> r = None))"
begin

lemma drain_run:
  assumes "rel m \<sigma>" and "\<sigma> l = Some xs" and "list_drain (eq \<circ> fst) xs w = (ys, w')"
  shows "\<exists>m'. drain_loop (search l False (Some eq) True) w m = Some (w', m') \<and> rel m' (\<sigma>(l \<mapsto> ys))"
  using assms
proof (induction "length xs" arbitrary: xs w m \<sigma> rule: less_induct)
  case less
  obtain r zs w1 where s: "list_search (eq \<circ> fst) True xs w = (r, zs, w1)" by (metis prod_cases3)
  from search_law [OF less.prems(1,2) s, of False] obtain err d m1 where
    m1: "search l False (Some eq) True w m = Some (err, d, w1, m1)" "rel m1 (\<sigma>(l \<mapsto> zs))"
      "case d of Some (Some x) \<Rightarrow> (\<exists>i. r = Some i \<and> x = fst (xs ! i)) | _ \<Rightarrow> r = None" by auto
  show ?case
  proof (cases r)
    case None
    with less.prems(3) s have "ys = zs" "w' = w1" by (simp_all add: list_drain.simps [of _ xs])
    with None m1 show ?thesis
      by (subst drain_loop.simps) (auto split: option.splits)
  next
    case (Some i)
    with less.prems(3) s have "list_drain (eq \<circ> fst) zs w1 = (ys, w')" by (simp add: list_drain.simps [of _ xs])
    moreover from s Some have "length zs < length xs" by (auto dest: length_list_search)
    ultimately have "\<exists>m'. drain_loop (search l False (Some eq) True) w1 m1 = Some (w', m')
        \<and> rel m' (\<sigma>(l \<mapsto> zs, l \<mapsto> ys))"
      using less.hyps [OF _ m1(2), of zs] by simp
    moreover from Some m1(3) obtain x where "d = Some (Some x)" by (auto split: option.splits)
    ultimately show ?thesis using m1(1) by (subst drain_loop.simps) simp
  qed
qed

end

interpretation ls: searchable ll_rel linked_list_search
proof
  fix m :: "('a, 'b) ll_mem" and \<sigma> l xs eq rm and w :: 'c and r ys w' dn
  assume rel: "ll_rel m \<sigma>" "\<sigma> l = Some xs" and s: "list_search (eq \<circ> fst) rm xs w = (r, ys, w')"
  then have ff: "find_first eq (map fst xs) w = (r, w')"
    and ys: "ys = (case r of Some i \<Rightarrow> if rm then remove_nth i xs else xs | None \<Rightarrow> xs)"
    by (auto simp: list_search_def find_first_map split: prod.splits)
  show "\<exists>err d m'. linked_list_search l dn (Some eq) rm w m = Some (err, d, w', m') \<and> ll_rel m' (\<sigma>(l \<mapsto> ys))
      \<and> (\<not> dn \<longrightarrow> (case d of Some (Some x) \<Rightarrow> (\<exists>i. r = Some i \<and> x = fst (xs ! i)) | _ \<Rightarrow> r = None))"
  proof (cases "xs = []")
    case True
    with ff ys have r: "r = None" "w' = w" "ys = []" by auto
    have "linked_list_search l dn (Some eq) rm w m = Some (eLINKED_LIST_UNAVAILABLE_RESOURCE, None, w, m)"
      using rel
    proof (rule ll_relE)
      fix N ps s assume "xs = vals m ps" "lists m l = Some s" "0 < l"
        "lseg (elems m) NULL (p_head s) ps NULL (p_tail s)"
      with True show ?thesis by (auto simp: vals_def linked_list_search_def)
    qed
    with r True rel show ?thesis by (auto simp: map_upd_id)
  next
    case False
    from linked_list_search_refines [OF rel False ff, of dn rm] obtain m' where
      "linked_list_search l dn (Some eq) rm w m =
         Some (eLINKED_LIST_SUCCESS, (if dn then None else Some (map_option (\<lambda>i. fst (xs ! i)) r)), w', m')"
      "ll_rel m' (\<sigma>(l \<mapsto> ys))" using ys by blast
    then show ?thesis by (intro exI conjI) (auto split: option.split)
  qed
qed

section \<open>Correctness of the list functions, every branch\<close>

text \<open>\<open>linked_list_add\<close> on a live list never faults. It refuses a \<open>NULL\<close> data pointer,
  reports a failed allocation, and otherwise makes the data the new first element; lists other
  than the one named keep their contents and no deallocation function runs.\<close>
theorem linked_list_add_correct:
  assumes "ll_rel m \<sigma>" and "\<sigma> l = Some xs"
  shows "\<exists>err m'. linked_list_add ok l d f m = Some (err, m') \<and> calls m' = calls m \<and>
    (case d of
       None \<Rightarrow> err = eLINKED_LIST_INVALID_PARAMETER \<and> m' = m
     | Some x \<Rightarrow> if ok then err = eLINKED_LIST_SUCCESS \<and> ll_rel m' (\<sigma>(l \<mapsto> (x, f) # xs))
                else err = eLINKED_LIST_FAILURE_GENERAL \<and> m' = m)"
proof -
  from assms have "0 < l" by (rule ll_relE)
  moreover obtain m' where "linked_list_add True l (Some (the d)) f m = Some (eLINKED_LIST_SUCCESS, m')"
    "ll_rel m' (\<sigma>(l \<mapsto> (the d, f) # xs))" "calls m' = calls m"
    using linked_list_add_refines [OF assms] by blast
  ultimately show ?thesis
    by (cases d; cases ok) (auto simp: linked_list_add_def [of False] linked_list_add_def [of _ _ None])
qed

text \<open>\<open>linked_list_remove\<close> on a live list takes out the last element, which is the one
  added first, and frees it; on the empty list it reports an unavailable resource and changes nothing.\<close>
theorem linked_list_remove_correct:
  assumes "ll_rel m \<sigma>" and "\<sigma> l = Some xs"
  shows "if xs = [] then linked_list_remove l False m = Some (eLINKED_LIST_UNAVAILABLE_RESOURCE, None, m)
    else \<exists>m'. linked_list_remove l False m = Some (eLINKED_LIST_SUCCESS, Some (fst (last xs)), m')
           \<and> ll_rel m' (\<sigma>(l \<mapsto> butlast xs)) \<and> calls m' = calls m"
proof (cases xs rule: rev_cases)
  case Nil
  then show ?thesis using linked_list_remove_empty assms by simp
next
  case (snoc ys y)
  then show ?thesis using linked_list_remove_refines [OF assms(1), of l ys "fst y" "snd y"] assms(2) by simp
qed

text \<open>C39: destroying the last live list runs the deallocation function of every element that has
  one, once and from the head on, stores \<open>NULL\<close> in the handle, and leaves no list element and no list
  allocated.\<close>
theorem linked_list_destroy_no_leak:
  assumes "ll_rel m [l \<mapsto> xs]"
  shows "\<exists>m'. linked_list_destroy (Some l) m = Some (eLINKED_LIST_SUCCESS, Some NULL, m')
    \<and> elems m' = Map.empty \<and> lists m' = Map.empty \<and> calls m' = calls m @ dealloc_calls xs"
proof -
  obtain m' where m': "linked_list_destroy (Some l) m = Some (eLINKED_LIST_SUCCESS, Some NULL, m')"
    "ll_rel m' ([l \<mapsto> xs](l := None))" "calls m' = calls m @ dealloc_calls xs"
    using linked_list_destroy_refines [OF assms, of l xs] by auto
  then have "ll_rel m' Map.empty" by simp
  with ll_rel_no_leak m' show ?thesis by blast
qed

text \<open>\<open>linked_list_search\<close> on a live non-empty list visits the elements from the head, calls
  the comparison on each until the first hit and on nothing behind it, hands the hit out, and with
  \<open>rm_if_found\<close> unlinks and frees exactly that element, running its deallocation function only
  if the data is not handed out; all pointers stay consistent.\<close>
theorem linked_list_search_correct:
  assumes "ll_rel m \<sigma>" and "\<sigma> l = Some xs" and "xs \<noteq> []"
  shows "case find_first eq (map fst xs) w of (r, w') \<Rightarrow>
    \<exists>m'. linked_list_search l dn (Some eq) rm w m =
           Some (eLINKED_LIST_SUCCESS, (if dn then None else Some (map_option (\<lambda>i. fst (xs ! i)) r)), w', m')
       \<and> ll_rel m' (\<sigma>(l \<mapsto> (case r of Some i \<Rightarrow> if rm then remove_nth i xs else xs | None \<Rightarrow> xs)))
       \<and> calls m' = calls m @ (case r of Some i \<Rightarrow> if rm \<and> dn then dealloc_calls [xs ! i] else [] | None \<Rightarrow> [])"
proof -
  obtain r w' where "find_first eq (map fst xs) w = (r, w')" by force
  from linked_list_search_refines [OF assms this, of dn rm] this show ?thesis by simp
qed

text \<open>A memory with one list that holds the elements 7 (deallocated by function 9) and 8.\<close>

definition example_mem :: "(nat, nat) ll_mem" where
  "example_mem = \<lparr>elems = [2 \<mapsto> \<lparr>el_next = 3, el_prev = NULL, data_ptr = 7, dealloc_func = Some 9\<rparr>,
                          3 \<mapsto> \<lparr>el_next = NULL, el_prev = 2, data_ptr = 8, dealloc_func = None\<rparr>],
                  lists = [1 \<mapsto> \<lparr>p_head = 2, p_tail = 3\<rparr>], brk = 4, calls = []\<rparr>"

lemma ll_rel_example: "ll_rel example_mem [1 \<mapsto> [(7, Some 9), (8, None)]]"
  unfolding ll_rel_def
proof (intro exI conjI)
  show "mem_inv example_mem [1 \<mapsto> [2, 3]]"
    by (auto simp: mem_inv_def example_mem_def split: if_splits)
  show "[1 \<mapsto> [(7, Some 9), (8, None)]] = ll_abs example_mem [1 \<mapsto> [2, 3]]"
    by (auto simp: ll_abs_def vals_def example_mem_def fun_eq_iff)
qed

theorem linked_list_add_correct_witness:
  "\<exists>m'. linked_list_add True 1 (Some 5) None example_mem = Some (eLINKED_LIST_SUCCESS, m')
     \<and> ll_rel m' [1 \<mapsto> [(5, None), (7, Some 9), (8, None)]]"
  using linked_list_add_correct [OF ll_rel_example, of 1 "[(7, Some 9), (8, None)]" True "Some 5" None] by auto

theorem linked_list_remove_correct_witness:
  "\<exists>m'. linked_list_remove 1 False example_mem = Some (eLINKED_LIST_SUCCESS, Some 8, m')
     \<and> ll_rel m' [1 \<mapsto> [(7, Some 9)]]"
  using linked_list_remove_correct [OF ll_rel_example, of 1 "[(7, Some 9), (8, None)]"] by auto

theorem linked_list_destroy_no_leak_witness:
  "\<exists>m'. linked_list_destroy (Some 1) example_mem = Some (eLINKED_LIST_SUCCESS, Some NULL, m')
     \<and> elems m' = Map.empty \<and> calls m' = [(9, 7)]"
  using linked_list_destroy_no_leak [OF ll_rel_example] by (auto simp: example_mem_def)

theorem linked_list_search_correct_witness:
  "\<exists>m'. linked_list_search 1 True (Some (\<lambda>x w. (x = 7, w + x))) True (0::nat) example_mem
       = Some (eLINKED_LIST_SUCCESS, None, 7, m')
     \<and> ll_rel m' [1 \<mapsto> [(8, None)]] \<and> calls m' = [(9, 7)]"
  using linked_list_search_correct [OF ll_rel_example, of 1 "[(7, Some 9), (8, None)]"
      True "\<lambda>x w. (x = 7, w + x)" True 0]
  by (auto simp: remove_nth_def example_mem_def)


text \<open>What is added to an empty list comes out in the order it went in, and the list is empty
  again: the list is a first-in first-out store.\<close>
theorem linked_list_fifo:
  assumes "ll_rel m \<sigma>" and "\<sigma> l = Some []"
  shows "\<exists>m1 m2. add_all (\<lambda>d. linked_list_add True l (Some d) f) ds m = Some m1
    \<and> take_out (linked_list_remove l False) (length ds) m1 = Some (ds, m2) \<and> ll_rel m2 \<sigma>
    \<and> calls m2 = calls m"
  using ll.round_trip [OF assms] .

theorem linked_list_fifo_witness:
  "\<exists>m m1 m2. ll_rel m [1 \<mapsto> []]
    \<and> add_all (\<lambda>d. linked_list_add True 1 (Some d) (None :: nat option)) [4, 5, 6::nat] m = Some m1
    \<and> take_out (linked_list_remove 1 False) (length [4, 5, 6::nat]) m1 = Some ([4, 5, 6], m2)"
proof -
  obtain m where "ll_rel (m :: (nat, nat) ll_mem) [1 \<mapsto> []]" "([1 \<mapsto> []] :: ptr \<rightharpoonup> (nat \<times> nat option) list) 1 = Some []"
    using linked_list_init_refines [OF ll_rel_empty_mem, of NULL]
    by (auto simp: linked_list_init_def empty_mem_def)
  then show ?thesis using linked_list_fifo [of m "[1 \<mapsto> []]" 1 None "[4, 5, 6]"] by blast
qed

end
