(* ===== verification/Msg_Q.thy ===== *)
theory Msg_Q
  imports Linked_List
begin

text \<open>
  The message queue of \<open>gps/utils/msg_q.c\<close>: a linked list, a mutex, a condition variable and
  the flag \<open>unblocked\<close>. The mutex and the condition variable are represented by the grain of
  the steps, not by state.

  \<^item> \<open>mq_mem\<close> holds the linked lists and the live \<open>msg_q\<close> structs. Which of the fallible
    library calls succeed is an argument (\<open>ok\<close>, \<open>mutex_ok\<close>, \<open>cond_ok\<close>).
  \<^item> \<open>msg_q_snd\<close>, \<open>msg_q_flush\<close> and \<open>msg_q_unblock\<close> run between one lock and one unlock of
    \<open>list_mutex\<close> and are single steps. \<open>msg_q_rcv\<close> releases the mutex in
    \<open>pthread_cond_wait\<close>: its first step and every later test of the loop condition end either in
    \<open>Returned\<close> or in \<open>Waiting\<close>.
  \<^item> \<open>mq_step\<close> interleaves any number of threads; signal, broadcast and spurious wakeups are steps.
\<close>

section \<open>Data and functions\<close>

datatype msq_q_err_type =
    eMSG_Q_SUCCESS
  | eMSG_Q_FAILURE_GENERAL
  | eMSG_Q_INVALID_PARAMETER
  | eMSG_Q_INVALID_HANDLE
  | eMSG_Q_UNAVAILABLE_RESOURCE
  | eMSG_Q_INSUFFICIENT_BUFFER

record msg_q =
  msg_list :: ptr
  unblocked :: bool

record ('a, 'f) mq_mem =
  mq_ll :: "('a, 'f) ll_mem"
  queues :: "ptr \<rightharpoonup> msg_q"
  q_brk :: ptr

fun convert_linked_list_err_type :: "linked_list_err_type \<Rightarrow> msq_q_err_type" where
  "convert_linked_list_err_type eLINKED_LIST_SUCCESS = eMSG_Q_SUCCESS"
| "convert_linked_list_err_type eLINKED_LIST_INVALID_PARAMETER = eMSG_Q_INVALID_PARAMETER"
| "convert_linked_list_err_type eLINKED_LIST_INVALID_HANDLE = eMSG_Q_INVALID_HANDLE"
| "convert_linked_list_err_type eLINKED_LIST_UNAVAILABLE_RESOURCE = eMSG_Q_UNAVAILABLE_RESOURCE"
| "convert_linked_list_err_type eLINKED_LIST_INSUFFICIENT_BUFFER = eMSG_Q_INSUFFICIENT_BUFFER"
| "convert_linked_list_err_type eLINKED_LIST_FAILURE_GENERAL = eMSG_Q_FAILURE_GENERAL"

definition msg_q_init ::
    "bool \<Rightarrow> bool \<Rightarrow> bool \<Rightarrow> bool \<Rightarrow> ptr option \<Rightarrow> ('a, 'f) mq_mem
       \<Rightarrow> (msq_q_err_type \<times> ptr option \<times> ('a, 'f) mq_mem) option" where
  "msg_q_init ok list_ok mutex_ok cond_ok msg_q_data s =
     (case msg_q_data of
        None \<Rightarrow> Some (eMSG_Q_INVALID_PARAMETER, None, s)
      | Some old \<Rightarrow>
          if \<not> ok then Some (eMSG_Q_FAILURE_GENERAL, Some old, s)
          else case linked_list_init list_ok (Some NULL) (mq_ll s) of (err, cell, ll) \<Rightarrow>
            if err \<noteq> eLINKED_LIST_SUCCESS then Some (eMSG_Q_FAILURE_GENERAL, Some old, s\<lparr>mq_ll := ll\<rparr>)
            else if \<not> mutex_ok then do {
              (_, _, ll) \<leftarrow> linked_list_destroy cell ll;
              Some (eMSG_Q_FAILURE_GENERAL, Some old, s\<lparr>mq_ll := ll\<rparr>)
            }
            else if \<not> cond_ok then do {
              (_, _, ll) \<leftarrow> linked_list_destroy cell ll;
              Some (eMSG_Q_FAILURE_GENERAL, Some old, s\<lparr>mq_ll := ll\<rparr>)
            }
            else Some (eMSG_Q_SUCCESS, Some (q_brk s),
                       s\<lparr>mq_ll := ll, queues := (queues s)(q_brk s \<mapsto> \<lparr>msg_list = the cell, unblocked = False\<rparr>),
                         q_brk := Suc (q_brk s)\<rparr>))"

definition msg_q_destroy ::
    "ptr option \<Rightarrow> ('a, 'f) mq_mem \<Rightarrow> (msq_q_err_type \<times> ptr option \<times> ('a, 'f) mq_mem) option" where
  "msg_q_destroy msg_q_data s =
     (case msg_q_data of
        None \<Rightarrow> Some (eMSG_Q_INVALID_HANDLE, None, s)
      | Some p_msg_q \<Rightarrow> do {
          q \<leftarrow> queues s p_msg_q;
          (_, _, ll) \<leftarrow> linked_list_destroy (Some (msg_list q)) (mq_ll s);
          Some (eMSG_Q_SUCCESS, Some NULL, s\<lparr>mq_ll := ll, queues := (queues s)(p_msg_q := None)\<rparr>)
        })"

definition msg_q_snd ::
    "bool \<Rightarrow> ptr \<Rightarrow> 'a option \<Rightarrow> 'f option \<Rightarrow> ('a, 'f) mq_mem \<Rightarrow> (msq_q_err_type \<times> ('a, 'f) mq_mem) option" where
  "msg_q_snd ok msg_q_data msg_obj dealloc s =
     (if msg_q_data = NULL then Some (eMSG_Q_INVALID_HANDLE, s)
      else if msg_obj = None then Some (eMSG_Q_INVALID_PARAMETER, s)
      else do {
        q \<leftarrow> queues s msg_q_data;
        if unblocked q then Some (eMSG_Q_UNAVAILABLE_RESOURCE, s)
        else do {
          (err, ll) \<leftarrow> linked_list_add ok (msg_list q) msg_obj dealloc (mq_ll s);
          Some (convert_linked_list_err_type err, s\<lparr>mq_ll := ll\<rparr>)
        }
      })"

datatype 'a rcv_result = Returned msq_q_err_type "'a option" | Waiting

text \<open>The loop of \<open>msg_q_rcv\<close>, from a test of its condition to the next wait or the return.\<close>

definition rcv_loop ::
    "ptr \<Rightarrow> ('a, 'f) mq_mem \<Rightarrow> ('a rcv_result \<times> ('a, 'f) mq_mem) option" where
  "rcv_loop p_msg_q s = do {
     q \<leftarrow> queues s p_msg_q;
     empty \<leftarrow> linked_list_empty (msg_list q) (mq_ll s);
     if empty \<noteq> 0 \<and> \<not> unblocked q then Some (Waiting, s)
     else do {
       (err, out, ll) \<leftarrow> linked_list_remove (msg_list q) False (mq_ll s);
       Some (Returned (convert_linked_list_err_type err) out, s\<lparr>mq_ll := ll\<rparr>)
     }
   }"

definition msg_q_rcv ::
    "ptr \<Rightarrow> bool \<Rightarrow> ('a, 'f) mq_mem \<Rightarrow> ('a rcv_result \<times> ('a, 'f) mq_mem) option" where
  "msg_q_rcv msg_q_data msg_obj_null s =
     (if msg_q_data = NULL then Some (Returned eMSG_Q_INVALID_HANDLE None, s)
      else if msg_obj_null then Some (Returned eMSG_Q_INVALID_PARAMETER None, s)
      else do {
        q \<leftarrow> queues s msg_q_data;
        if unblocked q then Some (Returned eMSG_Q_UNAVAILABLE_RESOURCE None, s)
        else rcv_loop msg_q_data s
      })"

definition msg_q_flush ::
    "ptr \<Rightarrow> ('a, 'f) mq_mem \<Rightarrow> (msq_q_err_type \<times> ('a, 'f) mq_mem) option" where
  "msg_q_flush msg_q_data s =
     (if msg_q_data = NULL then Some (eMSG_Q_INVALID_HANDLE, s)
      else do {
        q \<leftarrow> queues s msg_q_data;
        (err, ll) \<leftarrow> linked_list_flush (msg_list q) (mq_ll s);
        Some (convert_linked_list_err_type err, s\<lparr>mq_ll := ll\<rparr>)
      })"

definition msg_q_unblock ::
    "ptr \<Rightarrow> ('a, 'f) mq_mem \<Rightarrow> (msq_q_err_type \<times> ('a, 'f) mq_mem) option" where
  "msg_q_unblock msg_q_data s =
     (if msg_q_data = NULL then Some (eMSG_Q_INVALID_HANDLE, s)
      else do {
        q \<leftarrow> queues s msg_q_data;
        if unblocked q then Some (eMSG_Q_UNAVAILABLE_RESOURCE, s)
        else Some (eMSG_Q_SUCCESS, s\<lparr>queues := (queues s)(msg_q_data \<mapsto> q\<lparr>unblocked := True\<rparr>)\<rparr>)
      })"

lemmas msg_q_defs [state_defs] =
  msg_q_init_def msg_q_destroy_def msg_q_snd_def rcv_loop_def msg_q_rcv_def msg_q_flush_def msg_q_unblock_def

section \<open>The queue as an abstract channel\<close>

text \<open>
  \<open>mq_rel s \<chi>\<close>: the memory \<open>s\<close> represents the queues \<open>\<chi>\<close>, each a pair of \<open>unblocked\<close> and
  the messages in it, oldest first.
\<close>

definition mq_abs :: "('a, 'f) mq_mem \<Rightarrow> (ptr \<rightharpoonup> ('a \<times> 'f option) list) \<Rightarrow> (ptr \<rightharpoonup> bool \<times> ('a \<times> 'f option) list)" where
  "mq_abs s \<sigma> = (\<lambda>q. map_option (\<lambda>r. (unblocked r, rev (the (\<sigma> (msg_list r))))) (queues s q))"

definition mq_inv :: "('a, 'f) mq_mem \<Rightarrow> (ptr \<rightharpoonup> ('a \<times> 'f option) list) \<Rightarrow> bool" where
  "mq_inv s \<sigma> \<longleftrightarrow>
     ll_rel (mq_ll s) \<sigma> \<and>
     (\<forall>q r. queues s q = Some r \<longrightarrow> (\<exists>xs. \<sigma> (msg_list r) = Some xs) \<and> 0 < q \<and> q < q_brk s) \<and>
     (\<forall>q q' r r'. queues s q = Some r \<longrightarrow> queues s q' = Some r' \<longrightarrow> msg_list r = msg_list r' \<longrightarrow> q = q') \<and>
     0 < q_brk s"

definition mq_rel :: "('a, 'f) mq_mem \<Rightarrow> (ptr \<rightharpoonup> bool \<times> ('a \<times> 'f option) list) \<Rightarrow> bool" where
  "mq_rel s \<chi> \<longleftrightarrow> (\<exists>\<sigma>. mq_inv s \<sigma> \<and> \<chi> = mq_abs s \<sigma>)"

lemma mq_relE:
  assumes "mq_rel s \<chi>" and "\<chi> q = Some (b, ms)"
  obtains \<sigma> r xs where "mq_inv s \<sigma>" and "\<chi> = mq_abs s \<sigma>" and "ll_rel (mq_ll s) \<sigma>"
    and "queues s q = Some r" and "unblocked r = b" and "\<sigma> (msg_list r) = Some xs" and "ms = rev xs"
    and "0 < q"
proof -
  from assms obtain \<sigma> where \<sigma>: "mq_inv s \<sigma>" "\<chi> = mq_abs s \<sigma>" by (auto simp: mq_rel_def)
  with assms(2) obtain r where "queues s q = Some r" "unblocked r = b" "ms = rev (the (\<sigma> (msg_list r)))"
    by (auto simp: mq_abs_def)
  note r = this
  with \<sigma>(1) obtain xs where "\<sigma> (msg_list r) = Some xs" and "0 < q" and "ll_rel (mq_ll s) \<sigma>"
    unfolding mq_inv_def by blast
  with r \<sigma> show thesis by (intro that [of \<sigma> r xs]) simp_all
qed

text \<open>The frame rule of the queues.\<close>

lemma mq_rel_updI:
  assumes inv: "mq_inv s \<sigma>" and abs: "\<chi> = mq_abs s \<sigma>" and r: "queues s q = Some r"
    and L: "ll_rel (mq_ll s') (\<sigma>(msg_list r \<mapsto> ys))"
    and Q: "queues s' = (queues s)(q \<mapsto> r\<lparr>unblocked := b\<rparr>)" and B: "q_brk s' = q_brk s"
  shows "mq_rel s' (\<chi>(q \<mapsto> (b, rev ys)))"
proof -
  have "mq_inv s' (\<sigma>(msg_list r \<mapsto> ys))"
    using inv r L Q B unfolding mq_inv_def by (auto split: if_splits)
  moreover have "mq_abs s' (\<sigma>(msg_list r \<mapsto> ys)) = \<chi>(q \<mapsto> (b, rev ys))"
  proof
    fix k
    show "mq_abs s' (\<sigma>(msg_list r \<mapsto> ys)) k = (\<chi>(q \<mapsto> (b, rev ys))) k"
      using inv r Q unfolding abs mq_abs_def mq_inv_def by (cases "queues s k") auto
  qed
  ultimately show ?thesis unfolding mq_rel_def by metis
qed

lemma mq_rel_frame_same:
  assumes "mq_inv s \<sigma>" and "\<chi> = mq_abs s \<sigma>" and "queues s q = Some r"
    and "ll_rel ll (\<sigma>(msg_list r \<mapsto> ys))"
  shows "mq_rel (s\<lparr>mq_ll := ll\<rparr>) (\<chi>(q \<mapsto> (unblocked r, rev ys)))"
  using assms by (intro mq_rel_updI [OF assms(1-3)]) (auto simp: map_upd_id)

lemma msg_q_snd_refines:
  assumes "mq_rel s \<chi>" and "\<chi> q = Some (False, ms)"
  shows "\<exists>s'. msg_q_snd True q (Some d) f s = Some (eMSG_Q_SUCCESS, s')
            \<and> mq_rel s' (\<chi>(q \<mapsto> (False, ms @ [(d, f)])))"
  using assms
proof (rule mq_relE)
  fix \<sigma> r xs assume *: "mq_inv s \<sigma>" "\<chi> = mq_abs s \<sigma>" "ll_rel (mq_ll s) \<sigma>" "queues s q = Some r"
    "unblocked r = False" "\<sigma> (msg_list r) = Some xs" "ms = rev xs" "0 < q"
  obtain ll where "linked_list_add True (msg_list r) (Some d) f (mq_ll s) = Some (eLINKED_LIST_SUCCESS, ll)"
    "ll_rel ll (\<sigma>(msg_list r \<mapsto> (d, f) # xs))"
    using ll.add_law [OF *(3,6)] by blast
  with mq_rel_frame_same [OF *(1,2,4), of ll "(d, f) # xs"] * show ?thesis
    by (simp add: msg_q_snd_def)
qed

lemma msg_q_snd_closed:
  assumes "mq_rel s \<chi>" and "\<chi> q = Some (True, ms)"
  shows "msg_q_snd ok q (Some d) f s = Some (eMSG_Q_UNAVAILABLE_RESOURCE, s)"
  using assms by (rule mq_relE) (simp add: msg_q_snd_def)

lemma rcv_loop_message:
  assumes "mq_rel s \<chi>" and "\<chi> q = Some (b, (d, f) # ms)"
  shows "\<exists>s'. rcv_loop q s = Some (Returned eMSG_Q_SUCCESS (Some d), s') \<and> mq_rel s' (\<chi>(q \<mapsto> (b, ms)))"
  using assms
proof (rule mq_relE)
  fix \<sigma> r xs assume *: "mq_inv s \<sigma>" "\<chi> = mq_abs s \<sigma>" "ll_rel (mq_ll s) \<sigma>" "queues s q = Some r"
    "unblocked r = b" "\<sigma> (msg_list r) = Some xs" "(d, f) # ms = rev xs" "0 < q"
  then have xs: "xs = rev ms @ [(d, f)]" by (metis rev.simps(2) rev_rev_ident)
  with *(6) have s: "\<sigma> (msg_list r) = Some (rev ms @ [(d, f)])" by simp
  obtain ll where "linked_list_remove (msg_list r) False (mq_ll s) = Some (eLINKED_LIST_SUCCESS, Some d, ll)"
    "ll_rel ll (\<sigma>(msg_list r \<mapsto> rev ms))"
    using ll.rem_law [OF *(3) s] by blast
  with mq_rel_frame_same [OF *(1,2,4), of ll "rev ms"] * ll.empty_law [OF *(3,6)] xs show ?thesis
    by (simp add: rcv_loop_def)
qed

lemma rcv_loop_empty:
  assumes "mq_rel s \<chi>" and "\<chi> q = Some (b, [])"
  shows "rcv_loop q s = Some (if b then Returned eMSG_Q_UNAVAILABLE_RESOURCE None else Waiting, s)"
  using assms
proof (rule mq_relE)
  fix \<sigma> r xs assume *: "ll_rel (mq_ll s) \<sigma>" "queues s q = Some r"
    "unblocked r = b" "\<sigma> (msg_list r) = Some xs" "[] = rev xs"
  then have "\<sigma> (msg_list r) = Some []" by simp
  note laws = ll.empty_law [OF *(1) this] ll.rem_nil [OF *(1) this]
  show ?thesis by (simp add: rcv_loop_def *(2,3) laws)
qed

lemma msg_q_rcv_eq:
  assumes "mq_rel s \<chi>" and "\<chi> q = Some (b, ms)"
  shows "msg_q_rcv q False s =
    (if b then Some (Returned eMSG_Q_UNAVAILABLE_RESOURCE None, s) else rcv_loop q s)"
  using assms by (rule mq_relE) (simp add: msg_q_rcv_def)

lemma msg_q_unblock_refines:
  assumes "mq_rel s \<chi>" and "\<chi> q = Some (b, ms)"
  shows "\<exists>s'. msg_q_unblock q s = Some (if b then eMSG_Q_UNAVAILABLE_RESOURCE else eMSG_Q_SUCCESS, s')
            \<and> mq_rel s' (\<chi>(q \<mapsto> (True, ms)))"
  using assms
proof (rule mq_relE)
  fix \<sigma> r xs assume *: "mq_inv s \<sigma>" "\<chi> = mq_abs s \<sigma>" "ll_rel (mq_ll s) \<sigma>" "queues s q = Some r"
    "unblocked r = b" "\<sigma> (msg_list r) = Some xs" "ms = rev xs" "0 < q"
  have "mq_rel (s\<lparr>queues := (queues s)(q \<mapsto> r\<lparr>unblocked := True\<rparr>)\<rparr>) (\<chi>(q \<mapsto> (True, ms)))"
    unfolding *(7) by (rule mq_rel_updI [OF *(1,2,4)]) (simp_all add: map_upd_id [of \<sigma>, OF *(6)] *(3))
  moreover have "b \<Longrightarrow> \<chi>(q \<mapsto> (True, ms)) = \<chi>" using assms(2) by (simp add: map_upd_id)
  ultimately show ?thesis using * assms(1) by (cases b) (simp_all add: msg_q_unblock_def)
qed

lemma msg_q_flush_refines:
  assumes "mq_rel s \<chi>" and "\<chi> q = Some (b, ms)"
  shows "\<exists>s'. msg_q_flush q s = Some (eMSG_Q_SUCCESS, s') \<and> mq_rel s' (\<chi>(q \<mapsto> (b, [])))
     \<and> calls (mq_ll s') = calls (mq_ll s) @ dealloc_calls (rev ms)"
  using assms
proof (rule mq_relE)
  fix \<sigma> r xs assume *: "mq_inv s \<sigma>" "\<chi> = mq_abs s \<sigma>" "ll_rel (mq_ll s) \<sigma>" "queues s q = Some r"
    "unblocked r = b" "\<sigma> (msg_list r) = Some xs" "ms = rev xs" "0 < q"
  obtain ll where "linked_list_flush (msg_list r) (mq_ll s) = Some (eLINKED_LIST_SUCCESS, ll)"
    "ll_rel ll (\<sigma>(msg_list r \<mapsto> []))" "calls ll = calls (mq_ll s) @ dealloc_calls xs"
    using ll.flush_law [OF *(3,6)] by blast
  with mq_rel_frame_same [OF *(1,2,4), of ll "[]"] * show ?thesis
    by (simp add: msg_q_flush_def)
qed

text \<open>Creating and destroying a queue.\<close>

definition empty_mq :: "('a, 'f) mq_mem" where
  "empty_mq = \<lparr>mq_ll = empty_mem, queues = Map.empty, q_brk = 1\<rparr>"

lemma mq_rel_empty_mq: "mq_rel empty_mq Map.empty"
  unfolding mq_rel_def mq_inv_def mq_abs_def empty_mq_def using ll_rel_empty_mem by (auto intro!: exI)

lemma mq_rel_ll_cong:
  assumes "mq_inv s \<sigma>" and "\<chi> = mq_abs s \<sigma>" and "ll_rel ll \<sigma>"
  shows "mq_rel (s\<lparr>mq_ll := ll\<rparr>) \<chi>"
  using assms unfolding mq_rel_def mq_inv_def mq_abs_def by (intro exI [of _ \<sigma>]) auto

lemma msg_q_init_refines:
  assumes "mq_rel s \<chi>"
  shows "\<exists>q s'. msg_q_init True True True True (Some old) s = Some (eMSG_Q_SUCCESS, Some q, s')
      \<and> q \<noteq> NULL \<and> \<chi> q = None \<and> mq_rel s' (\<chi>(q \<mapsto> (False, []))) \<and> calls (mq_ll s') = calls (mq_ll s)"
proof -
  obtain \<sigma> where \<sigma>: "mq_inv s \<sigma>" "\<chi> = mq_abs s \<sigma>" using assms by (auto simp: mq_rel_def)
  then have "ll_rel (mq_ll s) \<sigma>" by (simp add: mq_inv_def)
  from linked_list_init_refines [OF this, of NULL] obtain l ll where
    ll: "linked_list_init True (Some NULL) (mq_ll s) = (eLINKED_LIST_SUCCESS, Some l, ll)"
      "\<sigma> l = None" "ll_rel ll (\<sigma>(l \<mapsto> []))" "calls ll = calls (mq_ll s)" by blast
  let ?s = "s\<lparr>mq_ll := ll, queues := (queues s)(q_brk s \<mapsto> \<lparr>msg_list = l, unblocked = False\<rparr>),
              q_brk := Suc (q_brk s)\<rparr>"
  have "queues s (q_brk s) = None"
    using \<sigma>(1) unfolding mq_inv_def by (metis less_irrefl not_None_eq)
  moreover have "msg_list r \<noteq> l" if "queues s q = Some r" for q r
    using \<sigma>(1) ll(2) that unfolding mq_inv_def by (metis option.distinct(1))
  ultimately have fresh: "queues s (q_brk s) = None" "\<And>q r. queues s q = Some r \<Longrightarrow> msg_list r \<noteq> l"
    by blast+
  have "mq_inv ?s (\<sigma>(l \<mapsto> []))"
    using \<sigma>(1) ll(3) fresh(1) fresh(2) [THEN not_sym]
    unfolding mq_inv_def by (simp add: less_Suc_eq fresh(2))
  moreover have "mq_abs ?s (\<sigma>(l \<mapsto> [])) = \<chi>(q_brk s \<mapsto> (False, []))"
    using fresh unfolding \<sigma>(2) mq_abs_def by (auto simp: fun_eq_iff intro: option.map_cong)
  ultimately have "mq_rel ?s (\<chi>(q_brk s \<mapsto> (False, [])))" unfolding mq_rel_def by metis
  moreover have "0 < q_brk s" using \<sigma>(1) by (simp add: mq_inv_def)
  moreover have "\<chi> (q_brk s) = None" using fresh(1) by (simp add: \<sigma>(2) mq_abs_def)
  ultimately show ?thesis using ll(1,4) by (simp add: msg_q_init_def)
qed

lemma linked_list_init_destroy:
  assumes "ll_rel m \<sigma>"
  shows "\<exists>l m1. linked_list_init True (Some old) m = (eLINKED_LIST_SUCCESS, Some l, m1)
      \<and> linked_list_destroy (Some l) m1 = Some (eLINKED_LIST_SUCCESS, Some NULL, m\<lparr>brk := Suc (brk m)\<rparr>)
      \<and> ll_rel (m\<lparr>brk := Suc (brk m)\<rparr>) \<sigma>"
proof -
  obtain l m1 where i: "linked_list_init True (Some old) m = (eLINKED_LIST_SUCCESS, Some l, m1)"
    "\<sigma> l = None" "ll_rel m1 (\<sigma>(l \<mapsto> []))" "l \<noteq> NULL"
    using linked_list_init_refines [OF assms, of old] by blast
  obtain m2 where m2: "linked_list_destroy (Some l) m1 = Some (eLINKED_LIST_SUCCESS, Some NULL, m2)"
    "ll_rel m2 (\<sigma>(l := None))"
    using linked_list_destroy_refines [OF i(3), of l "[]"] by auto
  obtain N where N: "mem_inv m N" using assms by (auto simp: ll_rel_def)
  have "m2 = m\<lparr>brk := Suc (brk m)\<rparr>"
    using m2(1) i(1,4) mem_inv_fresh [OF N]
    by (auto simp: linked_list_init_def linked_list_destroy_def linked_list_flush_def flush_loop.simps
        set_tail_def fun_upd_idem)
  moreover have "\<sigma>(l := None) = \<sigma>" using i(2) by (simp add: fun_upd_idem)
  ultimately show ?thesis using i(1) m2 by simp
qed

lemma msg_q_init_failure:
  assumes "mq_rel s \<chi>" and "\<not> (ok \<and> list_ok \<and> mutex_ok \<and> cond_ok)"
  shows "\<exists>s'. msg_q_init ok list_ok mutex_ok cond_ok (Some old) s = Some (eMSG_Q_FAILURE_GENERAL, Some old, s')
      \<and> mq_rel s' \<chi> \<and> elems (mq_ll s') = elems (mq_ll s) \<and> lists (mq_ll s') = lists (mq_ll s)
      \<and> queues s' = queues s \<and> calls (mq_ll s') = calls (mq_ll s)"
proof -
  obtain \<sigma> where \<sigma>: "mq_inv s \<sigma>" "\<chi> = mq_abs s \<sigma>" using assms(1) by (auto simp: mq_rel_def)
  then have "ll_rel (mq_ll s) \<sigma>" by (simp add: mq_inv_def)
  from linked_list_init_destroy [OF this, of NULL] obtain l ll where
    ll: "linked_list_init True (Some NULL) (mq_ll s) = (eLINKED_LIST_SUCCESS, Some l, ll)"
      "linked_list_destroy (Some l) ll = Some (eLINKED_LIST_SUCCESS, Some NULL, (mq_ll s)\<lparr>brk := Suc (brk (mq_ll s))\<rparr>)"
      "ll_rel ((mq_ll s)\<lparr>brk := Suc (brk (mq_ll s))\<rparr>) \<sigma>" by blast
  note rel = mq_rel_ll_cong [OF \<sigma> ll(3)]
  show ?thesis
  proof (cases "ok \<and> list_ok")
    case True
    with assms(2) rel ll(1,2) show ?thesis by (auto simp: msg_q_init_def)
  next
    case False
    with assms(1) show ?thesis by (auto simp: msg_q_init_def linked_list_init_def)
  qed
qed

lemma msg_q_destroy_refines:
  assumes "mq_rel s \<chi>" and "\<chi> q = Some (b, ms)"
  shows "\<exists>s'. msg_q_destroy (Some q) s = Some (eMSG_Q_SUCCESS, Some NULL, s')
      \<and> mq_rel s' (\<chi>(q := None)) \<and> calls (mq_ll s') = calls (mq_ll s) @ dealloc_calls (rev ms)"
  using assms
proof (rule mq_relE)
  fix \<sigma> r xs assume *: "mq_inv s \<sigma>" "\<chi> = mq_abs s \<sigma>" "ll_rel (mq_ll s) \<sigma>" "queues s q = Some r"
    "unblocked r = b" "\<sigma> (msg_list r) = Some xs" "ms = rev xs" "0 < q"
  obtain ll where ll: "linked_list_destroy (Some (msg_list r)) (mq_ll s) = Some (eLINKED_LIST_SUCCESS, Some NULL, ll)"
    "ll_rel ll (\<sigma>(msg_list r := None))" "calls ll = calls (mq_ll s) @ dealloc_calls xs"
    using linked_list_destroy_refines [OF *(3,6)] by blast
  let ?s = "s\<lparr>mq_ll := ll, queues := (queues s)(q := None)\<rparr>"
  have other: "queues s k = Some r' \<Longrightarrow> k \<noteq> q \<Longrightarrow> msg_list r' \<noteq> msg_list r" for k r'
    using *(1,4) unfolding mq_inv_def by metis
  have "mq_inv ?s (\<sigma>(msg_list r := None))"
    using *(1) ll(2) other unfolding mq_inv_def by (auto split: if_splits)
  moreover have "mq_abs ?s (\<sigma>(msg_list r := None)) = \<chi>(q := None)"
    unfolding *(2) mq_abs_def using other by (auto simp: fun_eq_iff intro: option.map_cong)
  ultimately have "mq_rel ?s (\<chi>(q := None))" unfolding mq_rel_def by metis
  with ll * show ?thesis by (simp add: msg_q_destroy_def)
qed

section \<open>The interface of the queue\<close>

text \<open>\<open>mq_holds q s b ms\<close>: queue \<open>q\<close> is live in \<open>s\<close>, its flag is \<open>b\<close> and it holds \<open>ms\<close>.\<close>

definition mq_holds :: "ptr \<Rightarrow> ('a, 'f) mq_mem \<Rightarrow> bool \<Rightarrow> ('a \<times> 'f option) list \<Rightarrow> bool" where
  "mq_holds q s b ms \<longleftrightarrow> (\<exists>\<chi>. mq_rel s \<chi> \<and> \<chi> q = Some (b, ms))"

text \<open>A client's sequence of sends (\<open>Some\<close>) and receives (\<open>None\<close>), stopped by a receive that would
  wait; it collects what is received.\<close>

fun chan_run ::
    "('a \<times> 'f option \<Rightarrow> 's \<Rightarrow> (msq_q_err_type \<times> 's) option) \<Rightarrow> ('s \<Rightarrow> ('a rcv_result \<times> 's) option)
       \<Rightarrow> ('a \<times> 'f option) option list \<Rightarrow> 's \<Rightarrow> ('a list \<times> 's) option" where
  "chan_run sn rc [] s = Some ([], s)"
| "chan_run sn rc (Some m # ops) s = do { (_, s) \<leftarrow> sn m s; chan_run sn rc ops s }"
| "chan_run sn rc (None # ops) s = do {
     (r, s) \<leftarrow> rc s;
     (case r of
        Returned err (Some d) \<Rightarrow> do { (ds, s) \<leftarrow> chan_run sn rc ops s; Some (d # ds, s) }
      | Returned err None \<Rightarrow> chan_run sn rc ops s
      | Waiting \<Rightarrow> Some ([], s))
   }"

fun sent_before_wait :: "nat \<Rightarrow> 'm option list \<Rightarrow> 'm list" where
  "sent_before_wait n [] = []"
| "sent_before_wait n (Some m # ops) = m # sent_before_wait (Suc n) ops"
| "sent_before_wait 0 (None # ops) = []"
| "sent_before_wait (Suc n) (None # ops) = sent_before_wait n ops"

locale msg_channel =
  fixes rep :: "'s \<Rightarrow> bool \<Rightarrow> ('a \<times> 'f option) list \<Rightarrow> bool"
    and send :: "'a \<times> 'f option \<Rightarrow> 's \<Rightarrow> (msq_q_err_type \<times> 's) option"
    and recv :: "'s \<Rightarrow> ('a rcv_result \<times> 's) option"
  assumes send_open: "rep s False ms \<Longrightarrow>
      \<exists>s'. send m s = Some (eMSG_Q_SUCCESS, s') \<and> rep s' False (ms @ [m])"
    and send_closed: "rep s True ms \<Longrightarrow> send m s = Some (eMSG_Q_UNAVAILABLE_RESOURCE, s)"
    and recv_msg: "rep s False (m # ms) \<Longrightarrow>
      \<exists>s'. recv s = Some (Returned eMSG_Q_SUCCESS (Some (fst m)), s') \<and> rep s' False ms"
    and recv_wait: "rep s False [] \<Longrightarrow> recv s = Some (Waiting, s)"
    and recv_closed: "rep s True ms \<Longrightarrow> recv s = Some (Returned eMSG_Q_UNAVAILABLE_RESOURCE None, s)"
begin

lemma run_open:
  assumes "rep s False ms"
  shows "\<exists>ds s' ms'. chan_run send recv ops s = Some (ds, s') \<and> rep s' False ms'
    \<and> map fst ms @ map fst (sent_before_wait (length ms) ops) = ds @ map fst ms'"
  using assms
proof (induction ops arbitrary: s ms)
  case Nil
  then show ?case by auto
next
  case (Cons a ops)
  note IH = Cons.IH and rep = Cons.prems
  show ?case
  proof (cases a)
    case (Some m)
    obtain s1 where s1: "send m s = Some (eMSG_Q_SUCCESS, s1)" "rep s1 False (ms @ [m])"
      using send_open [OF rep] by blast
    from IH [OF s1(2)] s1(1) Some show ?thesis by (fastforce)
  next
    case None
    show ?thesis
    proof (cases ms)
      case Nil
      with None rep show ?thesis by (auto simp: recv_wait)
    next
      case (Cons m ms1)
      then obtain s1 where s1: "recv s = Some (Returned eMSG_Q_SUCCESS (Some (fst m)), s1)" "rep s1 False ms1"
        using recv_msg rep by blast
      from IH [OF s1(2)] s1(1) None Cons show ?thesis by fastforce
    qed
  qed
qed

lemma run_closed:
  assumes "rep s True ms"
  shows "chan_run send recv ops s = Some ([], s)"
proof (induction ops)
  case (Cons a ops)
  then show ?case using assms by (cases a) (simp_all add: send_closed recv_closed)
qed simp

end

interpretation mq: msg_channel "mq_holds q" "\<lambda>(d, f). msg_q_snd True q (Some d) f" "msg_q_rcv q False" for q
proof
  fix s :: "('a, 'f) mq_mem" and ms and m :: "'a \<times> 'f option"
  obtain d f where m: "m = (d, f)" by force
  show "mq_holds q s False ms \<Longrightarrow> \<exists>s'. (case m of (d, f) \<Rightarrow> msg_q_snd True q (Some d) f) s = Some (eMSG_Q_SUCCESS, s')
      \<and> mq_holds q s' False (ms @ [m])"
    unfolding mq_holds_def m using msg_q_snd_refines [of s _ q ms d f] by fastforce
  show "mq_holds q s True ms \<Longrightarrow> (case m of (d, f) \<Rightarrow> msg_q_snd True q (Some d) f) s = Some (eMSG_Q_UNAVAILABLE_RESOURCE, s)"
    unfolding mq_holds_def m using msg_q_snd_closed by auto
  show "mq_holds q s False (m # ms) \<Longrightarrow>
      \<exists>s'. msg_q_rcv q False s = Some (Returned eMSG_Q_SUCCESS (Some (fst m)), s') \<and> mq_holds q s' False ms"
    unfolding mq_holds_def m using rcv_loop_message [of s _ q False d f ms] msg_q_rcv_eq by fastforce
  show "mq_holds q s False [] \<Longrightarrow> msg_q_rcv q False s = Some (Waiting, s)"
    unfolding mq_holds_def using rcv_loop_empty msg_q_rcv_eq by fastforce
  show "mq_holds q s True ms \<Longrightarrow> msg_q_rcv q False s = Some (Returned eMSG_Q_UNAVAILABLE_RESOURCE None, s)"
    unfolding mq_holds_def using msg_q_rcv_eq by fastforce
qed

section \<open>Any number of threads on one queue\<close>

text \<open>
  A thread that waits in \<open>pthread_cond_wait\<close> is in \<open>blocked\<close>; one that has been woken and has yet
  to reacquire the mutex is in \<open>ready\<close>; every other thread is outside \<open>msg_q_rcv\<close>. The history
  records the successful sends, the messages handed out and the flushes, in the order of their
  critical sections.
\<close>

datatype 'a mq_event = Sent 'a | Rcvd 'a | Flushed

record ('a, 'f, 't) conc =
  mem :: "('a, 'f) mq_mem"
  blocked :: "'t set"
  ready :: "'t set"
  hist :: "'a mq_event list"

definition sent_event :: "msq_q_err_type \<Rightarrow> 'a \<Rightarrow> 'a mq_event list" where
  "sent_event err d = (if err = eMSG_Q_SUCCESS then [Sent d] else [])"

fun rcvd_event :: "'a rcv_result \<Rightarrow> 'a mq_event list" where
  "rcvd_event (Returned err (Some d)) = [Rcvd d]"
| "rcvd_event _ = []"

text \<open>The threads after one of them leaves the loop test of \<open>msg_q_rcv\<close>.\<close>

definition after_rcv :: "'t \<Rightarrow> 'a rcv_result \<Rightarrow> ('a, 'f) mq_mem \<Rightarrow> ('a, 'f, 't) conc \<Rightarrow> ('a, 'f, 't) conc" where
  "after_rcv t r s c =
     \<lparr>mem = s, blocked = (if r = Waiting then insert t (blocked c) else blocked c),
      ready = ready c - {t}, hist = hist c @ rcvd_event r\<rparr>"

inductive mq_step :: "ptr \<Rightarrow> ('a, 'f, 't) conc \<Rightarrow> ('a, 'f, 't) conc \<Rightarrow> bool" for q where
  snd_signal: "\<lbrakk>msg_q_snd ok q (Some d) f (mem c) = Some (err, s'); \<not> unblocked (the (queues (mem c) q));
      t \<in> blocked c\<rbrakk>
    \<Longrightarrow> mq_step q c \<lparr>mem = s', blocked = blocked c - {t}, ready = insert t (ready c),
                     hist = hist c @ sent_event err d\<rparr>"
| snd_quiet: "\<lbrakk>msg_q_snd ok q (Some d) f (mem c) = Some (err, s');
      unblocked (the (queues (mem c) q)) \<or> blocked c = {}\<rbrakk>
    \<Longrightarrow> mq_step q c (c\<lparr>mem := s', hist := hist c @ sent_event err d\<rparr>)"
| rcv: "\<lbrakk>t \<notin> blocked c; t \<notin> ready c; msg_q_rcv q False (mem c) = Some (r, s')\<rbrakk>
    \<Longrightarrow> mq_step q c (after_rcv t r s' c)"
| resume: "\<lbrakk>t \<in> ready c; rcv_loop q (mem c) = Some (r, s')\<rbrakk> \<Longrightarrow> mq_step q c (after_rcv t r s' c)"
| spurious: "t \<in> blocked c \<Longrightarrow> mq_step q c (c\<lparr>blocked := blocked c - {t}, ready := insert t (ready c)\<rparr>)"
| unblock: "\<lbrakk>msg_q_unblock q (mem c) = Some (err, s'); err = eMSG_Q_SUCCESS\<rbrakk>
    \<Longrightarrow> mq_step q c (c\<lparr>mem := s', blocked := {}, ready := ready c \<union> blocked c\<rparr>)"
| unblock_again: "\<lbrakk>msg_q_unblock q (mem c) = Some (err, s'); err \<noteq> eMSG_Q_SUCCESS\<rbrakk>
    \<Longrightarrow> mq_step q c (c\<lparr>mem := s'\<rparr>)"
| flush: "msg_q_flush q (mem c) = Some (err, s') \<Longrightarrow> mq_step q c (c\<lparr>mem := s', hist := hist c @ [Flushed]\<rparr>)"

inductive mq_reachable :: "ptr \<Rightarrow> ('a, 'f, 't) conc \<Rightarrow> bool" for q where
  start: "mq_holds q (mem c) False [] \<Longrightarrow> blocked c = {} \<Longrightarrow> ready c = {} \<Longrightarrow> hist c = [] \<Longrightarrow> mq_reachable q c"
| step: "mq_reachable q c \<Longrightarrow> mq_step q c c' \<Longrightarrow> mq_reachable q c'"

text \<open>What a history of a first-in first-out queue leaves in it; \<open>None\<close> if it hands out a message
  that is not the oldest one.\<close>

fun replay_from :: "'a list \<Rightarrow> 'a mq_event list \<Rightarrow> 'a list option" where
  "replay_from xs [] = Some xs"
| "replay_from xs (Sent d # h) = replay_from (xs @ [d]) h"
| "replay_from [] (Rcvd d # h) = None"
| "replay_from (x # xs) (Rcvd d # h) = (if x = d then replay_from xs h else None)"
| "replay_from xs (Flushed # h) = replay_from [] h"

lemma replay_from_append [simp]:
  "replay_from xs (h @ h') = do { ys \<leftarrow> replay_from xs h; replay_from ys h' }"
  by (induction xs h rule: replay_from.induct) auto

fun sent_of :: "'a mq_event \<Rightarrow> 'a list" where "sent_of (Sent d) = [d]" | "sent_of _ = []"
fun rcvd_of :: "'a mq_event \<Rightarrow> 'a list" where "rcvd_of (Rcvd d) = [d]" | "rcvd_of _ = []"

lemma replay_no_loss:
  "replay_from xs h = Some ys \<Longrightarrow> Flushed \<notin> set h \<Longrightarrow>
    xs @ concat (map sent_of h) = concat (map rcvd_of h) @ ys"
  by (induction xs h rule: replay_from.induct) (auto split: if_splits)

text \<open>The steps on the abstract queue.\<close>

lemma mq_holds_flag: "mq_holds q s b ms \<Longrightarrow> unblocked (the (queues s q)) = b"
  unfolding mq_holds_def by (auto elim!: mq_relE)

lemma msg_q_snd_no_memory:
  assumes "mq_rel s \<chi>" and "\<chi> q = Some (False, ms)"
  shows "msg_q_snd False q (Some d) f s = Some (eMSG_Q_FAILURE_GENERAL, s)"
  using assms
proof (rule mq_relE)
  fix \<sigma> r xs assume *: "ll_rel (mq_ll s) \<sigma>" "queues s q = Some r" "unblocked r = False"
    "\<sigma> (msg_list r) = Some xs" "0 < q"
  have "0 < msg_list r" using *(1,4) by (rule ll_relE)
  with * show ?thesis by (simp add: msg_q_snd_def linked_list_add_def)
qed

lemma snd_holds:
  assumes "mq_holds q s b ms" and "msg_q_snd ok q (Some d) f s = Some (err, s')"
  shows "if b \<or> \<not> ok then s' = s \<and> err \<noteq> eMSG_Q_SUCCESS
    else err = eMSG_Q_SUCCESS \<and> mq_holds q s' b (ms @ [(d, f)])"
proof (cases "b \<or> \<not> ok")
  case True
  with assms msg_q_snd_closed [of s _ q ms ok d f] msg_q_snd_no_memory [of s _ q ms d f] show ?thesis
    unfolding mq_holds_def by (cases b) auto
next
  case False
  with assms mq.send_open [of q s ms "(d, f)"] show ?thesis by auto
qed

lemma rcv_loop_holds:
  assumes "mq_holds q s b ms" and "rcv_loop q s = Some (r, s')"
  shows "if ms = [] then s' = s \<and> r = (if b then Returned eMSG_Q_UNAVAILABLE_RESOURCE None else Waiting)
    else mq_holds q s' b (tl ms) \<and> r = Returned eMSG_Q_SUCCESS (Some (fst (hd ms)))"
proof (cases ms)
  case Nil
  with assms rcv_loop_empty show ?thesis unfolding mq_holds_def by fastforce
next
  case (Cons m ms')
  with assms rcv_loop_message [of s _ q b "fst m" "snd m" ms'] show ?thesis
    unfolding mq_holds_def by fastforce
qed

lemma rcv_holds:
  assumes "mq_holds q s b ms" and "msg_q_rcv q False s = Some (r, s')"
  shows "if b then s' = s \<and> r = Returned eMSG_Q_UNAVAILABLE_RESOURCE None
    else if ms = [] then s' = s \<and> r = Waiting
    else mq_holds q s' b (tl ms) \<and> r = Returned eMSG_Q_SUCCESS (Some (fst (hd ms)))"
proof (cases b)
  case True
  with assms mq.recv_closed show ?thesis by fastforce
next
  case False
  with assms(1) have "msg_q_rcv q False s = rcv_loop q s" unfolding mq_holds_def by (auto simp: msg_q_rcv_eq)
  with assms False rcv_loop_holds [OF assms(1), of r s'] show ?thesis by auto
qed

lemma unblock_holds:
  assumes "mq_holds q s b ms" and "msg_q_unblock q s = Some (err, s')"
  shows "mq_holds q s' True ms \<and> (err = eMSG_Q_SUCCESS \<longleftrightarrow> \<not> b)"
  using assms msg_q_unblock_refines [of s _ q b ms] unfolding mq_holds_def by fastforce

lemma flush_holds:
  assumes "mq_holds q s b ms" and "msg_q_flush q s = Some (err, s')"
  shows "mq_holds q s' b []"
  using assms msg_q_flush_refines [of s _ q b ms] unfolding mq_holds_def by fastforce

text \<open>The invariant of the threads: the history is that of a first-in first-out queue, a thread
  blocks only on an open queue, and there is a woken thread for every message in it.\<close>

definition conc_inv :: "ptr \<Rightarrow> ('a, 'f, 't) conc \<Rightarrow> bool \<Rightarrow> ('a \<times> 'f option) list \<Rightarrow> bool" where
  "conc_inv q c b ms \<longleftrightarrow>
     mq_holds q (mem c) b ms \<and> replay_from [] (hist c) = Some (map fst ms) \<and>
     finite (ready c) \<and> finite (blocked c) \<and> blocked c \<inter> ready c = {} \<and>
     (blocked c \<noteq> {} \<longrightarrow> \<not> b \<and> length ms \<le> card (ready c))"

lemma card_ready_Diff: "finite A \<Longrightarrow> n \<le> card A \<Longrightarrow> n - 1 \<le> card (A - {t})"
  by (cases "t \<in> A") auto

lemma after_rcv_inv:
  assumes inv: "conc_inv q c b ms" and t: "t \<notin> blocked c"
    and r: "if ms = [] then s' = mem c \<and> r = (if b then Returned eMSG_Q_UNAVAILABLE_RESOURCE None else Waiting)
      else mq_holds q s' b (tl ms) \<and> r = Returned eMSG_Q_SUCCESS (Some (fst (hd ms)))"
  shows "conc_inv q (after_rcv t r s' c) b (tl ms)"
proof (cases ms)
  case Nil
  with inv t r show ?thesis by (auto simp: conc_inv_def after_rcv_def)
next
  case (Cons m ms')
  with inv t r card_ready_Diff [of "ready c" "length ms" t] show ?thesis
    by (auto simp: conc_inv_def after_rcv_def)
qed

lemma mq_step_inv:
  assumes "mq_step q c c'" and inv: "conc_inv q c b ms"
  shows "\<exists>b' ms'. conc_inv q c' b' ms'"
proof -
  have holds: "mq_holds q (mem c) b ms" using inv by (simp add: conc_inv_def)
  from assms(1) show ?thesis
  proof cases
    case (snd_signal ok d f err s' t)
    moreover from this inv have "t \<notin> ready c" by (auto simp: conc_inv_def)
    ultimately show ?thesis
      using inv snd_holds [OF holds snd_signal(2)] mq_holds_flag [OF holds]
      by (intro exI [of _ b] exI [of _ "if ok then ms @ [(d, f)] else ms"])
        (auto simp: conc_inv_def sent_event_def card_insert_if split: if_splits)
  next
    case (snd_quiet ok d f err s')
    with inv snd_holds [OF holds snd_quiet(2)] mq_holds_flag [OF holds] show ?thesis
      by (intro exI [of _ b] exI [of _ "if b \<or> \<not> ok then ms else ms @ [(d, f)]"])
        (auto simp: conc_inv_def sent_event_def split: if_splits)
  next
    case (rcv t r s')
    show ?thesis
    proof (cases b)
      case True
      with rcv inv rcv_holds [OF holds rcv(4)] show ?thesis
        by (intro exI [of _ b] exI [of _ ms]) (auto simp: conc_inv_def after_rcv_def)
    next
      case False
      with rcv rcv_holds [OF holds rcv(4)] show ?thesis
        using after_rcv_inv [OF inv rcv(2), of s' r] by (auto split: if_splits)
    qed
  next
    case (resume t r s')
    with inv have "t \<notin> blocked c" by (auto simp: conc_inv_def)
    then show ?thesis using after_rcv_inv [OF inv _ rcv_loop_holds [OF holds resume(3)]] resume(1) by blast
  next
    case (spurious t)
    with inv show ?thesis
      by (intro exI [of _ b] exI [of _ ms]) (auto simp: conc_inv_def card_insert_if)
  next
    case (unblock err s')
    with inv unblock_holds [OF holds unblock(2)] show ?thesis
      by (intro exI [of _ True] exI [of _ ms]) (auto simp: conc_inv_def)
  next
    case (unblock_again err s')
    with inv unblock_holds [OF holds unblock_again(2)] show ?thesis
      by (intro exI [of _ b] exI [of _ ms]) (auto simp: conc_inv_def)
  next
    case (flush err s')
    with inv flush_holds [OF holds flush(2)] show ?thesis
      by (intro exI [of _ b] exI [of _ "[]"]) (auto simp: conc_inv_def)
  qed
qed

lemma mq_reachable_inv: "mq_reachable q c \<Longrightarrow> \<exists>b ms. conc_inv q c b ms"
proof (induction rule: mq_reachable.induct)
  case (start c)
  then show ?case by (intro exI [of _ False] exI [of _ "[]"]) (simp add: conc_inv_def)
next
  case (step c c')
  then show ?case using mq_step_inv by blast
qed

section \<open>Correctness of the queue\<close>

text \<open>A thread that runs any sequence of sends and receives on an open queue never faults, and
  every message it sends is received at most once and in the order of sending, up to the receive
  that has to wait; what has not been received is still in the queue.\<close>
theorem msg_q_sequence:
  assumes "mq_holds q s False ms"
  shows "\<exists>ds s' ms'. chan_run (\<lambda>(d, f). msg_q_snd True q (Some d) f) (msg_q_rcv q False) ops s = Some (ds, s')
    \<and> mq_holds q s' False ms'
    \<and> map fst ms @ map fst (sent_before_wait (length ms) ops) = ds @ map fst ms'"
  using mq.run_open [OF assms] .

text \<open>C1: in every interleaving of senders, receivers, flushes and unblocks by any number of threads
  the messages are handed out in the order in which they were accepted; without a flush, what was
  accepted is exactly what was handed out followed by what the queue still holds: no message is
  lost, duplicated or reordered.\<close>
theorem msg_q_fifo_interleaved:
  assumes "mq_reachable q c"
  shows "\<exists>b ms. mq_holds q (mem c) b ms \<and> replay_from [] (hist c) = Some (map fst ms)
    \<and> (Flushed \<notin> set (hist c) \<longrightarrow>
        concat (map sent_of (hist c)) = concat (map rcvd_of (hist c)) @ map fst ms)"
proof -
  obtain b ms where "conc_inv q c b ms" using mq_reachable_inv [OF assms] by blast
  with replay_no_loss [of "[]" "hist c" "map fst ms"] show ?thesis by (auto simp: conc_inv_def)
qed

text \<open>C4: no wakeup is lost. In every reachable state the loop test of \<open>msg_q_rcv\<close> runs without a
  fault, while a thread is blocked there are at most as many messages as woken threads, so that
  some thread is about to take the oldest message, and once the queue is unblocked no thread is
  blocked and none will block.\<close>
theorem msg_q_no_lost_wakeup:
  assumes "mq_reachable q c"
  shows "\<exists>r s' ms. rcv_loop q (mem c) = Some (r, s')
    \<and> mq_holds q (mem c) (unblocked (the (queues (mem c) q))) ms
    \<and> (blocked c \<noteq> {} \<longrightarrow> length ms \<le> card (ready c) \<and> (r \<noteq> Waiting \<longrightarrow> ready c \<noteq> {}))
    \<and> (unblocked (the (queues (mem c) q)) \<longrightarrow> blocked c = {} \<and> r \<noteq> Waiting)"
proof -
  obtain b ms where inv: "conc_inv q c b ms" using mq_reachable_inv [OF assms] by blast
  then have holds: "mq_holds q (mem c) b ms" by (simp add: conc_inv_def)
  then obtain r s' where r: "rcv_loop q (mem c) = Some (r, s')"
    using rcv_loop_empty rcv_loop_message unfolding mq_holds_def by (cases ms) fastforce+
  from rcv_loop_holds [OF holds r] mq_holds_flag [OF holds] inv r show ?thesis
    by (cases ms) (auto simp: conc_inv_def)
qed

text \<open>\<open>msg_q_init\<close> either creates an empty open queue at a fresh address or, whichever of its
  allocations and initialisations fails, reports the failure, leaves the caller's handle alone and
  leaves nothing allocated behind.\<close>
theorem msg_q_init_correct:
  assumes "mq_rel s \<chi>"
  shows "\<exists>err h s'. msg_q_init ok list_ok mutex_ok cond_ok (Some old) s = Some (err, Some h, s')
    \<and> calls (mq_ll s') = calls (mq_ll s) \<and>
    (if ok \<and> list_ok \<and> mutex_ok \<and> cond_ok
     then err = eMSG_Q_SUCCESS \<and> h \<noteq> NULL \<and> \<chi> h = None \<and> mq_rel s' (\<chi>(h \<mapsto> (False, [])))
     else err = eMSG_Q_FAILURE_GENERAL \<and> h = old \<and> mq_rel s' \<chi> \<and> elems (mq_ll s') = elems (mq_ll s)
          \<and> lists (mq_ll s') = lists (mq_ll s) \<and> queues s' = queues s)"
proof (cases "ok \<and> list_ok \<and> mutex_ok \<and> cond_ok")
  case True
  with msg_q_init_refines [OF assms, of old] show ?thesis by auto
next
  case False
  with msg_q_init_failure [OF assms False, of old] show ?thesis by auto
qed

text \<open>A queue to run the theorems on.\<close>

lemma mq_holds_example: "\<exists>s :: (nat, nat) mq_mem. mq_holds 1 s False []"
proof -
  obtain q s where "msg_q_init True True True True (Some NULL) empty_mq = Some (eMSG_Q_SUCCESS, Some q, s)"
    and "mq_rel s ([q \<mapsto> (False, [])] :: ptr \<rightharpoonup> bool \<times> (nat \<times> nat option) list)"
    using msg_q_init_refines [OF mq_rel_empty_mq, of NULL] by blast
  moreover from this have "q = 1" by (auto simp: msg_q_init_def empty_mq_def linked_list_init_def)
  ultimately show ?thesis by (auto simp: mq_holds_def intro!: exI [of _ s])
qed

theorem msg_q_sequence_witness:
  "\<exists>s ds s'. mq_holds 1 s False ([] :: (nat \<times> nat option) list)
    \<and> chan_run (\<lambda>(d, f). msg_q_snd True 1 (Some d) f) (msg_q_rcv 1 False)
        [Some (4, None), Some (5, None), None] s = Some (ds, s') \<and> (\<exists>rest. [4, 5] = ds @ rest)"
proof -
  obtain s :: "(nat, nat) mq_mem" where s: "mq_holds 1 s False []" using mq_holds_example by blast
  let ?ops = "[Some (4, None), Some (5, None), None] :: (nat \<times> nat option) option list"
  obtain ds s' and ms' :: "(nat \<times> nat option) list" where
    run: "chan_run (\<lambda>(d, f). msg_q_snd True 1 (Some d) f) (msg_q_rcv 1 False) ?ops s = Some (ds, s')" and
    "map fst ([] :: (nat \<times> nat option) list) @ map fst (sent_before_wait (length ([] :: (nat \<times> nat option) list)) ?ops)
       = ds @ map fst ms'"
    using msg_q_sequence [OF s, of ?ops] by blast
  from this(2) have "[4, 5] = ds @ map fst ms'" by simp
  with s run show ?thesis by blast
qed

lemma reachable_example:
  "\<exists>c :: (nat, nat, nat) conc. mq_reachable 1 c \<and> blocked c = {2} \<and> ready c = {1} \<and> hist c = [Sent 7]"
proof -
  obtain s :: "(nat, nat) mq_mem" where s: "mq_holds 1 s False []" using mq_holds_example by blast
  let ?c = "\<lambda>B. \<lparr>mem = s, blocked = B, ready = {}, hist = []\<rparr> :: (nat, nat, nat) conc"
  have "mq_reachable 1 (?c {})" using s by (intro mq_reachable.start) simp_all
  moreover have "mq_step 1 (?c {}) (?c {1})"
    using mq_step.rcv [of 1 "?c {}" 1 Waiting s] mq.recv_wait [OF s] by (simp add: after_rcv_def)
  moreover have "mq_step 1 (?c {1}) (?c {1, 2})"
    using mq_step.rcv [of 2 "?c {1}" 1 Waiting s] mq.recv_wait [OF s] by (simp add: after_rcv_def insert_commute)
  ultimately have "mq_reachable 1 (?c {1, 2})" by (blast intro: mq_reachable.step)
  moreover obtain s' where "msg_q_snd True 1 (Some 7) None s = Some (eMSG_Q_SUCCESS, s')"
    using mq.send_open [OF s, of "(7, None)"] by auto
  with mq_step.snd_signal [of True 1 7 None "?c {1, 2}" eMSG_Q_SUCCESS s' 1] mq_holds_flag [OF s]
  have "mq_step 1 (?c {1, 2}) \<lparr>mem = s', blocked = {2}, ready = {1}, hist = [Sent 7]\<rparr>"
    by (simp add: sent_event_def insert_Diff_if)
  ultimately show ?thesis using mq_reachable.step by fastforce
qed

theorem msg_q_fifo_interleaved_witness:
  "\<exists>(c :: (nat, nat, nat) conc) b ms. mq_reachable 1 c \<and> mq_holds 1 (mem c) b ms
    \<and> hist c = [Sent 7] \<and> map fst ms = [7]"
proof -
  obtain c :: "(nat, nat, nat) conc" where c: "mq_reachable 1 c" "hist c = [Sent 7]" using reachable_example by blast
  from msg_q_fifo_interleaved [OF c(1)] obtain b ms where "mq_holds 1 (mem c) b ms" "map fst ms = [7]"
    using c(2) by auto
  with c show ?thesis by (intro exI [of _ c] exI [of _ b] exI [of _ ms]) simp
qed

theorem msg_q_no_lost_wakeup_witness:
  "\<exists>(c :: (nat, nat, nat) conc) r s'. mq_reachable 1 c \<and> blocked c \<noteq> {} \<and> rcv_loop 1 (mem c) = Some (r, s')"
proof -
  obtain c :: "(nat, nat, nat) conc" where c: "mq_reachable 1 c" "blocked c = {2}" using reachable_example by blast
  from msg_q_no_lost_wakeup [OF c(1)] c show ?thesis by blast
qed

theorem msg_q_init_correct_witness:
  "\<exists>s'. msg_q_init True True True False (Some 3) (empty_mq :: (nat, nat) mq_mem) =
     Some (eMSG_Q_FAILURE_GENERAL, Some 3, s') \<and> lists (mq_ll s') = Map.empty"
  using msg_q_init_correct [OF mq_rel_empty_mq, of True True True False 3]
  by (auto simp: empty_mq_def empty_mem_def)

end
