(* ===== verification/Agps.thy ===== *)
theory Agps
  imports Linked_List "HOL-Library.Word"
begin

text \<open>
  The AGPS state machine of \<open>gps/libloc_api_50001/loc_eng_agps.cpp\<close> and \<open>loc_eng_agps.h\<close>: one
  machine per network interface keeps a list of subscribers and asks the connectivity service for
  the interface while somebody needs it.

  \<^item> A \<open>subscriber\<close> is a record with the fields of the three classes \<open>BITSubscriber\<close>,
    \<open>ATLSubscriber\<close> and \<open>WIFISubscriber\<close>; \<open>kind\<close> selects the virtual methods.
  \<^item> The subscriber list is a HOL list, newest first, and is searched and drained by \<open>list_search\<close>
    and \<open>list_drain\<close>, which the pointer-level list implements (locale \<open>searchable\<close>). A pointer
    into the list is a position in it.
  \<^item> Calls out of the machine (the connectivity service, the modem adapter, the daemon pipe) are
    appended to a log of \<open>agps_out\<close>.
\<close>

section \<open>Data\<close>

datatype AgpsRsrcStatus =
  RSRC_SUBSCRIBE | RSRC_UNSUBSCRIBE | RSRC_GRANTED | RSRC_RELEASED | RSRC_DENIED | RSRC_STATUS_MAX

datatype AGpsType =
  AGPS_TYPE_INVALID | AGPS_TYPE_ANY | AGPS_TYPE_SUPL | AGPS_TYPE_C2K | AGPS_TYPE_WWAN_ANY | AGPS_TYPE_WIFI

datatype AGpsBearerType =
  AGPS_APN_BEARER_INVALID | AGPS_APN_BEARER_IPV4 | AGPS_APN_BEARER_IPV6 | AGPS_APN_BEARER_IPV4V6

datatype AGpsStatusValue =
    GPS_REQUEST_AGPS_DATA_CONN | GPS_RELEASE_AGPS_DATA_CONN | GPS_AGPS_DATA_CONNECTED
  | GPS_AGPS_DATA_CONN_DONE | GPS_AGPS_DATA_CONN_FAILED

text \<open>The answers to the daemons and the senders of their requests, from
  \<open>loc_eng_dmn_conn_handler.h\<close>.\<close>

datatype gpsone_status =
  GPSONE_LOC_API_IF_REQUEST_SUCCESS | GPSONE_LOC_API_IF_RELEASE_SUCCESS | GPSONE_LOC_API_IF_FAILURE

datatype sender_id =
    IF_REQUEST_SENDER_ID_QUIPC | IF_REQUEST_SENDER_ID_MSAPM
  | IF_REQUEST_SENDER_ID_GPSONE_DAEMON | IF_REQUEST_SENDER_ID_MODEM

primrec sender_code :: "sender_id \<Rightarrow> 32 word" where
  "sender_code IF_REQUEST_SENDER_ID_QUIPC = 0"
| "sender_code IF_REQUEST_SENDER_ID_MSAPM = 1"
| "sender_code IF_REQUEST_SENDER_ID_GPSONE_DAEMON = 2"
| "sender_code IF_REQUEST_SENDER_ID_MODEM = 3"

definition SSID_BUF_SIZE :: nat where "SSID_BUF_SIZE = 32 + 1"

definition INADDR_NONE :: "32 word" where "INADDR_NONE = 0xFFFFFFFF"

datatype subscriber_kind = BIT | ATL | WIFI

text \<open>
  \<open>ipv6Addr\<close> are the bytes at the offset of \<open>BITSubscriber::ipv6Addr\<close>: of a \<open>BITSubscriber\<close> the
  address, of the other kinds whatever the object has there, which only the cast in
  \<open>BITSubscriber::equals\<close> reads. \<open>ID\<close> is an \<open>int\<close>, kept at its width.
\<close>

record subscriber =
  kind :: subscriber_kind
  ID :: "32 word"
  ipv6Addr :: "8 word list"
  mBackwardCompatibleMode :: bool
  mSSID :: "string option"
  mPassword :: "string option"
  senderId :: sender_id
  mIsInactive :: bool

text \<open>\<open>Notification\<close>: its group ids and the four constructors.\<close>

definition BROADCAST_ALL :: "32 word" where "BROADCAST_ALL = 0x80000000"
definition BROADCAST_ACTIVE :: "32 word" where "BROADCAST_ACTIVE = 0x80000001"
definition BROADCAST_INACTIVE :: "32 word" where "BROADCAST_INACTIVE = 0x80000002"

record notification =
  rcver :: "subscriber option"
  groupID :: "32 word"
  rsrcStatus :: AgpsRsrcStatus
  postNotifyDelete :: bool

definition notify_group :: "32 word \<Rightarrow> AgpsRsrcStatus \<Rightarrow> bool \<Rightarrow> notification" where
  "notify_group broadcast status deleteAfterwards =
     \<lparr>rcver = None, groupID = broadcast, rsrcStatus = status, postNotifyDelete = deleteAfterwards\<rparr>"

definition notify_one :: "subscriber \<Rightarrow> AgpsRsrcStatus \<Rightarrow> bool \<Rightarrow> notification" where
  "notify_one subscriber status deleteAfterwards =
     \<lparr>rcver = Some subscriber, groupID = - 1, rsrcStatus = status, postNotifyDelete = deleteAfterwards\<rparr>"

definition group_query :: "32 word \<Rightarrow> notification" where
  "group_query broadcast =
     \<lparr>rcver = None, groupID = broadcast, rsrcStatus = RSRC_STATUS_MAX, postNotifyDelete = False\<rparr>"

definition one_query :: "subscriber \<Rightarrow> notification" where
  "one_query subscriber =
     \<lparr>rcver = Some subscriber, groupID = - 1, rsrcStatus = RSRC_STATUS_MAX, postNotifyDelete = False\<rparr>"

text \<open>
  \<open>AGpsExtStatus\<close>, the request to the connectivity service. A field that the code leaves
  uninitialised is \<open>None\<close>; of \<open>ipv6_addr\<close> the bytes that are written are listed. \<open>req_size\<close> is
  \<open>sizeof(AGpsExtStatus)\<close> on the 32-bit target.
\<close>

record AGpsExtStatus =
  req_size :: nat
  req_type :: AGpsType
  req_status :: AGpsStatusValue
  ipv4_addr :: "32 word option"
  ipv6_addr :: "8 word list"
  ssid :: string
  password :: string

definition sizeof_AGpsExtStatus :: nat where
  "sizeof_AGpsExtStatus = 4 + 2 + 2 + 4 + 16 + SSID_BUF_SIZE + SSID_BUF_SIZE + 2"

datatype agps_out =
    Servicer AGpsExtStatus
  | AtlOpenStatus "32 word" bool "string option" AGpsBearerType AGpsType
  | AtlCloseStatus "32 word" bool
  | DataConn sender_id gpsone_status

datatype AgpsState = AgpsReleasedState | AgpsPendingState | AgpsAcquiredState | AgpsReleasingState

record AgpsStateMachine =
  mType :: AGpsType
  mStatePtr :: AgpsState
  mSubscribers :: "subscriber list"
  mAPN :: "string option"
  mAPNLen :: nat
  mBearer :: AGpsBearerType
  mEnforceSingleSubscriber :: bool
  out :: "agps_out list"

section \<open>Subscribers\<close>

text \<open>The constructors. \<open>junk\<close> are the bytes the constructor leaves uninitialised.\<close>

definition strlcpy :: "string \<Rightarrow> nat \<Rightarrow> string" where
  "strlcpy src n = take (n - 1) src"

definition newBITSubscriber :: "8 word list \<Rightarrow> 32 word \<Rightarrow> 8 word list option \<Rightarrow> subscriber" where
  "newBITSubscriber junk ipv4 ipv6 =
     \<lparr>kind = BIT, ID = ipv4, ipv6Addr = (case ipv6 of None \<Rightarrow> 0 # junk | Some bytes \<Rightarrow> bytes),
      mBackwardCompatibleMode = False, mSSID = None, mPassword = None,
      senderId = IF_REQUEST_SENDER_ID_GPSONE_DAEMON, mIsInactive = False\<rparr>"

definition newATLSubscriber :: "8 word list \<Rightarrow> 32 word \<Rightarrow> bool \<Rightarrow> subscriber" where
  "newATLSubscriber junk handle compatibleMode =
     \<lparr>kind = ATL, ID = handle, ipv6Addr = junk, mBackwardCompatibleMode = compatibleMode,
      mSSID = None, mPassword = None, senderId = IF_REQUEST_SENDER_ID_MODEM, mIsInactive = False\<rparr>"

definition newWIFISubscriber ::
    "8 word list \<Rightarrow> string option \<Rightarrow> string option \<Rightarrow> sender_id \<Rightarrow> subscriber" where
  "newWIFISubscriber junk s p sender =
     \<lparr>kind = WIFI, ID = sender_code sender, ipv6Addr = junk, mBackwardCompatibleMode = False,
      mSSID = map_option (\<lambda>x. strlcpy x SSID_BUF_SIZE) s,
      mPassword = map_option (\<lambda>x. strlcpy x SSID_BUF_SIZE) p,
      senderId = sender, mIsInactive = False\<rparr>"

definition clone :: "subscriber \<Rightarrow> subscriber" where
  "clone s =
     (case kind s of
        BIT \<Rightarrow> newBITSubscriber [] (ID s) (Some (ipv6Addr s))
      | ATL \<Rightarrow> newATLSubscriber (ipv6Addr s) (ID s) (mBackwardCompatibleMode s)
      | WIFI \<Rightarrow> newWIFISubscriber (ipv6Addr s) (mSSID s) (mPassword s) (senderId s))"

definition isInactive :: "subscriber \<Rightarrow> bool" where
  "isInactive s \<longleftrightarrow> kind s = WIFI \<and> mIsInactive s"

definition setInactive :: "subscriber \<Rightarrow> subscriber" where
  "setInactive s = (if kind s = WIFI then s\<lparr>mIsInactive := True\<rparr> else s)"

definition waitForCloseComplete :: "subscriber \<Rightarrow> bool" where
  "waitForCloseComplete s \<longleftrightarrow> kind s = WIFI"

text \<open>\<open>strncmp(a, b, n) == 0\<close>, on buffers of at least \<open>n\<close> bytes or with a zero byte.\<close>

fun strncmp_eq :: "nat \<Rightarrow> 8 word list \<Rightarrow> 8 word list \<Rightarrow> bool" where
  "strncmp_eq (Suc n) (a # as) (b # bs) \<longleftrightarrow> a = b \<and> (a = 0 \<or> strncmp_eq n as bs)"
| "strncmp_eq _ _ _ \<longleftrightarrow> True"

definition equals :: "subscriber \<Rightarrow> subscriber \<Rightarrow> bool" where
  "equals this s \<longleftrightarrow>
     (if kind this = BIT
      then ID this = ID s \<and> (INADDR_NONE \<noteq> ID this \<or> strncmp_eq 16 (ipv6Addr this) (ipv6Addr s))
      else ID this = ID s)"

definition forMe :: "subscriber \<Rightarrow> notification \<Rightarrow> bool" where
  "forMe this n \<longleftrightarrow>
     (case rcver n of
        Some s \<Rightarrow> equals this s
      | None \<Rightarrow> BROADCAST_ALL = groupID n \<or> (BROADCAST_ACTIVE = groupID n \<and> \<not> isInactive this)
          \<or> (BROADCAST_INACTIVE = groupID n \<and> isInactive this))"

definition setIPAddresses :: "subscriber \<Rightarrow> AGpsExtStatus \<Rightarrow> AGpsExtStatus" where
  "setIPAddresses s r =
     (case kind s of
        BIT \<Rightarrow> r\<lparr>ipv4_addr := Some (ID s), ipv6_addr := ipv6Addr s\<rparr>
      | ATL \<Rightarrow> r\<lparr>ipv4_addr := Some INADDR_NONE, ipv6_addr := [0]\<rparr>
      | WIFI \<Rightarrow> r)"

definition setWifiInfo :: "subscriber \<Rightarrow> AGpsExtStatus \<Rightarrow> AGpsExtStatus" where
  "setWifiInfo s r =
     (case kind s of
        WIFI \<Rightarrow> r\<lparr>ssid := (case mSSID s of Some x \<Rightarrow> strlcpy x SSID_BUF_SIZE | None \<Rightarrow> ''''),
                 password := (case mPassword s of Some x \<Rightarrow> strlcpy x SSID_BUF_SIZE | None \<Rightarrow> '''')\<rparr>
      | _ \<Rightarrow> r\<lparr>ssid := '''', password := ''''\<rparr>)"

text \<open>\<open>notifyRsrcStatus\<close> of the three classes: whether the subscriber took the notification, and
  the calls it made.\<close>

definition BITSubscriber_notifyRsrcStatus ::
    "subscriber \<Rightarrow> notification \<Rightarrow> bool \<times> agps_out list" where
  "BITSubscriber_notifyRsrcStatus s n =
     (if forMe s n then
        (case rsrcStatus n of
           RSRC_UNSUBSCRIBE \<Rightarrow> (True, [DataConn IF_REQUEST_SENDER_ID_GPSONE_DAEMON GPSONE_LOC_API_IF_RELEASE_SUCCESS])
         | RSRC_RELEASED \<Rightarrow> (True, [DataConn IF_REQUEST_SENDER_ID_GPSONE_DAEMON GPSONE_LOC_API_IF_RELEASE_SUCCESS])
         | RSRC_DENIED \<Rightarrow> (True, [DataConn IF_REQUEST_SENDER_ID_GPSONE_DAEMON GPSONE_LOC_API_IF_FAILURE])
         | RSRC_GRANTED \<Rightarrow> (True, [DataConn IF_REQUEST_SENDER_ID_GPSONE_DAEMON GPSONE_LOC_API_IF_REQUEST_SUCCESS])
         | _ \<Rightarrow> (False, []))
      else (False, []))"

definition ATLSubscriber_notifyRsrcStatus ::
    "AgpsStateMachine \<Rightarrow> subscriber \<Rightarrow> notification \<Rightarrow> bool \<times> agps_out list" where
  "ATLSubscriber_notifyRsrcStatus m s n =
     (let type = (if mBackwardCompatibleMode s then AGPS_TYPE_INVALID else mType m) in
      if forMe s n then
        (case rsrcStatus n of
           RSRC_UNSUBSCRIBE \<Rightarrow> (True, [AtlCloseStatus (ID s) True])
         | RSRC_RELEASED \<Rightarrow> (True, [AtlCloseStatus (ID s) True])
         | RSRC_DENIED \<Rightarrow> (True, [AtlOpenStatus (ID s) False (mAPN m) (mBearer m) type])
         | RSRC_GRANTED \<Rightarrow> (True, [AtlOpenStatus (ID s) True (mAPN m) (mBearer m) type])
         | _ \<Rightarrow> (False, []))
      else (False, []))"

definition WIFISubscriber_notifyRsrcStatus ::
    "subscriber \<Rightarrow> notification \<Rightarrow> bool \<times> agps_out list" where
  "WIFISubscriber_notifyRsrcStatus s n =
     (if forMe s n then
        (case rsrcStatus n of
           RSRC_UNSUBSCRIBE \<Rightarrow> (True, [])
         | RSRC_RELEASED \<Rightarrow> (True, [DataConn (senderId s) GPSONE_LOC_API_IF_RELEASE_SUCCESS])
         | RSRC_DENIED \<Rightarrow> (True, [DataConn (senderId s) GPSONE_LOC_API_IF_FAILURE])
         | RSRC_GRANTED \<Rightarrow> (True, [DataConn (senderId s) GPSONE_LOC_API_IF_REQUEST_SUCCESS])
         | _ \<Rightarrow> (False, []))
      else (False, []))"

definition notifyRsrcStatus ::
    "AgpsStateMachine \<Rightarrow> subscriber \<Rightarrow> notification \<Rightarrow> bool \<times> agps_out list" where
  "notifyRsrcStatus m s n =
     (case kind s of
        BIT \<Rightarrow> BITSubscriber_notifyRsrcStatus s n
      | ATL \<Rightarrow> ATLSubscriber_notifyRsrcStatus m s n
      | WIFI \<Rightarrow> WIFISubscriber_notifyRsrcStatus s n)"

text \<open>The two comparison callbacks of \<open>linked_list_search\<close>; the world they thread is the log.\<close>

definition hasSubscriber :: "notification \<Rightarrow> subscriber \<Rightarrow> agps_out list \<Rightarrow> bool \<times> agps_out list" where
  "hasSubscriber n s w = (forMe s n, w)"

definition notifySubscriber ::
    "AgpsStateMachine \<Rightarrow> notification \<Rightarrow> subscriber \<Rightarrow> agps_out list \<Rightarrow> bool \<times> agps_out list" where
  "notifySubscriber m n s w =
     (case notifyRsrcStatus m s n of (notified, sent) \<Rightarrow> (notified \<and> postNotifyDelete n, w @ sent))"

section \<open>Operations of the machine\<close>

definition find_sub :: "notification \<Rightarrow> AgpsStateMachine \<Rightarrow> nat option" where
  "find_sub n m = fst (list_search (hasSubscriber n) False (mSubscribers m) (out m))"

definition hasSubscribers :: "AgpsStateMachine \<Rightarrow> bool" where
  "hasSubscribers m \<longleftrightarrow> mSubscribers m \<noteq> []"

definition hasActiveSubscribers :: "AgpsStateMachine \<Rightarrow> bool" where
  "hasActiveSubscribers m \<longleftrightarrow> find_sub (group_query BROADCAST_ACTIVE) m \<noteq> None"

definition dropAllSubscribers :: "AgpsStateMachine \<Rightarrow> AgpsStateMachine" where
  "dropAllSubscribers m = m\<lparr>mSubscribers := []\<rparr>"

definition notifySubscribers :: "notification \<Rightarrow> AgpsStateMachine \<Rightarrow> AgpsStateMachine" where
  "notifySubscribers n m =
     (if postNotifyDelete n then
        (case list_drain (notifySubscriber m n) (mSubscribers m) (out m) of
           (subs, w) \<Rightarrow> m\<lparr>mSubscribers := subs, out := w\<rparr>)
      else
        (case list_search (notifySubscriber m n) False (mSubscribers m) (out m) of
           (_, subs, w) \<Rightarrow> m\<lparr>mSubscribers := subs, out := w\<rparr>))"

definition addSubscriber :: "subscriber \<Rightarrow> AgpsStateMachine \<Rightarrow> AgpsStateMachine" where
  "addSubscriber s m =
     (if find_sub (one_query s) m = None then m\<lparr>mSubscribers := clone s # mSubscribers m\<rparr> else m)"

definition sendRsrcRequest :: "AGpsStatusValue \<Rightarrow> AgpsStateMachine \<Rightarrow> AgpsStateMachine" where
  "sendRsrcRequest action m =
     (let s = find_sub (group_query BROADCAST_ACTIVE) m;
          blank = \<lparr>req_size = sizeof_AGpsExtStatus, req_type = mType m, req_status = action,
                   ipv4_addr = None, ipv6_addr = [], ssid = '''', password = ''''\<rparr>
      in if (s = None) = (action = GPS_RELEASE_AGPS_DATA_CONN) then
           m\<lparr>out := out m @ [Servicer
             (case s of
                None \<Rightarrow> blank\<lparr>ipv4_addr := Some INADDR_NONE, ipv6_addr := [0]\<rparr>
              | Some i \<Rightarrow> setWifiInfo (mSubscribers m ! i) (setIPAddresses (mSubscribers m ! i) blank))]\<rparr>
         else m)"

text \<open>
  The \<open>data\<close> argument of the state handlers is a subscriber of the caller or one in the list, and
  is there only with the two subscription events.
\<close>

datatype sub_ref = Caller subscriber | InList nat

fun deref :: "AgpsStateMachine \<Rightarrow> sub_ref \<Rightarrow> subscriber" where
  "deref m (Caller s) = s"
| "deref m (InList i) = mSubscribers m ! i"

fun mark_inactive :: "sub_ref \<Rightarrow> AgpsStateMachine \<Rightarrow> AgpsStateMachine" where
  "mark_inactive (Caller s) m = m"
| "mark_inactive (InList i) m = m\<lparr>mSubscribers := (mSubscribers m)[i := setInactive (mSubscribers m ! i)]\<rparr>"

datatype rsrc_event = Subscribe sub_ref | Unsubscribe sub_ref | Granted | Released | Denied | OtherEvent

text \<open>A notification handed to one subscriber directly.\<close>

definition notify_directly :: "subscriber \<Rightarrow> AgpsRsrcStatus \<Rightarrow> AgpsStateMachine \<Rightarrow> AgpsStateMachine" where
  "notify_directly s status m = m\<lparr>out := out m @ snd (notifyRsrcStatus m s (notify_one s status False))\<rparr>"

text \<open>What the three states with subscribers do first on an unsubscription.\<close>

definition close_subscriber :: "sub_ref \<Rightarrow> AgpsStateMachine \<Rightarrow> AgpsStateMachine" where
  "close_subscriber r m =
     (if waitForCloseComplete (deref m r) then mark_inactive r m
      else notifySubscribers (notify_one (deref m r) RSRC_UNSUBSCRIBE True) m)"

fun AgpsReleasedState_onRsrcEvent :: "rsrc_event \<Rightarrow> AgpsStateMachine \<Rightarrow> AgpsState \<times> AgpsStateMachine" where
  "AgpsReleasedState_onRsrcEvent (Subscribe r) m =
     (AgpsPendingState, sendRsrcRequest GPS_REQUEST_AGPS_DATA_CONN (addSubscriber (deref m r) m))"
| "AgpsReleasedState_onRsrcEvent (Unsubscribe r) m =
     (AgpsReleasedState, notify_directly (deref m r) RSRC_UNSUBSCRIBE m)"
| "AgpsReleasedState_onRsrcEvent _ m = (AgpsReleasedState, m)"

fun AgpsPendingState_onRsrcEvent :: "rsrc_event \<Rightarrow> AgpsStateMachine \<Rightarrow> AgpsState \<times> AgpsStateMachine" where
  "AgpsPendingState_onRsrcEvent (Subscribe r) m = (AgpsPendingState, addSubscriber (deref m r) m)"
| "AgpsPendingState_onRsrcEvent (Unsubscribe r) m =
     (let m = close_subscriber r m in
      if \<not> hasSubscribers m then (AgpsReleasedState, sendRsrcRequest GPS_RELEASE_AGPS_DATA_CONN m)
      else if \<not> hasActiveSubscribers m then (AgpsReleasingState, sendRsrcRequest GPS_RELEASE_AGPS_DATA_CONN m)
      else (AgpsPendingState, m))"
| "AgpsPendingState_onRsrcEvent Granted m =
     (AgpsAcquiredState, notifySubscribers (notify_group BROADCAST_ACTIVE RSRC_GRANTED False) m)"
| "AgpsPendingState_onRsrcEvent Denied m =
     (AgpsReleasedState, notifySubscribers (notify_group BROADCAST_ALL RSRC_DENIED True) m)"
| "AgpsPendingState_onRsrcEvent _ m = (AgpsPendingState, m)"

fun AgpsAcquiredState_onRsrcEvent :: "rsrc_event \<Rightarrow> AgpsStateMachine \<Rightarrow> AgpsState \<times> AgpsStateMachine" where
  "AgpsAcquiredState_onRsrcEvent (Subscribe r) m =
     (AgpsAcquiredState, addSubscriber (deref m r) (notify_directly (deref m r) RSRC_GRANTED m))"
| "AgpsAcquiredState_onRsrcEvent (Unsubscribe r) m =
     (let m = close_subscriber r m in
      if \<not> hasSubscribers m then (AgpsReleasedState, sendRsrcRequest GPS_RELEASE_AGPS_DATA_CONN m)
      else if \<not> hasActiveSubscribers m then (AgpsReleasingState, sendRsrcRequest GPS_RELEASE_AGPS_DATA_CONN m)
      else (AgpsAcquiredState, m))"
| "AgpsAcquiredState_onRsrcEvent Released m =
     (AgpsReleasedState, notifySubscribers (notify_group BROADCAST_ALL RSRC_RELEASED True) m)"
| "AgpsAcquiredState_onRsrcEvent _ m = (AgpsAcquiredState, m)"

text \<open>The two events that end the release.\<close>

definition release_done :: "AgpsRsrcStatus \<Rightarrow> AgpsStateMachine \<Rightarrow> AgpsState \<times> AgpsStateMachine" where
  "release_done status m =
     (let m = notifySubscribers (notify_group BROADCAST_INACTIVE status True) m in
      if hasSubscribers m then (AgpsPendingState, sendRsrcRequest GPS_REQUEST_AGPS_DATA_CONN m)
      else (AgpsReleasedState, m))"

fun AgpsReleasingState_onRsrcEvent :: "rsrc_event \<Rightarrow> AgpsStateMachine \<Rightarrow> AgpsState \<times> AgpsStateMachine" where
  "AgpsReleasingState_onRsrcEvent (Subscribe r) m = (AgpsReleasingState, addSubscriber (deref m r) m)"
| "AgpsReleasingState_onRsrcEvent (Unsubscribe r) m =
     (let m = close_subscriber r m in
      if \<not> hasSubscribers m then (AgpsReleasedState, m) else (AgpsReleasingState, m))"
| "AgpsReleasingState_onRsrcEvent Denied m = release_done RSRC_DENIED m"
| "AgpsReleasingState_onRsrcEvent Released m = release_done RSRC_RELEASED m"
| "AgpsReleasingState_onRsrcEvent _ m = (AgpsReleasingState, m)"

text \<open>The virtual call \<open>mStatePtr = mStatePtr->onRsrcEvent(event, data)\<close>.\<close>

definition dispatch :: "rsrc_event \<Rightarrow> AgpsStateMachine \<Rightarrow> AgpsStateMachine" where
  "dispatch e m =
     (case (case mStatePtr m of
              AgpsReleasedState \<Rightarrow> AgpsReleasedState_onRsrcEvent e m
            | AgpsPendingState \<Rightarrow> AgpsPendingState_onRsrcEvent e m
            | AgpsAcquiredState \<Rightarrow> AgpsAcquiredState_onRsrcEvent e m
            | AgpsReleasingState \<Rightarrow> AgpsReleasingState_onRsrcEvent e m)
      of (nextState, m) \<Rightarrow> m\<lparr>mStatePtr := nextState\<rparr>)"

definition newAgpsStateMachine :: "AGpsType \<Rightarrow> bool \<Rightarrow> AGpsBearerType \<Rightarrow> AgpsStateMachine" where
  "newAgpsStateMachine type enforceSingleSubscriber junk =
     \<lparr>mType = type, mStatePtr = AgpsReleasedState, mSubscribers = [], mAPN = None, mAPNLen = 0,
      mBearer = junk, mEnforceSingleSubscriber = enforceSingleSubscriber, out = []\<rparr>"

text \<open>\<open>setAPN\<close> copies \<open>len\<close> bytes of the caller's buffer and terminates them; reading past the
  buffer is the fault \<open>None\<close>.\<close>

definition setAPN :: "string option \<Rightarrow> nat \<Rightarrow> AgpsStateMachine \<Rightarrow> AgpsStateMachine option" where
  "setAPN apn len m =
     (case apn of
        None \<Rightarrow> Some (m\<lparr>mAPN := None, mAPNLen := 0\<rparr>)
      | Some buf \<Rightarrow> if length buf < len then None
                   else Some (m\<lparr>mAPN := Some (take len buf @ [CHR 0x00]), mAPNLen := len\<rparr>))"

definition setBearer :: "AGpsBearerType \<Rightarrow> AgpsStateMachine \<Rightarrow> AgpsStateMachine" where
  "setBearer bearer m = m\<lparr>mBearer := bearer\<rparr>"

fun onRsrcEvent :: "AgpsRsrcStatus \<Rightarrow> AgpsStateMachine \<Rightarrow> AgpsStateMachine" where
  "onRsrcEvent RSRC_GRANTED m = dispatch Granted m"
| "onRsrcEvent RSRC_RELEASED m = dispatch Released m"
| "onRsrcEvent RSRC_DENIED m = dispatch Denied m"
| "onRsrcEvent _ m = m"

definition subscribeRsrc :: "subscriber \<Rightarrow> AgpsStateMachine \<Rightarrow> AgpsStateMachine" where
  "subscribeRsrc s m =
     (if mEnforceSingleSubscriber m \<and> hasSubscribers m
      then m\<lparr>out := snd (notifySubscriber m (notify_group BROADCAST_ALL RSRC_DENIED True) s (out m))\<rparr>
      else dispatch (Subscribe (Caller s)) m)"

definition unsubscribeRsrc :: "subscriber \<Rightarrow> AgpsStateMachine \<Rightarrow> bool \<times> AgpsStateMachine" where
  "unsubscribeRsrc s m =
     (case find_sub (one_query s) m of
        Some i \<Rightarrow> (True, dispatch (Unsubscribe (InList i)) m)
      | None \<Rightarrow> (False, m))"

lemmas agps_notif_defs [state_defs] =
  notify_group_def notify_one_def group_query_def one_query_def
  BROADCAST_ALL_def BROADCAST_ACTIVE_def BROADCAST_INACTIVE_def

section \<open>Searching and notifying the subscribers\<close>

lemma find_first_pure:
  "find_first (\<lambda>x w. (P x, w)) xs w = (r, w') \<Longrightarrow>
    w' = w \<and> (case r of None \<Rightarrow> \<forall>x \<in> set xs. \<not> P x
              | Some i \<Rightarrow> i < length xs \<and> P (xs ! i) \<and> (\<forall>j < i. \<not> P (xs ! j)))"
proof (induction xs arbitrary: r w')
  case (Cons x xs)
  obtain r1 w1 where r1: "find_first (\<lambda>x w. (P x, w)) xs w = (r1, w1)" by force
  from Cons.IH [OF r1] Cons.prems r1 show ?case
    by (cases "P x"; cases r1) (auto simp: nth_Cons less_Suc_eq_0_disj split: nat.split)
qed simp

lemma find_sub_cases:
  "find_sub n m = None \<Longrightarrow> \<forall>s \<in> set (mSubscribers m). \<not> forMe s n"
  "find_sub n m = Some i \<Longrightarrow> i < length (mSubscribers m) \<and> forMe (mSubscribers m ! i) n
     \<and> (\<forall>j < i. \<not> forMe (mSubscribers m ! j) n)"
proof -
  obtain r w where r: "find_first (hasSubscriber n) (mSubscribers m) (out m) = (r, w)" by force
  then have "find_sub n m = r" by (simp add: find_sub_def list_search_def)
  with find_first_pure [of "\<lambda>s. forMe s n" "mSubscribers m" "out m" r w]
  show "find_sub n m = None \<Longrightarrow> \<forall>s \<in> set (mSubscribers m). \<not> forMe s n"
    "find_sub n m = Some i \<Longrightarrow> i < length (mSubscribers m) \<and> forMe (mSubscribers m ! i) n
       \<and> (\<forall>j < i. \<not> forMe (mSubscribers m ! j) n)"
    using r by (auto simp: hasSubscriber_def [abs_def])
qed

lemma find_sub_None_iff: "find_sub n m = None \<longleftrightarrow> (\<forall>s \<in> set (mSubscribers m). \<not> forMe s n)"
  using find_sub_cases [of n m] by (cases "find_sub n m") (auto intro!: bexI [OF _ nth_mem])

lemma forMe_active [simp]: "forMe s (group_query BROADCAST_ACTIVE) \<longleftrightarrow> \<not> isInactive s"
  by (simp add: forMe_def agps_notif_defs)

lemma forMe_one [simp]:
  "forMe s (one_query t) \<longleftrightarrow> equals s t" "forMe s (notify_one t st d) \<longleftrightarrow> equals s t"
  by (simp_all add: forMe_def agps_notif_defs)

lemma forMe_group [simp]:
  "forMe s (notify_group BROADCAST_ALL st d)"
  "forMe s (notify_group BROADCAST_ACTIVE st d) \<longleftrightarrow> \<not> isInactive s"
  "forMe s (notify_group BROADCAST_INACTIVE st d) \<longleftrightarrow> isInactive s"
  by (simp_all add: forMe_def agps_notif_defs)

lemma notif_sel [simp]:
  "rsrcStatus (notify_group g st d) = st" "postNotifyDelete (notify_group g st d) = d"
  "rsrcStatus (notify_one s st d) = st" "postNotifyDelete (notify_one s st d) = d"
  by (simp_all add: notify_group_def notify_one_def)

lemma hasActiveSubscribers_iff: "hasActiveSubscribers m \<longleftrightarrow> (\<exists>s \<in> set (mSubscribers m). \<not> isInactive s)"
  by (auto simp: hasActiveSubscribers_def find_sub_None_iff)

text \<open>\<open>takes n s\<close>: subscriber \<open>s\<close> takes notification \<open>n\<close>; \<open>told m n s\<close>: what it then sends.\<close>

definition takes :: "notification \<Rightarrow> subscriber \<Rightarrow> bool" where
  "takes n s \<longleftrightarrow> forMe s n \<and> rsrcStatus n \<in> {RSRC_UNSUBSCRIBE, RSRC_RELEASED, RSRC_DENIED, RSRC_GRANTED}"

definition told :: "AgpsStateMachine \<Rightarrow> notification \<Rightarrow> subscriber \<Rightarrow> agps_out list" where
  "told m n s = snd (notifyRsrcStatus m s n)"

lemmas notifyRsrcStatus_defs = notifyRsrcStatus_def BITSubscriber_notifyRsrcStatus_def
  ATLSubscriber_notifyRsrcStatus_def WIFISubscriber_notifyRsrcStatus_def

lemma notifyRsrcStatus_eq: "notifyRsrcStatus m s n = (takes n s, if takes n s then told m n s else [])"
  by (auto simp: told_def takes_def notifyRsrcStatus_defs Let_def
      split: subscriber_kind.split AgpsRsrcStatus.split)

lemma told_nothing: "\<not> takes n s \<Longrightarrow> told m n s = []"
  unfolding told_def by (simp add: notifyRsrcStatus_eq)

lemma notifySubscriber_eq:
  "notifySubscriber m n s w = (takes n s \<and> postNotifyDelete n, w @ told m n s)"
  by (simp add: notifySubscriber_def notifyRsrcStatus_eq told_nothing)

lemma fold_append_concat: "fold (\<lambda>x w. w @ f x) xs w = w @ concat (map f xs)"
  by (induction xs arbitrary: w) simp_all

lemma concat_told_filter: "concat (map (told m n) (filter (takes n) xs)) = concat (map (told m n) xs)"
  by (induction xs) (simp_all add: told_nothing)

lemma notifySubscribers_delete:
  assumes "postNotifyDelete n"
  shows "notifySubscribers n m =
    m\<lparr>mSubscribers := filter (\<lambda>s. \<not> takes n s) (mSubscribers m),
      out := out m @ concat (map (told m n) (mSubscribers m))\<rparr>"
proof -
  have "list_drain (notifySubscriber m n) (mSubscribers m) (out m) =
      (filter (\<lambda>s. \<not> takes n s) (mSubscribers m),
       fold (\<lambda>s w. w @ told m n s) (filter (takes n) (mSubscribers m)) (out m))"
    using assms by (intro list_drain_filter) (simp_all add: notifySubscriber_eq told_nothing)
  then show ?thesis using assms by (simp add: notifySubscribers_def fold_append_concat concat_told_filter)
qed

lemma find_first_never:
  assumes "\<And>x w. eq x w = (False, w @ f x)"
  shows "find_first eq xs w = (None, w @ concat (map f xs))"
  by (induction xs arbitrary: w) (simp_all add: assms)

lemma notifySubscribers_keep:
  assumes "\<not> postNotifyDelete n"
  shows "notifySubscribers n m = m\<lparr>out := out m @ concat (map (told m n) (mSubscribers m))\<rparr>"
proof -
  have "find_first (notifySubscriber m n) (mSubscribers m) (out m)
      = (None, out m @ concat (map (told m n) (mSubscribers m)))"
    using assms by (intro find_first_never) (simp add: notifySubscriber_eq)
  then show ?thesis using assms by (simp add: notifySubscribers_def list_search_def)
qed

lemma takes_simps [simp]:
  "takes (notify_group g RSRC_DENIED d) s = forMe s (notify_group g RSRC_DENIED d)"
  "takes (notify_group g RSRC_RELEASED d) s = forMe s (notify_group g RSRC_RELEASED d)"
  "takes (notify_group g RSRC_GRANTED d) s = forMe s (notify_group g RSRC_GRANTED d)"
  "takes (notify_one t RSRC_UNSUBSCRIBE d) s = equals s t"
  "takes (notify_one t RSRC_GRANTED d) s = equals s t"
  by (simp_all add: takes_def)

section \<open>The effect of the operations\<close>

text \<open>No operation but \<open>setAPN\<close> and \<open>setBearer\<close> changes anything but the state, the list and the log.\<close>

lemma sendRsrcRequest_frame [simp]:
  "mSubscribers (sendRsrcRequest a m) = mSubscribers m" "mStatePtr (sendRsrcRequest a m) = mStatePtr m"
  "mEnforceSingleSubscriber (sendRsrcRequest a m) = mEnforceSingleSubscriber m" "mType (sendRsrcRequest a m) = mType m"
  by (simp_all add: sendRsrcRequest_def Let_def)

lemma notifySubscribers_frame [simp]:
  "mStatePtr (notifySubscribers n m) = mStatePtr m"
  "mEnforceSingleSubscriber (notifySubscribers n m) = mEnforceSingleSubscriber m" "mType (notifySubscribers n m) = mType m"
  by (simp_all add: notifySubscribers_def split: prod.split)

lemma addSubscriber_frame [simp]:
  "mStatePtr (addSubscriber s m) = mStatePtr m" "out (addSubscriber s m) = out m"
  "mEnforceSingleSubscriber (addSubscriber s m) = mEnforceSingleSubscriber m" "mType (addSubscriber s m) = mType m"
  by (simp_all add: addSubscriber_def)

lemma mark_inactive_frame [simp]:
  "mStatePtr (mark_inactive r m) = mStatePtr m" "out (mark_inactive r m) = out m"
  "mEnforceSingleSubscriber (mark_inactive r m) = mEnforceSingleSubscriber m" "mType (mark_inactive r m) = mType m"
  by (cases r; simp)+

lemma close_subscriber_frame [simp]:
  "mStatePtr (close_subscriber r m) = mStatePtr m"
  "mEnforceSingleSubscriber (close_subscriber r m) = mEnforceSingleSubscriber m" "mType (close_subscriber r m) = mType m"
  by (simp_all add: close_subscriber_def)

lemma notify_directly_frame [simp]:
  "mSubscribers (notify_directly s st m) = mSubscribers m" "mStatePtr (notify_directly s st m) = mStatePtr m"
  "mEnforceSingleSubscriber (notify_directly s st m) = mEnforceSingleSubscriber m"
  by (simp_all add: notify_directly_def)

section \<open>The invariant\<close>

text \<open>What the constructors of the subscribers establish.\<close>

definition wf_sub :: "subscriber \<Rightarrow> bool" where
  "wf_sub s \<longleftrightarrow> (kind s = WIFI \<longrightarrow> ID s = sender_code (senderId s)
     \<and> (\<forall>x. mSSID s = Some x \<or> mPassword s = Some x \<longrightarrow> length x < SSID_BUF_SIZE))"

lemmas newSubscriber_defs = newBITSubscriber_def newATLSubscriber_def newWIFISubscriber_def

lemma wf_sub_new [simp]:
  "wf_sub (newBITSubscriber junk a b)" "wf_sub (newATLSubscriber junk h c)" "wf_sub (newWIFISubscriber junk s p i)"
  by (auto simp: wf_sub_def newSubscriber_defs strlcpy_def SSID_BUF_SIZE_def)

lemma wf_sub_clone [simp]: "wf_sub (clone s)"
  by (simp add: clone_def split: subscriber_kind.split)

lemma clone_facts:
  "wf_sub s \<Longrightarrow> ID (clone s) = ID s" "ipv6Addr (clone s) = ipv6Addr s" "kind (clone s) = kind s"
  "\<not> isInactive (clone s)"
  by (auto simp: clone_def newSubscriber_defs isInactive_def wf_sub_def split: subscriber_kind.split)

text \<open>A clone carries everything its class keeps of the original.\<close>

lemma clone_wifi:
  assumes "wf_sub s" and "kind s = WIFI"
  shows "mSSID (clone s) = mSSID s" "mPassword (clone s) = mPassword s" "senderId (clone s) = senderId s"
  using assms by (auto simp: clone_def newWIFISubscriber_def wf_sub_def strlcpy_def
      intro!: option.map_ident_strong)

lemma strncmp_eq_refl [simp]: "strncmp_eq n xs xs"
proof (induction xs arbitrary: n)
  case (Cons x xs)
  then show ?case by (cases n) simp_all
qed simp

lemma equals_refl [simp]: "equals s s"
  by (simp add: equals_def)

lemma equals_clone [simp]: "wf_sub s \<Longrightarrow> equals t (clone s) = equals t s"
  by (simp add: equals_def clone_facts)

lemma setInactive_facts [simp]:
  "equals (setInactive s) t = equals s t" "equals t (setInactive s) = equals t s"
  "wf_sub (setInactive s) = wf_sub s" "kind (setInactive s) = kind s" "ID (setInactive s) = ID s"
  "kind s = WIFI \<Longrightarrow> isInactive (setInactive s)"
  by (auto simp: setInactive_def equals_def wf_sub_def isInactive_def)

abbreviation no_duplicates :: "subscriber list \<Rightarrow> bool" where
  "no_duplicates \<equiv> sorted_wrt (\<lambda>newer older. \<not> equals older newer)"

definition agps_inv :: "AgpsStateMachine \<Rightarrow> bool" where
  "agps_inv m \<longleftrightarrow>
     (mStatePtr m = AgpsReleasedState \<longleftrightarrow> mSubscribers m = []) \<and>
     (mStatePtr m \<in> {AgpsPendingState, AgpsAcquiredState} \<longrightarrow> hasActiveSubscribers m) \<and>
     no_duplicates (mSubscribers m) \<and> (\<forall>s \<in> set (mSubscribers m). wf_sub s) \<and>
     (mEnforceSingleSubscriber m \<longrightarrow> length (mSubscribers m) \<le> 1)"

lemma mSubscribers_addSubscriber:
  "mSubscribers (addSubscriber s m) =
     (if \<exists>t \<in> set (mSubscribers m). equals t s then mSubscribers m else clone s # mSubscribers m)"
  by (auto simp: addSubscriber_def find_sub_None_iff)

lemma mSubscribers_close:
  assumes "i < length (mSubscribers m)"
  shows "mSubscribers (close_subscriber (InList i) m) =
    (let s = mSubscribers m ! i in
     if kind s = WIFI then (mSubscribers m)[i := setInactive s]
     else filter (\<lambda>t. \<not> equals t s) (mSubscribers m))"
  by (simp add: close_subscriber_def waitForCloseComplete_def notifySubscribers_delete Let_def)

lemma no_duplicates_update:
  assumes "no_duplicates xs" and "i < length xs"
  shows "no_duplicates (xs[i := setInactive (xs ! i)])"
  using assms by (auto simp: sorted_wrt_iff_nth_less nth_list_update)

lemma close_keeps:
  assumes "agps_inv m" and "i < length (mSubscribers m)"
  defines "m' \<equiv> close_subscriber (InList i) m"
  shows "no_duplicates (mSubscribers m')" "\<forall>s \<in> set (mSubscribers m'). wf_sub s"
    "mEnforceSingleSubscriber m' \<longrightarrow> length (mSubscribers m') \<le> 1"
proof -
  have all: "\<forall>s \<in> set (mSubscribers m). wf_sub s" and nd: "no_duplicates (mSubscribers m)"
    and one: "mEnforceSingleSubscriber m \<longrightarrow> length (mSubscribers m) \<le> 1"
    using assms(1) by (auto simp: agps_inv_def)
  show "no_duplicates (mSubscribers m')"
    using nd assms(2) unfolding m'_def mSubscribers_close [OF assms(2)]
    by (auto simp: Let_def sorted_wrt_filter no_duplicates_update)
  show "\<forall>s \<in> set (mSubscribers m'). wf_sub s"
    using all assms(2) unfolding m'_def mSubscribers_close [OF assms(2)]
    by (auto simp: Let_def dest!: set_update_subset_insert [THEN subsetD])
  show "mEnforceSingleSubscriber m' \<longrightarrow> length (mSubscribers m') \<le> 1"
    using one assms(2) unfolding m'_def mSubscribers_close [OF assms(2)]
    by (auto simp: Let_def m'_def intro: order_trans [OF length_filter_le])
qed

lemma dispatch_Unsubscribe_inv:
  assumes inv: "agps_inv m" and i: "i < length (mSubscribers m)"
  shows "agps_inv (dispatch (Unsubscribe (InList i)) m)"
  using close_keeps [OF assms] inv i
  by (cases "mStatePtr m")
    (auto simp: agps_inv_def dispatch_def Let_def hasSubscribers_def hasActiveSubscribers_iff)

lemma dispatch_Subscribe_inv:
  assumes inv: "agps_inv m" and s: "wf_sub s" and one: "mEnforceSingleSubscriber m \<longrightarrow> mSubscribers m = []"
  shows "agps_inv (dispatch (Subscribe (Caller s)) m)"
  using inv s one clone_facts(4) [of s]
  by (cases "mStatePtr m")
    (auto simp: agps_inv_def dispatch_def mSubscribers_addSubscriber hasActiveSubscribers_iff)

lemma onRsrcEvent_inv: "agps_inv m \<Longrightarrow> agps_inv (onRsrcEvent e m)"
  by (cases "mStatePtr m"; cases e)
    (auto simp: agps_inv_def dispatch_def notifySubscribers_delete notifySubscribers_keep release_done_def
      Let_def hasSubscribers_def hasActiveSubscribers_iff sorted_wrt_filter filter_empty_conv
      intro: order_trans [OF length_filter_le])

lemma subscribeRsrc_inv: "agps_inv m \<Longrightarrow> wf_sub s \<Longrightarrow> agps_inv (subscribeRsrc s m)"
  using dispatch_Subscribe_inv [of m s]
  by (auto simp: subscribeRsrc_def agps_inv_def hasSubscribers_def hasActiveSubscribers_iff)

lemma unsubscribeRsrc_inv: "agps_inv m \<Longrightarrow> agps_inv (snd (unsubscribeRsrc s m))"
  by (auto simp: unsubscribeRsrc_def split: option.split dest: find_sub_cases(2) intro: dispatch_Unsubscribe_inv)

text \<open>The calls of the engine on a machine, but for \<open>dropAllSubscribers\<close>.\<close>

datatype agps_call =
    CallSubscribe subscriber | CallUnsubscribe subscriber | CallEvent AgpsRsrcStatus
  | CallSetAPN "string option" | CallSetBearer AGpsBearerType

fun agps_exec :: "agps_call \<Rightarrow> AgpsStateMachine \<Rightarrow> AgpsStateMachine" where
  "agps_exec (CallSubscribe s) m = subscribeRsrc s m"
| "agps_exec (CallUnsubscribe s) m = snd (unsubscribeRsrc s m)"
| "agps_exec (CallEvent e) m = onRsrcEvent e m"
| "agps_exec (CallSetAPN apn) m =
     (case setAPN apn (case apn of None \<Rightarrow> 0 | Some buf \<Rightarrow> length buf) m of Some m \<Rightarrow> m | None \<Rightarrow> m)"
| "agps_exec (CallSetBearer b) m = setBearer b m"

fun wf_call :: "agps_call \<Rightarrow> bool" where
  "wf_call (CallSubscribe s) = wf_sub s"
| "wf_call _ = True"

lemma agps_inv_settings [simp]:
  "agps_inv (m\<lparr>mAPN := a, mAPNLen := l\<rparr>) = agps_inv m" "agps_inv (m\<lparr>mBearer := b\<rparr>) = agps_inv m"
  by (simp_all add: agps_inv_def hasActiveSubscribers_iff)

lemma agps_exec_inv: "agps_inv m \<Longrightarrow> wf_call c \<Longrightarrow> agps_inv (agps_exec c m)"
  by (cases c) (simp_all add: subscribeRsrc_inv unsubscribeRsrc_inv onRsrcEvent_inv setAPN_def setBearer_def
      split: option.split)

lemma agps_inv_new: "agps_inv (newAgpsStateMachine ty single junk)"
  by (simp add: agps_inv_def newAgpsStateMachine_def)

lemma agps_run_inv: "agps_inv m \<Longrightarrow> list_all wf_call cs \<Longrightarrow> agps_inv (fold agps_exec cs m)"
  by (induction cs arbitrary: m) (simp_all add: agps_exec_inv)

section \<open>Requests to the connectivity service\<close>

fun request_of :: "agps_out \<Rightarrow> AGpsStatusValue list" where
  "request_of (Servicer r) = [req_status r]"
| "request_of _ = []"

definition requests :: "AgpsStateMachine \<Rightarrow> AGpsStatusValue list" where
  "requests m = concat (map request_of (out m))"

definition held :: "AgpsStateMachine \<Rightarrow> bool" where
  "held m \<longleftrightarrow> mStatePtr m \<in> {AgpsPendingState, AgpsAcquiredState}"

lemma request_of_told [simp]: "concat (map request_of (told m n s)) = []"
  by (auto simp: told_def notifyRsrcStatus_defs Let_def split: subscriber_kind.split AgpsRsrcStatus.split)

lemma request_of_told_all [simp]: "concat (map request_of (concat (map (told m n) xs))) = []"
  by (induction xs) simp_all

lemma setters_req_status [simp]:
  "req_status (setWifiInfo s r) = req_status r" "req_status (setIPAddresses s r) = req_status r"
  by (simp_all add: setWifiInfo_def setIPAddresses_def split: subscriber_kind.split)

lemma requests_simps [simp]:
  "requests (addSubscriber s m) = requests m" "requests (mark_inactive r m) = requests m"
  "requests (m\<lparr>mStatePtr := x\<rparr>) = requests m" "requests (notify_directly s st m) = requests m"
  "requests (notifySubscribers n m) = requests m" "requests (close_subscriber r m) = requests m"
proof -
  show n: "requests (notifySubscribers n m) = requests m" for n
    by (cases "postNotifyDelete n") (simp_all add: requests_def notifySubscribers_delete notifySubscribers_keep)
  show "requests (mark_inactive r m) = requests m" by (simp add: requests_def)
  with n show "requests (close_subscriber r m) = requests m" by (simp add: close_subscriber_def)
  show "requests (notify_directly s st m) = requests m"
    using request_of_told [of m "notify_one s st False" s] by (simp add: requests_def notify_directly_def told_def)
qed (simp_all add: requests_def)

lemma requests_send:
  "requests (sendRsrcRequest a m) =
     requests m @ (if hasActiveSubscribers m = (a \<noteq> GPS_RELEASE_AGPS_DATA_CONN) then [a] else [])"
  by (auto simp: requests_def sendRsrcRequest_def hasActiveSubscribers_def Let_def split: option.split)

lemma mStatePtr_upd_held [simp]:
  "held (m\<lparr>mStatePtr := x\<rparr>) \<longleftrightarrow> x \<in> {AgpsPendingState, AgpsAcquiredState}"
  by (simp add: held_def)

lemma requests_subscribe:
  assumes "agps_inv m" and "wf_sub s"
  shows "requests (subscribeRsrc s m) =
    requests m @ (if \<not> held m \<and> held (subscribeRsrc s m) then [GPS_REQUEST_AGPS_DATA_CONN] else [])"
proof (cases "mEnforceSingleSubscriber m \<and> hasSubscribers m")
  case True
  then show ?thesis
    using request_of_told [of m "notify_group BROADCAST_ALL RSRC_DENIED True" s]
    by (auto simp: subscribeRsrc_def requests_def held_def notifySubscriber_eq)
next
  case False
  with assms clone_facts(4) [of s] show ?thesis
    by (cases "mStatePtr m")
      (auto simp: subscribeRsrc_def dispatch_def requests_send hasActiveSubscribers_iff
        mSubscribers_addSubscriber agps_inv_def held_def)
qed

lemma requests_unsubscribe:
  assumes "agps_inv m"
  shows "requests (snd (unsubscribeRsrc s m)) =
    requests m @ (if held m \<and> \<not> held (snd (unsubscribeRsrc s m)) then [GPS_RELEASE_AGPS_DATA_CONN] else [])"
  using assms
  by (cases "mStatePtr m")
    (auto simp: unsubscribeRsrc_def dispatch_def Let_def requests_send hasActiveSubscribers_iff hasSubscribers_def
      held_def split: option.split)

lemma mSubscribers_delete:
  "postNotifyDelete n \<Longrightarrow> mSubscribers (notifySubscribers n m) = filter (\<lambda>s. \<not> takes n s) (mSubscribers m)"
  by (simp add: notifySubscribers_delete)

lemma requests_event:
  assumes "agps_inv m"
  shows "requests (onRsrcEvent e m) =
    requests m @ (if \<not> held m \<and> held (onRsrcEvent e m) then [GPS_REQUEST_AGPS_DATA_CONN] else [])"
  using assms
  by (cases "mStatePtr m"; cases e)
    (auto simp: dispatch_def Let_def release_done_def requests_send hasActiveSubscribers_iff hasSubscribers_def
      held_def mSubscribers_delete filter_empty_conv)

section \<open>What a subscriber is told\<close>

definition told_granted :: "AgpsStateMachine \<Rightarrow> subscriber \<Rightarrow> agps_out" where
  "told_granted m s =
     (case kind s of
        BIT \<Rightarrow> DataConn IF_REQUEST_SENDER_ID_GPSONE_DAEMON GPSONE_LOC_API_IF_REQUEST_SUCCESS
      | ATL \<Rightarrow> AtlOpenStatus (ID s) True (mAPN m) (mBearer m)
                (if mBackwardCompatibleMode s then AGPS_TYPE_INVALID else mType m)
      | WIFI \<Rightarrow> DataConn (senderId s) GPSONE_LOC_API_IF_REQUEST_SUCCESS)"

definition told_denied :: "AgpsStateMachine \<Rightarrow> subscriber \<Rightarrow> agps_out" where
  "told_denied m s =
     (case kind s of
        BIT \<Rightarrow> DataConn IF_REQUEST_SENDER_ID_GPSONE_DAEMON GPSONE_LOC_API_IF_FAILURE
      | ATL \<Rightarrow> AtlOpenStatus (ID s) False (mAPN m) (mBearer m)
                (if mBackwardCompatibleMode s then AGPS_TYPE_INVALID else mType m)
      | WIFI \<Rightarrow> DataConn (senderId s) GPSONE_LOC_API_IF_FAILURE)"

definition told_released :: "subscriber \<Rightarrow> agps_out" where
  "told_released s =
     (case kind s of
        BIT \<Rightarrow> DataConn IF_REQUEST_SENDER_ID_GPSONE_DAEMON GPSONE_LOC_API_IF_RELEASE_SUCCESS
      | ATL \<Rightarrow> AtlCloseStatus (ID s) True
      | WIFI \<Rightarrow> DataConn (senderId s) GPSONE_LOC_API_IF_RELEASE_SUCCESS)"

lemma told_by_status:
  "forMe s n \<Longrightarrow> rsrcStatus n = RSRC_GRANTED \<Longrightarrow> told m n s = [told_granted m s]"
  "forMe s n \<Longrightarrow> rsrcStatus n = RSRC_DENIED \<Longrightarrow> told m n s = [told_denied m s]"
  "forMe s n \<Longrightarrow> rsrcStatus n = RSRC_RELEASED \<Longrightarrow> told m n s = [told_released s]"
  "forMe s n \<Longrightarrow> rsrcStatus n = RSRC_UNSUBSCRIBE \<Longrightarrow> kind s \<noteq> WIFI \<Longrightarrow> told m n s = [told_released s]"
  by (auto simp: told_def notifyRsrcStatus_defs told_granted_def told_denied_def told_released_def
      split: subscriber_kind.split)

lemma told_group:
  assumes "\<And>s. forMe s n \<Longrightarrow> told m n s = [f s]"
  shows "concat (map (told m n) xs) = map f (filter (\<lambda>s. forMe s n) xs)"
  using assms by (induction xs) (auto simp: told_nothing takes_def)

lemma told_groups [simp]:
  "concat (map (told m (notify_group g RSRC_GRANTED d)) xs)
     = map (told_granted m) (filter (\<lambda>s. forMe s (notify_group g RSRC_GRANTED d)) xs)"
  "concat (map (told m (notify_group g RSRC_DENIED d)) xs)
     = map (told_denied m) (filter (\<lambda>s. forMe s (notify_group g RSRC_DENIED d)) xs)"
  "concat (map (told m (notify_group g RSRC_RELEASED d)) xs)
     = map told_released (filter (\<lambda>s. forMe s (notify_group g RSRC_RELEASED d)) xs)"
  by (rule told_group, simp add: told_by_status)+

lemma dispatch_enforce [simp]: "mEnforceSingleSubscriber (dispatch e m) = mEnforceSingleSubscriber m"
  by (cases "mStatePtr m"; cases e) (auto simp: dispatch_def Let_def release_done_def)

lemma exec_enforce: "mEnforceSingleSubscriber (agps_exec c m) = mEnforceSingleSubscriber m"
proof (cases c)
  case (CallEvent e)
  then show ?thesis by (cases e) simp_all
qed (auto simp: subscribeRsrc_def unsubscribeRsrc_def setAPN_def setBearer_def split: option.split)

lemma run_enforce: "mEnforceSingleSubscriber (fold agps_exec cs m) = mEnforceSingleSubscriber m"
  by (induction cs arbitrary: m) (simp_all add: exec_enforce)

lemma requests_settings [simp]:
  "requests (m\<lparr>mAPN := a, mAPNLen := l\<rparr>) = requests m" "requests (m\<lparr>mBearer := b\<rparr>) = requests m"
  "held (m\<lparr>mAPN := a, mAPNLen := l\<rparr>) = held m" "held (m\<lparr>mBearer := b\<rparr>) = held m"
  by (simp_all add: requests_def held_def)

text \<open>The request on behalf of a subscriber, and the release.\<close>

definition nif_request :: "AgpsStateMachine \<Rightarrow> subscriber \<Rightarrow> AGpsExtStatus" where
  "nif_request m s = setWifiInfo s (setIPAddresses s
     \<lparr>req_size = sizeof_AGpsExtStatus, req_type = mType m, req_status = GPS_REQUEST_AGPS_DATA_CONN,
      ipv4_addr = None, ipv6_addr = [], ssid = '''', password = ''''\<rparr>)"

definition nif_release :: "AgpsStateMachine \<Rightarrow> AGpsExtStatus" where
  "nif_release m =
     \<lparr>req_size = sizeof_AGpsExtStatus, req_type = mType m, req_status = GPS_RELEASE_AGPS_DATA_CONN,
      ipv4_addr = Some INADDR_NONE, ipv6_addr = [0], ssid = '''', password = ''''\<rparr>"

lemma messages_frame [simp]:
  "told_granted (m\<lparr>mStatePtr := x\<rparr>) = told_granted m" "told_granted (m\<lparr>mSubscribers := xs\<rparr>) = told_granted m"
  "told_granted (m\<lparr>out := w\<rparr>) = told_granted m"
  "nif_request (m\<lparr>mStatePtr := x\<rparr>) = nif_request m" "nif_request (m\<lparr>mSubscribers := xs\<rparr>) = nif_request m"
  "nif_request (m\<lparr>out := w\<rparr>) = nif_request m"
  "nif_release (m\<lparr>mStatePtr := x\<rparr>) = nif_release m" "nif_release (m\<lparr>mSubscribers := xs\<rparr>) = nif_release m"
  "nif_release (m\<lparr>out := w\<rparr>) = nif_release m"
  by (simp_all add: fun_eq_iff told_granted_def nif_request_def nif_release_def split: subscriber_kind.split)

lemma find_sub_single:
  "mSubscribers m = [t] \<Longrightarrow> find_sub n m = (if forMe t n then Some 0 else None)"
  by (simp add: find_sub_def list_search_def hasSubscriber_def)

lemma find_sub_empty: "mSubscribers m = [] \<Longrightarrow> find_sub n m = None"
  by (simp add: find_sub_def list_search_def)

lemma sendRsrcRequest_cases:
  "mSubscribers m = [t] \<Longrightarrow> \<not> isInactive t \<Longrightarrow>
     sendRsrcRequest GPS_REQUEST_AGPS_DATA_CONN m = m\<lparr>out := out m @ [Servicer (nif_request m t)]\<rparr>"
  "\<not> hasActiveSubscribers m \<Longrightarrow>
     sendRsrcRequest GPS_RELEASE_AGPS_DATA_CONN m = m\<lparr>out := out m @ [Servicer (nif_release m)]\<rparr>"
  by (auto simp: sendRsrcRequest_def find_sub_single nif_request_def nif_release_def Let_def
      hasActiveSubscribers_def)

lemma clone_told:
  assumes "wf_sub s"
  shows "told_granted m (clone s) = told_granted m s" "told_released (clone s) = told_released s"
    "nif_request m (clone s) = nif_request m s"
proof -
  have "kind s = ATL \<Longrightarrow> mBackwardCompatibleMode (clone s) = mBackwardCompatibleMode s"
    by (simp add: clone_def newATLSubscriber_def)
  with clone_facts(1) [OF assms] clone_facts(2,3) [of s] clone_wifi [OF assms]
  show "told_granted m (clone s) = told_granted m s" "told_released (clone s) = told_released s"
    "nif_request m (clone s) = nif_request m s"
    by (auto simp: told_granted_def told_released_def nif_request_def setWifiInfo_def setIPAddresses_def
        split: subscriber_kind.split)
qed

section \<open>Correctness of the state machine\<close>

text \<open>C6: on the subscriber list as \<open>linked_list.c\<close> keeps it, the loop of \<open>notifySubscribers\<close> that
  searches and deletes ends, hands each subscriber that takes the notification its message exactly
  once and in the order of the list, and leaves exactly the other subscribers in the list.\<close>
theorem notifySubscribers_on_list:
  assumes "ll_rel mem \<sigma>" and "\<sigma> l = Some (map (\<lambda>s. (s, df)) (mSubscribers m))" and "postNotifyDelete n"
  shows "\<exists>mem'. drain_loop (linked_list_search l False (Some (notifySubscriber m n)) True) (out m) mem
        = Some (out (notifySubscribers n m), mem')
    \<and> ll_rel mem' (\<sigma>(l \<mapsto> map (\<lambda>s. (s, df)) (mSubscribers (notifySubscribers n m))))
    \<and> mSubscribers (notifySubscribers n m) = filter (\<lambda>s. \<not> takes n s) (mSubscribers m)
    \<and> out (notifySubscribers n m) = out m @ concat (map (told m n) (filter (takes n) (mSubscribers m)))"
proof -
  let ?pair = "\<lambda>s. (s, df)"
  obtain subs w where d: "list_drain (notifySubscriber m n) (mSubscribers m) (out m) = (subs, w)" by force
  then have eq: "mSubscribers (notifySubscribers n m) = subs" "out (notifySubscribers n m) = w"
    using assms(3) by (simp_all add: notifySubscribers_def)
  have "(notifySubscriber m n \<circ> fst) \<circ> ?pair = notifySubscriber m n" by auto
  with list_drain_map [of "notifySubscriber m n \<circ> fst" ?pair "mSubscribers m" "out m"] d
  have "list_drain (notifySubscriber m n \<circ> fst) (map ?pair (mSubscribers m)) (out m) = (map ?pair subs, w)" by simp
  from ls.drain_run [OF assms(1,2) this] eq show ?thesis
    using assms(3) by (auto simp: notifySubscribers_delete concat_told_filter)
qed



text \<open>When the interface is granted every active subscriber is told so exactly once and all stay
  subscribed; when it is denied every subscriber is told so exactly once and none stays.\<close>
theorem agps_grant_and_deny:
  assumes "mStatePtr m = AgpsPendingState"
  shows "onRsrcEvent RSRC_GRANTED m = m\<lparr>mStatePtr := AgpsAcquiredState,
      out := out m @ map (told_granted m) (filter (\<lambda>s. \<not> isInactive s) (mSubscribers m))\<rparr>
    \<and> onRsrcEvent RSRC_DENIED m = m\<lparr>mStatePtr := AgpsReleasedState, mSubscribers := [],
      out := out m @ map (told_denied m) (mSubscribers m)\<rparr>"
  using assms by (simp_all add: dispatch_def notifySubscribers_keep notifySubscribers_delete)


text \<open>One client's session on an idle machine: it subscribes, is granted the interface and
  unsubscribes. The service gets one request with the client's data and one release, the client one
  grant and one release notice, and the machine is idle again. A WIFI client is told of the release
  only when the service has confirmed it, the others at once.\<close>
theorem agps_session:
  assumes "mStatePtr m = AgpsReleasedState" and "mSubscribers m = []" and "wf_sub s"
  shows "fold agps_exec ([CallSubscribe s, CallEvent RSRC_GRANTED, CallUnsubscribe s]
      @ (if kind s = WIFI then [CallEvent RSRC_RELEASED] else [])) m =
    m\<lparr>out := out m @ [Servicer (nif_request m s), told_granted m s]
        @ (if kind s = WIFI then [Servicer (nif_release m), told_released s]
           else [told_released s, Servicer (nif_release m)])\<rparr>"
proof -
  note c = clone_facts(4) [of s] clone_facts(3) [of s] clone_told [OF assms(3)] equals_clone [OF assms(3)]
  let ?c = "clone s"
  let ?m1 = "m\<lparr>mStatePtr := AgpsPendingState, mSubscribers := [?c], out := out m @ [Servicer (nif_request m s)]\<rparr>"
  let ?m2 = "m\<lparr>mStatePtr := AgpsAcquiredState, mSubscribers := [?c],
               out := out m @ [Servicer (nif_request m s), told_granted m s]\<rparr>"
  have 1: "agps_exec (CallSubscribe s) m = ?m1"
    using assms(1,2) c
    by (simp add: subscribeRsrc_def hasSubscribers_def dispatch_def addSubscriber_def find_sub_empty
        sendRsrcRequest_cases)
  have 2: "agps_exec (CallEvent RSRC_GRANTED) ?m1 = ?m2"
    using c by (simp add: dispatch_def notifySubscribers_keep told_by_status)
  have refl: "equals ?c s" using equals_clone [OF assms(3), of ?c] by simp
  then have 3: "agps_exec (CallUnsubscribe s) ?m2 = dispatch (Unsubscribe (InList 0)) ?m2"
    by (simp add: unsubscribeRsrc_def find_sub_single)
  show ?thesis
  proof (cases "kind s = WIFI")
    case True
    let ?m3 = "m\<lparr>mStatePtr := AgpsReleasingState, mSubscribers := [setInactive ?c],
               out := out m @ [Servicer (nif_request m s), told_granted m s, Servicer (nif_release m)]\<rparr>"
    have "dispatch (Unsubscribe (InList 0)) ?m2 = ?m3"
      using True c by (simp add: dispatch_def close_subscriber_def waitForCloseComplete_def hasSubscribers_def
          hasActiveSubscribers_iff sendRsrcRequest_cases)
    moreover have "told_released (setInactive ?c) = told_released s"
      using True c(2) clone_wifi(3) [OF assms(3) True] by (simp add: told_released_def setInactive_def)
    then have "agps_exec (CallEvent RSRC_RELEASED) ?m3 = m\<lparr>out := out m @
        [Servicer (nif_request m s), told_granted m s, Servicer (nif_release m), told_released s]\<rparr>"
      using True c assms(1,2) by (simp add: dispatch_def release_done_def notifySubscribers_delete
          hasSubscribers_def told_by_status)
    ultimately show ?thesis using 1 2 3 True by simp
  next
    case False
    have "dispatch (Unsubscribe (InList 0)) ?m2 = m\<lparr>out := out m @
        [Servicer (nif_request m s), told_granted m s, told_released s, Servicer (nif_release m)]\<rparr>"
      using False c assms(1,2) refl
      by (simp add: dispatch_def close_subscriber_def waitForCloseComplete_def hasSubscribers_def
          hasActiveSubscribers_iff sendRsrcRequest_cases notifySubscribers_delete told_by_status)
    then show ?thesis using 1 2 3 False by simp
  qed
qed

text \<open>\<open>dropAllSubscribers\<close> empties the list and leaves the state: a client that subscribes next
  is told that it has the interface although the service is not asked for it again.\<close>

lemma dropAllSubscribers_stale:
  fixes s :: subscriber
  assumes "mStatePtr m = AgpsAcquiredState"
  defines "m' \<equiv> subscribeRsrc s (dropAllSubscribers m)"
  shows "mStatePtr m' = AgpsAcquiredState" "out m' = out m @ [told_granted m s]" "requests m' = requests m"
proof -
  have "out m' = out m @ told (m\<lparr>mSubscribers := []\<rparr>) (notify_one s RSRC_GRANTED False) s"
    and "requests m' = requests m" and "mStatePtr m' = AgpsAcquiredState"
    using assms by (simp_all add: dropAllSubscribers_def subscribeRsrc_def hasSubscribers_def dispatch_def
        notify_directly_def told_def requests_def
        request_of_told [of "m\<lparr>mSubscribers := []\<rparr>" "notify_one s RSRC_GRANTED False" s, unfolded told_def])
  then show "mStatePtr m' = AgpsAcquiredState" "out m' = out m @ [told_granted m s]" "requests m' = requests m"
    by (simp_all add: told_by_status)
qed

text \<open>A request for a WIFI client leaves both addresses uninitialised.\<close>

lemma wifi_request_uninitialised:
  "kind s = WIFI \<Longrightarrow> ipv4_addr (nif_request m s) = None \<and> ipv6_addr (nif_request m s) = []"
  by (simp add: nif_request_def setIPAddresses_def setWifiInfo_def)

section \<open>Witnesses\<close>

definition atl5 :: subscriber where "atl5 = newATLSubscriber [] 5 False"
definition wifi1 :: subscriber where
  "wifi1 = newWIFISubscriber [] (Some ''home'') (Some ''secret'') IF_REQUEST_SENDER_ID_MSAPM"
definition supl :: AgpsStateMachine where "supl = newAgpsStateMachine AGPS_TYPE_SUPL False AGPS_APN_BEARER_IPV4"

lemma wf_examples: "wf_sub atl5" "wf_sub wifi1"
  by (simp_all add: atl5_def wifi1_def)

theorem notifySubscribers_on_list_witness:
  "\<exists>mem'. drain_loop (linked_list_search 1 False (Some (notifySubscriber (supl\<lparr>mSubscribers := [atl5]\<rparr>)
        (notify_group BROADCAST_ALL RSRC_DENIED True))) True) [] \<lparr>elems = [2 \<mapsto> \<lparr>el_next = NULL, el_prev = NULL,
          data_ptr = atl5, dealloc_func = Some ()\<rparr>], lists = [1 \<mapsto> \<lparr>p_head = 2, p_tail = 2\<rparr>], brk = 3, calls = []\<rparr>
      = Some ([AtlOpenStatus 5 False None AGPS_APN_BEARER_IPV4 AGPS_TYPE_SUPL], mem') \<and> ll_rel mem' [1 \<mapsto> []]"
proof -
  let ?mem = "\<lparr>elems = [2 \<mapsto> \<lparr>el_next = NULL, el_prev = NULL, data_ptr = atl5, dealloc_func = Some ()\<rparr>],
              lists = [1 \<mapsto> \<lparr>p_head = 2, p_tail = 2\<rparr>], brk = 3, calls = []\<rparr> :: (subscriber, unit) ll_mem"
  have "mem_inv ?mem [1 \<mapsto> [2]]" by (auto simp: mem_inv_def split: if_splits)
  moreover have "[1 \<mapsto> [(atl5, Some ())]] = ll_abs ?mem [1 \<mapsto> [2]]" by (auto simp: ll_abs_def vals_def fun_eq_iff)
  ultimately have "ll_rel ?mem [1 \<mapsto> [(atl5, Some ())]]" unfolding ll_rel_def by blast
  from notifySubscribers_on_list [OF this, of 1 "Some ()" "supl\<lparr>mSubscribers := [atl5]\<rparr>" "notify_group BROADCAST_ALL RSRC_DENIED True"]
  show ?thesis
    by (auto simp: told_denied_def supl_def atl5_def newAgpsStateMachine_def newATLSubscriber_def told_by_status)
qed



theorem agps_grant_and_deny_witness:
  "out (onRsrcEvent RSRC_GRANTED (supl\<lparr>mStatePtr := AgpsPendingState, mSubscribers := [wifi1]\<rparr>))
     = [DataConn IF_REQUEST_SENDER_ID_MSAPM GPSONE_LOC_API_IF_REQUEST_SUCCESS]"
  using agps_grant_and_deny [of "supl\<lparr>mStatePtr := AgpsPendingState, mSubscribers := [wifi1]\<rparr>"]
  by (simp add: supl_def wifi1_def newAgpsStateMachine_def newWIFISubscriber_def told_granted_def isInactive_def)

theorem agps_session_witness:
  "requests (fold agps_exec ([CallSubscribe wifi1, CallEvent RSRC_GRANTED, CallUnsubscribe wifi1]
      @ (if kind wifi1 = WIFI then [CallEvent RSRC_RELEASED] else [])) supl)
     = [GPS_REQUEST_AGPS_DATA_CONN, GPS_RELEASE_AGPS_DATA_CONN]"
  using agps_session [of supl wifi1] wf_examples(2)
  by (simp add: supl_def wifi1_def newAgpsStateMachine_def newWIFISubscriber_def requests_def nif_request_def
      nif_release_def told_granted_def told_released_def)

end
