(* ===== verification/Sysfs.thy ===== *)
theory Sysfs
  imports Prelude "HOL-Library.Char_ord"
begin

text \<open>
  What the power and lights modules use of the system: opening, reading and writing attribute
  files, and \<open>printf\<close> of integers.

  \<^item> The operating system is a parameter, the record \<open>os\<close>: its answers may depend on everything
    written so far. The state \<open>files\<close> is the list of the accepted writes, oldest first.
  \<^item> \<open>dec\<close> is the conversion \<open>%d\<close>.
\<close>

section \<open>Files\<close>

type_synonym files = "(string \<times> string) list"

record os =
  os_open :: "files \<Rightarrow> string \<Rightarrow> int"
  os_write :: "files \<Rightarrow> string \<Rightarrow> string \<Rightarrow> bool"
  os_read :: "files \<Rightarrow> string \<Rightarrow> string option"
  os_access :: "files \<Rightarrow> string \<Rightarrow> bool"
  os_errno :: int

definition put_file :: "string \<Rightarrow> string \<Rightarrow> files \<Rightarrow> files" where
  "put_file path data fs = fs @ [(path, data)]"

text \<open>The value an attribute was last given.\<close>

definition last_write :: "files \<Rightarrow> string \<Rightarrow> string option" where
  "last_write fs = map_of (rev fs)"

lemma last_write_simps [simp]:
  "last_write [] p = None"
  "last_write (put_file q d fs) p = (if p = q then Some d else last_write fs p)"
  by (simp_all add: last_write_def put_file_def)

lemma last_write_append:
  "last_write (fs @ gs) p = (case last_write gs p of None \<Rightarrow> last_write fs p | Some d \<Rightarrow> Some d)"
  by (simp add: last_write_def map_add_def split: option.split)

text \<open>A system on which every open and every write succeeds, with the given contents to read.\<close>

definition willing :: "os \<Rightarrow> bool" where
  "willing os \<longleftrightarrow> (\<forall>fs p. 0 \<le> os_open os fs p) \<and> (\<forall>fs p d. os_write os fs p d)"

section \<open>Decimal numbers\<close>

text \<open>\<open>dec_pos\<close> prints a number that is not negative.\<close>

function dec_pos :: "int \<Rightarrow> string" where
  "dec_pos n = (if n < 10 then [char_of (48 + n)] else dec_pos (n div 10) @ [char_of (48 + n mod 10)])"
  by pat_completeness auto
termination by (relation "measure nat") auto

declare dec_pos.simps [simp del]

definition dec :: "int \<Rightarrow> string" where
  "dec v = (if v < 0 then CHR ''-'' # dec_pos (- v) else dec_pos v)"

definition undec_pos :: "string \<Rightarrow> int" where
  "undec_pos s = fold (\<lambda>c n. 10 * n + (of_char c - 48)) s 0"

definition undec :: "string \<Rightarrow> int" where
  "undec s = (case s of [] \<Rightarrow> 0 | c # cs \<Rightarrow> if c = CHR ''-'' then - undec_pos cs else undec_pos s)"

definition is_digit :: "char \<Rightarrow> bool" where
  "is_digit c \<longleftrightarrow> 48 \<le> (of_char c :: int) \<and> (of_char c :: int) \<le> 57"

lemma of_char_digit: "0 \<le> n \<Longrightarrow> n < 10 \<Longrightarrow> (of_char (char_of (48 + n :: int)) :: int) = 48 + n"
  by (simp add: of_char_of)

lemma undec_dec_pos [simp]: "0 \<le> n \<Longrightarrow> undec_pos (dec_pos n) = n"
proof (induction n rule: dec_pos.induct)
  case (1 n)
  show ?case
  proof (cases "n < 10")
    case True
    then show ?thesis using "1.prems" by (simp add: undec_pos_def dec_pos.simps [of n] of_char_digit)
  next
    case False
    moreover have "undec_pos (s @ [c]) = 10 * undec_pos s + (of_char c - 48)" for s c
      by (simp add: undec_pos_def)
    ultimately show ?thesis using 1 by (simp add: dec_pos.simps [of n] of_char_digit)
  qed
qed

lemma dec_pos_digits: "0 \<le> n \<Longrightarrow> \<forall>c \<in> set (dec_pos n). is_digit c"
proof (induction n rule: dec_pos.induct)
  case (1 n)
  then show ?case
    using of_char_digit [of n] of_char_digit [of "n mod 10"]
    by (cases "n < 10") (auto simp: dec_pos.simps [of n] is_digit_def)
qed

lemma dec_pos_nonempty: "dec_pos n \<noteq> []"
  by (simp add: dec_pos.simps [of n])

lemma undec_dec [simp]: "undec (dec v) = v"
proof (cases "v < 0")
  case True
  then show ?thesis by (simp add: dec_def undec_def)
next
  case False
  obtain c cs where c: "dec_pos v = c # cs" using dec_pos_nonempty by (metis neq_Nil_conv)
  with dec_pos_digits [of v] False have "is_digit c" by simp
  then have "c \<noteq> CHR ''-''" by (auto simp: is_digit_def)
  moreover have "undec_pos (c # cs) = v" using c False by (metis undec_dec_pos not_less)
  ultimately show ?thesis using c False by (simp add: dec_def undec_def)
qed

lemma length_dec_pos: "n < 10 ^ Suc k \<Longrightarrow> length (dec_pos n) \<le> Suc k"
proof (induction k arbitrary: n)
  case 0
  then show ?case by (simp add: dec_pos.simps [of n])
next
  case (Suc k)
  then have "n div 10 < 10 ^ Suc k" by simp
  from Suc.IH [OF this] show ?case by (cases "n < 10") (simp_all add: dec_pos.simps [of n])
qed

text \<open>A 32-bit integer needs at most eleven characters.\<close>

lemma length_dec:
  assumes "- (2 ^ 31) \<le> v" and "v < 2 ^ 31"
  shows "length (dec v) \<le> 11"
proof -
  have "\<bar>v\<bar> < 10 ^ Suc 9" using assms by simp
  from length_dec_pos [OF this] show ?thesis by (cases "v < 0") (simp_all add: dec_def)
qed

end
