(* ===== verification/Power_Hal.thy ===== *)
theory Power_Hal
  imports Sysfs
begin

text \<open>
  The power module, \<open>power/power.c\<close> and \<open>power/power.h\<close>: it writes the settings of a power profile
  into the attribute files of the active frequency governor and pulses the touch boost.

  \<^item> The three tables of \<open>power.h\<close> are lists in the order of the profile numbers; a field of a struct
    carries the prefix \<open>od\<close>, \<open>ia\<close> or \<open>alt\<close> of its table.
  \<^item> \<open>power_state\<close> holds the static variables of \<open>power.c\<close> and the files; the system is \<open>os\<close>.
  \<^item> The calls of a branch of \<open>set_power_profile\<close>, whose results the code ignores, are a list of
    \<open>attr_write\<close> in the order of the code.
\<close>

section \<open>The profiles\<close>

definition PROFILE_POWER_SAVE :: int where "PROFILE_POWER_SAVE = 0"
definition PROFILE_BALANCED :: int where "PROFILE_BALANCED = 1"
definition PROFILE_HIGH_PERFORMANCE :: int where "PROFILE_HIGH_PERFORMANCE = 2"
definition PROFILE_BIAS_POWER :: int where "PROFILE_BIAS_POWER = 3"
definition PROFILE_BIAS_PERFORMANCE :: int where "PROFILE_BIAS_PERFORMANCE = 4"
definition PROFILE_MAX :: int where "PROFILE_MAX = 5"

lemmas profile_defs = PROFILE_POWER_SAVE_def PROFILE_BALANCED_def PROFILE_HIGH_PERFORMANCE_def
  PROFILE_BIAS_POWER_def PROFILE_BIAS_PERFORMANCE_def PROFILE_MAX_def

record ondemand_power_profile =
  od_input_boost_on :: int
  od_up_threshold :: int
  od_io_is_busy :: int
  od_sampling_down_factor :: int
  od_down_differential :: int
  od_up_threshold_multi_core :: int
  od_down_differential_multi_core :: int
  od_optimal_freq :: int
  od_sync_freq :: int
  od_up_threshold_any_cpu_load :: int
  od_sampling_rate :: int
  od_scaling_max_freq :: int
  od_scaling_min_freq :: int
  od_input_boost_freqs :: string
  od_gpu_governor :: string

definition ondemand_profiles :: "ondemand_power_profile list" where
  "ondemand_profiles = [
    \<lparr>od_input_boost_on = 0, od_up_threshold = 90, od_io_is_busy = 0,
      od_sampling_down_factor = 2, od_down_differential = 10, od_up_threshold_multi_core = 70,
      od_down_differential_multi_core = 3, od_optimal_freq = 486000, od_sync_freq = 540000,
      od_up_threshold_any_cpu_load = 80, od_sampling_rate = 50000,
      od_scaling_max_freq = 1026000, od_scaling_min_freq = 192000,
      od_input_boost_freqs = ''756000 540000'', od_gpu_governor = ''ondemand''\<rparr>,
    \<lparr>od_input_boost_on = 1, od_up_threshold = 90, od_io_is_busy = 1,
      od_sampling_down_factor = 2, od_down_differential = 10, od_up_threshold_multi_core = 70,
      od_down_differential_multi_core = 3, od_optimal_freq = 918000, od_sync_freq = 1026000,
      od_up_threshold_any_cpu_load = 80, od_sampling_rate = 50000,
      od_scaling_max_freq = 1512000, od_scaling_min_freq = 384000,
      od_input_boost_freqs = ''1242000 1026000'', od_gpu_governor = ''ondemand''\<rparr>,
    \<lparr>od_input_boost_on = 0, od_up_threshold = 90, od_io_is_busy = 1,
      od_sampling_down_factor = 2, od_down_differential = 10, od_up_threshold_multi_core = 70,
      od_down_differential_multi_core = 3, od_optimal_freq = 1512000, od_sync_freq = 1512000,
      od_up_threshold_any_cpu_load = 80, od_sampling_rate = 50000,
      od_scaling_max_freq = 1512000, od_scaling_min_freq = 1512000,
      od_input_boost_freqs = ''1512000 1512000'', od_gpu_governor = ''performance''\<rparr>,
    \<lparr>od_input_boost_on = 1, od_up_threshold = 90, od_io_is_busy = 1,
      od_sampling_down_factor = 2, od_down_differential = 10, od_up_threshold_multi_core = 70,
      od_down_differential_multi_core = 3, od_optimal_freq = 918000, od_sync_freq = 1026000,
      od_up_threshold_any_cpu_load = 80, od_sampling_rate = 50000,
      od_scaling_max_freq = 1026000, od_scaling_min_freq = 192000,
      od_input_boost_freqs = ''972000 864000'', od_gpu_governor = ''ondemand''\<rparr>,
    \<lparr>od_input_boost_on = 1, od_up_threshold = 90, od_io_is_busy = 1,
      od_sampling_down_factor = 2, od_down_differential = 10, od_up_threshold_multi_core = 70,
      od_down_differential_multi_core = 3, od_optimal_freq = 918000, od_sync_freq = 1026000,
      od_up_threshold_any_cpu_load = 80, od_sampling_rate = 50000,
      od_scaling_max_freq = 1512000, od_scaling_min_freq = 756000,
      od_input_boost_freqs = ''1242000 1026000'', od_gpu_governor = ''ondemand''\<rparr>]"

record interactive_power_profile =
  ia_input_boost_on :: int
  ia_boost :: int
  ia_boostpulse_duration :: int
  ia_go_hispeed_load :: int
  ia_hispeed_freq :: int
  ia_io_is_busy :: int
  ia_min_sample_time :: int
  ia_sampling_down_factor :: int
  ia_target_loads :: string
  ia_scaling_max_freq :: int
  ia_scaling_min_freq :: int
  ia_input_boost_freqs :: string
  ia_gpu_governor :: string

definition interactive_profiles :: "interactive_power_profile list" where
  "interactive_profiles = [
    \<lparr>ia_input_boost_on = 1, ia_boost = 0, ia_boostpulse_duration = 0,
      ia_go_hispeed_load = 90, ia_hispeed_freq = 486000, ia_io_is_busy = 0,
      ia_min_sample_time = 60000, ia_sampling_down_factor = 100000, ia_target_loads = ''95'',
      ia_scaling_max_freq = 1026000, ia_scaling_min_freq = 192000,
      ia_input_boost_freqs = ''756000 540000'', ia_gpu_governor = ''ondemand''\<rparr>,
    \<lparr>ia_input_boost_on = 1, ia_boost = 0, ia_boostpulse_duration = 80000,
      ia_go_hispeed_load = 90, ia_hispeed_freq = 918000, ia_io_is_busy = 1,
      ia_min_sample_time = 80000, ia_sampling_down_factor = 100000, ia_target_loads = ''90'',
      ia_scaling_max_freq = 1512000, ia_scaling_min_freq = 384000,
      ia_input_boost_freqs = ''1242000 1026000'', ia_gpu_governor = ''ondemand''\<rparr>,
    \<lparr>ia_input_boost_on = 0, ia_boost = 1, ia_boostpulse_duration = 0,
      ia_go_hispeed_load = 50, ia_hispeed_freq = 1242000, ia_io_is_busy = 1,
      ia_min_sample_time = 60000, ia_sampling_down_factor = 100000, ia_target_loads = ''80'',
      ia_scaling_max_freq = 1512000, ia_scaling_min_freq = 384000,
      ia_input_boost_freqs = ''1512000 1512000'', ia_gpu_governor = ''performance''\<rparr>,
    \<lparr>ia_input_boost_on = 1, ia_boost = 0, ia_boostpulse_duration = 0,
      ia_go_hispeed_load = 90, ia_hispeed_freq = 486000, ia_io_is_busy = 0,
      ia_min_sample_time = 60000, ia_sampling_down_factor = 100000, ia_target_loads = ''95'',
      ia_scaling_max_freq = 1026000, ia_scaling_min_freq = 192000,
      ia_input_boost_freqs = ''972000 864000'', ia_gpu_governor = ''ondemand''\<rparr>,
    \<lparr>ia_input_boost_on = 1, ia_boost = 0, ia_boostpulse_duration = 80000,
      ia_go_hispeed_load = 90, ia_hispeed_freq = 918000, ia_io_is_busy = 1,
      ia_min_sample_time = 80000, ia_sampling_down_factor = 100000, ia_target_loads = ''90'',
      ia_scaling_max_freq = 1512000, ia_scaling_min_freq = 756000,
      ia_input_boost_freqs = ''1242000 1026000'', ia_gpu_governor = ''ondemand''\<rparr>]"

record alt_power_profile =
  alt_input_boost_on :: int
  alt_scaling_max_freq :: int
  alt_scaling_min_freq :: int
  alt_input_boost_freqs :: string
  alt_gpu_governor :: string

definition alt_profiles :: "alt_power_profile list" where
  "alt_profiles = [
    \<lparr>alt_input_boost_on = 1, alt_scaling_max_freq = 1026000,
      alt_scaling_min_freq = 192000, alt_input_boost_freqs = ''756000 540000'',
      alt_gpu_governor = ''ondemand''\<rparr>,
    \<lparr>alt_input_boost_on = 1, alt_scaling_max_freq = 1512000,
      alt_scaling_min_freq = 384000, alt_input_boost_freqs = ''1242000 1026000'',
      alt_gpu_governor = ''ondemand''\<rparr>,
    \<lparr>alt_input_boost_on = 0, alt_scaling_max_freq = 1512000,
      alt_scaling_min_freq = 384000, alt_input_boost_freqs = ''1512000 1512000'',
      alt_gpu_governor = ''performance''\<rparr>,
    \<lparr>alt_input_boost_on = 1, alt_scaling_max_freq = 1026000,
      alt_scaling_min_freq = 192000, alt_input_boost_freqs = ''972000 864000'',
      alt_gpu_governor = ''ondemand''\<rparr>,
    \<lparr>alt_input_boost_on = 1, alt_scaling_max_freq = 1512000,
      alt_scaling_min_freq = 756000, alt_input_boost_freqs = ''1242000 1026000'',
      alt_gpu_governor = ''ondemand''\<rparr>]"

section \<open>The functions of power.c\<close>

definition CPUFREQ_PATH :: string where "CPUFREQ_PATH = ''/sys/devices/system/cpu/cpu0/cpufreq/''"
definition SCALING_GOVERNOR_PATH :: string where
  "SCALING_GOVERNOR_PATH = ''/sys/devices/system/cpu/cpu0/cpufreq/scaling_governor''"
definition INTERACTIVE_PATH :: string where "INTERACTIVE_PATH = ''/sys/devices/system/cpu/cpufreq/interactive/''"
definition ONDEMAND_PATH :: string where "ONDEMAND_PATH = ''/sys/devices/system/cpu/cpufreq/ondemand/''"
definition GPU_GOVERNOR_PATH :: string where
  "GPU_GOVERNOR_PATH = ''/sys/class/kgsl/kgsl-3d0/pwrscale/trustzone/governor''"
definition INPUT_BOOST_PATH :: string where "INPUT_BOOST_PATH = ''/sys/kernel/cpu_input_boost/''"

lemmas path_defs = CPUFREQ_PATH_def SCALING_GOVERNOR_PATH_def INTERACTIVE_PATH_def ONDEMAND_PATH_def
  GPU_GOVERNOR_PATH_def INPUT_BOOST_PATH_def

record power_state =
  boostpulse_fd :: int
  current_power_profile :: int
  requested_power_profile :: int
  governor :: string
  sysfs :: files

definition power_start :: power_state where
  "power_start = \<lparr>boostpulse_fd = - 1, current_power_profile = - 1, requested_power_profile = - 1,
                  governor = [], sysfs = []\<rparr>"

text \<open>\<open>sysfs_read\<close> fills a buffer of \<open>num_bytes\<close>; the buffer is read as a string afterwards.\<close>

definition sysfs_read :: "os \<Rightarrow> string \<Rightarrow> string \<Rightarrow> nat \<Rightarrow> files \<Rightarrow> int \<times> string" where
  "sysfs_read os path s num_bytes fs =
     (if os_open os fs path < 0 then (- 1, s)
      else case os_read os fs path of
        None \<Rightarrow> (- 1, s)
      | Some content \<Rightarrow> (0, takeWhile (\<lambda>c. c \<noteq> CHR 0x00) (take (num_bytes - 1) content)))"

definition sysfs_write_str :: "os \<Rightarrow> string \<Rightarrow> string \<Rightarrow> files \<Rightarrow> int \<times> files" where
  "sysfs_write_str os path s fs =
     (if os_open os fs path < 0 then (- 1, fs)
      else if os_write os fs path s then (0, put_file path s fs) else (- 1, fs))"

definition sysfs_write_int :: "os \<Rightarrow> string \<Rightarrow> int \<Rightarrow> files \<Rightarrow> int \<times> files" where
  "sysfs_write_int os path value fs = sysfs_write_str os path (take (80 - 1) (dec value)) fs"

text \<open>The loop that strips the line end.\<close>

function strip_newlines :: "string \<Rightarrow> string" where
  "strip_newlines s =
     (if s \<noteq> [] \<and> (last s = CHR 0x0A \<or> last s = CHR 0x0D) then strip_newlines (butlast s) else s)"
  by pat_completeness auto
termination by (relation "measure length") auto

declare strip_newlines.simps [simp del]

definition get_scaling_governor :: "os \<Rightarrow> power_state \<Rightarrow> int \<times> power_state" where
  "get_scaling_governor os st =
     (case sysfs_read os SCALING_GOVERNOR_PATH (governor st) 20 (sysfs st) of (ret, s) \<Rightarrow>
        if ret = - 1 then (- 1, st\<lparr>governor := s\<rparr>) else (0, st\<lparr>governor := strip_newlines s\<rparr>))"

definition is_profile_valid :: "int \<Rightarrow> bool" where
  "is_profile_valid profile \<longleftrightarrow> profile \<ge> 0 \<and> profile < PROFILE_MAX"

definition boostpulse_open :: "os \<Rightarrow> power_state \<Rightarrow> int \<times> power_state" where
  "boostpulse_open os st =
     (let st = (if boostpulse_fd st < 0
                then st\<lparr>boostpulse_fd := os_open os (sysfs st) (INTERACTIVE_PATH @ ''boostpulse'')\<rparr> else st)
      in (boostpulse_fd st, st))"

datatype attr_write = WInt string int | WStr string string

fun run_write :: "os \<Rightarrow> attr_write \<Rightarrow> files \<Rightarrow> files" where
  "run_write os (WInt path v) fs = snd (sysfs_write_int os path v fs)"
| "run_write os (WStr path s) fs = snd (sysfs_write_str os path s fs)"

definition run_writes :: "os \<Rightarrow> attr_write list \<Rightarrow> power_state \<Rightarrow> power_state" where
  "run_writes os ws st = st\<lparr>sysfs := fold (run_write os) ws (sysfs st)\<rparr>"

definition hispeed_writes :: "int \<Rightarrow> attr_write list" where
  "hispeed_writes profile =
     (let p = interactive_profiles ! nat profile in
      [WInt (INTERACTIVE_PATH @ ''hispeed_freq'') (ia_hispeed_freq p),
       WInt (INTERACTIVE_PATH @ ''go_hispeed_load'') (ia_go_hispeed_load p),
       WStr (INTERACTIVE_PATH @ ''target_loads'') (ia_target_loads p)])"

definition power_set_interactive :: "os \<Rightarrow> int \<Rightarrow> power_state \<Rightarrow> power_state" where
  "power_set_interactive os on st =
     (if \<not> is_profile_valid (current_power_profile st) then st
      else run_writes os (hispeed_writes (current_power_profile st)) st)"

definition ondemand_writes :: "int \<Rightarrow> attr_write list" where
  "ondemand_writes profile =
     (let p = ondemand_profiles ! nat profile in
      [WInt (INPUT_BOOST_PATH @ ''enabled'') (od_input_boost_on p),
       WInt (ONDEMAND_PATH @ ''up_threshold'') (od_up_threshold p),
       WInt (ONDEMAND_PATH @ ''io_is_busy'') (od_io_is_busy p),
       WInt (ONDEMAND_PATH @ ''sampling_down_factor'') (od_sampling_down_factor p),
       WInt (ONDEMAND_PATH @ ''down_differential'') (od_down_differential p),
       WInt (ONDEMAND_PATH @ ''up_threshold_multi_core'') (od_up_threshold_multi_core p),
       WInt (ONDEMAND_PATH @ ''down_differential_multi_core'') (od_down_differential_multi_core p),
       WInt (ONDEMAND_PATH @ ''optimal_freq'') (od_optimal_freq p),
       WInt (ONDEMAND_PATH @ ''sync_freq'') (od_sync_freq p),
       WInt (ONDEMAND_PATH @ ''up_threshold_any_cpu_load'') (od_up_threshold_any_cpu_load p),
       WInt (ONDEMAND_PATH @ ''sampling_rate'') (od_sampling_rate p),
       WInt (CPUFREQ_PATH @ ''scaling_max_freq'') (od_scaling_max_freq p),
       WInt (CPUFREQ_PATH @ ''scaling_min_freq'') (od_scaling_min_freq p),
       WStr (INPUT_BOOST_PATH @ ''ib_freqs'') (od_input_boost_freqs p),
       WStr GPU_GOVERNOR_PATH (od_gpu_governor p)])"

definition interactive_writes :: "int \<Rightarrow> attr_write list" where
  "interactive_writes profile =
     (let p = interactive_profiles ! nat profile in
      [WInt INPUT_BOOST_PATH (ia_input_boost_on p),
       WInt (INTERACTIVE_PATH @ ''boost'') (ia_boost p),
       WInt (INTERACTIVE_PATH @ ''boostpulse_duration'') (ia_boostpulse_duration p),
       WInt (INTERACTIVE_PATH @ ''go_hispeed_load'') (ia_go_hispeed_load p),
       WInt (INTERACTIVE_PATH @ ''hispeed_freq'') (ia_hispeed_freq p),
       WInt (INTERACTIVE_PATH @ ''io_is_busy'') (ia_io_is_busy p),
       WInt (INTERACTIVE_PATH @ ''min_sample_time'') (ia_min_sample_time p),
       WInt (INTERACTIVE_PATH @ ''sampling_down_factor'') (ia_sampling_down_factor p),
       WStr (INTERACTIVE_PATH @ ''target_loads'') (ia_target_loads p),
       WInt (CPUFREQ_PATH @ ''scaling_max_freq'') (ia_scaling_max_freq p),
       WInt (CPUFREQ_PATH @ ''scaling_min_freq'') (ia_scaling_min_freq p),
       WStr (INPUT_BOOST_PATH @ ''ib_freqs'') (ia_input_boost_freqs p),
       WStr GPU_GOVERNOR_PATH (ia_gpu_governor p)])"

definition alt_writes :: "int \<Rightarrow> attr_write list" where
  "alt_writes profile =
     (let p = alt_profiles ! nat profile in
      [WInt INPUT_BOOST_PATH (alt_input_boost_on p),
       WInt (CPUFREQ_PATH @ ''scaling_max_freq'') (alt_scaling_max_freq p),
       WInt (CPUFREQ_PATH @ ''scaling_min_freq'') (alt_scaling_min_freq p),
       WStr (INPUT_BOOST_PATH @ ''ib_freqs'') (alt_input_boost_freqs p),
       WStr GPU_GOVERNOR_PATH (alt_gpu_governor p)])"

text \<open>\<open>strncmp(governor, name, n) == 0\<close> for a name of \<open>n\<close> characters is a comparison of prefixes.\<close>

definition governor_writes :: "string \<Rightarrow> int \<Rightarrow> attr_write list" where
  "governor_writes gov profile =
     (if take 8 gov = ''ondemand'' then ondemand_writes profile
      else if take 11 gov = ''interactive'' then interactive_writes profile
      else alt_writes profile)"

definition set_power_profile :: "os \<Rightarrow> int \<Rightarrow> power_state \<Rightarrow> power_state" where
  "set_power_profile os profile st =
     (if \<not> is_profile_valid profile then st
      else if profile = current_power_profile st then st
      else case get_scaling_governor os st of (ret, st) \<Rightarrow>
        let st = (if ret < 0 then st else run_writes os (governor_writes (governor st) profile) st)
        in st\<lparr>current_power_profile := profile\<rparr>)"

datatype power_hint_t =
  POWER_HINT_INTERACTION | POWER_HINT_SET_PROFILE int | POWER_HINT_LOW_POWER | OtherHint

text \<open>\<open>junk\<close> are the 78 bytes of the stack buffer behind the string \<open>1\<close> that the write sends along.\<close>

fun power_hint :: "os \<Rightarrow> string \<Rightarrow> power_hint_t \<Rightarrow> power_state \<Rightarrow> power_state" where
  "power_hint os junk POWER_HINT_INTERACTION st =
     (if \<not> is_profile_valid (current_power_profile st) then st
      else if ia_boostpulse_duration (interactive_profiles ! nat (current_power_profile st)) = 0 then st
      else case boostpulse_open os st of (fd, st) \<Rightarrow>
        if fd < 0 then st
        else let path = INTERACTIVE_PATH @ ''boostpulse''; buf = dec 1 @ [CHR 0x00] @ junk in
          if os_write os (sysfs st) path buf then st\<lparr>sysfs := put_file path buf (sysfs st)\<rparr>
          else st\<lparr>boostpulse_fd := - 1\<rparr>)"
| "power_hint os junk (POWER_HINT_SET_PROFILE profile) st = set_power_profile os profile st"
| "power_hint os junk POWER_HINT_LOW_POWER st = st"
| "power_hint os junk OtherHint st = st"

datatype feature_t = POWER_FEATURE_SUPPORTED_PROFILES | OtherFeature

fun get_feature :: "feature_t \<Rightarrow> int" where
  "get_feature POWER_FEATURE_SUPPORTED_PROFILES = PROFILE_MAX"
| "get_feature OtherFeature = - 1"

text \<open>The calls of the framework on the module.\<close>

datatype power_call = CallHint string power_hint_t | CallSetInteractive int

fun power_exec :: "os \<Rightarrow> power_call \<Rightarrow> power_state \<Rightarrow> power_state" where
  "power_exec os (CallHint junk h) st = power_hint os junk h st"
| "power_exec os (CallSetInteractive on) st = power_set_interactive os on st"

section \<open>Writing the settings\<close>

fun attr_path :: "attr_write \<Rightarrow> string" where
  "attr_path (WInt path v) = path" | "attr_path (WStr path s) = path"

fun attr_data :: "attr_write \<Rightarrow> string" where
  "attr_data (WInt path v) = take 79 (dec v)" | "attr_data (WStr path s) = s"

lemma run_write_eq:
  "run_write os w fs =
     (if os_open os fs (attr_path w) < 0 \<or> \<not> os_write os fs (attr_path w) (attr_data w) then fs
      else put_file (attr_path w) (attr_data w) fs)"
  by (cases w) (auto simp: sysfs_write_int_def sysfs_write_str_def)

lemma run_writes_willing:
  assumes "willing os"
  shows "fold (run_write os) ws fs = fs @ map (\<lambda>w. (attr_path w, attr_data w)) ws"
  using assms by (induction ws arbitrary: fs) (auto simp: run_write_eq willing_def put_file_def not_less)

lemma run_writes_value:
  "last_write (fold (run_write os) ws fs) p = last_write fs p
     \<or> (\<exists>w \<in> set ws. attr_path w = p \<and> last_write (fold (run_write os) ws fs) p = Some (attr_data w))"
proof (induction ws arbitrary: fs)
  case (Cons w ws)
  from Cons [of "run_write os w fs"] show ?case by (auto simp: run_write_eq split: if_splits)
qed simp

lemma last_write_all:
  assumes "distinct (map attr_path ws)" and "w \<in> set ws"
  shows "last_write (fs @ map (\<lambda>w. (attr_path w, attr_data w)) ws) (attr_path w) = Some (attr_data w)"
proof -
  let ?l = "rev (map (\<lambda>w. (attr_path w, attr_data w)) ws)"
  have "distinct (map fst ?l)" using assms(1) by (simp add: rev_map [symmetric] o_def)
  moreover have "(attr_path w, attr_data w) \<in> set ?l" using assms(2) by auto
  ultimately have "map_of ?l (attr_path w) = Some (attr_data w)" by (rule map_of_is_SomeI)
  then show ?thesis by (simp add: last_write_def map_add_def)
qed

text \<open>Every branch writes each of its files once.\<close>

lemma distinct_writes:
  "distinct (map attr_path (ondemand_writes p))" "distinct (map attr_path (interactive_writes p))"
  "distinct (map attr_path (alt_writes p))" "distinct (map attr_path (hispeed_writes p))"
  unfolding ondemand_writes_def interactive_writes_def alt_writes_def hispeed_writes_def path_defs Let_def
  by simp_all

lemma distinct_governor_writes: "distinct (map attr_path (governor_writes gov p))"
  by (simp add: governor_writes_def distinct_writes)

lemma run_writes_frame [simp]:
  "current_power_profile (run_writes os ws st) = current_power_profile st"
  "governor (run_writes os ws st) = governor st"
  "sysfs (run_writes os ws st) = fold (run_write os) ws (sysfs st)"
  by (simp_all add: run_writes_def)

lemma get_scaling_governor_frame:
  "get_scaling_governor os st = (ret, st') \<Longrightarrow> sysfs st' = sysfs st"
  "get_scaling_governor os st = (ret, st') \<Longrightarrow> current_power_profile st' = current_power_profile st"
  by (auto simp: get_scaling_governor_def split: prod.splits if_splits)

lemma strip_newlines_eq: "strip_newlines s = rev (dropWhile (\<lambda>c. c = CHR 0x0A \<or> c = CHR 0x0D) (rev s))"
proof (induction s rule: strip_newlines.induct)
  case (1 s)
  then show ?case by (subst strip_newlines.simps) (cases s rule: rev_cases; auto)
qed

section \<open>Correctness\<close>


text \<open>Whatever the framework calls and however the system answers, the current profile is none or
  a valid one, so that no table is read out of its bounds.\<close>
theorem power_profile_in_range:
  defines "st \<equiv> \<lambda>os calls. fold (power_exec os) calls power_start"
  shows "(current_power_profile (st os calls) = - 1 \<or>
      nat (current_power_profile (st os calls)) < length ondemand_profiles
      \<and> nat (current_power_profile (st os calls)) < length interactive_profiles
      \<and> nat (current_power_profile (st os calls)) < length alt_profiles \<and> 0 \<le> current_power_profile (st os calls))
    \<and> length ondemand_profiles = nat PROFILE_MAX \<and> length interactive_profiles = nat PROFILE_MAX
    \<and> length alt_profiles = nat PROFILE_MAX"
proof -
  have step: "current_power_profile (power_exec os c s) = current_power_profile s
      \<or> is_profile_valid (current_power_profile (power_exec os c s))" for c s
  proof (cases c)
    case (CallHint junk h)
    then show ?thesis
      by (cases h) (auto simp: set_power_profile_def boostpulse_open_def Let_def split: prod.split)
  qed (simp add: power_set_interactive_def)
  have "current_power_profile s = - 1 \<or> is_profile_valid (current_power_profile s) \<Longrightarrow>
      current_power_profile (fold (power_exec os) calls s) = - 1
      \<or> is_profile_valid (current_power_profile (fold (power_exec os) calls s))" for s
  proof (induction calls arbitrary: s)
    case (Cons c calls)
    from step [of c s] Cons.prems have "current_power_profile (power_exec os c s) = - 1
        \<or> is_profile_valid (current_power_profile (power_exec os c s))" by metis
    then show ?case using Cons.IH [of "power_exec os c s"] by simp
  qed simp
  from this [of power_start] show ?thesis
    by (auto simp: st_def power_start_def is_profile_valid_def PROFILE_MAX_def ondemand_profiles_def
        interactive_profiles_def alt_profiles_def)
qed

text \<open>The frequencies of a boost setting, two numbers with a blank between them.\<close>

definition boost_freqs :: "string \<Rightarrow> int list" where
  "boost_freqs s = [undec (takeWhile (\<lambda>c. c \<noteq> CHR '' '') s), undec (tl (dropWhile (\<lambda>c. c \<noteq> CHR '' '') s))]"

definition freqs_ok :: "int \<Rightarrow> int \<Rightarrow> int list \<Rightarrow> bool" where
  "freqs_ok lo hi fs \<longleftrightarrow> lo \<le> hi \<and> list_all (\<lambda>f. lo \<le> f \<and> f \<le> hi) fs"

text \<open>In every profile of every governor the minimum frequency is at most the maximum, and every
  frequency the profile asks for, the boost frequencies included, lies between the two.\<close>
theorem profile_frequencies_consistent:
  "list_all (\<lambda>p. freqs_ok (od_scaling_min_freq p) (od_scaling_max_freq p)
       (od_optimal_freq p # od_sync_freq p # boost_freqs (od_input_boost_freqs p))) ondemand_profiles
   \<and> list_all (\<lambda>p. freqs_ok (ia_scaling_min_freq p) (ia_scaling_max_freq p)
       (ia_hispeed_freq p # boost_freqs (ia_input_boost_freqs p))) interactive_profiles
   \<and> list_all (\<lambda>p. freqs_ok (alt_scaling_min_freq p) (alt_scaling_max_freq p)
       (boost_freqs (alt_input_boost_freqs p))) alt_profiles"
  by code_simp

text \<open>A touch pulses the boost exactly in the balanced and the performance-biased profile, with the
  character 1 first in what is written; in the other profiles and before any is selected it does
  nothing.\<close>
theorem power_interaction_boost:
  assumes "willing os"
  shows "sysfs (power_hint os junk POWER_HINT_INTERACTION st) =
    (if current_power_profile st \<in> {PROFILE_BALANCED, PROFILE_BIAS_PERFORMANCE}
     then sysfs st @ [(INTERACTIVE_PATH @ ''boostpulse'', ''1'' @ CHR 0x00 # junk)] else sysfs st)"
proof -
  have p: "is_profile_valid p \<Longrightarrow> (ia_boostpulse_duration (interactive_profiles ! nat p) = 0) =
      (p \<notin> {PROFILE_BALANCED, PROFILE_BIAS_PERFORMANCE})" for p
  proof -
    assume "is_profile_valid p"
    then have "p \<in> {0, 1, 2, 3, 4}" by (auto simp: is_profile_valid_def PROFILE_MAX_def)
    then show ?thesis by (auto simp: interactive_profiles_def profile_defs)
  qed
  have one: "dec 1 = ''1''" by code_simp
  have os: "(os_open os fs p < 0) = False" "os_write os fs p d = True" for fs p d
    using assms by (simp_all add: willing_def not_less)
  let ?p = "current_power_profile st"
  show ?thesis
  proof (cases "is_profile_valid ?p \<and> ?p \<in> {PROFILE_BALANCED, PROFILE_BIAS_PERFORMANCE}")
    case True
    with p [of ?p] show ?thesis
      by (simp add: boostpulse_open_def Let_def os one put_file_def)
  next
    case False
    moreover have "is_profile_valid PROFILE_BALANCED" "is_profile_valid PROFILE_BIAS_PERFORMANCE"
      by (simp_all add: profile_defs is_profile_valid_def)
    ultimately have "?p \<notin> {PROFILE_BALANCED, PROFILE_BIAS_PERFORMANCE}" by auto
    with p [of ?p] show ?thesis by (cases "is_profile_valid ?p") simp_all
  qed
qed

text \<open>If the governor cannot be read, the profile is recorded as selected although nothing is
  written, and selecting it again, even when the system answers, still writes nothing.\<close>
theorem unreadable_governor_loses_profile:
  assumes "is_profile_valid profile" and "profile \<noteq> current_power_profile st"
    and "\<And>fs. os_read os fs SCALING_GOVERNOR_PATH = None"
  shows "sysfs (set_power_profile os profile st) = sysfs st
    \<and> current_power_profile (set_power_profile os profile st) = profile
    \<and> set_power_profile os' profile (set_power_profile os profile st) = set_power_profile os profile st"
proof -
  have "get_scaling_governor os st = (- 1, st)"
    using assms(3) by (simp add: get_scaling_governor_def sysfs_read_def)
  with assms(1,2) have "set_power_profile os profile st = st\<lparr>current_power_profile := profile\<rparr>"
    by (simp add: set_power_profile_def)
  moreover have "set_power_profile os' profile (st\<lparr>current_power_profile := profile\<rparr>)
      = st\<lparr>current_power_profile := profile\<rparr>" by (simp add: set_power_profile_def)
  ultimately show ?thesis by simp
qed

section \<open>Witnesses\<close>

definition example_os :: "string \<Rightarrow> os" where
  "example_os gov = \<lparr>os_open = \<lambda>_ _. 3, os_write = \<lambda>_ _ _. True, os_read = \<lambda>_ _. Some gov,
                     os_access = \<lambda>_ _. True, os_errno = 5\<rparr>"

lemma willing_example: "willing (example_os gov)"
  by (simp add: willing_def example_os_def)


theorem power_interaction_boost_witness:
  "sysfs (power_hint (example_os []) ''yz'' POWER_HINT_INTERACTION (power_start\<lparr>current_power_profile := 1\<rparr>))
     = [(INTERACTIVE_PATH @ ''boostpulse'', ''1'' @ CHR 0x00 # ''yz'')]"
  using power_interaction_boost [OF willing_example, of "[]" "''yz''" "power_start\<lparr>current_power_profile := 1\<rparr>"]
  by (simp add: power_start_def profile_defs)

theorem unreadable_governor_loses_profile_witness:
  "current_power_profile (set_power_profile (example_os []\<lparr>os_read := \<lambda>_ _. None\<rparr>) PROFILE_BALANCED power_start) = PROFILE_BALANCED
   \<and> sysfs (set_power_profile (example_os []\<lparr>os_read := \<lambda>_ _. None\<rparr>) PROFILE_BALANCED power_start) = []"
  using unreadable_governor_loses_profile [of PROFILE_BALANCED power_start "example_os []\<lparr>os_read := \<lambda>_ _. None\<rparr>"]
  by (simp add: power_start_def profile_defs is_profile_valid_def)

text \<open>
  The maximum is written before the minimum. On a kernel that refuses a maximum below the current
  minimum, going from the high-performance to the power-save profile under the ondemand governor
  leaves the maximum where it was.
\<close>

definition strict_kernel :: os where
  "strict_kernel = \<lparr>os_open = \<lambda>_ _. 3,
     os_write = \<lambda>fs p d.
       if p = CPUFREQ_PATH @ ''scaling_max_freq'' then
         (case last_write fs (CPUFREQ_PATH @ ''scaling_min_freq'') of Some m \<Rightarrow> undec m \<le> undec d | None \<Rightarrow> True)
       else True,
     os_read = \<lambda>_ _. Some ''ondemand'', os_access = \<lambda>_ _. True, os_errno = 22\<rparr>"

lemma power_save_keeps_maximum:
  "last_write (sysfs (set_power_profile strict_kernel PROFILE_POWER_SAVE
       (set_power_profile strict_kernel PROFILE_HIGH_PERFORMANCE power_start)))
     (CPUFREQ_PATH @ ''scaling_max_freq'') = Some ''1512000''"
  by code_simp

end
