(* ===== verification/Lights.thy ===== *)
theory Lights
  imports Sysfs "HOL-Library.Word"
begin

unbundle bit_operations_syntax

text \<open>
  The lights module, \<open>liblights/lights.c\<close>. The static variables are the record \<open>lights_state\<close>; the
  flags that only suppress repeated log messages are left out. A result is an \<open>option\<close>: \<open>None\<close> is a
  write past the end of a stack buffer. The return value of \<open>set_light_notifications\<close> is itself an
  option, \<open>None\<close> where the code returns a variable it never set.
\<close>

section \<open>State\<close>

record light_state_t =
  color :: "32 word"
  flashOnMS :: int
  flashOffMS :: int

record lights_state =
  g_init :: bool
  g_notification_blink_support :: bool
  g_notification_blink_rate_support :: bool
  g_enable_touchlight :: int
  led_files :: files

definition lights_start :: lights_state where
  "lights_start = \<lparr>g_init = False, g_notification_blink_support = False,
     g_notification_blink_rate_support = False, g_enable_touchlight = - 1, led_files = []\<rparr>"

definition LCD_FILE :: string where "LCD_FILE = ''/sys/class/leds/lcd-backlight/brightness''"
definition BUTTONS_FILE :: string where "BUTTONS_FILE = ''/sys/class/misc/sec_touchkey/brightness''"
definition NOTIFICATION_BLINK_FILE :: string where
  "NOTIFICATION_BLINK_FILE = ''/sys/class/misc/enhanced_bln/blink_control''"
definition NOTIFICATION_BLINK_RATE_FILE :: string where
  "NOTIFICATION_BLINK_RATE_FILE = ''/sys/class/misc/enhanced_bln/blink_interval_ms''"
definition TOUCHLIGHT_FILE :: string where "TOUCHLIGHT_FILE = ''/data/.disable_touchlight''"

lemmas led_paths = LCD_FILE_def BUTTONS_FILE_def NOTIFICATION_BLINK_FILE_def
  NOTIFICATION_BLINK_RATE_FILE_def TOUCHLIGHT_FILE_def

section \<open>Functions\<close>

definition init_globals :: "os \<Rightarrow> lights_state \<Rightarrow> lights_state" where
  "init_globals os st =
     st\<lparr>g_notification_blink_support := os_access os (led_files st) NOTIFICATION_BLINK_FILE,
        g_notification_blink_rate_support := os_access os (led_files st) NOTIFICATION_BLINK_RATE_FILE\<rparr>"

text \<open>Opening and writing, shared by \<open>write_int\<close> and \<open>write_str\<close>.\<close>

definition write_str :: "os \<Rightarrow> string \<Rightarrow> string \<Rightarrow> files \<Rightarrow> int \<times> files" where
  "write_str os path str fs =
     (if os_open os fs path \<ge> 0 then
        (if os_write os fs path str then (0, put_file path str fs) else (- os_errno os, fs))
      else (- os_errno os, fs))"

definition write_int :: "os \<Rightarrow> string \<Rightarrow> int \<Rightarrow> files \<Rightarrow> (int \<times> files) option" where
  "write_int os path value fs =
     (if os_open os fs path \<ge> 0 then
        (let buffer = dec value @ [CHR 0x0A] in
         if length buffer + 1 > 20 then None
         else Some (if os_write os fs path buffer then (0, put_file path buffer fs) else (- os_errno os, fs)))
      else Some (- os_errno os, fs))"

definition load_settings :: "os \<Rightarrow> lights_state \<Rightarrow> lights_state" where
  "load_settings os st =
     st\<lparr>g_enable_touchlight :=
          (if os_open os (led_files st) TOUCHLIGHT_FILE < 0 then 1
           else case os_read os (led_files st) TOUCHLIGHT_FILE of
             Some (c # _) \<Rightarrow> (if c = CHR ''1'' then 0 else 1) | _ \<Rightarrow> 1)\<rparr>"

definition PATH_MAX :: nat where "PATH_MAX = 4096"

definition write_df_int :: "os \<Rightarrow> string \<Rightarrow> string \<Rightarrow> int \<Rightarrow> files \<Rightarrow> (int \<times> files) option" where
  "write_df_int os dir file value fs = write_int os (take (PATH_MAX - 1) (dir @ ''/'' @ file)) value fs"

definition write_df_str :: "os \<Rightarrow> string \<Rightarrow> string \<Rightarrow> string \<Rightarrow> files \<Rightarrow> int \<times> files" where
  "write_df_str os dir file str fs = write_str os (take (PATH_MAX - 1) (dir @ ''/'' @ file)) str fs"

definition rgb_to_brightness :: "light_state_t \<Rightarrow> 32 word" where
  "rgb_to_brightness state =
     (let c = color state AND 0x00ffffff in
      drop_bit 8 (77 * (drop_bit 16 c AND 0x00ff) + 150 * (drop_bit 8 c AND 0x00ff) + 29 * (c AND 0x00ff)))"

definition set_light_battery :: "light_state_t \<Rightarrow> lights_state \<Rightarrow> int \<times> lights_state" where
  "set_light_battery state st = (0, st)"

definition set_light_notifications ::
    "os \<Rightarrow> light_state_t \<Rightarrow> lights_state \<Rightarrow> (int option \<times> lights_state) option" where
  "set_light_notifications os state st =
     (let bln_led_control = (if color state AND 0x00ffffff \<noteq> 0 then 1 else 0) in
      if g_notification_blink_support st then
        (let fs = (if g_notification_blink_rate_support st then
                     snd (write_str os NOTIFICATION_BLINK_RATE_FILE
                       (take (10 - 1) (dec (flashOnMS state) @ '' '' @ dec (flashOffMS state))) (led_files st))
                   else led_files st)
         in do {
           (res, fs) \<leftarrow> write_int os NOTIFICATION_BLINK_FILE bln_led_control fs;
           Some (Some res, st\<lparr>led_files := fs\<rparr>)
         })
      else Some (None, st))"

definition set_light_backlight ::
    "os \<Rightarrow> light_state_t \<Rightarrow> lights_state \<Rightarrow> (int \<times> lights_state) option" where
  "set_light_backlight os state st =
     (let st = load_settings os st; brightness = sint (rgb_to_brightness state) in do {
        (err, fs) \<leftarrow> write_int os LCD_FILE brightness (led_files st);
        Some (err, st\<lparr>led_files := fs\<rparr>)
      })"

definition set_light_keyboard :: "light_state_t \<Rightarrow> lights_state \<Rightarrow> int \<times> lights_state" where
  "set_light_keyboard state st = (0, st)"

definition set_light_buttons ::
    "os \<Rightarrow> light_state_t \<Rightarrow> lights_state \<Rightarrow> (int \<times> lights_state) option" where
  "set_light_buttons os state st =
     (let touch_led_control = (if color state AND 0x00ffffff \<noteq> 0 then 1 else 2) in
      if g_enable_touchlight st = - 1 \<or> g_enable_touchlight st > 0 then do {
        (res, fs) \<leftarrow> write_int os BUTTONS_FILE touch_led_control (led_files st);
        Some (res, st\<lparr>led_files := fs\<rparr>)
      }
      else Some (0, st))"

datatype light_id =
    LIGHT_ID_BACKLIGHT | LIGHT_ID_KEYBOARD | LIGHT_ID_BUTTONS | LIGHT_ID_BATTERY
  | LIGHT_ID_NOTIFICATIONS | OtherLight

definition EINVAL :: int where "EINVAL = 22"

text \<open>\<open>open_lights\<close> returns the device, that is its method \<open>set_light\<close>; \<open>close_lights\<close> frees it and
  touches nothing else.\<close>

definition open_lights :: "os \<Rightarrow> light_id \<Rightarrow> lights_state \<Rightarrow> int \<times> light_id option \<times> lights_state" where
  "open_lights os name st =
     (if name = OtherLight then (- EINVAL, None, st)
      else (0, Some name, if g_init st then st else (init_globals os st)\<lparr>g_init := True\<rparr>))"

definition close_lights :: "lights_state \<Rightarrow> int \<times> lights_state" where
  "close_lights st = (0, st)"

fun set_light :: "os \<Rightarrow> light_id \<Rightarrow> light_state_t \<Rightarrow> lights_state \<Rightarrow> (int option \<times> lights_state) option" where
  "set_light os LIGHT_ID_BACKLIGHT state st = map_option (apfst Some) (set_light_backlight os state st)"
| "set_light os LIGHT_ID_KEYBOARD state st = Some (apfst Some (set_light_keyboard state st))"
| "set_light os LIGHT_ID_BUTTONS state st = map_option (apfst Some) (set_light_buttons os state st)"
| "set_light os LIGHT_ID_BATTERY state st = Some (apfst Some (set_light_battery state st))"
| "set_light os LIGHT_ID_NOTIFICATIONS state st = set_light_notifications os state st"
| "set_light os OtherLight state st = None"

lemmas lights_defs [state_defs] =
  set_light_battery_def set_light_keyboard_def set_light_notifications_def set_light_backlight_def
  set_light_buttons_def

section \<open>Brightness\<close>

text \<open>The channels of a colour.\<close>

definition red :: "light_state_t \<Rightarrow> nat" where "red s = unat (color s) div 2 ^ 16 mod 256"
definition green :: "light_state_t \<Rightarrow> nat" where "green s = unat (color s) div 2 ^ 8 mod 256"
definition blue :: "light_state_t \<Rightarrow> nat" where "blue s = unat (color s) mod 256"

lemma masks: "(0xFF :: 32 word) = mask 8" "(0xFFFFFF :: 32 word) = mask 24"
  by (simp_all add: mask_eq_exp_minus_1)

lemma unat_channel: "unat (drop_bit n (w :: 32 word) AND 0xFF) = unat w div 2 ^ n mod 256"
proof -
  have "unat (drop_bit n w AND 0xFF) = take_bit 8 (drop_bit n (unat w))"
    unfolding masks by (simp add: unsigned_take_bit_eq unat_drop_bit_eq flip: take_bit_eq_mask)
  then show ?thesis by (simp add: drop_bit_eq_div take_bit_eq_mod)
qed

lemma channel_mask: "n \<le> 16 \<Longrightarrow> drop_bit n (w AND 0xFFFFFF) AND 0xFF = drop_bit n (w :: 32 word) AND 0xFF"
  unfolding masks by (rule bit_word_eqI) (auto simp: bit_simps)

lemma weighted_sum:
  fixes r g b :: "32 word"
  assumes "unat r < 256" and "unat g < 256" and "unat b < 256"
  shows "unat (77 * r + 150 * g + 29 * b) = 77 * unat r + 150 * unat g + 29 * unat b"
  using assms by (simp add: unat_word_ariths)

lemma brightness_eq: "unat (rgb_to_brightness s) = (77 * red s + 150 * green s + 29 * blue s) div 256"
proof -
  let ?r = "drop_bit 16 (color s) AND 0xFF" and ?g = "drop_bit 8 (color s) AND 0xFF"
    and ?b = "drop_bit 0 (color s) AND 0xFF"
  have "rgb_to_brightness s = drop_bit 8 (77 * ?r + 150 * ?g + 29 * ?b)"
    using channel_mask [of 16 "color s"] channel_mask [of 8 "color s"] channel_mask [of 0 "color s"]
    by (simp add: rgb_to_brightness_def Let_def)
  then have "unat (rgb_to_brightness s) = drop_bit 8 (unat (77 * ?r + 150 * ?g + 29 * ?b))"
    by (simp only: unat_drop_bit_eq)
  also have "\<dots> = unat (77 * ?r + 150 * ?g + 29 * ?b) div 2 ^ 8" by (simp only: drop_bit_eq_div)
  also have "unat (77 * ?r + 150 * ?g + 29 * ?b) = 77 * unat ?r + 150 * unat ?g + 29 * unat ?b"
    by (rule weighted_sum; subst unat_channel; simp)
  finally show ?thesis by (simp add: unat_channel unat_channel [of 0 "color s", simplified] red_def green_def blue_def)
qed

lemma channels_small: "red s < 256" "green s < 256" "blue s < 256"
  by (simp_all add: red_def green_def blue_def)

lemma brightness_range: "unat (rgb_to_brightness s) \<le> 255"
  using channels_small [of s] by (simp add: brightness_eq)

lemma sint_brightness: "sint (rgb_to_brightness s) = int (unat (rgb_to_brightness s))"
proof -
  have "uint (rgb_to_brightness s) \<le> 255" using brightness_range [of s]
    by (metis of_nat_le_iff of_nat_numeral uint_nat)
  moreover have "0 \<le> uint (rgb_to_brightness s)" by simp
  ultimately have "signed_take_bit 31 (uint (rgb_to_brightness s)) = uint (rgb_to_brightness s)"
    by (intro signed_take_bit_int_eq_self) (simp_all add: order_trans [of _ 0])
  then show ?thesis by (simp add: sint_uint)
qed

section \<open>Correctness\<close>

text \<open>C27: the brightness of a colour is the weighted mean of its channels, rounded down: it fits a byte,
  is the common value for a grey, grows with every channel and does not depend on the bits above
  the channels; the 32-bit computation does not wrap around.\<close>
theorem rgb_to_brightness_correct:
  "unat (rgb_to_brightness s) = (77 * red s + 150 * green s + 29 * blue s) div 256
   \<and> unat (rgb_to_brightness s) \<le> 255
   \<and> (\<forall>v. red s = v \<and> green s = v \<and> blue s = v \<longrightarrow> unat (rgb_to_brightness s) = v)
   \<and> (\<forall>t. red s \<le> red t \<and> green s \<le> green t \<and> blue s \<le> blue t \<longrightarrow> rgb_to_brightness s \<le> rgb_to_brightness t)"
  using brightness_eq brightness_range by (auto simp: word_le_nat_alt intro!: div_le_mono add_mono)

text \<open>What \<open>write_int\<close> does with a value of 32 bits.\<close>

lemma write_int_eq:
  assumes "- (2 ^ 31) \<le> v" and "v < 2 ^ 31"
  shows "write_int os path v fs = Some (write_str os path (dec v @ [CHR 0x0A]) fs)"
  using length_dec [OF assms] by (auto simp: write_int_def write_str_def Let_def)

lemma write_str_willing: "willing os \<Longrightarrow> write_str os path s fs = (0, put_file path s fs)"
  by (simp add: write_str_def willing_def)

lemma brightness_int: "0 \<le> sint (rgb_to_brightness s)" "sint (rgb_to_brightness s) \<le> 255"
  using brightness_range [of s] unfolding sint_brightness by linarith+

text \<open>No call of \<open>set_light\<close> on a device that \<open>open_lights\<close> hands out overruns a buffer, whatever
  the colour, the flash times and the system, and each returns a value it has set, but for the
  notification light of a kernel without blink control, which returns an uninitialised one.\<close>
theorem set_light_no_overflow:
  assumes "open_lights os name st = (0, Some dev, st1)"
  shows "\<exists>res st'. set_light os dev state st1 = Some (res, st')
    \<and> (res = None \<longleftrightarrow> dev = LIGHT_ID_NOTIFICATIONS \<and> \<not> g_notification_blink_support st1)"
proof -
  have w: "write_int os path (sint (rgb_to_brightness state)) fs
      = Some (write_str os path (dec (sint (rgb_to_brightness state)) @ [CHR 0x0A]) fs)"
    "write_int os path 0 fs = Some (write_str os path (dec 0 @ [CHR 0x0A]) fs)"
    "write_int os path 1 fs = Some (write_str os path (dec 1 @ [CHR 0x0A]) fs)"
    "write_int os path 2 fs = Some (write_str os path (dec 2 @ [CHR 0x0A]) fs)" for path fs
    using brightness_int [of state] by (simp_all add: write_int_eq)
  have "dev \<noteq> OtherLight" using assms by (auto simp: open_lights_def split: if_splits)
  then show ?thesis
    by (cases dev) (auto simp: lights_defs Let_def w write_str_def)
qed

text \<open>Setting the backlight and then the buttons writes the brightness of the backlight's colour and
  the buttons' state to their files, the latter only if the user has not switched the button light
  off in the settings file.\<close>
theorem backlight_then_buttons:
  fixes st :: lights_state
  assumes "willing os"
  defines "off \<equiv> (case os_read os (led_files st) TOUCHLIGHT_FILE of Some (c # _) \<Rightarrow> c = CHR ''1'' | _ \<Rightarrow> False)"
  shows "\<exists>st1 st2. set_light os LIGHT_ID_BACKLIGHT s st = Some (Some 0, st1)
    \<and> set_light os LIGHT_ID_BUTTONS b st1 = Some (Some 0, st2)
    \<and> led_files st2 = led_files st
        @ (LCD_FILE, dec (int ((77 * red s + 150 * green s + 29 * blue s) div 256)) @ [CHR 0x0A])
        # (if off then [] else [(BUTTONS_FILE, dec (if color b AND 0x00ffffff \<noteq> 0 then 1 else 2) @ [CHR 0x0A])])"
proof -
  let ?data = "dec (sint (rgb_to_brightness s)) @ [CHR 0x0A]"
  let ?st1 = "(load_settings os st)\<lparr>led_files := put_file LCD_FILE ?data (led_files st)\<rparr>"
  have open_ok: "(os_open os fs p < 0) = False" for fs p using assms(1) by (simp add: willing_def not_less)
  have load: "g_enable_touchlight (load_settings os st) = (if off then 0 else 1)"
    "led_files (load_settings os st) = led_files st"
    by (simp_all add: load_settings_def off_def open_ok split: option.split list.split)
  have 1: "set_light os LIGHT_ID_BACKLIGHT s st = Some (Some 0, ?st1)"
    using brightness_int [of s]
    by (simp add: set_light_backlight_def Let_def write_int_eq write_str_willing [OF assms(1)] load)
  have 2: "set_light os LIGHT_ID_BUTTONS b ?st1 = Some (Some 0, ?st1\<lparr>led_files := led_files ?st1
      @ (if off then [] else [(BUTTONS_FILE, dec (if color b AND 0x00ffffff \<noteq> 0 then 1 else 2) @ [CHR 0x0A])])\<rparr>)"
    by (simp add: set_light_buttons_def Let_def write_int_eq write_str_willing [OF assms(1)] load put_file_def)
  show ?thesis
    using 1 2 by (simp add: put_file_def sint_brightness brightness_eq)
qed

text \<open>The buffer for the blink interval holds nine characters: longer pairs are cut.\<close>

lemma blink_interval_truncated:
  "take (10 - 1) (dec 10000 @ '' '' @ dec 5000) = ''10000 500''"
  by code_simp

section \<open>Witnesses\<close>

definition led_os :: os where
  "led_os = \<lparr>os_open = \<lambda>_ _. 3, os_write = \<lambda>_ _ _. True, os_read = \<lambda>_ _. Some ''1'',
             os_access = \<lambda>_ _. False, os_errno = 5\<rparr>"

theorem set_light_no_overflow_witness:
  "\<exists>st'. set_light led_os LIGHT_ID_NOTIFICATIONS \<lparr>color = 0xFF, flashOnMS = 10000, flashOffMS = 5000\<rparr>
     (snd (snd (open_lights led_os LIGHT_ID_NOTIFICATIONS lights_start))) = Some (None, st')"
  using set_light_no_overflow [of led_os LIGHT_ID_NOTIFICATIONS lights_start LIGHT_ID_NOTIFICATIONS
      "snd (snd (open_lights led_os LIGHT_ID_NOTIFICATIONS lights_start))"
      "\<lparr>color = 0xFF, flashOnMS = 10000, flashOffMS = 5000\<rparr>"]
  by (auto simp: open_lights_def init_globals_def led_os_def lights_start_def)

theorem backlight_then_buttons_witness:
  "\<exists>st1 st2. set_light led_os LIGHT_ID_BACKLIGHT \<lparr>color = 0xFF808080, flashOnMS = 0, flashOffMS = 0\<rparr> lights_start = Some (Some 0, st1)
     \<and> set_light led_os LIGHT_ID_BUTTONS \<lparr>color = 0xFF, flashOnMS = 0, flashOffMS = 0\<rparr> st1 = Some (Some 0, st2)
     \<and> led_files st2 = [(LCD_FILE, ''128\<newline>'')]"
proof -
  have w: "willing led_os" by (simp add: willing_def led_os_def)
  have d: "dec 128 = ''128''" by code_simp
  show ?thesis
    using backlight_then_buttons [OF w, where st = lights_start and
        s = "\<lparr>color = 0xFF808080, flashOnMS = 0, flashOffMS = 0\<rparr>" and
        b = "\<lparr>color = 0xFF, flashOnMS = 0, flashOffMS = 0\<rparr>"]
    by (auto simp: led_os_def lights_start_def red_def green_def blue_def d)
qed

theorem rgb_to_brightness_correct_witness:
  "unat (rgb_to_brightness \<lparr>color = 0xFF112211, flashOnMS = 0, flashOffMS = 0\<rparr>) = 26"
  using rgb_to_brightness_correct [of "\<lparr>color = 0xFF112211, flashOnMS = 0, flashOffMS = 0\<rparr>"]
  by (simp add: red_def green_def blue_def)

end
