(* ===== verification/Hal_Modules.thy ===== *)
theory Hal_Modules
  imports Prelude "HOL-Library.Word"
begin

text \<open>
  The two modules that only hand out a device: \<open>nfc/nfc_hw.c\<close> with its table of EEPROM settings, and
  \<open>gps/libloc_api_50001/gps.c\<close>. A device is an object on a heap; \<open>None\<close> is a fault (the code does not
  check the result of its allocation, and \<open>close\<close> frees what it is given). The library's name of the
  NFC controller and the GPS interface are arguments.
\<close>

section \<open>NFC\<close>

definition pn544_eedata_settings :: "8 word list list" where
  "pn544_eedata_settings =
    [[0x00, 0x9B, 0xD1, 0x0D],
     [0x00, 0x9B, 0xD2, 0x24],
     [0x00, 0x9B, 0xD3, 0x0A],
     [0x00, 0x9B, 0xD4, 0x22],
     [0x00, 0x9B, 0xD5, 0x08],
     [0x00, 0x9B, 0xD6, 0x1E],
     [0x00, 0x9B, 0xDD, 0x1C],
     [0x00, 0x9B, 0x84, 0x13],
     [0x00, 0x98, 0x00, 0x3F],
     [0x00, 0x9F, 0x09, 0x00],
     [0x00, 0x9F, 0x0A, 0x05],
     [0x00, 0x9E, 0xD1, 0xA1],
     [0x00, 0x99, 0x23, 0x00],
     [0x00, 0x9E, 0x74, 0xB0],
     [0x00, 0x9E, 0x7D, 0xB0],
     [0x00, 0x9F, 0x28, 0x01],
     [0x00, 0x9F, 0x35, 0x14],
     [0x00, 0x9F, 0x36, 0x60],
     [0x00, 0x9C, 0x31, 0x00],
     [0x00, 0x9C, 0x32, 0xC8],
     [0x00, 0x9C, 0x19, 0x40],
     [0x00, 0x9C, 0x1A, 0x40],
     [0x00, 0x9C, 0x0C, 0x00],
     [0x00, 0x9C, 0x0D, 0x00],
     [0x00, 0x9C, 0x12, 0x00],
     [0x00, 0x9C, 0x13, 0x00],
     [0x00, 0x98, 0xA2, 0x08],
     [0x00, 0x98, 0x93, 0x40],
     [0x00, 0x98, 0x7D, 0x02],
     [0x00, 0x98, 0x7E, 0x00],
     [0x00, 0x9F, 0xC8, 0x01],
     [0x00, 0x9F, 0x9A, 0x00],
     [0x00, 0x9F, 0x09, 0x00]]"

datatype pn544_link_type = PN544_LINK_TYPE_UART | PN544_LINK_TYPE_I2C | PN544_LINK_TYPE_USB

record nfc_pn544_device =
  nfc_version :: nat
  num_eeprom_settings :: nat
  eeprom_settings :: "8 word list"
  linktype :: pn544_link_type
  device_node :: string
  enable_i2c_workaround :: nat

type_synonym 'd hw_heap = "ptr \<rightharpoonup> 'd"

definition pn544_close :: "ptr \<Rightarrow> 'd hw_heap \<Rightarrow> (int \<times> 'd hw_heap) option" where
  "pn544_close dev h = (if dev = NULL then Some (0, h) else do { _ \<leftarrow> h dev; Some (0, h(dev := None)) })"

definition nfc_open ::
    "string \<Rightarrow> ptr \<Rightarrow> string \<Rightarrow> ptr \<Rightarrow> nfc_pn544_device hw_heap \<Rightarrow> (int \<times> ptr \<times> nfc_pn544_device hw_heap) option" where
  "nfc_open controller dev name device h =
     (if name = controller then
        (if dev = NULL then None
         else Some (0, dev, h(dev \<mapsto>
           \<lparr>nfc_version = 0,
            num_eeprom_settings = 4 * length pn544_eedata_settings div 4,
            eeprom_settings = concat pn544_eedata_settings,
            linktype = PN544_LINK_TYPE_I2C,
            device_node = ''/dev/pn544'',
            enable_i2c_workaround = 0\<rparr>)))
      else Some (- 22, device, h))"

text \<open>What a driver does with the settings: four bytes each, an address of three and a value.\<close>

definition setting_at :: "nfc_pn544_device \<Rightarrow> nat \<Rightarrow> 8 word list" where
  "setting_at d i = take 4 (drop (4 * i) (eeprom_settings d))"

definition program_setting :: "8 word list \<Rightarrow> (8 word list \<rightharpoonup> 8 word) \<Rightarrow> (8 word list \<rightharpoonup> 8 word)" where
  "program_setting s ee = ee(take 3 s \<mapsto> s ! 3)"

section \<open>GPS\<close>

record 'i gps_device =
  gps_version :: nat
  gps_interface :: 'i

definition open_gps ::
    "'i \<Rightarrow> ptr \<Rightarrow> ptr \<Rightarrow> 'i gps_device hw_heap \<Rightarrow> (int \<times> ptr \<times> 'i gps_device hw_heap) option" where
  "open_gps interface dev device h =
     (if dev = NULL then None else Some (0, dev, h(dev \<mapsto> \<lparr>gps_version = 0, gps_interface = interface\<rparr>)))"

definition gps__get_gps_interface :: "ptr \<Rightarrow> 'i gps_device hw_heap \<Rightarrow> 'i option" where
  "gps__get_gps_interface dev h = map_option gps_interface (h dev)"

section \<open>Correctness\<close>

lemma take_drop_concat:
  assumes "\<forall>r \<in> set rows. length r = k" and "i < length rows"
  shows "take k (drop (k * i) (concat rows)) = rows ! i"
  using assms
proof (induction rows arbitrary: i)
  case (Cons r rows)
  then show ?case by (cases i) (auto simp: add.commute)
qed simp

lemma settings_shape: "\<forall>r \<in> set pn544_eedata_settings. length r = 4"
  by (simp add: pn544_eedata_settings_def)

lemma length_flat: "\<forall>r \<in> set rows. length r = k \<Longrightarrow> length (concat rows) = k * length rows"
  by (induction rows) auto

text \<open>If no two rows disagree about an address, programming them in any order leaves the value of its
  row at every address named.\<close>

lemma program_settings:
  assumes "\<And>r s. r \<in> set rows \<Longrightarrow> s \<in> set rows \<Longrightarrow> take 3 r = take 3 s \<Longrightarrow> r ! 3 = s ! 3"
    and "r \<in> set rows"
  shows "fold program_setting rows ee (take 3 r) = Some (r ! 3)"
  using assms
proof (induction rows rule: rev_induct)
  case (snoc s rows)
  show ?case
  proof (cases "take 3 r = take 3 s")
    case True
    have "r ! 3 = s ! 3" by (rule snoc.prems(1)) (use snoc.prems(2) True in simp_all)
    with True show ?thesis by (simp add: program_setting_def)
  next
    case False
    with snoc.prems(2) have "r \<in> set rows" by auto
    then have "fold program_setting rows ee (take 3 r) = Some (r ! 3)"
      by (intro snoc.IH snoc.prems(1)) simp_all
    with False show ?thesis by (simp add: program_setting_def [of s])
  qed
qed simp

definition consistent :: "'a list list \<Rightarrow> bool" where
  "consistent rows \<longleftrightarrow> list_all (\<lambda>r. list_all (\<lambda>s. take 3 r = take 3 s \<longrightarrow> r ! 3 = s ! 3) rows) rows"

lemma consistentD: "consistent rows \<Longrightarrow> r \<in> set rows \<Longrightarrow> s \<in> set rows \<Longrightarrow> take 3 r = take 3 s \<Longrightarrow> r ! 3 = s ! 3"
  unfolding consistent_def list_all_iff by blast

lemma consistent_map:
  assumes "consistent (map (map f) rows)" and "inj f" and "\<forall>r \<in> set rows. length r = 4"
  shows "consistent rows"
  unfolding consistent_def list_all_iff
proof (intro ballI impI)
  fix r s assume rs: "r \<in> set rows" "s \<in> set rows" "take 3 r = take 3 s"
  then have "take 3 (map f r) = take 3 (map f s)" by (simp add: take_map)
  then have "map f r ! 3 = map f s ! 3" using consistentD [OF assms(1), of "map f r" "map f s"] rs by simp
  then show "r ! 3 = s ! 3" using assms(2,3) rs by (simp add: inj_eq)
qed

lemma settings_consistent: "consistent pn544_eedata_settings"
proof (rule consistent_map [where f = uint])
  show "consistent (map (map uint) pn544_eedata_settings)"
    unfolding pn544_eedata_settings_def by simp code_simp
qed (simp_all add: settings_shape)

lemma program_any_order:
  assumes "set rows = set pn544_eedata_settings" and "r \<in> set pn544_eedata_settings"
  shows "fold program_setting rows ee (take 3 r) = Some (r ! 3)"
  by (rule program_settings, rule consistentD [OF settings_consistent]) (use assms in simp_all)

text \<open>A device opened under the controller's name carries the settings as one run of bytes that
  splits into exactly the rows of the table, every row at its place, and programming them, in the
  order of the table or any other, gives every address named the value of its row: the table
  contains an address twice, with the same value.\<close>
theorem nfc_open_settings:
  assumes "nfc_open controller dev controller old h = Some (ret, d, h')" and "h' d = Some nfc"
  shows "ret = 0 \<and> length (eeprom_settings nfc) = 4 * num_eeprom_settings nfc
    \<and> map (setting_at nfc) [0..<num_eeprom_settings nfc] = pn544_eedata_settings
    \<and> (\<forall>rows r ee. set rows = set pn544_eedata_settings \<longrightarrow> r \<in> set pn544_eedata_settings \<longrightarrow>
         fold program_setting rows ee (take 3 r) = Some (r ! 3))"
proof -
  from assms have nfc: "ret = 0" "num_eeprom_settings nfc = length pn544_eedata_settings"
    "eeprom_settings nfc = concat pn544_eedata_settings"
    by (auto simp: nfc_open_def split: if_splits)
  have "map (setting_at nfc) [0..<length pn544_eedata_settings] = pn544_eedata_settings"
    by (rule nth_equalityI) (simp_all add: setting_at_def nfc(3) take_drop_concat [OF settings_shape])
  then show ?thesis
    using nfc length_flat [OF settings_shape] program_any_order by simp
qed

text \<open>Opening under the controller's name and closing leave the heap as it was and another name is
  refused without touching the caller's handle or the heap; a failed allocation is not handled.\<close>
theorem nfc_open_close:
  assumes "h dev = None" and "dev \<noteq> NULL"
  shows "(\<exists>h'. nfc_open controller dev controller old h = Some (0, dev, h') \<and> pn544_close dev h' = Some (0, h))
    \<and> (name \<noteq> controller \<longrightarrow> nfc_open controller dev name old h = Some (- 22, old, h))
    \<and> nfc_open controller NULL controller old h = None"
  using assms by (auto simp: nfc_open_def pn544_close_def fun_upd_idem)

definition pn544_opened :: nfc_pn544_device where
  "pn544_opened = \<lparr>nfc_version = 0, num_eeprom_settings = length pn544_eedata_settings,
     eeprom_settings = concat pn544_eedata_settings, linktype = PN544_LINK_TYPE_I2C,
     device_node = ''/dev/pn544'', enable_i2c_workaround = 0\<rparr>"

theorem nfc_open_settings_witness:
  "setting_at pn544_opened 2 = [0x00, 0x9B, 0xD3, 0x0A]
   \<and> fold program_setting (rev pn544_eedata_settings) Map.empty [0x00, 0x9F, 0x09] = Some 0"
proof -
  have o: "nfc_open ''pn544'' 1 ''pn544'' NULL Map.empty = Some (0, 1, [1 \<mapsto> pn544_opened])"
    by (simp add: nfc_open_def pn544_opened_def)
  let ?r = "[0x00, 0x9F, 0x09, 0x00] :: 8 word list"
  have t: "map (setting_at pn544_opened) [0..<num_eeprom_settings pn544_opened] = pn544_eedata_settings"
    "?r \<in> set pn544_eedata_settings \<Longrightarrow> fold program_setting (rev pn544_eedata_settings) Map.empty (take 3 ?r) = Some (?r ! 3)"
    using nfc_open_settings [OF o, of pn544_opened] by (simp, metis fun_upd_same set_rev)
  have n: "2 < num_eeprom_settings pn544_opened" "?r \<in> set pn544_eedata_settings"
    "pn544_eedata_settings ! 2 = [0x00, 0x9B, 0xD3, 0x0A]"
    by (simp_all add: pn544_opened_def pn544_eedata_settings_def)
  have "setting_at pn544_opened 2 = map (setting_at pn544_opened) [0..<num_eeprom_settings pn544_opened] ! 2"
    using n(1) by (simp add: numeral_2_eq_2)
  with t n show ?thesis by (simp add: numeral_3_eq_3)
qed

theorem nfc_open_close_witness:
  "\<exists>h'. nfc_open ''pn544'' 1 ''pn544'' NULL Map.empty = Some (0, 1, h') \<and> pn544_close 1 h' = Some (0, Map.empty)"
  using nfc_open_close [of Map.empty 1 "''pn544''" NULL] by simp

end
