(* ===== verification/Thread_Helper.thy ===== *)
theory Thread_Helper
  imports Prelude
begin

text \<open>
  The thread helper, \<open>gps/libloc_api_50001/loc_eng_dmn_conn_thread_helper.c\<close>: it starts a thread
  that runs four client functions and makes the starter wait until the first of them is done.

  \<^item> \<open>thelper\<close> is the struct, with the mutex and the condition variable reduced to whether they are
    initialised; which library calls fail is an argument.
  \<^item> A client function may be missing; what it returns is open, so every result is a step.
  \<^item> \<open>th_step\<close> interleaves the starter (in \<open>loc_eng_dmn_conn_launch_thelper\<close>), the new thread (in
    \<open>thelper_main\<close>) and a third thread that may call \<open>loc_eng_dmn_conn_unblock_thelper\<close>. The two
    critical sections and every access to a flag outside them are one step each.
\<close>

section \<open>Data and single-threaded functions\<close>

record thelper =
  thread_exit :: bool
  thread_ready :: bool
  cond_live :: bool
  mutex_live :: bool
  thread_context :: "nat option"
  has_init :: bool
  has_pre :: bool
  has_proc :: bool
  has_post :: bool

definition thelper_signal_init :: "int \<Rightarrow> int \<Rightarrow> thelper \<Rightarrow> int \<times> thelper" where
  "thelper_signal_init cond_result mutex_result t =
     (let t = t\<lparr>thread_exit := False, thread_ready := False\<rparr> in
      if cond_result \<noteq> 0 then (cond_result, t)
      else if mutex_result \<noteq> 0 then (mutex_result, t\<lparr>cond_live := False\<rparr>)
      else (mutex_result, t\<lparr>cond_live := True, mutex_live := True\<rparr>))"

definition thelper_signal_destroy :: "int \<Rightarrow> int \<Rightarrow> thelper \<Rightarrow> int \<times> thelper" where
  "thelper_signal_destroy cond_result mutex_result t =
     (let ret_result = (if cond_result \<noteq> 0 then cond_result else 0);
          ret_result = (if mutex_result \<noteq> 0 then mutex_result else ret_result)
      in (ret_result, t\<lparr>cond_live := False, mutex_live := False\<rparr>))"

text \<open>The first test of \<open>thelper_signal_wait\<close>: whether it waits. What it returns is \<open>wait_result\<close>,
  read after the wait, if there was one.\<close>

definition wait_needed :: "thelper \<Rightarrow> bool" where
  "wait_needed t \<longleftrightarrow> \<not> thread_ready t \<and> \<not> thread_exit t"

definition wait_result :: "int \<Rightarrow> thelper \<Rightarrow> int" where
  "wait_result result t = (if thread_exit t then - 1 else result)"

definition thelper_signal_ready :: "thelper \<Rightarrow> thelper" where
  "thelper_signal_ready t = t\<lparr>thread_ready := True\<rparr>"

definition thelper_signal_block :: "thelper \<Rightarrow> bool \<times> thelper" where
  "thelper_signal_block t = (thread_ready t, t\<lparr>thread_ready := False\<rparr>)"

definition loc_eng_dmn_conn_unblock_thelper :: "thelper \<Rightarrow> int \<times> thelper" where
  "loc_eng_dmn_conn_unblock_thelper t = (0, t\<lparr>thread_exit := True\<rparr>)"

text \<open>The part of \<open>loc_eng_dmn_conn_launch_thelper\<close> before the thread is created.\<close>

definition prepare_thelper ::
    "int \<Rightarrow> int \<Rightarrow> nat option \<Rightarrow> bool \<Rightarrow> bool \<Rightarrow> bool \<Rightarrow> bool \<Rightarrow> thelper \<Rightarrow> thelper" where
  "prepare_thelper cond_result mutex_result context init pre proc post t =
     (let t = snd (thelper_signal_init cond_result mutex_result t);
          t = (if context \<noteq> None then t\<lparr>thread_context := context\<rparr> else t)
      in t\<lparr>has_init := init, has_pre := pre, has_proc := proc, has_post := post\<rparr>)"

section \<open>The threads\<close>

datatype client_call = Init int | Pre int | Proc int | Post int

text \<open>Where the new thread is in \<open>thelper_main\<close>, and the starter in the rest of
  \<open>loc_eng_dmn_conn_launch_thelper\<close>. \<open>Left\<close> is behind \<open>thelper_signal_wait\<close>; \<open>LaunchDone\<close> carries
  the return value.\<close>

datatype main_pc =
    NotCreated | AtInit | AtFailSignal | AtSignal | AtPre | AtProc | AtTest | AtPost | MainDone

datatype launch_pc = AtCreate | AtWait | WaitBlocked | WaitWoken | Left | LaunchDone int

record th_state =
  helper :: thelper
  main_at :: main_pc
  launch_at :: launch_pc
  client_calls :: "client_call list"
  spurious_wakeups :: nat

definition call_client :: "client_call \<Rightarrow> th_state \<Rightarrow> th_state" where
  "call_client c s = s\<lparr>client_calls := client_calls s @ [c]\<rparr>"

definition set_exit :: "th_state \<Rightarrow> th_state" where
  "set_exit s = s\<lparr>helper := (helper s)\<lparr>thread_exit := True\<rparr>\<rparr>"

definition goto_main :: "main_pc \<Rightarrow> th_state \<Rightarrow> th_state" where
  "goto_main pc s = s\<lparr>main_at := pc\<rparr>"

definition goto_launch :: "launch_pc \<Rightarrow> th_state \<Rightarrow> th_state" where
  "goto_launch pc s = s\<lparr>launch_at := pc\<rparr>"

text \<open>\<open>thelper_signal_ready\<close> called by the new thread: the signal wakes the starter if it waits.\<close>

definition signal_ready :: "th_state \<Rightarrow> th_state" where
  "signal_ready s =
     s\<lparr>helper := thelper_signal_ready (helper s),
       launch_at := (if launch_at s = WaitBlocked then WaitWoken else launch_at s)\<rparr>"

lemmas th_defs [state_defs] =
  call_client_def set_exit_def goto_main_def goto_launch_def signal_ready_def
  thelper_signal_ready_def wait_needed_def loc_eng_dmn_conn_unblock_thelper_def

inductive th_step :: "th_state \<Rightarrow> th_state \<Rightarrow> bool" where
  create: "launch_at s = AtCreate \<Longrightarrow> th_step s (goto_launch AtWait (goto_main AtInit s))"
| create_failed: "launch_at s = AtCreate \<Longrightarrow> th_step s (goto_launch (LaunchDone (- 1)) s)"
| wait: "launch_at s = AtWait \<Longrightarrow> wait_needed (helper s) \<Longrightarrow> th_step s (goto_launch WaitBlocked s)"
| no_wait: "launch_at s = AtWait \<Longrightarrow> \<not> wait_needed (helper s) \<Longrightarrow> th_step s (goto_launch Left s)"
| woken: "launch_at s = WaitWoken \<Longrightarrow> th_step s (goto_launch Left s)"
| spurious: "launch_at s = WaitBlocked \<Longrightarrow>
    th_step s (goto_launch Left (s\<lparr>spurious_wakeups := Suc (spurious_wakeups s)\<rparr>))"
| launched: "launch_at s = Left \<Longrightarrow>
    th_step s (goto_launch (LaunchDone (if thread_exit (helper s) then 1 else 0)) s)"
| no_init: "main_at s = AtInit \<Longrightarrow> \<not> has_init (helper s) \<Longrightarrow> th_step s (goto_main AtSignal s)"
| init_ok: "main_at s = AtInit \<Longrightarrow> has_init (helper s) \<Longrightarrow> 0 \<le> r \<Longrightarrow>
    th_step s (goto_main AtSignal (call_client (Init r) s))"
| init_fail: "main_at s = AtInit \<Longrightarrow> has_init (helper s) \<Longrightarrow> r < 0 \<Longrightarrow>
    th_step s (goto_main AtFailSignal (set_exit (call_client (Init r) s)))"
| fail_signal: "main_at s = AtFailSignal \<Longrightarrow> th_step s (goto_main MainDone (signal_ready s))"
| signal: "main_at s = AtSignal \<Longrightarrow> th_step s (goto_main AtPre (signal_ready s))"
| no_pre: "main_at s = AtPre \<Longrightarrow> \<not> has_pre (helper s) \<Longrightarrow> th_step s (goto_main AtProc s)"
| pre_ok: "main_at s = AtPre \<Longrightarrow> has_pre (helper s) \<Longrightarrow> 0 \<le> r \<Longrightarrow>
    th_step s (goto_main AtProc (call_client (Pre r) s))"
| pre_fail: "main_at s = AtPre \<Longrightarrow> has_pre (helper s) \<Longrightarrow> r < 0 \<Longrightarrow>
    th_step s (goto_main MainDone (set_exit (call_client (Pre r) s)))"
| no_proc: "main_at s = AtProc \<Longrightarrow> \<not> has_proc (helper s) \<Longrightarrow> th_step s (goto_main AtTest s)"
| proc_ok: "main_at s = AtProc \<Longrightarrow> has_proc (helper s) \<Longrightarrow> 0 \<le> r \<Longrightarrow>
    th_step s (goto_main AtTest (call_client (Proc r) s))"
| proc_fail: "main_at s = AtProc \<Longrightarrow> has_proc (helper s) \<Longrightarrow> r < 0 \<Longrightarrow>
    th_step s (goto_main AtTest (set_exit (call_client (Proc r) s)))"
| again: "main_at s = AtTest \<Longrightarrow> \<not> thread_exit (helper s) \<Longrightarrow> th_step s (goto_main AtProc s)"
| leave: "main_at s = AtTest \<Longrightarrow> thread_exit (helper s) \<Longrightarrow> th_step s (goto_main AtPost s)"
| no_post: "main_at s = AtPost \<Longrightarrow> \<not> has_post (helper s) \<Longrightarrow> th_step s (goto_main MainDone s)"
| post: "main_at s = AtPost \<Longrightarrow> has_post (helper s) \<Longrightarrow>
    th_step s (goto_main MainDone (call_client (Post r) s))"
| unblock: "th_step s (s\<lparr>helper := snd (loc_eng_dmn_conn_unblock_thelper (helper s))\<rparr>)"

definition th_start :: "thelper \<Rightarrow> th_state" where
  "th_start t = \<lparr>helper = t, main_at = NotCreated, launch_at = AtCreate, client_calls = [], spurious_wakeups = 0\<rparr>"

inductive th_reachable :: "thelper \<Rightarrow> th_state \<Rightarrow> bool" for t0 where
  start: "th_reachable t0 (th_start (prepare_thelper 0 0 context init pre proc post t0))"
| step: "th_reachable t0 s \<Longrightarrow> th_step s s' \<Longrightarrow> th_reachable t0 s'"

section \<open>The order of the calls\<close>

text \<open>An automaton that reads the calls of the client functions: what may be called next, and where a
  failure leads. \<open>Stopped\<close> is behind a failed \<open>thread_proc\<close>.\<close>

datatype phase = Begun | Inited | Looping | Stopped | Failed | Ended

fun next_phase :: "phase \<Rightarrow> client_call \<Rightarrow> phase option" where
  "next_phase Begun (Init r) = Some (if r < 0 then Failed else Inited)"
| "next_phase Begun (Pre r) = Some (if r < 0 then Failed else Looping)"
| "next_phase Inited (Pre r) = Some (if r < 0 then Failed else Looping)"
| "next_phase Begun (Proc r) = Some (if r < 0 then Stopped else Looping)"
| "next_phase Inited (Proc r) = Some (if r < 0 then Stopped else Looping)"
| "next_phase Looping (Proc r) = Some (if r < 0 then Stopped else Looping)"
| "next_phase Begun (Post r) = Some Ended"
| "next_phase Inited (Post r) = Some Ended"
| "next_phase Looping (Post r) = Some Ended"
| "next_phase Stopped (Post r) = Some Ended"
| "next_phase _ _ = None"

fun run_phases :: "phase \<Rightarrow> client_call list \<Rightarrow> phase option" where
  "run_phases p [] = Some p"
| "run_phases p (c # cs) = do { p \<leftarrow> next_phase p c; run_phases p cs }"

lemma run_phases_append [simp]:
  "run_phases p (cs @ ds) = do { p \<leftarrow> run_phases p cs; run_phases p ds }"
  by (induction cs arbitrary: p) (auto split: Option.bind_split)

text \<open>The phases that the code may be in at a program point; in particular every function the client
  has given has been called before the point behind it.\<close>

definition before_pre :: "thelper \<Rightarrow> phase" where
  "before_pre t = (if has_init t then Inited else Begun)"

definition before_loop :: "thelper \<Rightarrow> phase" where
  "before_loop t = (if has_pre t then Looping else before_pre t)"

fun phases_at :: "main_pc \<Rightarrow> thelper \<Rightarrow> phase set" where
  "phases_at NotCreated t = {Begun}"
| "phases_at AtInit t = {Begun}"
| "phases_at AtFailSignal t = {Failed}"
| "phases_at AtSignal t = {before_pre t}"
| "phases_at AtPre t = {before_pre t}"
| "phases_at AtProc t = {before_loop t, Looping}"
| "phases_at AtTest t = {before_loop t, Looping, Stopped}"
| "phases_at AtPost t = {before_loop t, Looping, Stopped}"
| "phases_at MainDone t = (if has_post t then {Failed, Ended} else {Failed, before_loop t, Looping, Stopped})"

definition proc_calls :: "th_state \<Rightarrow> nat" where
  "proc_calls s = length (filter (\<lambda>c. \<exists>r. c = Proc r) (client_calls s))"

section \<open>Invariants\<close>

definition call_inv :: "th_state \<Rightarrow> bool" where
  "call_inv s \<longleftrightarrow>
     (\<exists>p. run_phases Begun (client_calls s) = Some p \<and> p \<in> phases_at (main_at s) (helper s)
        \<and> (p = Failed \<or> p = Stopped \<longrightarrow> thread_exit (helper s)))"

definition sync_inv :: "th_state \<Rightarrow> bool" where
  "sync_inv s \<longleftrightarrow>
     (main_at s = NotCreated \<longleftrightarrow> launch_at s \<in> {AtCreate, LaunchDone (- 1)}) \<and>
     (main_at s \<in> {NotCreated, AtInit, AtFailSignal, AtSignal} \<longleftrightarrow> \<not> thread_ready (helper s)) \<and>
     (launch_at s = WaitBlocked \<longrightarrow> \<not> thread_ready (helper s)) \<and>
     (launch_at s = WaitWoken \<longrightarrow> thread_ready (helper s)) \<and>
     (launch_at s = Left \<and> spurious_wakeups s = 0 \<longrightarrow> thread_ready (helper s) \<or> thread_exit (helper s)) \<and>
     (launch_at s = LaunchDone 0 \<and> spurious_wakeups s = 0 \<longrightarrow> thread_ready (helper s))"

lemma th_start_inv:
  "call_inv (th_start (prepare_thelper 0 0 context init pre proc post t0))"
  "sync_inv (th_start (prepare_thelper 0 0 context init pre proc post t0))"
  by (simp_all add: call_inv_def sync_inv_def th_start_def prepare_thelper_def thelper_signal_init_def Let_def)

lemma sync_inv_step: "th_step s s' \<Longrightarrow> sync_inv s \<Longrightarrow> sync_inv s'"
  by (induction rule: th_step.induct) (auto simp: sync_inv_def th_defs)

lemma call_invI:
  assumes "call_inv s" and "client_calls s' = client_calls s"
    and "\<And>p. p \<in> phases_at (main_at s) (helper s) \<Longrightarrow> (p = Failed \<or> p = Stopped \<longrightarrow> thread_exit (helper s)) \<Longrightarrow>
      p \<in> phases_at (main_at s') (helper s') \<and> (p = Failed \<or> p = Stopped \<longrightarrow> thread_exit (helper s'))"
  shows "call_inv s'"
  using assms unfolding call_inv_def by metis

lemma call_invI_call:
  assumes "call_inv s" and "client_calls s' = client_calls s @ [c]"
    and "\<And>p. p \<in> phases_at (main_at s) (helper s) \<Longrightarrow> (p = Failed \<or> p = Stopped \<longrightarrow> thread_exit (helper s)) \<Longrightarrow>
      \<exists>p'. next_phase p c = Some p' \<and> p' \<in> phases_at (main_at s') (helper s')
        \<and> (p' = Failed \<or> p' = Stopped \<longrightarrow> thread_exit (helper s'))"
  shows "call_inv s'"
  using assms unfolding call_inv_def by fastforce

lemma phases_at_flags [simp]:
  "phases_at pc (t\<lparr>thread_exit := b\<rparr>) = phases_at pc t" "phases_at pc (t\<lparr>thread_ready := b\<rparr>) = phases_at pc t"
  by (cases pc; simp add: before_loop_def before_pre_def)+

lemma call_inv_step: "th_step s s' \<Longrightarrow> sync_inv s \<Longrightarrow> call_inv s \<Longrightarrow> call_inv s'"
proof (induction rule: th_step.induct)
  case (create s)
  then have "main_at s = NotCreated" by (simp add: sync_inv_def)
  with create(3) show ?case by (elim call_invI) (auto simp: th_defs)
next
  case (no_init s) then show ?case by (elim call_invI) (auto simp: th_defs before_pre_def)
next
  case (init_ok s r) then show ?case by (elim call_invI_call) (auto simp: th_defs before_pre_def)
next
  case (init_fail s r) then show ?case by (elim call_invI_call) (auto simp: th_defs before_pre_def)
next
  case (pre_ok s r) then show ?case
    by (elim call_invI_call) (auto simp: th_defs before_pre_def before_loop_def)
next
  case (pre_fail s r) then show ?case
    by (elim call_invI_call) (auto simp: th_defs before_pre_def before_loop_def)
next
  case (proc_ok s r) then show ?case
    by (elim call_invI_call) (auto simp: th_defs before_pre_def before_loop_def split: if_splits)
next
  case (proc_fail s r) then show ?case
    by (elim call_invI_call) (auto simp: th_defs before_pre_def before_loop_def split: if_splits)
next
  case (post s r) then show ?case
    by (elim call_invI_call) (auto simp: th_defs before_pre_def before_loop_def split: if_splits)
qed (erule call_invI; auto simp: th_defs before_pre_def before_loop_def split: if_splits)+

lemma th_reachable_inv: "th_reachable t0 s \<Longrightarrow> call_inv s \<and> sync_inv s"
  by (induction rule: th_reachable.induct) (auto intro: th_start_inv call_inv_step sync_inv_step)

section \<open>Correctness\<close>

text \<open>C10: in every interleaving the client functions are called in order: the initialisation once,
  then the preparation once, then the loop body any number of times, then the clean-up at most
  once, each only if it is there; after a failed initialisation or preparation nothing is called any
  more, after a failed loop body only the clean-up, and in all these cases the exit flag is set.\<close>
theorem thelper_call_order:
  assumes "th_reachable t0 s"
  shows "\<exists>p. run_phases Begun (client_calls s) = Some p \<and> p \<in> phases_at (main_at s) (helper s)
    \<and> (p = Failed \<or> p = Stopped \<longrightarrow> thread_exit (helper s))"
  using th_reachable_inv [OF assms] by (simp add: call_inv_def)

text \<open>The starter does not miss the signal: while it is blocked the new thread is still in front of
  it, and the step that signals unblocks the starter. If no spurious wakeup happens, a launch that
  reports success has seen the initialisation succeed.\<close>
theorem thelper_launch_synchronises:
  assumes "th_reachable t0 s"
  shows "(launch_at s = WaitBlocked \<longrightarrow> main_at s \<in> {AtInit, AtFailSignal, AtSignal}
        \<and> launch_at (signal_ready s) = WaitWoken)
    \<and> (launch_at s = LaunchDone 0 \<and> spurious_wakeups s = 0 \<longrightarrow>
        thread_ready (helper s) \<and> main_at s \<notin> {NotCreated, AtInit, AtFailSignal, AtSignal})"
  using th_reachable_inv [OF assms] by (auto simp: sync_inv_def signal_ready_def)

lemma proc_calls_step:
  assumes "th_step s s'" and "sync_inv s" and "thread_exit (helper s)"
  shows "thread_exit (helper s') \<and>
    proc_calls s' + (if main_at s' \<in> {AtInit, AtSignal, AtPre, AtProc, NotCreated} then 1 else 0)
      \<le> proc_calls s + (if main_at s \<in> {AtInit, AtSignal, AtPre, AtProc, NotCreated} then 1 else 0)"
  using assms by (induction rule: th_step.induct) (auto simp: th_defs proc_calls_def sync_inv_def)

text \<open>C29: once the exit flag is set, by a failure or by \<open>loc_eng_dmn_conn_unblock_thelper\<close>, the loop
  body is started at most one more time, however the threads are scheduled from then on.\<close>
theorem thelper_exit_stops_loop:
  assumes "th_reachable t0 s" and "thread_exit (helper s)" and "th_step\<^sup>*\<^sup>* s s'"
  shows "thread_exit (helper s') \<and> proc_calls s' \<le> proc_calls s + 1"
proof -
  have "th_reachable t0 s' \<and> thread_exit (helper s') \<and>
    proc_calls s' + (if main_at s' \<in> {AtInit, AtSignal, AtPre, AtProc, NotCreated} then 1 else 0)
      \<le> proc_calls s + (if main_at s \<in> {AtInit, AtSignal, AtPre, AtProc, NotCreated} then 1 else 0)"
    using assms(3)
  proof (induction rule: rtranclp_induct)
    case base
    then show ?case using assms(1,2) by simp
  next
    case (step y z)
    then have "sync_inv y" "th_reachable t0 z" using th_reachable_inv th_reachable.step by blast+
    with proc_calls_step [OF step(2)] step(3) show ?case by (auto simp del: insert_iff)
  qed
  then show ?thesis by (auto split: if_splits)
qed

section \<open>Witnesses\<close>

definition th0 :: thelper where
  "th0 = \<lparr>thread_exit = True, thread_ready = True, cond_live = False, mutex_live = False, thread_context = None,
          has_init = False, has_pre = False, has_proc = False, has_post = False\<rparr>"

definition th_full :: thelper where "th_full = prepare_thelper 0 0 None True True True True th0"

text \<open>One scheduling: the starter waits, the initialisation fails and the starter is woken.\<close>

definition th_blocked :: th_state where
  "th_blocked = \<lparr>helper = th_full, main_at = AtInit, launch_at = WaitBlocked, client_calls = [], spurious_wakeups = 0\<rparr>"

lemma reach_blocked: "th_reachable th0 th_blocked"
proof -
  have 0: "th_reachable th0 (th_start th_full)" unfolding th_full_def by (rule th_reachable.start)
  have "th_reachable th0 (goto_launch AtWait (goto_main AtInit (th_start th_full)))"
    by (rule th_reachable.step [OF 0 th_step.create]) (simp add: th_start_def)
  then have "th_reachable th0 (goto_launch WaitBlocked (goto_launch AtWait (goto_main AtInit (th_start th_full))))"
    by (rule th_reachable.step [OF _ th_step.wait])
      (simp_all add: th_defs th_start_def th_full_def prepare_thelper_def thelper_signal_init_def Let_def)
  then show ?thesis by (simp add: th_blocked_def th_defs th_start_def)
qed

theorem thelper_launch_synchronises_witness:
  "\<exists>s. th_reachable th0 s \<and> launch_at s = WaitBlocked \<and> launch_at (signal_ready s) = WaitWoken"
  using thelper_launch_synchronises [OF reach_blocked] reach_blocked by (auto simp: th_blocked_def)

text \<open>\<open>thelper_signal_wait\<close> tests its condition with \<open>if\<close>: after a spurious wakeup the launch reports
  success although the initialisation has not even begun.\<close>

lemma spurious_launch:
  "\<exists>s. th_reachable th0 s \<and> launch_at s = LaunchDone 0 \<and> main_at s = AtInit \<and> client_calls s = []"
proof -
  let ?s1 = "goto_launch Left (th_blocked\<lparr>spurious_wakeups := Suc (spurious_wakeups th_blocked)\<rparr>)"
  have "th_reachable th0 ?s1"
    by (rule th_reachable.step [OF reach_blocked th_step.spurious]) (simp add: th_blocked_def)
  then have "th_reachable th0 (goto_launch (LaunchDone (if thread_exit (helper ?s1) then 1 else 0)) ?s1)"
    by (rule th_reachable.step [OF _ th_step.launched]) (simp add: th_defs)
  moreover have "\<not> thread_exit th_full"
    by (simp add: th_full_def prepare_thelper_def thelper_signal_init_def Let_def)
  ultimately show ?thesis by (intro exI) (auto simp: th_defs th_blocked_def)
qed

theorem thelper_call_order_witness:
  "\<exists>s. th_reachable th0 s \<and> client_calls s = [Init (- 1)] \<and> thread_exit (helper s)"
proof -
  let ?s = "goto_main AtFailSignal (set_exit (call_client (Init (- 1)) th_blocked))"
  have r: "th_reachable th0 ?s"
    by (rule th_reachable.step [OF reach_blocked th_step.init_fail])
      (simp_all add: th_blocked_def th_full_def prepare_thelper_def thelper_signal_init_def Let_def)
  have "client_calls ?s = [Init (- 1)]" by (simp add: th_defs th_blocked_def)
  with thelper_call_order [OF r] r show ?thesis by fastforce
qed

theorem thelper_exit_stops_loop_witness:
  "\<exists>s s'. th_reachable th0 s \<and> th_step\<^sup>*\<^sup>* s s' \<and> client_calls s' = [Init (- 1)] \<and> proc_calls s' \<le> 1"
proof -
  let ?s = "th_blocked\<lparr>helper := snd (loc_eng_dmn_conn_unblock_thelper (helper th_blocked))\<rparr>"
  let ?s' = "goto_main AtFailSignal (set_exit (call_client (Init (- 1)) ?s))"
  have r: "th_reachable th0 ?s" by (rule th_reachable.step [OF reach_blocked th_step.unblock])
  have "th_step ?s ?s'"
    by (rule th_step.init_fail)
      (simp_all add: th_defs th_blocked_def th_full_def prepare_thelper_def thelper_signal_init_def Let_def)
  then have st: "th_step\<^sup>*\<^sup>* ?s ?s'" by blast
  have "proc_calls ?s = 0" "client_calls ?s' = [Init (- 1)]" "thread_exit (helper ?s)"
    by (simp_all add: th_defs proc_calls_def th_blocked_def)
  with thelper_exit_stops_loop [OF r _ st] r st show ?thesis by fastforce
qed

end
