(* ===== verification/Loc_Ni.thy ===== *)
theory Loc_Ni
  imports Prelude "HOL-Library.Multiset" "HOL-Library.Word"
begin

text \<open>
  Network-initiated location requests (\<open>gps/libloc_api_50001/loc_eng_ni.cpp\<close>, \<open>.h\<close>): the modem asks
  for a location, the user is asked, and the answer, or after a time no answer, is sent back.

  \<^item> \<open>ni_data\<close> is \<open>loc_eng_ni_data_s_type\<close> with the callback. The request \<open>rawRequest\<close> is memory of
    the modem's library that has to be given back exactly once: with an answer, or freed.
  \<^item> The functions run on three kinds of thread: the engine's (\<open>request_handler\<close> and
    \<open>reset_on_engine_restart\<close>), the framework's (\<open>respond\<close>) and one thread per request
    (\<open>ni_thread_proc\<close>). \<open>ni_step\<close> interleaves them; a step is what one thread does between two points
    where another can come in.
\<close>

section \<open>State and operations\<close>

definition GPS_NI_RESPONSE_NORESP :: int where "GPS_NI_RESPONSE_NORESP = 3"
definition GPS_NI_PRIVACY_OVERRIDE :: "32 word" where "GPS_NI_PRIVACY_OVERRIDE = 4"
definition LOC_NI_NO_RESPONSE_TIME :: int where "LOC_NI_NO_RESPONSE_TIME = 20"

record GpsNiNotification =
  notification_id :: "32 word"
  ni_type :: "32 word"
  notify_flags :: "32 word"
  timeout :: int
  default_response :: int

record ni_data =
  ni_notify_cb :: bool
  respTimeLeft :: int
  respRecvd :: bool
  rawRequest :: ptr
  reqID :: "32 word"
  resp :: int

text \<open>What the handler does besides changing the data: freeing a request, telling the engine to mute
  a session, starting a thread and calling the framework.\<close>

datatype ni_out = NiFree ptr | NiMute | NiSpawn | NiNotify GpsNiNotification

definition loc_eng_ni_init :: "bool \<Rightarrow> ni_data \<Rightarrow> ni_data" where
  "loc_eng_ni_init notify_cb d =
     (if \<not> notify_cb then d
      else if ni_notify_cb d then d
      else d\<lparr>respTimeLeft := 0, respRecvd := False, rawRequest := NULL, reqID := 0, ni_notify_cb := True\<rparr>)"

text \<open>\<open>thread_ok\<close>: whether \<open>pthread_create\<close> succeeds; the code goes on if it does not.\<close>

definition loc_eng_ni_request_handler ::
    "bool \<Rightarrow> GpsNiNotification \<Rightarrow> ptr \<Rightarrow> ni_data \<Rightarrow> ni_data \<times> ni_out list" where
  "loc_eng_ni_request_handler thread_ok notif passThrough d =
     (if \<not> ni_notify_cb d then (d, [])
      else if rawRequest d \<noteq> NULL then (d, if passThrough \<noteq> NULL then [NiFree passThrough] else [])
      else let notif = notif\<lparr>notification_id := reqID d\<rparr> in
        (d\<lparr>rawRequest := passThrough,
           respTimeLeft := 5 + (if timeout notif \<noteq> 0 then timeout notif else LOC_NI_NO_RESPONSE_TIME)\<rparr>,
         (if notify_flags notif = GPS_NI_PRIVACY_OVERRIDE then [NiMute] else [])
         @ (if thread_ok then [NiSpawn] else []) @ [NiNotify notif]))"

text \<open>\<open>ni_thread_proc\<close>: a return of the wait with a time-out, the part after the loop up to the
  unlock, and the part after it. The message is the answer and the request.\<close>

definition ni_timed_out :: "ni_data \<Rightarrow> ni_data" where
  "ni_timed_out d = d\<lparr>resp := GPS_NI_RESPONSE_NORESP\<rparr>"

definition ni_take_request :: "ni_data \<Rightarrow> (int \<times> ptr) option \<times> ni_data" where
  "ni_take_request d =
     (if rawRequest d \<noteq> NULL then (Some (resp d, rawRequest d), d\<lparr>respRecvd := False, rawRequest := NULL\<rparr>)
      else (None, d\<lparr>respRecvd := False\<rparr>))"

definition ni_next_id :: "ni_data \<Rightarrow> ni_data" where
  "ni_next_id d = d\<lparr>respTimeLeft := 0, reqID := reqID d + 1\<rparr>"

text \<open>\<open>loc_eng_ni_respond\<close>: the test before the lock and the part under it.\<close>

definition ni_respond_test :: "32 word \<Rightarrow> ni_data \<Rightarrow> bool" where
  "ni_respond_test notif_id d \<longleftrightarrow> ni_notify_cb d \<and> notif_id = reqID d \<and> rawRequest d \<noteq> NULL"

definition ni_respond_locked :: "int \<Rightarrow> ni_data \<Rightarrow> ni_data" where
  "ni_respond_locked user_response d = d\<lparr>resp := user_response, respRecvd := True\<rparr>"

text \<open>\<open>loc_eng_ni_reset_on_engine_restart\<close>: the free, the assignment and the part under the lock.\<close>

definition ni_reset_test :: "ni_data \<Rightarrow> bool" where
  "ni_reset_test d \<longleftrightarrow> ni_notify_cb d \<and> rawRequest d \<noteq> NULL"

definition ni_reset_clear :: "ni_data \<Rightarrow> ni_data" where
  "ni_reset_clear d = d\<lparr>rawRequest := NULL\<rparr>"

definition ni_reset_locked :: "ni_data \<Rightarrow> ni_data" where
  "ni_reset_locked d = d\<lparr>respRecvd := True\<rparr>"

text \<open>The function as one, as the engine's thread sees it when no other thread comes in.\<close>

definition loc_eng_ni_reset_on_engine_restart :: "ni_data \<Rightarrow> ni_data \<times> ni_out list" where
  "loc_eng_ni_reset_on_engine_restart d =
     (if ni_reset_test d then (ni_reset_locked (ni_reset_clear d), [NiFree (rawRequest d)]) else (d, []))"

definition loc_eng_ni_respond :: "32 word \<Rightarrow> int \<Rightarrow> ni_data \<Rightarrow> ni_data" where
  "loc_eng_ni_respond notif_id user_response d =
     (if ni_respond_test notif_id d then ni_respond_locked user_response d else d)"

lemmas ni_defs [state_defs] =
  loc_eng_ni_request_handler_def ni_timed_out_def ni_take_request_def ni_next_id_def
  ni_respond_test_def ni_respond_locked_def ni_reset_test_def ni_reset_clear_def ni_reset_locked_def

section \<open>The threads together\<close>

text \<open>\<open>NiWaiting\<close>: before or in the loop, \<open>NiUnlocked\<close>: after the unlock, with the message if there
  is one, \<open>NiCounted\<close>: before the send. A reset is \<open>ResetFreed\<close> after the free and \<open>ResetCleared\<close> after
  the assignment.\<close>

datatype ni_pc = NiWaiting | NiUnlocked "(int \<times> ptr) option" | NiCounted "(int \<times> ptr) option"
datatype reset_pc = NoReset | ResetFreed | ResetCleared

text \<open>\<open>accepted\<close>: the requests that were taken, with the ids they were shown under; \<open>answers\<close>: the
  messages sent; \<open>given_back\<close>: the requests freed by these functions. \<open>responders\<close> are the framework
  threads between the test and the lock.\<close>

record ni_sys =
  ni :: ni_data
  ni_threads :: "ni_pc list"
  responders :: "int list"
  resetting :: reset_pc
  accepted :: "(32 word \<times> ptr) list"
  answers :: "(int \<times> ptr) list"
  given_back :: "ptr list"

definition remove_at :: "nat \<Rightarrow> 'a list \<Rightarrow> 'a list" where
  "remove_at i xs = take i xs @ drop (Suc i) xs"

definition frees_of :: "ni_out list \<Rightarrow> ptr list" where
  "frees_of os = concat (map (\<lambda>x. case x of NiFree p \<Rightarrow> [p] | _ \<Rightarrow> []) os)"

definition shown_of :: "ni_out list \<Rightarrow> GpsNiNotification list" where
  "shown_of os = concat (map (\<lambda>x. case x of NiNotify n \<Rightarrow> [n] | _ \<Rightarrow> []) os)"

definition request_step :: "bool \<Rightarrow> GpsNiNotification \<Rightarrow> ptr \<Rightarrow> ni_sys \<Rightarrow> ni_sys" where
  "request_step thread_ok notif p s =
     (case loc_eng_ni_request_handler thread_ok notif p (ni s) of (d, os) \<Rightarrow>
        s\<lparr>ni := d, ni_threads := ni_threads s @ (if NiSpawn \<in> set os then [NiWaiting] else []),
          accepted := accepted s @ map (\<lambda>n. (notification_id n, p)) (shown_of os),
          given_back := given_back s @ frees_of os\<rparr>)"

inductive ni_step :: "ni_sys \<Rightarrow> ni_sys \<Rightarrow> bool" where
  request: "resetting s = NoReset \<Longrightarrow> p \<noteq> NULL \<Longrightarrow> ni_step s (request_step True notif p s)"
| test: "ni_respond_test notif_id (ni s) \<Longrightarrow> ni_step s (s\<lparr>responders := r # responders s\<rparr>)"
| respond: "i < length (responders s) \<Longrightarrow>
    ni_step s (s\<lparr>ni := ni_respond_locked (responders s ! i) (ni s), responders := remove_at i (responders s)\<rparr>)"
| expire: "i < length (ni_threads s) \<Longrightarrow> ni_threads s ! i = NiWaiting \<Longrightarrow>
    ni_take_request (ni_timed_out (ni s)) = (m, d) \<Longrightarrow>
    ni_step s (s\<lparr>ni := d, ni_threads := (ni_threads s)[i := NiUnlocked m]\<rparr>)"
| wake: "i < length (ni_threads s) \<Longrightarrow> ni_threads s ! i = NiWaiting \<Longrightarrow> respRecvd (ni s) \<Longrightarrow>
    ni_take_request (ni s) = (m, d) \<Longrightarrow>
    ni_step s (s\<lparr>ni := d, ni_threads := (ni_threads s)[i := NiUnlocked m]\<rparr>)"
| count: "i < length (ni_threads s) \<Longrightarrow> ni_threads s ! i = NiUnlocked m \<Longrightarrow>
    ni_step s (s\<lparr>ni := ni_next_id (ni s), ni_threads := (ni_threads s)[i := NiCounted m]\<rparr>)"
| answer: "i < length (ni_threads s) \<Longrightarrow> ni_threads s ! i = NiCounted m \<Longrightarrow>
    ni_step s (s\<lparr>ni_threads := remove_at i (ni_threads s),
                 answers := answers s @ (case m of None \<Rightarrow> [] | Some x \<Rightarrow> [x])\<rparr>)"
| reset_free: "resetting s = NoReset \<Longrightarrow> ni_reset_test (ni s) \<Longrightarrow>
    ni_step s (s\<lparr>given_back := given_back s @ [rawRequest (ni s)], resetting := ResetFreed\<rparr>)"
| reset_clear: "resetting s = ResetFreed \<Longrightarrow>
    ni_step s (s\<lparr>ni := ni_reset_clear (ni s), resetting := ResetCleared\<rparr>)"
| reset_signal: "resetting s = ResetCleared \<Longrightarrow>
    ni_step s (s\<lparr>ni := ni_reset_locked (ni s), resetting := NoReset\<rparr>)"

text \<open>Start: the interface has just been initialised.\<close>

definition ni_start :: "ni_data \<Rightarrow> ni_sys" where
  "ni_start d = \<lparr>ni = loc_eng_ni_init True (d\<lparr>ni_notify_cb := False\<rparr>), ni_threads = [], responders = [],
     resetting = NoReset, accepted = [], answers = [], given_back = []\<rparr>"

inductive ni_reachable :: "ni_sys \<Rightarrow> bool" where
  start: "ni_reachable (ni_start d)"
| step: "ni_reachable s \<Longrightarrow> ni_step s s' \<Longrightarrow> ni_reachable s'"

text \<open>The same without a restart of the modem.\<close>

inductive ni_reachable_up :: "ni_sys \<Rightarrow> bool" where
  start_up: "ni_reachable_up (ni_start d)"
| step_up: "ni_reachable_up s \<Longrightarrow> ni_step s s' \<Longrightarrow> resetting s' = NoReset \<Longrightarrow> ni_reachable_up s'"

section \<open>No request is lost or answered twice\<close>

definition carried :: "ni_pc \<Rightarrow> ptr list" where
  "carried t = (case t of NiWaiting \<Rightarrow> [] | NiUnlocked m \<Rightarrow> map snd (case m of None \<Rightarrow> [] | Some x \<Rightarrow> [x])
     | NiCounted m \<Rightarrow> map snd (case m of None \<Rightarrow> [] | Some x \<Rightarrow> [x]))"

definition in_flight :: "ni_sys \<Rightarrow> ptr multiset" where
  "in_flight s = (\<Sum>t \<in># mset (ni_threads s). mset (carried t))
     + (if rawRequest (ni s) = NULL then {#} else {#rawRequest (ni s)#})"

definition ni_inv :: "ni_sys \<Rightarrow> bool" where
  "ni_inv s \<longleftrightarrow> ni_notify_cb (ni s) \<and> resetting s = NoReset
     \<and> count (mset (ni_threads s)) NiWaiting = (if rawRequest (ni s) = NULL then 0 else 1)
     \<and> mset (map snd (accepted s)) = mset (map snd (answers s)) + in_flight s"

lemma carried_simps [simp]:
  "carried NiWaiting = []" "carried (NiUnlocked None) = []" "carried (NiUnlocked (Some x)) = [snd x]"
  "carried (NiCounted None) = []" "carried (NiCounted (Some x)) = [snd x]"
  by (simp_all add: carried_def)

lemma mset_remove_at: "i < length xs \<Longrightarrow> mset xs = add_mset (xs ! i) (mset (remove_at i xs))"
  unfolding remove_at_def
  by (metis id_take_nth_drop mset.simps(2) mset_append union_mset_add_mset_right)

text \<open>A step of one thread, by the threads that stay as they are.\<close>

lemma thread_update:
  assumes "i < length ts" and "ts ! i = t"
  obtains M where "mset ts = add_mset t M" and "\<And>t'. mset (ts[i := t']) = add_mset t' M" and "mset (remove_at i ts) = M"
proof
  show "mset ts = add_mset t (mset (remove_at i ts))" using mset_remove_at assms by metis
  show "mset (ts[i := t']) = add_mset t' (mset (remove_at i ts))" for t'
    using assms by (simp add: mset_update remove_at_def mset_remove_at [of i ts])
qed simp

lemma request_step_inv:
  assumes "ni_inv s" and "p \<noteq> NULL"
  shows "ni_inv (request_step True notif p s)"
  using assms
  by (auto simp: ni_inv_def request_step_def loc_eng_ni_request_handler_def Let_def in_flight_def
      shown_of_def frees_of_def)

lemma ni_step_inv:
  assumes "ni_step s s'" and "ni_inv s" and "resetting s' = NoReset"
  shows "ni_inv s'"
  using assms(1)
proof cases
  case (request p notif)
  with request_step_inv assms(2) show ?thesis by simp
next
  case (test notif_id r)
  with assms(2) show ?thesis by (simp add: ni_inv_def in_flight_def)
next
  case (respond i)
  with assms(2) show ?thesis by (simp add: ni_inv_def in_flight_def ni_respond_locked_def)
next
  case (expire i m d)
  obtain M where M: "mset (ni_threads s) = add_mset NiWaiting M"
    "\<And>t'. mset ((ni_threads s)[i := t']) = add_mset t' M" using thread_update expire(2,3) by metis
  with expire assms(2) show ?thesis
    by (auto simp: ni_inv_def in_flight_def ni_take_request_def ni_timed_out_def split: if_splits)
next
  case (wake i m d)
  obtain M where M: "mset (ni_threads s) = add_mset NiWaiting M"
    "\<And>t'. mset ((ni_threads s)[i := t']) = add_mset t' M" using thread_update wake(2,3) by metis
  with wake assms(2) show ?thesis
    by (auto simp: ni_inv_def in_flight_def ni_take_request_def split: if_splits)
next
  case (count i m)
  obtain M where M: "mset (ni_threads s) = add_mset (NiUnlocked m) M"
    "\<And>t'. mset ((ni_threads s)[i := t']) = add_mset t' M" using thread_update count(2,3) by metis
  with count assms(2) show ?thesis
    by (cases m) (auto simp: ni_inv_def in_flight_def ni_next_id_def)
next
  case (answer i m)
  obtain M where M: "mset (ni_threads s) = add_mset (NiCounted m) M" "mset (remove_at i (ni_threads s)) = M"
    using thread_update answer(2,3) by metis
  with answer assms(2) show ?thesis by (cases m) (auto simp: ni_inv_def in_flight_def)
qed (use assms in \<open>simp_all add: ni_inv_def\<close>)

lemma ni_reachable_up_inv: "ni_reachable_up s \<Longrightarrow> ni_inv s"
proof (induction rule: ni_reachable_up.induct)
  case (start_up d)
  show ?case by (simp add: ni_inv_def ni_start_def loc_eng_ni_init_def in_flight_def)
next
  case (step_up s s')
  with ni_step_inv show ?case by blast
qed

text \<open>The threads finish: a time-out is always possible.\<close>

definition weight :: "ni_pc \<Rightarrow> nat" where
  "weight t = (case t of NiWaiting \<Rightarrow> 3 | NiUnlocked m \<Rightarrow> 2 | NiCounted m \<Rightarrow> 1)"

definition work :: "ni_sys \<Rightarrow> nat" where
  "work s = (\<Sum>t \<in># mset (ni_threads s). weight t)"

lemma ni_progress:
  assumes "ni_threads s \<noteq> []"
  shows "\<exists>s'. ni_step s s' \<and> work s' < work s \<and> accepted s' = accepted s \<and> resetting s' = resetting s"
proof -
  let ?t = "ni_threads s ! 0"
  have 0: "0 < length (ni_threads s)" using assms by simp
  obtain M where M: "mset (ni_threads s) = add_mset ?t M"
    "\<And>t'. mset ((ni_threads s)[0 := t']) = add_mset t' M" "mset (remove_at 0 (ni_threads s)) = M"
    using thread_update [OF 0 refl] by metis
  show ?thesis
  proof (cases ?t)
    case NiWaiting
    obtain m d where md: "ni_take_request (ni_timed_out (ni s)) = (m, d)" by force
    from ni_step.expire [OF 0 NiWaiting md] M NiWaiting show ?thesis by (force simp: work_def weight_def)
  next
    case (NiUnlocked m)
    from ni_step.count [OF 0 NiUnlocked] M NiUnlocked show ?thesis by (force simp: work_def weight_def)
  next
    case (NiCounted m)
    show ?thesis
      by (rule exI, intro conjI, rule ni_step.answer [OF 0 NiCounted])
        (use M NiCounted in \<open>simp_all add: work_def weight_def\<close>)
  qed
qed

lemma ni_finishes: "\<exists>s'. ni_step\<^sup>*\<^sup>* s s' \<and> ni_threads s' = [] \<and> accepted s' = accepted s \<and> (ni_inv s \<longrightarrow> ni_inv s')"
proof (induction "work s" arbitrary: s rule: less_induct)
  case less
  show ?case
  proof (cases "ni_threads s = []")
    case False
    then obtain s1 where s1: "ni_step s s1" "work s1 < work s" "accepted s1 = accepted s" "resetting s1 = resetting s"
      using ni_progress by blast
    from less [OF s1(2)] obtain s' where "ni_step\<^sup>*\<^sup>* s1 s'" "ni_threads s' = []" "accepted s' = accepted s1"
      "ni_inv s1 \<longrightarrow> ni_inv s'" by blast
    moreover have "ni_inv s \<longrightarrow> ni_inv s1" using ni_step_inv [OF s1(1)] s1(4) by (simp add: ni_inv_def)
    ultimately show ?thesis using s1 by (metis converse_rtranclp_into_rtranclp)
  qed blast
qed

section \<open>Properties\<close>


text \<open>A request, the answer to it, and the next request.\<close>

definition sample_notif :: GpsNiNotification where
  "sample_notif = \<lparr>notification_id = 0, ni_type = 1, notify_flags = 2, timeout = 0, default_response = 1\<rparr>"

definition ni0 :: ni_data where
  "ni0 = \<lparr>ni_notify_cb = False, respTimeLeft = 9, respRecvd = True, rawRequest = NULL, reqID = 7, resp = 0\<rparr>"

lemmas ni_run_simps = request_step_def Let_def ni_defs shown_of_def frees_of_def remove_at_def
  ni_start_def ni0_def loc_eng_ni_init_def sample_notif_def GPS_NI_PRIVACY_OVERRIDE_def LOC_NI_NO_RESPONSE_TIME_def
  GPS_NI_RESPONSE_NORESP_def

definition shown1 :: ni_sys where "shown1 = request_step True sample_notif 5 (ni_start ni0)"

definition waiting_state :: "ptr \<Rightarrow> 32 word \<Rightarrow> bool \<Rightarrow> int \<Rightarrow> ni_data" where
  "waiting_state p i recvd r = \<lparr>ni_notify_cb = True, respTimeLeft = 25, respRecvd = recvd, rawRequest = p, reqID = i, resp = r\<rparr>"

lemma shown1_eq: "shown1 = \<lparr>ni = waiting_state 5 0 False 0, ni_threads = [NiWaiting], responders = [],
    resetting = NoReset, accepted = [(0, 5)], answers = [], given_back = []\<rparr>"
  by (simp add: shown1_def waiting_state_def ni_run_simps)

lemma reach_shown1: "ni_reachable_up shown1"
  unfolding shown1_def
  by (rule ni_reachable_up.step_up [OF ni_reachable_up.start_up ni_step.request])
    (simp_all add: ni_run_simps)


text \<open>The user's answer, given in time, is what is sent.\<close>

text \<open>An answer given with the id under which the waiting request was shown is the answer that is
  sent with that request, and the next request gets the next id; an answer with another id changes
  nothing.\<close>
theorem ni_user_answer_sent:
  assumes "ni_notify_cb d" and "rawRequest d \<noteq> NULL"
  shows "ni_take_request (loc_eng_ni_respond (reqID d) r d) = (Some (r, rawRequest d),
      d\<lparr>resp := r, respRecvd := False, rawRequest := NULL\<rparr>)
    \<and> (i \<noteq> reqID d \<longrightarrow> loc_eng_ni_respond i r d = d)
    \<and> (\<forall>ok n q. q \<noteq> NULL \<longrightarrow> reqID (fst (loc_eng_ni_request_handler ok n q (ni_next_id (snd (ni_take_request d))))) = reqID d + 1
        \<and> rawRequest (fst (loc_eng_ni_request_handler ok n q (ni_next_id (snd (ni_take_request d))))) = q)"
  using assms by (simp add: loc_eng_ni_respond_def ni_defs Let_def)

theorem ni_user_answer_sent_witness:
  "fst (ni_take_request (loc_eng_ni_respond 0 2 (ni shown1))) = Some (2, 5)"
  using ni_user_answer_sent [of "ni shown1" 2 3] by (simp add: shown1_eq waiting_state_def)

section \<open>What the threads can do to each other\<close>

text \<open>A request that arrives between the unlock and the increment of \<open>reqID\<close> is shown under the id of the
  one before; after the increment no answer to it is accepted any more.\<close>

lemma ni_id_reused:
  "\<exists>s. ni_reachable_up s \<and> accepted s = [(0, 5), (0, 6)] \<and> rawRequest (ni s) = 6 \<and> reqID (ni s) = 1"
proof -
  let ?d1 = "waiting_state NULL 0 False GPS_NI_RESPONSE_NORESP"
  let ?s2 = "shown1\<lparr>ni := ?d1, ni_threads := [NiUnlocked (Some (GPS_NI_RESPONSE_NORESP, 5))]\<rparr>"
  have "ni_step shown1 (shown1\<lparr>ni := ?d1, ni_threads := (ni_threads shown1)[0 := NiUnlocked (Some (GPS_NI_RESPONSE_NORESP, 5))]\<rparr>)"
    by (rule ni_step.expire) (simp_all add: shown1_eq waiting_state_def ni_run_simps)
  then have "ni_step shown1 ?s2" by (simp add: shown1_eq)
  from ni_reachable_up.step_up [OF reach_shown1 this] have r2: "ni_reachable_up ?s2" by (simp add: shown1_eq)
  let ?s3 = "request_step True sample_notif 6 ?s2"
  have r3: "ni_reachable_up ?s3"
    by (rule ni_reachable_up.step_up [OF r2 ni_step.request]) (simp_all add: shown1_eq waiting_state_def ni_run_simps)
  have "ni_step ?s3 (?s3\<lparr>ni := ni_next_id (ni ?s3), ni_threads := (ni_threads ?s3)[0 := NiCounted (Some (GPS_NI_RESPONSE_NORESP, 5))]\<rparr>)"
    by (rule ni_step.count) (simp_all add: shown1_eq waiting_state_def ni_run_simps)
  show ?thesis
    by (intro exI conjI, rule ni_reachable_up.step_up [OF r3 \<open>ni_step ?s3 _\<close>])
      (simp_all add: shown1_eq waiting_state_def ni_run_simps)
qed

text \<open>An answer that was tested before the time-out but comes in after it stays behind and becomes the
  answer to the next request, which the user has not been asked about.\<close>

lemma ni_stale_response:
  assumes "ni_reachable_up s" and "rawRequest (ni s) = NULL" and "responders s = [r]" and "p \<noteq> NULL"
  shows "\<exists>s'. ni_reachable_up s' \<and> accepted s' = accepted s @ [(reqID (ni s), p)] \<and> responders s' = []
    \<and> ni_threads s' = ni_threads s @ [NiUnlocked (Some (r, p))]"
proof -
  let ?s1 = "request_step True sample_notif p s"
  have inv: "ni_inv s" using ni_reachable_up_inv [OF assms(1)] .
  have 1: "ni_reachable_up ?s1"
    by (rule ni_reachable_up.step_up [OF assms(1) ni_step.request])
      (use inv assms in \<open>simp_all add: ni_inv_def ni_run_simps\<close>)
  have s1: "responders ?s1 = [r]" "resetting ?s1 = NoReset" "rawRequest (ni ?s1) = p" "ni_threads ?s1 = ni_threads s @ [NiWaiting]"
    "accepted ?s1 = accepted s @ [(reqID (ni s), p)]"
    using inv assms by (simp_all add: ni_inv_def ni_run_simps)
  let ?s2 = "?s1\<lparr>ni := ni_respond_locked r (ni ?s1), responders := []\<rparr>"
  have "ni_step ?s1 (?s1\<lparr>ni := ni_respond_locked (responders ?s1 ! 0) (ni ?s1), responders := remove_at 0 (responders ?s1)\<rparr>)"
    by (rule ni_step.respond) (simp add: s1)
  then have "ni_step ?s1 ?s2" by (simp add: s1 remove_at_def)
  from ni_reachable_up.step_up [OF 1 this] have 2: "ni_reachable_up ?s2" by (simp add: s1)
  let ?d3 = "snd (ni_take_request (ni ?s2))"
  let ?s3 = "?s2\<lparr>ni := ?d3, ni_threads := (ni_threads ?s2)[length (ni_threads s) := NiUnlocked (Some (r, p))]\<rparr>"
  have "ni_step ?s2 ?s3"
    by (rule ni_step.wake) (use assms(4) in \<open>simp_all add: s1 ni_respond_locked_def ni_take_request_def\<close>)
  show ?thesis
    by (intro exI conjI, rule ni_reachable_up.step_up [OF 2 \<open>ni_step ?s2 ?s3\<close>]) (simp_all add: s1)
qed

text \<open>With a restart of the modem a request can be freed and then sent on, to be freed again with the
  message: the reset frees it before it takes the lock.\<close>

lemma ni_reset_double_free:
  "\<exists>s. ni_reachable s \<and> given_back s = [5] \<and> ni_threads s = [NiUnlocked (Some (GPS_NI_RESPONSE_NORESP, 5))]"
proof -
  have "ni_reachable shown1"
    unfolding shown1_def
    by (rule ni_reachable.step [OF ni_reachable.start ni_step.request]) (simp_all add: ni_run_simps)
  moreover have "ni_step shown1 (shown1\<lparr>given_back := given_back shown1 @ [rawRequest (ni shown1)], resetting := ResetFreed\<rparr>)"
    by (rule ni_step.reset_free) (simp_all add: shown1_eq waiting_state_def ni_run_simps)
  ultimately have r: "ni_reachable (shown1\<lparr>given_back := [5], resetting := ResetFreed\<rparr>)" (is "ni_reachable ?s")
    using ni_reachable.step by (fastforce simp: shown1_eq waiting_state_def)
  have "ni_step ?s (?s\<lparr>ni := waiting_state NULL 0 False GPS_NI_RESPONSE_NORESP,
      ni_threads := (ni_threads ?s)[0 := NiUnlocked (Some (GPS_NI_RESPONSE_NORESP, 5))]\<rparr>)"
    by (rule ni_step.expire) (simp_all add: shown1_eq waiting_state_def ni_run_simps)
  from ni_reachable.step [OF r this] show ?thesis
    by (intro exI conjI, assumption) (simp_all add: shown1_eq)
qed

end
