(* ===== verification/Dmn_Conn.thy ===== *)
theory Dmn_Conn
  imports Agps
begin

unbundle bit_operations_syntax

text \<open>
  The connection to the daemons: named pipes (\<open>loc_eng_dmn_conn_glue_pipe.c\<close>), messages on them
  (\<open>loc_eng_dmn_conn_glue_msg.c\<close>), the server thread's functions (\<open>loc_eng_dmn_conn.cpp\<close>) and its
  request handlers (\<open>loc_eng_dmn_conn_handler.cpp\<close>, \<open>.h\<close>), all under
  \<open>gps/libloc_api_50001\<close>.

  \<^item> The pipes of the system are \<open>pipes\<close>: names, descriptors and the bytes in flight. What the kernel
    may refuse is an argument. All pipes are opened for reading and writing, so a read of an empty
    one waits: the outcome \<open>Blocks\<close>. The outcome \<open>Overrun\<close> is a write past the caller's buffer.
  \<^item> A message is the byte image of \<open>struct ctrl_msgbuf\<close> on the 32-bit little-endian target, with
    4-byte enums as the build file asks for.
\<close>

section \<open>Pipes\<close>

datatype ('a, 'w) io = Done 'a | Blocks 'w | Overrun

record pipes =
  names :: "string \<rightharpoonup> nat"
  inodes :: "nat \<rightharpoonup> 8 word list"
  fds :: "int \<rightharpoonup> nat"
  next_inode :: nat
  next_fd :: int

text \<open>\<open>mkfifo_ok\<close> and \<open>open_ok\<close>: whether the kernel creates and opens the pipe. An existing pipe makes
  \<open>mkfifo\<close> fail with \<open>EEXIST\<close>, which the code accepts.\<close>

definition loc_eng_dmn_conn_glue_pipeget :: "bool \<Rightarrow> bool \<Rightarrow> string \<Rightarrow> pipes \<Rightarrow> int \<times> pipes" where
  "loc_eng_dmn_conn_glue_pipeget mkfifo_ok open_ok pipe_name w =
     (let exists = names w pipe_name \<noteq> None;
          w = (if exists \<or> \<not> mkfifo_ok then w
               else w\<lparr>names := (names w)(pipe_name \<mapsto> next_inode w),
                      inodes := (inodes w)(next_inode w \<mapsto> []), next_inode := Suc (next_inode w)\<rparr>)
      in if \<not> exists \<and> \<not> mkfifo_ok then (- 1, w)
         else if \<not> open_ok then (- 1, w)
         else (next_fd w, w\<lparr>fds := (fds w)(next_fd w := names w pipe_name), next_fd := next_fd w + 1\<rparr>))"

definition loc_eng_dmn_conn_glue_piperemove :: "string option \<Rightarrow> int \<Rightarrow> pipes \<Rightarrow> int \<times> pipes" where
  "loc_eng_dmn_conn_glue_piperemove pipe_name fd w =
     (let w = w\<lparr>fds := (fds w)(fd := None)\<rparr> in
      (0, case pipe_name of None \<Rightarrow> w | Some n \<Rightarrow> w\<lparr>names := (names w)(n := None)\<rparr>))"

text \<open>\<open>quota\<close> is what the kernel takes of a write: \<open>None\<close> an error, else at most so many bytes.\<close>

definition loc_eng_dmn_conn_glue_pipewrite ::
    "nat option \<Rightarrow> int \<Rightarrow> 8 word list \<Rightarrow> nat \<Rightarrow> pipes \<Rightarrow> int \<times> pipes" where
  "loc_eng_dmn_conn_glue_pipewrite quota fd buf sz w =
     (case (fds w fd, quota) of
        (Some i, Some q) \<Rightarrow> (int (min q sz), w\<lparr>inodes := (inodes w)(i \<mapsto> the (inodes w i) @ take (min q sz) buf)\<rparr>)
      | _ \<Rightarrow> (- 1, w))"

text \<open>\<open>cap\<close> is the room in the caller's buffer; the bytes read are part of the result.\<close>

definition loc_eng_dmn_conn_glue_piperead ::
    "int \<Rightarrow> nat \<Rightarrow> nat \<Rightarrow> pipes \<Rightarrow> (int \<times> 8 word list \<times> pipes, pipes) io" where
  "loc_eng_dmn_conn_glue_piperead fd cap sz w =
     (case fds w fd of
        None \<Rightarrow> Done (- 1, [], w)
      | Some i \<Rightarrow>
          let content = the (inodes w i); n = min sz (length content) in
          if sz = 0 then Done (0, [], w)
          else if content = [] then Blocks w
          else if n > cap then Overrun
          else Done (int n, take n content, w\<lparr>inodes := (inodes w)(i \<mapsto> drop n content)\<rparr>))"

definition loc_eng_dmn_conn_glue_pipeunblock :: "bool \<Rightarrow> int \<Rightarrow> pipes \<Rightarrow> int \<times> pipes" where
  "loc_eng_dmn_conn_glue_pipeunblock fcntl_ok fd w = (if fcntl_ok \<and> fds w fd \<noteq> None then 0 else - 1, w)"

section \<open>Messages on pipes\<close>

definition sizeof_size_t :: nat where "sizeof_size_t = 4"

definition le32 :: "nat \<Rightarrow> 8 word list" where
  "le32 n = [word_of_nat n, word_of_nat (n div 2 ^ 8), word_of_nat (n div 2 ^ 16), word_of_nat (n div 2 ^ 24)]"

definition un_le32 :: "8 word list \<Rightarrow> nat" where
  "un_le32 bs = unat (bs ! 0) + 2 ^ 8 * unat (bs ! 1) + 2 ^ 16 * unat (bs ! 2) + 2 ^ 24 * unat (bs ! 3)"

definition loc_eng_dmn_conn_glue_msgget :: "bool \<Rightarrow> bool \<Rightarrow> string \<Rightarrow> pipes \<Rightarrow> int \<times> pipes" where
  "loc_eng_dmn_conn_glue_msgget mkfifo_ok open_ok q_path w = loc_eng_dmn_conn_glue_pipeget mkfifo_ok open_ok q_path w"

definition loc_eng_dmn_conn_glue_msgremove :: "string option \<Rightarrow> int \<Rightarrow> pipes \<Rightarrow> int \<times> pipes" where
  "loc_eng_dmn_conn_glue_msgremove q_path msgqid w = loc_eng_dmn_conn_glue_piperemove q_path msgqid w"

text \<open>\<open>msgsnd\<close> stores the size in the first field of the message and writes the message.\<close>

definition loc_eng_dmn_conn_glue_msgsnd ::
    "nat option \<Rightarrow> int \<Rightarrow> 8 word list \<Rightarrow> nat \<Rightarrow> pipes \<Rightarrow> int \<times> pipes" where
  "loc_eng_dmn_conn_glue_msgsnd quota msgqid msgp msgsz w =
     (let msg = le32 msgsz @ drop sizeof_size_t msgp in
      case loc_eng_dmn_conn_glue_pipewrite quota msgqid msg msgsz w of (result, w) \<Rightarrow>
        if result \<noteq> int msgsz then (- 1, w) else (result, w))"

text \<open>The size less the size field, as \<open>size_t\<close> subtracts.\<close>

definition size_left :: "nat \<Rightarrow> nat" where
  "size_left n = unat (word_of_nat n - word_of_nat sizeof_size_t :: 32 word)"

text \<open>\<open>msgrcv\<close> reads the size and then the rest into a buffer of \<open>msgbufsz\<close> bytes. The subtraction
  of the header is on \<open>size_t\<close> and wraps around. The buffer is returned, its unread part as it was.\<close>

definition loc_eng_dmn_conn_glue_msgrcv ::
    "int \<Rightarrow> 8 word list \<Rightarrow> nat \<Rightarrow> pipes \<Rightarrow> (int \<times> 8 word list \<times> pipes, pipes) io" where
  "loc_eng_dmn_conn_glue_msgrcv msgqid msgp msgbufsz w =
     (case loc_eng_dmn_conn_glue_piperead msgqid sizeof_size_t sizeof_size_t w of
        Overrun \<Rightarrow> Overrun
      | Blocks w \<Rightarrow> Blocks w
      | Done (result, hdr, w) \<Rightarrow>
          let msgp = hdr @ drop (length hdr) msgp in
          if result \<noteq> int sizeof_size_t then Done (- 1, msgp, w)
          else let msgsz = un_le32 hdr; rest = size_left msgsz in
            if msgbufsz < msgsz then Done (- 1, msgp, w)
            else case loc_eng_dmn_conn_glue_piperead msgqid (msgbufsz - sizeof_size_t) rest w of
              Overrun \<Rightarrow> Overrun
            | Blocks w \<Rightarrow> Blocks w
            | Done (result, body, w) \<Rightarrow>
                let msgp = hdr @ body @ drop (length hdr + length body) msgp in
                if result \<noteq> int rest then Done (- 1, msgp, w) else Done (int msgsz, msgp, w))"

definition loc_eng_dmn_conn_glue_msgunblock :: "bool \<Rightarrow> int \<Rightarrow> pipes \<Rightarrow> int \<times> pipes" where
  "loc_eng_dmn_conn_glue_msgunblock fcntl_ok msgqid w = loc_eng_dmn_conn_glue_pipeunblock fcntl_ok msgqid w"

text \<open>The loop of \<open>msgflush\<close> ends only with a read of length 0; \<open>None\<close> is a loop without end.\<close>

partial_function (option) loc_eng_dmn_conn_glue_msgflush :: "int \<Rightarrow> pipes \<Rightarrow> (int \<times> pipes, pipes) io option" where
  "loc_eng_dmn_conn_glue_msgflush msgqid w =
     (case loc_eng_dmn_conn_glue_piperead msgqid 128 128 w of
        Overrun \<Rightarrow> Some Overrun
      | Blocks w \<Rightarrow> Some (Blocks w)
      | Done (len, _, w) \<Rightarrow> if len = 0 then Some (Done (len, w)) else loc_eng_dmn_conn_glue_msgflush msgqid w)"

lemmas pipe_defs [state_defs] =
  loc_eng_dmn_conn_glue_pipeget_def loc_eng_dmn_conn_glue_piperemove_def
  loc_eng_dmn_conn_glue_pipewrite_def loc_eng_dmn_conn_glue_piperead_def

section \<open>Control messages\<close>

definition GPSONE_LOC_API_IF_REQUEST :: nat where "GPSONE_LOC_API_IF_REQUEST = 0xF0"
definition GPSONE_LOC_API_IF_RELEASE :: nat where "GPSONE_LOC_API_IF_RELEASE = 0xF1"
definition GPSONE_LOC_API_RESPONSE :: nat where "GPSONE_LOC_API_RESPONSE = 0xF2"
definition GPSONE_UNBLOCK :: nat where "GPSONE_UNBLOCK = 0xF3"

fun response_code :: "gpsone_status \<Rightarrow> nat" where
  "response_code GPSONE_LOC_API_IF_REQUEST_SUCCESS = 0xF0"
| "response_code GPSONE_LOC_API_IF_RELEASE_SUCCESS = 0xF1"
| "response_code GPSONE_LOC_API_IF_FAILURE = 0xF2"

text \<open>The layout of \<open>struct ctrl_msgbuf\<close>: the offsets of the fields that the code uses.\<close>

definition sizeof_ctrl_msgbuf :: nat where "sizeof_ctrl_msgbuf = 16 + 4 + 4 + 4 + 16 + SSID_BUF_SIZE + SSID_BUF_SIZE + 2"

definition ctrl_type :: "8 word list \<Rightarrow> nat" where "ctrl_type m = unat (m ! 12)"
definition field32 :: "nat \<Rightarrow> 8 word list \<Rightarrow> nat" where "field32 off m = un_le32 (take 4 (drop off m))"
definition req_type_field :: "8 word list \<Rightarrow> nat" where "req_type_field = field32 16"
definition req_sender_field :: "8 word list \<Rightarrow> nat" where "req_sender_field = field32 20"
definition req_ipv4_field :: "8 word list \<Rightarrow> nat" where "req_ipv4_field = field32 24"
definition req_ipv6_field :: "8 word list \<Rightarrow> 8 word list" where "req_ipv6_field m = take 16 (drop 28 m)"

text \<open>The string at an offset, as a C function that is given its address reads it.\<close>

definition c_string_at :: "nat \<Rightarrow> 8 word list \<Rightarrow> string" where
  "c_string_at off m = map (\<lambda>b. char_of (unat b)) (takeWhile (\<lambda>b. b \<noteq> 0) (drop off m))"

definition store :: "nat \<Rightarrow> 8 word list \<Rightarrow> 8 word list \<Rightarrow> 8 word list" where
  "store off bs m = take off m @ bs @ drop (off + length bs) m"

datatype loc_if_req_type = LOC_ENG_IF_REQUEST_TYPE_SUPL | LOC_ENG_IF_REQUEST_TYPE_WIFI | LOC_ENG_IF_REQUEST_TYPE_ANY

text \<open>The messages the handlers create (\<open>loc_eng_msg.h\<close>); the WIFI ones keep copies of at most 32
  characters.\<close>

datatype loc_eng_conn_msg =
    loc_eng_msg_request_wifi loc_if_req_type sender_id string string
  | loc_eng_msg_release_wifi loc_if_req_type sender_id string string
  | loc_eng_msg_request_bit loc_if_req_type "32 word" "8 word list"
  | loc_eng_msg_release_bit loc_if_req_type "32 word" "8 word list"

definition decode_type :: "8 word list \<Rightarrow> loc_if_req_type option" where
  "decode_type m =
     (if req_type_field m = 0 then Some LOC_ENG_IF_REQUEST_TYPE_SUPL
      else if req_type_field m = 1 then Some LOC_ENG_IF_REQUEST_TYPE_WIFI
      else if req_type_field m = 2 then Some LOC_ENG_IF_REQUEST_TYPE_ANY else None)"

definition wifi_strings :: "8 word list \<Rightarrow> string \<times> string" where
  "wifi_strings m = (strlcpy (c_string_at 44 m) SSID_BUF_SIZE, strlcpy (c_string_at 77 m) SSID_BUF_SIZE)"

text \<open>\<open>have_handle\<close>: \<open>loc_api_handle\<close> is not \<open>NULL\<close>. The result carries the message that is sent.\<close>

definition loc_eng_dmn_conn_loc_api_server_if_request_handler ::
    "bool \<Rightarrow> 8 word list \<Rightarrow> int \<times> loc_eng_conn_msg option" where
  "loc_eng_dmn_conn_loc_api_server_if_request_handler have_handle m =
     (if \<not> have_handle then (1, None)
      else case decode_type m of
        None \<Rightarrow> (- 1, None)
      | Some type \<Rightarrow>
          case wifi_strings m of (s, p) \<Rightarrow>
          if req_sender_field m = 0 then (0, Some (loc_eng_msg_request_wifi type IF_REQUEST_SENDER_ID_QUIPC s p))
          else if req_sender_field m = 1 then (0, Some (loc_eng_msg_request_wifi type IF_REQUEST_SENDER_ID_MSAPM s p))
          else if req_sender_field m = 2 then
            (0, Some (loc_eng_msg_request_bit type (word_of_nat (req_ipv4_field m)) (req_ipv6_field m)))
          else (- 1, None))"

definition loc_eng_dmn_conn_loc_api_server_if_release_handler ::
    "8 word list \<Rightarrow> int \<times> loc_eng_conn_msg option" where
  "loc_eng_dmn_conn_loc_api_server_if_release_handler m =
     (case decode_type m of
        None \<Rightarrow> (- 1, None)
      | Some type \<Rightarrow>
          case wifi_strings m of (s, p) \<Rightarrow>
          if req_sender_field m = 0 then (0, Some (loc_eng_msg_release_wifi type IF_REQUEST_SENDER_ID_QUIPC s p))
          else if req_sender_field m = 1 then (0, Some (loc_eng_msg_release_wifi type IF_REQUEST_SENDER_ID_MSAPM s p))
          else if req_sender_field m = 2 then
            (0, Some (loc_eng_msg_release_bit type (word_of_nat (req_ipv4_field m)) (req_ipv6_field m)))
          else (- 1, None))"

section \<open>The server\<close>

text \<open>The static variables of \<open>loc_eng_dmn_conn.cpp\<close> and \<open>loc_api_handle\<close>; \<open>sent\<close> are the messages
  handed to the engine.\<close>

record server =
  loc_api_server_msgqid :: int
  loc_api_resp_msgqid :: int
  quipc_msgqid :: int
  msapm_msgqid :: int
  global_loc_api_q_path :: string
  global_loc_api_resp_q_path :: string
  have_loc_api_handle :: bool
  sent :: "loc_eng_conn_msg list"

definition QUIPC_CTRL_Q_PATH :: string where "QUIPC_CTRL_Q_PATH = ''/data/misc/gpsone_d/quipc_ctrl_q''"
definition MSAPM_CTRL_Q_PATH :: string where "MSAPM_CTRL_Q_PATH = ''/data/misc/gpsone_d/msapm_ctrl_q''"
definition GPSONE_LOC_API_Q_PATH :: string where "GPSONE_LOC_API_Q_PATH = ''/data/misc/gpsone_d/gpsone_loc_api_q''"
definition GPSONE_LOC_API_RESP_Q_PATH :: string where
  "GPSONE_LOC_API_RESP_Q_PATH = ''/data/misc/gpsone_d/gpsone_loc_api_resp_q''"

text \<open>\<open>ok\<close> says for each path whether its pipe can be created and opened; changing its mode and group
  has no effect on the pipes.\<close>

definition loc_api_server_proc_init ::
    "(string \<Rightarrow> bool \<times> bool) \<Rightarrow> server \<Rightarrow> pipes \<Rightarrow> int \<times> server \<times> pipes" where
  "loc_api_server_proc_init ok v w =
     (let get = (\<lambda>path. loc_eng_dmn_conn_glue_msgget (fst (ok path)) (snd (ok path)) path);
          (server_id, w) = get (global_loc_api_q_path v) w;
          (resp_id, w) = get (global_loc_api_resp_q_path v) w;
          (quipc_id, w) = get QUIPC_CTRL_Q_PATH w;
          (msapm_id, w) = get MSAPM_CTRL_Q_PATH w
      in (0, v\<lparr>loc_api_server_msgqid := server_id, loc_api_resp_msgqid := resp_id,
               quipc_msgqid := quipc_id, msapm_msgqid := msapm_id\<rparr>, w))"

definition loc_api_server_proc_pre :: "int" where "loc_api_server_proc_pre = 0"

text \<open>\<open>malloc_buf\<close> is the fresh buffer with whatever is in it, \<open>None\<close> if there is no memory.\<close>

definition loc_api_server_proc ::
    "8 word list option \<Rightarrow> server \<Rightarrow> pipes \<Rightarrow> (int \<times> server \<times> pipes, pipes) io" where
  "loc_api_server_proc malloc_buf v w =
     (case malloc_buf of
        None \<Rightarrow> Done (- 1, v, w)
      | Some buf \<Rightarrow>
          case loc_eng_dmn_conn_glue_msgrcv (loc_api_server_msgqid v) buf (sizeof_ctrl_msgbuf + 256) w of
            Overrun \<Rightarrow> Overrun
          | Blocks w \<Rightarrow> Blocks w
          | Done (len, m, w) \<Rightarrow>
              if len \<le> 0 then Done (0, v, w)
              else let (result, msg) =
                  (if ctrl_type m = GPSONE_LOC_API_IF_REQUEST then
                     loc_eng_dmn_conn_loc_api_server_if_request_handler (have_loc_api_handle v) m
                   else if ctrl_type m = GPSONE_LOC_API_IF_RELEASE then
                     loc_eng_dmn_conn_loc_api_server_if_release_handler m
                   else (0, None))
                in Done (0, v\<lparr>sent := sent v @ (case msg of None \<Rightarrow> [] | Some x \<Rightarrow> [x])\<rparr>, w))"

definition loc_api_server_proc_post :: "server \<Rightarrow> pipes \<Rightarrow> int \<times> pipes" where
  "loc_api_server_proc_post v w =
     (let w = snd (loc_eng_dmn_conn_glue_msgremove (Some (global_loc_api_q_path v)) (loc_api_server_msgqid v) w);
          w = snd (loc_eng_dmn_conn_glue_msgremove (Some (global_loc_api_resp_q_path v)) (loc_api_resp_msgqid v) w);
          w = snd (loc_eng_dmn_conn_glue_msgremove (Some QUIPC_CTRL_Q_PATH) (quipc_msgqid v) w);
          w = snd (loc_eng_dmn_conn_glue_msgremove (Some MSAPM_CTRL_Q_PATH) (msapm_msgqid v) w)
      in (0, w))"

text \<open>\<open>junk\<close> is the uninitialised struct on the stack.\<close>

definition loc_eng_dmn_conn_unblock_proc :: "nat option \<Rightarrow> 8 word list \<Rightarrow> server \<Rightarrow> pipes \<Rightarrow> int \<times> pipes" where
  "loc_eng_dmn_conn_unblock_proc quota junk v w =
     (0, snd (loc_eng_dmn_conn_glue_msgsnd quota (loc_api_server_msgqid v)
           (store 12 [word_of_nat GPSONE_UNBLOCK] junk) sizeof_ctrl_msgbuf w))"

definition launch_paths :: "string option \<Rightarrow> string option \<Rightarrow> bool \<Rightarrow> server \<Rightarrow> server" where
  "launch_paths loc_api_q_path resp_q_path handle v =
     v\<lparr>have_loc_api_handle := handle,
       global_loc_api_q_path := (case loc_api_q_path of None \<Rightarrow> global_loc_api_q_path v | Some p \<Rightarrow> p),
       global_loc_api_resp_q_path := (case resp_q_path of None \<Rightarrow> global_loc_api_resp_q_path v | Some p \<Rightarrow> p)\<rparr>"

definition response_msg :: "gpsone_status \<Rightarrow> 8 word list \<Rightarrow> 8 word list" where
  "response_msg status junk =
     store 16 (le32 (response_code status)) (store 12 [word_of_nat GPSONE_LOC_API_RESPONSE] junk)"

definition response_queue :: "server \<Rightarrow> sender_id \<Rightarrow> int option" where
  "response_queue v sender =
     (case sender of
        IF_REQUEST_SENDER_ID_QUIPC \<Rightarrow> Some (quipc_msgqid v)
      | IF_REQUEST_SENDER_ID_MSAPM \<Rightarrow> Some (msapm_msgqid v)
      | IF_REQUEST_SENDER_ID_GPSONE_DAEMON \<Rightarrow> Some (loc_api_resp_msgqid v)
      | IF_REQUEST_SENDER_ID_MODEM \<Rightarrow> None)"

definition loc_eng_dmn_conn_loc_api_server_data_conn ::
    "nat option \<Rightarrow> 8 word list \<Rightarrow> sender_id \<Rightarrow> gpsone_status \<Rightarrow> server \<Rightarrow> pipes \<Rightarrow> int \<times> pipes" where
  "loc_eng_dmn_conn_loc_api_server_data_conn quota junk sender status v w =
     (case response_queue v sender of
        None \<Rightarrow> (0, w)
      | Some q \<Rightarrow>
          case loc_eng_dmn_conn_glue_msgsnd quota q (response_msg status junk) sizeof_ctrl_msgbuf w of
            (result, w) \<Rightarrow> (if result < 0 then - 1 else 0, w))"

section \<open>Reading back what was written\<close>

lemma byte_split: "(n :: nat) mod b + b * (n div b mod c) = n mod (b * c)"
  by (simp add: mod_mult2_eq)

lemma un_le32_le32:
  assumes "n < 2 ^ 32"
  shows "un_le32 (le32 n) = n"
proof -
  have "un_le32 (le32 n) = n mod 256 + 256 * (n div 256 mod 256) + 65536 * (n div 65536 mod 256)
      + 16777216 * (n div 16777216 mod 256)"
    by (simp add: un_le32_def le32_def unat_of_nat)
  also have "\<dots> = n mod 4294967296"
    using byte_split [of n 256 256] byte_split [of n 65536 256] byte_split [of n 16777216 256] by simp
  finally show ?thesis using assms by simp
qed

lemma un_le32_less: "un_le32 bs < 2 ^ 32"
proof -
  have "unat x \<le> 255" for x :: "8 word" using unsigned_less [of x, where ?'a = nat] by simp
  from this [of "bs ! 0"] this [of "bs ! 1"] this [of "bs ! 2"] this [of "bs ! 3"]
  show ?thesis by (simp add: un_le32_def)
qed

lemma size_left_eq: "n < 2 ^ 32 \<Longrightarrow> size_left n = (if n < 4 then n + 2 ^ 32 - 4 else n - 4)"
  by (simp add: size_left_def sizeof_size_t_def unat_sub_if' unat_of_nat)

lemma length_le32 [simp]: "length (le32 n) = 4" by (simp add: le32_def)

lemma un_le32_append: "length bs = 4 \<Longrightarrow> un_le32 (bs @ cs) = un_le32 bs"
  by (simp add: un_le32_def nth_append)

text \<open>\<open>pipe_has w fd i bs\<close>: descriptor \<open>fd\<close> is open on pipe \<open>i\<close>, in which the bytes \<open>bs\<close> wait.\<close>

definition pipe_has :: "pipes \<Rightarrow> int \<Rightarrow> nat \<Rightarrow> 8 word list \<Rightarrow> bool" where
  "pipe_has w fd i bs \<longleftrightarrow> fds w fd = Some i \<and> inodes w i = Some bs"

definition set_pipe :: "nat \<Rightarrow> 8 word list \<Rightarrow> pipes \<Rightarrow> pipes" where
  "set_pipe i bs w = w\<lparr>inodes := (inodes w)(i \<mapsto> bs)\<rparr>"

lemma pipe_has_set [simp]: "pipe_has w fd i bs \<Longrightarrow> pipe_has (set_pipe i cs w) fd i cs"
  by (simp add: pipe_has_def set_pipe_def)

lemma set_pipe_set [simp]: "set_pipe i bs (set_pipe i cs w) = set_pipe i bs w"
  by (simp add: set_pipe_def)

lemma set_pipe_same: "pipe_has w fd i bs \<Longrightarrow> set_pipe i bs w = w"
  by (simp add: pipe_has_def set_pipe_def map_upd_id)

lemma write_eq:
  assumes "pipe_has w fd i bs"
  shows "loc_eng_dmn_conn_glue_pipewrite (Some q) fd buf sz w = (int (min q sz), set_pipe i (bs @ take (min q sz) buf) w)"
  using assms by (simp add: pipe_defs pipe_has_def set_pipe_def)

lemma read_eq:
  assumes "pipe_has w fd i bs" and "0 < sz"
  shows "loc_eng_dmn_conn_glue_piperead fd cap sz w =
    (if bs = [] then Blocks w else if min sz (length bs) > cap then Overrun
     else Done (int (min sz (length bs)), take sz bs, set_pipe i (drop sz bs) w))"
  using assms by (auto simp: pipe_defs pipe_has_def set_pipe_def Let_def min_def)

lemma read_zero: "pipe_has w fd i bs \<Longrightarrow> loc_eng_dmn_conn_glue_piperead fd cap 0 w = Done (0, [], w)"
  by (simp add: pipe_defs pipe_has_def)

text \<open>The bytes of a message on the pipe.\<close>

definition frame :: "8 word list \<Rightarrow> 8 word list" where
  "frame m = le32 (length m) @ drop 4 m"

lemma length_frame [simp]: "4 \<le> length m \<Longrightarrow> length (frame m) = length m"
  by (simp add: frame_def)

lemma frame_frame [simp]: "4 \<le> length m \<Longrightarrow> frame (frame m) = frame m"
  by (simp add: frame_def)

lemma msgsnd_eq:
  assumes "pipe_has w fd i bs" and "4 \<le> length m" and "length m \<le> q"
  shows "loc_eng_dmn_conn_glue_msgsnd (Some q) fd m (length m) w = (int (length m), set_pipe i (bs @ frame m) w)"
proof -
  have f: "le32 (length m) @ drop sizeof_size_t m = frame m" by (simp add: frame_def sizeof_size_t_def)
  have "min q (length m) = length m" using assms(3) by simp
  with write_eq [OF assms(1), of q "frame m" "length m"] assms(2) show ?thesis
    by (simp add: loc_eng_dmn_conn_glue_msgsnd_def Let_def f)
qed

text \<open>Receiving, by the bytes that wait.\<close>

lemma msgrcv_short:
  assumes "pipe_has w fd i bs" and "bs \<noteq> []" and "length bs < 4"
  shows "loc_eng_dmn_conn_glue_msgrcv fd buf bufsz w = Done (- 1, bs @ drop (length bs) buf, set_pipe i [] w)"
  using assms read_eq [OF assms(1), of 4 4]
  by (simp add: loc_eng_dmn_conn_glue_msgrcv_def sizeof_size_t_def Let_def)

lemma msgrcv_cases:
  assumes p: "pipe_has w fd i (hdr @ rest)" and h: "length hdr = 4"
  shows "loc_eng_dmn_conn_glue_msgrcv fd buf bufsz w =
    (let n = un_le32 hdr; k = size_left n in
     if bufsz < n then Done (- 1, hdr @ drop 4 buf, set_pipe i rest w)
     else if k = 0 then Done (int n, hdr @ drop 4 buf, set_pipe i rest w)
     else if rest = [] then Blocks (set_pipe i rest w)
     else if bufsz - 4 < min k (length rest) then Overrun
     else Done (if k \<le> length rest then int n else - 1,
                hdr @ take k rest @ drop (4 + min k (length rest)) buf, set_pipe i (drop k rest) w))"
proof -
  let ?w = "set_pipe i rest w"
  have w: "pipe_has ?w fd i rest" using p by simp
  have r: "loc_eng_dmn_conn_glue_piperead fd 4 4 w = Done (4, hdr, ?w)"
    using read_eq [OF p, of 4 4] h by auto
  show ?thesis
  proof (cases "size_left (un_le32 hdr) = 0")
    case True
    with read_zero [OF w] show ?thesis
      by (simp add: loc_eng_dmn_conn_glue_msgrcv_def sizeof_size_t_def Let_def r h)
  next
    case False
    with read_eq [OF w, of "size_left (un_le32 hdr)" "bufsz - 4"] h show ?thesis
      by (auto simp: loc_eng_dmn_conn_glue_msgrcv_def sizeof_size_t_def Let_def r min_def add.commute)
  qed
qed

lemma msgrcv_frame:
  assumes p: "pipe_has w fd i (frame m @ rest)" and m: "4 \<le> length m" "length m < 2 ^ 32" "length m \<le> bufsz"
  shows "loc_eng_dmn_conn_glue_msgrcv fd buf bufsz w =
    Done (int (length m), frame m @ drop (length m) buf, set_pipe i rest w)"
proof -
  have p': "pipe_has w fd i (le32 (length m) @ drop 4 m @ rest)" using p by (simp add: frame_def)
  have n: "un_le32 (le32 (length m)) = length m" using un_le32_le32 m(2) by simp
  have k: "size_left (length m) = length m - 4" using m size_left_eq by simp
  show ?thesis using m by (auto simp: msgrcv_cases [OF p'] n k Let_def frame_def)
qed

lemma msgrcv_overrun_iff:
  assumes p: "pipe_has w fd i (hdr @ rest)" and h: "length hdr = 4" and b: "4 \<le> bufsz" "bufsz < 2 ^ 31"
  shows "loc_eng_dmn_conn_glue_msgrcv fd buf bufsz w = Overrun \<longleftrightarrow> un_le32 hdr < 4 \<and> bufsz - 4 < length rest"
  using b size_left_eq [OF un_le32_less, of hdr] by (auto simp: msgrcv_cases [OF p h] Let_def)

section \<open>A channel of framed messages\<close>

text \<open>\<open>Some m\<close> sends \<open>m\<close>, \<open>None\<close> receives; a receiver of an empty channel waits, and comes back to it
  after the next step.\<close>

fun channel_run ::
    "('m \<Rightarrow> 'w \<Rightarrow> 'w) \<Rightarrow> ('w \<Rightarrow> ('m \<times> 'w) option) \<Rightarrow> 'm option list \<Rightarrow> 'w \<Rightarrow> 'm list \<times> 'w" where
  "channel_run put get [] w = ([], w)"
| "channel_run put get (Some m # ops) w = channel_run put get ops (put m w)"
| "channel_run put get (None # ops) w =
     (case get w of None \<Rightarrow> channel_run put get ops w
      | Some (m, w') \<Rightarrow> (case channel_run put get ops w' of (rs, w'') \<Rightarrow> (m # rs, w'')))"

text \<open>The interface that a sender and a receiver of messages rely on: \<open>norm\<close> is what the receiver
  gets for a message.\<close>

locale framed_channel =
  fixes holds :: "'w \<Rightarrow> 'm list \<Rightarrow> bool"
    and good :: "'m \<Rightarrow> bool"
    and norm :: "'m \<Rightarrow> 'm"
    and put :: "'m \<Rightarrow> 'w \<Rightarrow> 'w"
    and get :: "'w \<Rightarrow> ('m \<times> 'w) option"
  assumes put: "holds w ms \<Longrightarrow> good m \<Longrightarrow> holds (put m w) (ms @ [norm m])"
    and get: "holds w (m # ms) \<Longrightarrow> \<exists>w'. get w = Some (m, w') \<and> holds w' ms"
    and get_empty: "holds w [] \<Longrightarrow> get w = None"
begin

lemma channel_order:
  assumes "holds w ms" and "\<forall>m \<in> set (List.map_filter id ops). good m"
  shows "\<exists>rs w' rest. channel_run put get ops w = (rs, w') \<and> holds w' rest
    \<and> rs @ rest = ms @ map norm (List.map_filter id ops)"
  using assms
proof (induction ops arbitrary: w ms)
  case Nil
  then show ?case by (auto simp: List.map_filter_simps)
next
  case (Cons a ops)
  show ?case
  proof (cases a)
    case (Some m)
    with Cons.prems Cons.IH [OF put [of w ms m]] show ?thesis by (auto simp: List.map_filter_simps)
  next
    case None
    show ?thesis
    proof (cases ms)
      case Nil
      with None Cons.prems Cons.IH [of w ms] get_empty [of w] show ?thesis by (auto simp: List.map_filter_simps)
    next
      case (Cons m ms')
      with Cons.prems obtain w' where "get w = Some (m, w')" "holds w' ms'" using get by blast
      with None Cons Cons.prems(2) Cons.IH [of w' ms'] show ?thesis by (auto simp: List.map_filter_simps)
    qed
  qed
qed

end

definition pipe_msgs :: "int \<Rightarrow> nat \<Rightarrow> nat \<Rightarrow> pipes \<Rightarrow> 8 word list list \<Rightarrow> bool" where
  "pipe_msgs fd i bufsz w ms \<longleftrightarrow> bufsz < 2 ^ 32 \<and> pipe_has w fd i (concat ms)
     \<and> (\<forall>m \<in> set ms. 4 \<le> length m \<and> length m \<le> bufsz \<and> frame m = m)"

definition put_msg :: "int \<Rightarrow> 8 word list \<Rightarrow> pipes \<Rightarrow> pipes" where
  "put_msg fd m w = snd (loc_eng_dmn_conn_glue_msgsnd (Some (length m)) fd m (length m) w)"

definition get_msg :: "int \<Rightarrow> 8 word list \<Rightarrow> pipes \<Rightarrow> (8 word list \<times> pipes) option" where
  "get_msg fd buf w =
     (case loc_eng_dmn_conn_glue_msgrcv fd buf (length buf) w of
        Done (n, m, w') \<Rightarrow> if n < 0 then None else Some (take (nat n) m, w')
      | _ \<Rightarrow> None)"

interpretation pipe: framed_channel "pipe_msgs fd i (length buf)" "\<lambda>m. 4 \<le> length m \<and> length m \<le> length buf"
    frame "put_msg fd" "get_msg fd buf" for fd i buf
proof
  fix w ms and m :: "8 word list"
  show "pipe_msgs fd i (length buf) (put_msg fd m w) (ms @ [frame m])"
    if "pipe_msgs fd i (length buf) w ms" "4 \<le> length m \<and> length m \<le> length buf"
    using that msgsnd_eq [of w fd i "concat ms" m "length m"] by (auto simp: pipe_msgs_def put_msg_def)
  show "\<exists>w'. get_msg fd buf w = Some (m, w') \<and> pipe_msgs fd i (length buf) w' ms"
    if "pipe_msgs fd i (length buf) w (m # ms)"
    using that msgrcv_frame [of w fd i m "concat ms" "length buf" buf]
    by (auto simp: pipe_msgs_def get_msg_def)
  show "get_msg fd buf w = None" if "pipe_msgs fd i (length buf) w []"
    using that read_eq [of w fd i "[]" 4 4]
    by (auto simp: pipe_msgs_def get_msg_def loc_eng_dmn_conn_glue_msgrcv_def sizeof_size_t_def)
qed

section \<open>Requests on the wire\<close>

text \<open>What a daemon writes for a request or a release: the specification of \<open>struct ctrl_msgbuf\<close>.\<close>

record ctrl_request =
  rq_release :: bool
  rq_type :: loc_if_req_type
  rq_sender :: sender_id
  rq_ipv4 :: "32 word"
  rq_ipv6 :: "8 word list"
  rq_ssid :: string
  rq_password :: string

primrec type_code :: "loc_if_req_type \<Rightarrow> nat" where
  "type_code LOC_ENG_IF_REQUEST_TYPE_SUPL = 0"
| "type_code LOC_ENG_IF_REQUEST_TYPE_WIFI = 1"
| "type_code LOC_ENG_IF_REQUEST_TYPE_ANY = 2"

definition c_field :: "string \<Rightarrow> 8 word list" where
  "c_field s = map (\<lambda>c. word_of_nat (of_char c)) s @ replicate (SSID_BUF_SIZE - length s) 0"

definition c_text :: "string \<Rightarrow> bool" where
  "c_text s \<longleftrightarrow> length s < SSID_BUF_SIZE \<and> CHR 0x00 \<notin> set s"

definition wf_request :: "ctrl_request \<Rightarrow> bool" where
  "wf_request r \<longleftrightarrow> length (rq_ipv6 r) = 16 \<and> c_text (rq_ssid r) \<and> c_text (rq_password r)"

definition encode_request :: "ctrl_request \<Rightarrow> 8 word list" where
  "encode_request r =
     le32 sizeof_ctrl_msgbuf @ replicate 8 0
     @ [word_of_nat (if rq_release r then GPSONE_LOC_API_IF_RELEASE else GPSONE_LOC_API_IF_REQUEST), 0, 0, 0]
     @ le32 (type_code (rq_type r)) @ le32 (unat (sender_code (rq_sender r))) @ le32 (unat (rq_ipv4 r))
     @ rq_ipv6 r @ c_field (rq_ssid r) @ c_field (rq_password r) @ [0, 0]"

text \<open>What the engine is to be told: the address for the GPSOne daemon, the network for the two WIFI
  senders, nothing for the modem, which does not use this path.\<close>

definition request_msg :: "ctrl_request \<Rightarrow> loc_eng_conn_msg list" where
  "request_msg r =
     (case rq_sender r of
        IF_REQUEST_SENDER_ID_MODEM \<Rightarrow> []
      | IF_REQUEST_SENDER_ID_GPSONE_DAEMON \<Rightarrow>
          [(if rq_release r then loc_eng_msg_release_bit else loc_eng_msg_request_bit)
             (rq_type r) (rq_ipv4 r) (rq_ipv6 r)]
      | s \<Rightarrow> [(if rq_release r then loc_eng_msg_release_wifi else loc_eng_msg_request_wifi)
             (rq_type r) s (rq_ssid r) (rq_password r)])"

lemma length_c_field: "c_text s \<Longrightarrow> length (c_field s) = SSID_BUF_SIZE"
  by (simp add: c_field_def c_text_def)

lemma char_byte: "char_of (unat (word_of_nat (of_char c) :: 8 word)) = c"
  by (simp add: unat_of_nat)

lemma byte_zero_iff: "(word_of_nat (of_char c) :: 8 word) = 0 \<longleftrightarrow> c = CHR 0x00"
proof
  assume "(word_of_nat (of_char c) :: 8 word) = 0"
  then have "c = char_of (unat (0 :: 8 word))" using char_byte [of c] by metis
  then show "c = CHR 0x00" by (simp add: char_of_def)
qed simp

lemma c_string_c_field:
  assumes "c_text s" and "drop off m = c_field s @ rest"
  shows "c_string_at off m = s"
proof -
  obtain k where k: "SSID_BUF_SIZE - length s = Suc k"
    using assms(1) by (metis c_text_def Suc_diff_Suc)
  have "takeWhile (\<lambda>b. b \<noteq> 0) (map (\<lambda>c. word_of_nat (of_char c)) s @ 0 # xs) =
      map (\<lambda>c. word_of_nat (of_char c) :: 8 word) s" for xs
    using assms(1) by (auto simp: takeWhile_append byte_zero_iff c_text_def)
  then show ?thesis
    by (simp add: c_string_at_def assms(2) c_field_def k char_byte o_def)
qed

lemma length_encode: "wf_request r \<Longrightarrow> length (encode_request r) = 112"
  by (simp add: encode_request_def wf_request_def length_c_field SSID_BUF_SIZE_def)

lemma frame_encode: "wf_request r \<Longrightarrow> frame (encode_request r) = encode_request r"
  using length_encode [of r] by (simp add: frame_def encode_request_def sizeof_ctrl_msgbuf_def SSID_BUF_SIZE_def)

lemma encode_fields:
  assumes "wf_request r"
  defines "m \<equiv> encode_request r"
  shows "ctrl_type (m @ rest) = (if rq_release r then 0xF1 else 0xF0)"
    and "req_type_field (m @ rest) = type_code (rq_type r)"
    and "req_sender_field (m @ rest) = unat (sender_code (rq_sender r))"
    and "req_ipv4_field (m @ rest) = unat (rq_ipv4 r)"
    and "req_ipv6_field (m @ rest) = rq_ipv6 r"
    and "wifi_strings (m @ rest) = (rq_ssid r, rq_password r)"
proof -
  note wf = assms(1) [unfolded wf_request_def]
  note field_defs = req_type_field_def req_sender_field_def req_ipv4_field_def field32_def
  show "ctrl_type (m @ rest) = (if rq_release r then 0xF1 else 0xF0)"
    by (simp add: m_def encode_request_def ctrl_type_def nth_append nth_Cons'
        GPSONE_LOC_API_IF_RELEASE_def GPSONE_LOC_API_IF_REQUEST_def)
  have "type_code (rq_type r) < 2 ^ 32" by (cases "rq_type r") simp_all
  then show "req_type_field (m @ rest) = type_code (rq_type r)"
    by (simp add: m_def encode_request_def field_defs un_le32_le32)
  show "req_sender_field (m @ rest) = unat (sender_code (rq_sender r))"
    using unsigned_less [of "sender_code (rq_sender r)", where ?'a = nat]
    by (simp add: m_def encode_request_def field_defs un_le32_le32)
  show "req_ipv4_field (m @ rest) = unat (rq_ipv4 r)"
    using unsigned_less [of "rq_ipv4 r", where ?'a = nat]
    by (simp add: m_def encode_request_def field_defs un_le32_le32)
  show "req_ipv6_field (m @ rest) = rq_ipv6 r"
    using wf by (simp add: m_def encode_request_def req_ipv6_field_def)
  have "c_string_at 44 (m @ rest) = rq_ssid r"
    by (rule c_string_c_field [where rest = "c_field (rq_password r) @ [0, 0] @ rest"])
      (use wf in \<open>simp_all add: m_def encode_request_def\<close>)
  moreover have "c_string_at 77 (m @ rest) = rq_password r"
    by (rule c_string_c_field [where rest = "[0, 0] @ rest"])
      (use wf in \<open>simp_all add: m_def encode_request_def length_c_field SSID_BUF_SIZE_def\<close>)
  ultimately show "wifi_strings (m @ rest) = (rq_ssid r, rq_password r)"
    using wf by (simp add: wifi_strings_def strlcpy_def c_text_def SSID_BUF_SIZE_def)
qed

section \<open>The server on a stream of messages\<close>

text \<open>The loop of \<open>thelper_main\<close> on \<open>loc_api_server_proc\<close>, once per buffer of \<open>malloc\<close>.\<close>

fun server_run :: "8 word list option list \<Rightarrow> server \<Rightarrow> pipes \<Rightarrow> (server \<times> pipes, pipes) io" where
  "server_run [] v w = Done (v, w)"
| "server_run (b # bs) v w =
     (case loc_api_server_proc b v w of
        Overrun \<Rightarrow> Overrun
      | Blocks w \<Rightarrow> Blocks w
      | Done (result, v, w) \<Rightarrow> if result < 0 then Done (v, w) else server_run bs v w)"

lemma decode_type_code:
  "req_type_field m = type_code t \<Longrightarrow> decode_type m = Some t"
  by (cases t) (simp_all add: decode_type_def)

lemma handlers_encode:
  assumes "wf_request r" and h: "h"
  shows "rq_release r \<Longrightarrow>
      snd (loc_eng_dmn_conn_loc_api_server_if_release_handler (encode_request r @ rest)) =
      (case request_msg r of [] \<Rightarrow> None | x # _ \<Rightarrow> Some x)"
    and "\<not> rq_release r \<Longrightarrow>
      snd (loc_eng_dmn_conn_loc_api_server_if_request_handler h (encode_request r @ rest)) =
      (case request_msg r of [] \<Rightarrow> None | x # _ \<Rightarrow> Some x)"
proof -
  note [simp] = encode_fields [OF assms(1), of rest] decode_type_code
  show "rq_release r \<Longrightarrow>
      snd (loc_eng_dmn_conn_loc_api_server_if_release_handler (encode_request r @ rest)) =
      (case request_msg r of [] \<Rightarrow> None | x # _ \<Rightarrow> Some x)"
    by (cases "rq_sender r") (simp_all add: loc_eng_dmn_conn_loc_api_server_if_release_handler_def request_msg_def)
  show "\<not> rq_release r \<Longrightarrow>
      snd (loc_eng_dmn_conn_loc_api_server_if_request_handler h (encode_request r @ rest)) =
      (case request_msg r of [] \<Rightarrow> None | x # _ \<Rightarrow> Some x)"
    using h by (cases "rq_sender r")
      (simp_all add: loc_eng_dmn_conn_loc_api_server_if_request_handler_def request_msg_def)
qed

lemma request_msg_option:
  "(case (case request_msg r of [] \<Rightarrow> None | x # _ \<Rightarrow> Some x) of None \<Rightarrow> [] | Some x \<Rightarrow> [x]) = request_msg r"
  by (simp add: request_msg_def split: sender_id.split)

lemma server_proc_request:
  assumes p: "pipe_has w (loc_api_server_msgqid v) i (encode_request r @ rest)" and r: "wf_request r"
    and h: "have_loc_api_handle v"
  shows "loc_api_server_proc (Some buf) v w =
    Done (0, v\<lparr>sent := sent v @ request_msg r\<rparr>, set_pipe i rest w)"
proof -
  have rcv: "loc_eng_dmn_conn_glue_msgrcv (loc_api_server_msgqid v) buf (sizeof_ctrl_msgbuf + 256) w =
      Done (112, encode_request r @ drop 112 buf, set_pipe i rest w)"
    using msgrcv_frame [of w "loc_api_server_msgqid v" i "encode_request r" rest "sizeof_ctrl_msgbuf + 256" buf] p r
    by (simp add: frame_encode length_encode sizeof_ctrl_msgbuf_def)
  show ?thesis
    using handlers_encode [OF r h, of "drop 112 buf"] encode_fields(1) [OF r, of "drop 112 buf"] h
      request_msg_option [of r]
    by (auto simp: loc_api_server_proc_def rcv split_beta
        GPSONE_LOC_API_IF_RELEASE_def GPSONE_LOC_API_IF_REQUEST_def)
qed

lemma server_run_requests:
  assumes "pipe_has w (loc_api_server_msgqid v) i (concat (map encode_request rs) @ rest)"
    and "\<forall>r \<in> set rs. wf_request r" and "have_loc_api_handle v" and "length bufs = length rs"
  shows "server_run (map Some bufs) v w =
    Done (v\<lparr>sent := sent v @ concat (map request_msg rs)\<rparr>, set_pipe i rest w)"
  using assms
proof (induction rs arbitrary: bufs v w)
  case Nil
  then show ?case using set_pipe_same [of w _ i rest] by auto
next
  case (Cons r rs)
  then obtain b bs where bufs: "bufs = b # bs" "length bs = length rs" by (cases bufs) auto
  let ?v = "v\<lparr>sent := sent v @ request_msg r\<rparr>"
    and ?w = "set_pipe i (concat (map encode_request rs) @ rest) w"
  have "loc_api_server_proc (Some b) v w = Done (0, ?v, ?w)"
    using Cons.prems server_proc_request [of w v i r "concat (map encode_request rs) @ rest" b] by simp
  moreover have "server_run (map Some bs) ?v ?w =
      Done (?v\<lparr>sent := sent ?v @ concat (map request_msg rs)\<rparr>, set_pipe i rest ?w)"
    by (rule Cons.IH) (use Cons.prems bufs in auto)
  ultimately show ?case using bufs by simp
qed

text \<open>Whatever the bytes, a call consumes some of them, keeps what was sent and asks to be called
  again.\<close>

lemma msgrcv_any:
  assumes p: "pipe_has w fd i bs" and b: "4 \<le> bufsz" "bufsz < 2 ^ 31"
  shows "(loc_eng_dmn_conn_glue_msgrcv fd buf bufsz w = Overrun \<longleftrightarrow> un_le32 (take 4 bs) < 4 \<and> bufsz < length bs)
    \<and> (\<forall>n m w'. loc_eng_dmn_conn_glue_msgrcv fd buf bufsz w = Done (n, m, w')
        \<longrightarrow> (\<exists>bs'. w' = set_pipe i bs' w \<and> length bs' < length bs))"
proof (cases "length bs < 4")
  case True
  show ?thesis
  proof (cases "bs = []")
    case True
    with read_eq [OF p, of 4 4] b show ?thesis
      by (simp add: loc_eng_dmn_conn_glue_msgrcv_def sizeof_size_t_def)
  next
    case False
    note short = msgrcv_short [OF p False \<open>length bs < 4\<close>, of buf bufsz]
    have "\<not> bufsz < length bs" and "length ([] :: 8 word list) < length bs"
      using b(1) \<open>length bs < 4\<close> False by simp_all
    then show ?thesis unfolding short by (intro conjI allI impI exI [of _ "[]"]) simp_all
  qed
next
  case False
  then have "length (take 4 bs) = 4" by simp
  then obtain hdr rest where bs: "bs = hdr @ rest" and h: "length hdr = 4"
    using append_take_drop_id [of 4 bs] by metis
  note p' = p [unfolded bs]
  have "\<exists>bs'. w' = set_pipe i bs' w \<and> length bs' < length bs"
    if "loc_eng_dmn_conn_glue_msgrcv fd buf bufsz w = Done (n, m, w')" for n m w'
  proof -
    have "w' = set_pipe i rest w \<or> w' = set_pipe i (drop (size_left (un_le32 hdr)) rest) w"
      using that unfolding msgrcv_cases [OF p' h] Let_def by (auto split: if_splits)
    moreover have "length rest < length bs" using h by (simp add: bs)
    ultimately show ?thesis by (metis length_drop diff_le_self le_less_trans)
  qed
  moreover have "loc_eng_dmn_conn_glue_msgrcv fd buf bufsz w = Overrun \<longleftrightarrow> un_le32 (take 4 bs) < 4 \<and> bufsz < length bs"
    using msgrcv_overrun_iff [OF p' h b] h b bs by auto
  ultimately show ?thesis by blast
qed

lemma msgflush_blocks: "pipe_has w fd i bs \<Longrightarrow> loc_eng_dmn_conn_glue_msgflush fd w = Some (Blocks (set_pipe i [] w))"
proof (induction "length bs" arbitrary: bs w rule: less_induct)
  case less
  note read = read_eq [OF less.prems, of 128 128]
  show ?case
  proof (cases "bs = []")
    case True
    with less.prems read set_pipe_same [of w fd i "[]"] show ?thesis
      by (simp add: loc_eng_dmn_conn_glue_msgflush.simps)
  next
    case False
    have "loc_eng_dmn_conn_glue_msgflush fd (set_pipe i (drop 128 bs) w) = Some (Blocks (set_pipe i [] w))"
      using less.hyps [of "drop 128 bs" "set_pipe i (drop 128 bs) w"] less.prems False by simp
    with False read show ?thesis by (simp add: loc_eng_dmn_conn_glue_msgflush.simps)
  qed
qed

lemma server_proc_overrun_iff:
  "loc_api_server_proc (Some buf) v w = Overrun
    \<longleftrightarrow> loc_eng_dmn_conn_glue_msgrcv (loc_api_server_msgqid v) buf (sizeof_ctrl_msgbuf + 256) w = Overrun"
  by (auto simp: loc_api_server_proc_def Let_def split_beta split: io.split)

lemma server_proc_done:
  assumes "loc_api_server_proc (Some buf) v w = Done (result, v', w')"
  shows "result = 0 \<and> (\<exists>ms. v' = v\<lparr>sent := sent v @ ms\<rparr> \<and> length ms \<le> 1)
    \<and> (\<exists>n m. loc_eng_dmn_conn_glue_msgrcv (loc_api_server_msgqid v) buf (sizeof_ctrl_msgbuf + 256) w = Done (n, m, w'))"
proof (cases "loc_eng_dmn_conn_glue_msgrcv (loc_api_server_msgqid v) buf (sizeof_ctrl_msgbuf + 256) w")
  case (Done x)
  obtain n m w1 where x: "x = (n, m, w1)" by (cases x)
  show ?thesis
  proof (cases "n \<le> 0")
    case True
    with assms have "v' = v\<lparr>sent := sent v @ []\<rparr>" "result = 0" "w' = w1"
      by (simp_all add: loc_api_server_proc_def Done x)
    then show ?thesis unfolding Done x by (metis list.size(3) zero_le)
  next
    case False
    with assms have "result = 0" "w' = w1"
      and "\<exists>msg. v' = v\<lparr>sent := sent v @ (case msg of None \<Rightarrow> [] | Some x \<Rightarrow> [x])\<rparr>"
      by (auto simp: loc_api_server_proc_def Done x Let_def split_beta)
    moreover have "length (case msg of None \<Rightarrow> [] | Some x \<Rightarrow> [x]) \<le> 1" for msg :: "loc_eng_conn_msg option"
      by (cases msg) simp_all
    ultimately show ?thesis unfolding Done x by blast
  qed
qed (use assms in \<open>simp_all add: loc_api_server_proc_def\<close>)

section \<open>Properties\<close>

definition pipe_world :: "8 word list \<Rightarrow> pipes" where
  "pipe_world bs = \<lparr>names = [''q'' \<mapsto> 0], inodes = [0 \<mapsto> bs], fds = [3 \<mapsto> 0], next_inode = 1, next_fd = 4\<rparr>"

lemma pipe_world_has [simp]: "pipe_has (pipe_world bs) 3 0 bs"
  by (simp add: pipe_world_def pipe_has_def)

definition sample_server :: server where
  "sample_server = \<lparr>loc_api_server_msgqid = 3, loc_api_resp_msgqid = 3, quipc_msgqid = 3, msapm_msgqid = 3,
     global_loc_api_q_path = ''q'', global_loc_api_resp_q_path = ''r'', have_loc_api_handle = True, sent = []\<rparr>"

definition sample_requests :: "ctrl_request list" where
  "sample_requests =
     [\<lparr>rq_release = False, rq_type = LOC_ENG_IF_REQUEST_TYPE_WIFI, rq_sender = IF_REQUEST_SENDER_ID_QUIPC,
       rq_ipv4 = 0, rq_ipv6 = replicate 16 0, rq_ssid = ''net'', rq_password = ''pw''\<rparr>,
      \<lparr>rq_release = True, rq_type = LOC_ENG_IF_REQUEST_TYPE_SUPL, rq_sender = IF_REQUEST_SENDER_ID_GPSONE_DAEMON,
       rq_ipv4 = 7, rq_ipv6 = replicate 16 1, rq_ssid = [], rq_password = []\<rparr>]"

text \<open>C11: messages written to a pipe with \<open>msgsnd\<close> are read with \<open>msgrcv\<close> in the order of writing, each
  whole and with its size in the first field, however sending and receiving alternate; what has not
  been read is still in the pipe.\<close>
theorem messages_in_order:
  assumes "pipe_msgs fd i (length buf) w ms"
    and "\<forall>m \<in> set (List.map_filter id ops). 4 \<le> length m \<and> length m \<le> length buf"
  shows "\<exists>rs w' rest. channel_run (put_msg fd) (get_msg fd buf) ops w = (rs, w')
    \<and> pipe_msgs fd i (length buf) w' rest \<and> rs @ rest = ms @ map frame (List.map_filter id ops)"
  using pipe.channel_order [OF assms] .

theorem messages_in_order_witness:
  "\<exists>rs w' rest. channel_run (put_msg 3) (get_msg 3 (replicate 8 0))
      [Some [0, 0, 0, 0, 5, 6], None, None, Some [0, 0, 0, 0, 7]] (pipe_world []) = (rs, w')
    \<and> pipe_msgs 3 0 8 w' rest \<and> rs @ rest = [[6, 0, 0, 0, 5, 6], [5, 0, 0, 0, 7]]"
proof -
  let ?m = "[0, 0, 0, 0, 5, 6] :: 8 word list" and ?m' = "[0, 0, 0, 0, 7] :: 8 word list"
  let ?ops = "[Some ?m, None, None, Some ?m']"
  have frames: "frame ?m = [6, 0, 0, 0, 5, 6]" "frame ?m' = [5, 0, 0, 0, 7]"
    by (simp_all add: frame_def le32_def)
  have ms: "List.map_filter id ?ops = [?m, ?m']" by (simp add: List.map_filter_simps)
  have empty: "pipe_msgs 3 0 (length (replicate 8 (0 :: 8 word))) (pipe_world []) []" by (simp add: pipe_msgs_def)
  have "\<forall>m \<in> set (List.map_filter id ?ops). 4 \<le> length m \<and> length m \<le> length (replicate 8 (0 :: 8 word))"
    unfolding ms by simp
  from messages_in_order [OF empty this] show ?thesis unfolding ms by (simp add: frames)
qed

text \<open>C8: the daemon server turns a stream of request and release messages, as the daemons write them
  for any sender, type, address and network name, into exactly the engine messages that they ask for, in
  order, reads no byte beyond them and goes on serving.\<close>
theorem server_serves_requests:
  assumes "pipe_has w (loc_api_server_msgqid v) i (concat (map encode_request rs) @ rest)"
    and "\<forall>r \<in> set rs. wf_request r" and "have_loc_api_handle v" and "length bufs = length rs"
  shows "server_run (map Some bufs) v w =
    Done (v\<lparr>sent := sent v @ concat (map request_msg rs)\<rparr>, set_pipe i rest w)"
  using server_run_requests [OF assms] .

theorem server_serves_requests_witness:
  "\<exists>w. server_run [Some [], Some []] sample_server w =
    Done (sample_server\<lparr>sent :=
      [loc_eng_msg_request_wifi LOC_ENG_IF_REQUEST_TYPE_WIFI IF_REQUEST_SENDER_ID_QUIPC ''net'' ''pw'',
       loc_eng_msg_release_bit LOC_ENG_IF_REQUEST_TYPE_SUPL 7 (replicate 16 1)]\<rparr>, set_pipe 0 [9] w)"
proof -
  let ?w = "pipe_world (concat (map encode_request sample_requests) @ [9])"
  have wf: "\<forall>r \<in> set sample_requests. wf_request r"
    by (simp add: sample_requests_def wf_request_def c_text_def SSID_BUF_SIZE_def)
  have has: "pipe_has ?w (loc_api_server_msgqid sample_server) 0 (concat (map encode_request sample_requests) @ [9])"
    by (simp add: sample_server_def)
  have h: "have_loc_api_handle sample_server" and l: "length [[], [] :: 8 word list] = length sample_requests"
    by (simp_all add: sample_server_def sample_requests_def)
  have e: "sent sample_server @ concat (map request_msg sample_requests) =
      [loc_eng_msg_request_wifi LOC_ENG_IF_REQUEST_TYPE_WIFI IF_REQUEST_SENDER_ID_QUIPC ''net'' ''pw'',
       loc_eng_msg_release_bit LOC_ENG_IF_REQUEST_TYPE_SUPL 7 (replicate 16 1)]"
    by (simp add: sample_server_def sample_requests_def request_msg_def)
  from server_serves_requests [OF has wf h l] show ?thesis unfolding e by auto
qed

text \<open>Receiving refuses a message that is larger than the buffer with -1, but has then taken its size
  off the pipe and leaves the rest of the message there, to be read as the next message.\<close>
theorem oversized_message_stays:
  assumes "pipe_has w fd i (frame m @ rest)" and "bufsz < length m" and "length m < 2 ^ 32" and "4 \<le> length m"
  shows "loc_eng_dmn_conn_glue_msgrcv fd buf bufsz w =
    Done (- 1, le32 (length m) @ drop 4 buf, set_pipe i (drop 4 m @ rest) w)"
proof -
  have p: "pipe_has w fd i (le32 (length m) @ drop 4 m @ rest)" using assms(1) by (simp add: frame_def)
  have "un_le32 (le32 (length m)) = length m" using un_le32_le32 assms(3) by simp
  with assms(2) show ?thesis by (simp add: msgrcv_cases [OF p] Let_def)
qed

theorem oversized_message_stays_witness:
  "loc_eng_dmn_conn_glue_msgrcv 3 [1, 1, 1, 1] 4 (pipe_world (frame [0, 0, 0, 0, 9])) =
    Done (- 1, le32 5, set_pipe 0 [9] (pipe_world (frame [0, 0, 0, 0, 9])))"
proof -
  have "length [0, 0, 0, 0, 9 :: 8 word] = 5" by simp
  note rcv = oversized_message_stays [of "pipe_world (frame [0, 0, 0, 0, 9])" 3 0 "[0, 0, 0, 0, 9]" "[]" 4
      "[1, 1, 1, 1]", unfolded this]
  show ?thesis using rcv by simp
qed



text \<open>A response to the GPSOne daemon, QUIPC or MSAPM is one whole message on that client's queue, of
  the response type and with the status in its first field; nothing is written for the modem.\<close>
theorem data_conn_response:
  assumes "pipe_has w q i bs" and "response_queue v sender = Some q" and "length junk = sizeof_ctrl_msgbuf"
    and "sizeof_ctrl_msgbuf \<le> quota"
  shows "\<exists>m. loc_eng_dmn_conn_loc_api_server_data_conn (Some quota) junk sender status v w = (0, set_pipe i (bs @ m) w)
    \<and> length m = sizeof_ctrl_msgbuf \<and> frame m = m
    \<and> ctrl_type m = GPSONE_LOC_API_RESPONSE \<and> field32 16 m = response_code status"
proof -
  let ?r = "response_msg status junk"
  have sz: "sizeof_ctrl_msgbuf = 112" by (simp add: sizeof_ctrl_msgbuf_def SSID_BUF_SIZE_def)
  have len: "length ?r = 112" using assms(3) by (simp add: response_msg_def store_def sz)
  have snd: "loc_eng_dmn_conn_glue_msgsnd (Some quota) q ?r 112 w = (112, set_pipe i (bs @ frame ?r) w)"
    using msgsnd_eq [OF assms(1), of ?r quota] assms(4) len by (simp add: sz)
  have code: "response_code status < 2 ^ 32" by (cases status) simp_all
  have "ctrl_type (frame ?r) = 0xF2"
    using assms(3) by (simp add: ctrl_type_def frame_def response_msg_def store_def sz nth_append
        GPSONE_LOC_API_RESPONSE_def min_def)
  moreover have "field32 16 (frame ?r) = response_code status"
    using assms(3) code by (simp add: field32_def frame_def response_msg_def store_def sz un_le32_le32 min_def)
  ultimately show ?thesis
    using snd assms(2) len
    by (intro exI [of _ "frame ?r"])
      (simp add: loc_eng_dmn_conn_loc_api_server_data_conn_def sz GPSONE_LOC_API_RESPONSE_def)
qed

theorem data_conn_response_witness:
  "\<exists>m. loc_eng_dmn_conn_loc_api_server_data_conn (Some 4096) (replicate 112 7)
      IF_REQUEST_SENDER_ID_MSAPM GPSONE_LOC_API_IF_RELEASE_SUCCESS sample_server (pipe_world [1]) =
      (0, set_pipe 0 ([1] @ m) (pipe_world [1]))
    \<and> length m = 112 \<and> field32 16 m = 0xF1"
proof -
  have sz: "sizeof_ctrl_msgbuf = 112" by (simp add: sizeof_ctrl_msgbuf_def SSID_BUF_SIZE_def)
  have q: "response_queue sample_server IF_REQUEST_SENDER_ID_MSAPM = Some 3"
    by (simp add: response_queue_def sample_server_def)
  have "length (replicate 112 (7 :: 8 word)) = sizeof_ctrl_msgbuf" "sizeof_ctrl_msgbuf \<le> 4096" by (simp_all add: sz)
  from data_conn_response [OF pipe_world_has [of "[1]"] q this, of GPSONE_LOC_API_IF_RELEASE_SUCCESS]
  show ?thesis unfolding sz response_code.simps by blast
qed

lemma msgflush_closed:
  assumes "loc_eng_dmn_conn_glue_msgflush fd w = Some y"
  shows "fds w fd \<noteq> None"
proof (rule loc_eng_dmn_conn_glue_msgflush.raw_induct [OF _ assms, of "\<lambda>fd w _. fds w fd \<noteq> None"])
  fix f fd w y
  assume 1: "\<And>fd w y. f fd w = Some y \<Longrightarrow> fds w fd \<noteq> None"
    "(case loc_eng_dmn_conn_glue_piperead fd 128 128 w of
        Overrun \<Rightarrow> Some Overrun
      | Blocks w \<Rightarrow> Some (Blocks w)
      | Done (len, _, w) \<Rightarrow> if len = 0 then Some (Done (len, w)) else f fd w) = Some y"
  show "fds w fd \<noteq> None"
  proof
    assume c: "fds w fd = None"
    then have "loc_eng_dmn_conn_glue_piperead fd 128 128 w = Done (- 1, [], w)" by (simp add: pipe_defs)
    with 1(2) have "f fd w = Some y" by simp
    with 1(1) c show False by blast
  qed
qed

text \<open>C37: \<open>msgflush\<close> never returns: on an open pipe it reads away every byte and then waits for more,
  on a descriptor that is not open it loops forever.\<close>
theorem msgflush_never_returns:
  assumes "\<And>i. fds w fd = Some i \<Longrightarrow> inodes w i \<noteq> None"
  shows "loc_eng_dmn_conn_glue_msgflush fd w =
    (case fds w fd of None \<Rightarrow> None | Some i \<Rightarrow> Some (Blocks (set_pipe i [] w)))"
proof (cases "fds w fd")
  case None
  with msgflush_closed [of fd w] show ?thesis by (cases "loc_eng_dmn_conn_glue_msgflush fd w") auto
next
  case (Some i)
  with assms obtain bs where "pipe_has w fd i bs" unfolding pipe_has_def by blast
  with Some msgflush_blocks show ?thesis by simp
qed

theorem msgflush_never_returns_witness:
  "loc_eng_dmn_conn_glue_msgflush 3 (pipe_world [1, 2]) = Some (Blocks (set_pipe 0 [] (pipe_world [1, 2])))
    \<and> loc_eng_dmn_conn_glue_msgflush 5 (pipe_world [1, 2]) = None"
  using msgflush_never_returns [of "pipe_world [1, 2]" 3] msgflush_never_returns [of "pipe_world [1, 2]" 5]
  by (simp add: pipe_world_def)

section \<open>Setting up and taking down the four queues\<close>

text \<open>Descriptors and inodes that the kernel has yet to give out are not in use.\<close>

definition wf_pipes :: "pipes \<Rightarrow> bool" where
  "wf_pipes w \<longleftrightarrow> (\<forall>fd \<ge> next_fd w. fds w fd = None)
     \<and> (\<forall>n i. names w n = Some i \<longrightarrow> i < next_inode w \<and> inodes w i \<noteq> None)"

lemma pipeget_ok:
  assumes "wf_pipes w"
  shows "\<exists>w'. loc_eng_dmn_conn_glue_pipeget True True n w = (next_fd w, w') \<and> wf_pipes w'
    \<and> fds w' = (fds w)(next_fd w := names w' n) \<and> next_fd w' = next_fd w + 1
    \<and> (\<exists>i. names w' n = Some i \<and> names w' = (names w)(n \<mapsto> i))"
proof (cases "names w n")
  case None
  with assms show ?thesis
    by (fastforce simp: pipe_defs Let_def wf_pipes_def)
next
  case (Some i)
  then have "names w = (names w)(n \<mapsto> i)" by (simp add: map_upd_id)
  with Some assms show ?thesis by (auto simp: pipe_defs Let_def wf_pipes_def)
qed

text \<open>If the kernel creates and opens every pipe, the server's set-up gives four different open
  descriptors, each on the pipe of its path, and leaves the other descriptors and names alone; taking
  the server down afterwards closes exactly those four and removes exactly their names.\<close>
theorem server_init_post:
  assumes "wf_pipes w"
    and "distinct [global_loc_api_q_path v, global_loc_api_resp_q_path v, QUIPC_CTRL_Q_PATH, MSAPM_CTRL_Q_PATH]"
  shows "\<exists>v' w'. loc_api_server_proc_init (\<lambda>_. (True, True)) v w = (0, v', w')
    \<and> distinct [loc_api_server_msgqid v', loc_api_resp_msgqid v', quipc_msgqid v', msapm_msgqid v']
    \<and> fds w' (loc_api_server_msgqid v') = names w' (global_loc_api_q_path v) \<and> names w' (global_loc_api_q_path v) \<noteq> None
    \<and> fds w' (loc_api_resp_msgqid v') = names w' (global_loc_api_resp_q_path v) \<and> names w' (global_loc_api_resp_q_path v) \<noteq> None
    \<and> fds w' (quipc_msgqid v') = names w' QUIPC_CTRL_Q_PATH \<and> names w' QUIPC_CTRL_Q_PATH \<noteq> None
    \<and> fds w' (msapm_msgqid v') = names w' MSAPM_CTRL_Q_PATH \<and> names w' MSAPM_CTRL_Q_PATH \<noteq> None
    \<and> fds (snd (loc_api_server_proc_post v' w')) = fds w
    \<and> names (snd (loc_api_server_proc_post v' w')) = (names w) |`
        (- {global_loc_api_q_path v, global_loc_api_resp_q_path v, QUIPC_CTRL_Q_PATH, MSAPM_CTRL_Q_PATH})"
proof -
  define a b c d where "a = global_loc_api_q_path v" and "b = global_loc_api_resp_q_path v"
    and "c = QUIPC_CTRL_Q_PATH" and "d = MSAPM_CTRL_Q_PATH"
  note abcd = a_def [symmetric] b_def [symmetric] c_def [symmetric] d_def [symmetric]
  let ?n = "next_fd w"
  obtain w1 i1 where 1: "loc_eng_dmn_conn_glue_pipeget True True a w = (?n, w1)" "wf_pipes w1"
    "fds w1 = (fds w)(?n := names w1 a)" "next_fd w1 = ?n + 1" "names w1 = (names w)(a \<mapsto> i1)"
    using pipeget_ok [OF assms(1), of a] by blast
  obtain w2 i2 where 2: "loc_eng_dmn_conn_glue_pipeget True True b w1 = (?n + 1, w2)" "wf_pipes w2"
    "fds w2 = (fds w1)(?n + 1 := names w2 b)" "next_fd w2 = ?n + 2" "names w2 = (names w1)(b \<mapsto> i2)"
    using pipeget_ok [OF 1(2), of b] 1(4) by auto
  obtain w3 i3 where 3: "loc_eng_dmn_conn_glue_pipeget True True c w2 = (?n + 2, w3)" "wf_pipes w3"
    "fds w3 = (fds w2)(?n + 2 := names w3 c)" "next_fd w3 = ?n + 3" "names w3 = (names w2)(c \<mapsto> i3)"
    using pipeget_ok [OF 2(2), of c] 2(4) by auto
  obtain w4 i4 where 4: "loc_eng_dmn_conn_glue_pipeget True True d w3 = (?n + 3, w4)" "wf_pipes w4"
    "fds w4 = (fds w3)(?n + 3 := names w4 d)" "next_fd w4 = ?n + 4" "names w4 = (names w3)(d \<mapsto> i4)"
    using pipeget_ok [OF 3(2), of d] 3(4) by auto
  let ?v = "v\<lparr>loc_api_server_msgqid := ?n, loc_api_resp_msgqid := ?n + 1, quipc_msgqid := ?n + 2, msapm_msgqid := ?n + 3\<rparr>"
  have init: "loc_api_server_proc_init (\<lambda>_. (True, True)) v w = (0, ?v, w4)"
    by (simp add: loc_api_server_proc_init_def loc_eng_dmn_conn_glue_msgget_def abcd 1(1) 2(1) 3(1) 4(1))
  have free: "fds w (?n + k) = None" if "0 \<le> k" for k using assms(1) that by (simp add: wf_pipes_def)
  have fds4: "fds w4 = (fds w)(?n \<mapsto> i1, ?n + 1 \<mapsto> i2, ?n + 2 \<mapsto> i3, ?n + 3 \<mapsto> i4)"
    by (simp add: 4(3,5) 3(3,5) 2(3,5) 1(3,5))
  have names4: "names w4 = (names w)(a \<mapsto> i1, b \<mapsto> i2, c \<mapsto> i3, d \<mapsto> i4)"
    by (simp add: 4(5) 3(5) 2(5) 1(5))
  have post_fds: "fds (snd (loc_api_server_proc_post ?v w4)) = fds w"
    using free [of 0] free [of 1] free [of 2] free [of 3]
    by (auto simp: loc_api_server_proc_post_def loc_eng_dmn_conn_glue_msgremove_def pipe_defs Let_def abcd fds4 fun_eq_iff)
  have post_names: "names (snd (loc_api_server_proc_post ?v w4)) = (names w) |` (- {a, b, c, d})"
    by (auto simp: loc_api_server_proc_post_def loc_eng_dmn_conn_glue_msgremove_def pipe_defs Let_def abcd names4
        fun_eq_iff restrict_map_def)
  have dist: "distinct [a, b, c, d]" using assms(2) unfolding abcd .
  show ?thesis unfolding abcd
    by (intro exI [of _ ?v] exI [of _ w4] conjI)
      (use dist in \<open>simp_all add: init post_fds post_names fds4 names4\<close>)
qed

theorem server_init_post_witness:
  "\<exists>v' w'. loc_api_server_proc_init (\<lambda>_. (True, True)) sample_server (pipe_world []) = (0, v', w')
    \<and> loc_api_server_msgqid v' \<noteq> msapm_msgqid v' \<and> fds (snd (loc_api_server_proc_post v' w')) = fds (pipe_world [])"
proof -
  have wf: "wf_pipes (pipe_world [])" by (auto simp: wf_pipes_def pipe_world_def)
  have d: "distinct [global_loc_api_q_path sample_server, global_loc_api_resp_q_path sample_server,
      QUIPC_CTRL_Q_PATH, MSAPM_CTRL_Q_PATH]"
    by (simp add: sample_server_def QUIPC_CTRL_Q_PATH_def MSAPM_CTRL_Q_PATH_def)
  from server_init_post [OF wf d] show ?thesis by (elim exE conjE) auto
qed

end
