(* ===== verification/Loc_Msg.thy ===== *)
theory Loc_Msg
  imports Complex_Main Agps Loc_Ni Dmn_Conn
begin

text \<open>
  The data of the location engine: positions, position modes and statuses (\<open>hardware/gps.h\<close>,
  \<open>loc.h\<close>), the configuration (\<open>loc_eng.h\<close>) and the messages of the engine's queue
  (\<open>loc_eng_msg.h\<close>, \<open>loc_eng_msg_id.h\<close>), all under \<open>gps/libloc_api_50001\<close>.

  \<^item> A \<open>float\<close> or \<open>double\<close> is a rational number. The engine passes them on and compares one, the
    accuracy, with an integer; not-a-number and the infinities are not modelled.
  \<^item> A message is its identifier with the fields of its struct. Structs that the engine only passes on
    (\<open>GpsSvStatus\<close>, the ULP ones) are numbers that stand for them.
\<close>

datatype GpsStatusValue =
  GPS_STATUS_NONE | GPS_STATUS_SESSION_BEGIN | GPS_STATUS_SESSION_END | GPS_STATUS_ENGINE_ON | GPS_STATUS_ENGINE_OFF

datatype loc_sess_status = LOC_SESS_SUCCESS | LOC_SESS_INTERMEDIATE | LOC_SESS_FAILURE

datatype LocPositionMode =
    LOC_POSITION_MODE_STANDALONE | LOC_POSITION_MODE_MS_BASED | LOC_POSITION_MODE_MS_ASSISTED
  | LOC_POSITION_MODE_RESERVED_1 | LOC_POSITION_MODE_RESERVED_2 | LOC_POSITION_MODE_RESERVED_3
  | LOC_POSITION_MODE_RESERVED_4 | LOC_POSITION_MODE_RESERVED_5

datatype GpsPositionRecurrence = GPS_POSITION_RECURRENCE_PERIODIC | GPS_POSITION_RECURRENCE_SINGLE

datatype LocServerType =
  LOC_AGPS_CDMA_PDE_SERVER | LOC_AGPS_CUSTOM_PDE_SERVER | LOC_AGPS_MPC_SERVER | LOC_AGPS_SUPL_SERVER

definition GPS_LOCATION_HAS_ACCURACY :: "16 word" where "GPS_LOCATION_HAS_ACCURACY = 0x0010"
definition LOCATION_HAS_SOURCE_INFO :: "16 word" where "LOCATION_HAS_SOURCE_INFO = 0x0020"
definition ULP_LOCATION_IS_FROM_HYBRID :: "16 word" where "ULP_LOCATION_IS_FROM_HYBRID = 0x0001"
definition ULP_LOCATION_IS_FROM_GNSS :: "16 word" where "ULP_LOCATION_IS_FROM_GNSS = 0x0002"
definition ULP_CAPABILITY :: "32 word" where "ULP_CAPABILITY = 0x100"
definition ULP_PHONE_CONTEXT_BATTERY_CHARGING_STATE :: "32 word" where
  "ULP_PHONE_CONTEXT_BATTERY_CHARGING_STATE = 0x8"
definition LOC_POS_TECH_MASK_DEFAULT :: "32 word" where "LOC_POS_TECH_MASK_DEFAULT = 0"
definition LOC_POS_TECH_MASK_SATELLITE :: "32 word" where "LOC_POS_TECH_MASK_SATELLITE = 1"
definition LOC_POS_TECH_MASK_SENSORS :: "32 word" where "LOC_POS_TECH_MASK_SENSORS = 8"
definition MIN_POSSIBLE_FIX_INTERVAL :: "32 word" where "MIN_POSSIBLE_FIX_INTERVAL = 1000"

record GpsLocation =
  loc_flags :: "16 word"
  position_source :: "16 word"
  latitude :: rat
  longitude :: rat
  altitude :: rat
  speed :: rat
  bearing :: rat
  accuracy :: rat
  loc_timestamp :: int
  rawDataSize :: int
  rawData :: ptr

section \<open>Position modes\<close>

text \<open>\<open>credentials\<close> and \<open>provider\<close> are their 14 and 8 bytes.\<close>

record LocPosMode =
  pos_mode :: LocPositionMode
  recurrence :: GpsPositionRecurrence
  min_interval :: "32 word"
  preferred_accuracy :: "32 word"
  preferred_time :: "32 word"
  credentials :: "8 word list"
  provider :: "8 word list"

text \<open>\<open>memcpy\<close> of all but the last byte of a cleared buffer, from memory that starts at the pointer; a
  source that is shorter is read past its end: the fault \<open>None\<close>.\<close>

definition copy_field :: "nat \<Rightarrow> 8 word list option \<Rightarrow> 8 word list option" where
  "copy_field n src =
     (case src of
        None \<Rightarrow> Some (replicate n 0)
      | Some bytes \<Rightarrow> if length bytes < n - 1 then None else Some (take (n - 1) bytes @ [0]))"

definition newLocPosMode ::
    "LocPositionMode \<Rightarrow> GpsPositionRecurrence \<Rightarrow> 32 word \<Rightarrow> 32 word \<Rightarrow> 32 word \<Rightarrow> 8 word list option \<Rightarrow>
     8 word list option \<Rightarrow> LocPosMode option" where
  "newLocPosMode m recr gap accu time cred prov =
     do {c \<leftarrow> copy_field 14 cred; p \<leftarrow> copy_field 8 prov;
         Some \<lparr>pos_mode = m, recurrence = recr,
               min_interval = (if gap < MIN_POSSIBLE_FIX_INTERVAL then MIN_POSSIBLE_FIX_INTERVAL else gap),
               preferred_accuracy = accu, preferred_time = time, credentials = c, provider = p\<rparr>}"

definition defaultLocPosMode :: LocPosMode where
  "defaultLocPosMode = \<lparr>pos_mode = LOC_POSITION_MODE_MS_BASED, recurrence = GPS_POSITION_RECURRENCE_PERIODIC,
     min_interval = MIN_POSSIBLE_FIX_INTERVAL, preferred_accuracy = 50, preferred_time = 120000,
     credentials = replicate 14 0, provider = replicate 8 0\<rparr>"

definition LocPosMode_equals :: "LocPosMode \<Rightarrow> LocPosMode \<Rightarrow> bool" where
  "LocPosMode_equals this other \<longleftrightarrow>
     pos_mode other = pos_mode this \<and> recurrence other = recurrence this \<and>
     min_interval other = min_interval this \<and> preferred_accuracy other = preferred_accuracy this \<and>
     preferred_time other = preferred_time this \<and>
     strncmp_eq 13 (credentials other) (credentials this) \<and> strncmp_eq 7 (provider other) (provider this)"

section \<open>The configuration\<close>

record loc_gps_cfg =
  INTERMEDIATE_POS :: "32 word"
  ACCURACY_THRES :: "32 word"
  ENABLE_WIPER :: "32 word"
  NMEA_PROVIDER :: "8 word"
  SUPL_VER :: "32 word"
  CAPABILITIES :: "32 word"
  GYRO_BIAS_RANDOM_WALK_VALID :: "8 word"
  GYRO_BIAS_RANDOM_WALK :: rat
  SENSOR_ACCEL_BATCHES_PER_SEC :: "32 word"
  SENSOR_ACCEL_SAMPLES_PER_BATCH :: "32 word"
  SENSOR_GYRO_BATCHES_PER_SEC :: "32 word"
  SENSOR_GYRO_SAMPLES_PER_BATCH :: "32 word"
  SENSOR_ACCEL_BATCHES_PER_SEC_HIGH :: "32 word"
  SENSOR_ACCEL_SAMPLES_PER_BATCH_HIGH :: "32 word"
  SENSOR_GYRO_BATCHES_PER_SEC_HIGH :: "32 word"
  SENSOR_GYRO_SAMPLES_PER_BATCH_HIGH :: "32 word"
  SENSOR_CONTROL_MODE :: "32 word"
  SENSOR_USAGE :: "32 word"
  QUIPC_ENABLED :: "32 word"
  LPP_PROFILE :: "32 word"
  SENSOR_ALGORITHM_CONFIG_MASK :: "32 word"
  ACCEL_RANDOM_WALK_SPECTRAL_DENSITY_VALID :: "8 word"
  ACCEL_RANDOM_WALK_SPECTRAL_DENSITY :: rat
  ANGLE_RANDOM_WALK_SPECTRAL_DENSITY_VALID :: "8 word"
  ANGLE_RANDOM_WALK_SPECTRAL_DENSITY :: rat
  RATE_RANDOM_WALK_SPECTRAL_DENSITY_VALID :: "8 word"
  RATE_RANDOM_WALK_SPECTRAL_DENSITY :: rat
  VELOCITY_RANDOM_WALK_SPECTRAL_DENSITY_VALID :: "8 word"
  VELOCITY_RANDOM_WALK_SPECTRAL_DENSITY :: rat

text \<open>\<open>QUIPC_ENABLED\<close> is the only setting without a default: it keeps the value of the static variable.\<close>

definition loc_default_parameters :: "loc_gps_cfg \<Rightarrow> loc_gps_cfg" where
  "loc_default_parameters c = \<lparr>
     INTERMEDIATE_POS = 0, ACCURACY_THRES = 0, ENABLE_WIPER = 0, NMEA_PROVIDER = 0,
     SUPL_VER = 0x10000, CAPABILITIES = 0x7,
     GYRO_BIAS_RANDOM_WALK_VALID = 0, GYRO_BIAS_RANDOM_WALK = 0,
     SENSOR_ACCEL_BATCHES_PER_SEC = 2, SENSOR_ACCEL_SAMPLES_PER_BATCH = 5,
     SENSOR_GYRO_BATCHES_PER_SEC = 2, SENSOR_GYRO_SAMPLES_PER_BATCH = 5,
     SENSOR_ACCEL_BATCHES_PER_SEC_HIGH = 4, SENSOR_ACCEL_SAMPLES_PER_BATCH_HIGH = 25,
     SENSOR_GYRO_BATCHES_PER_SEC_HIGH = 4, SENSOR_GYRO_SAMPLES_PER_BATCH_HIGH = 25,
     SENSOR_CONTROL_MODE = 0, SENSOR_USAGE = 0, QUIPC_ENABLED = QUIPC_ENABLED c, LPP_PROFILE = 0,
     SENSOR_ALGORITHM_CONFIG_MASK = 0,
     ACCEL_RANDOM_WALK_SPECTRAL_DENSITY_VALID = 0, ACCEL_RANDOM_WALK_SPECTRAL_DENSITY = 0,
     ANGLE_RANDOM_WALK_SPECTRAL_DENSITY_VALID = 0, ANGLE_RANDOM_WALK_SPECTRAL_DENSITY = 0,
     RATE_RANDOM_WALK_SPECTRAL_DENSITY_VALID = 0, RATE_RANDOM_WALK_SPECTRAL_DENSITY = 0,
     VELOCITY_RANDOM_WALK_SPECTRAL_DENSITY_VALID = 0, VELOCITY_RANDOM_WALK_SPECTRAL_DENSITY = 0\<rparr>"

section \<open>The messages\<close>

text \<open>The messages that are passed on to the modem's adapter as they are, the reports of the modem, the
  messages about data connections, and those of the ULP queue.\<close>

datatype loc_eng_setting =
    LOC_ENG_MSG_SET_POSITION_MODE LocPosMode
  | LOC_ENG_MSG_SET_TIME int int int
  | LOC_ENG_MSG_INJECT_XTRA_DATA "8 word list"
  | LOC_ENG_MSG_INJECT_LOCATION rat rat rat
  | LOC_ENG_MSG_SET_SERVER_URL string
  | LOC_ENG_MSG_SET_SERVER_IPV4 "32 word" "32 word" LocServerType
  | LOC_ENG_MSG_ENABLE_DATA int string
  | LOC_ENG_MSG_SUPL_VERSION "32 word"
  | LOC_ENG_MSG_LPP_CONFIG "32 word"
  | LOC_ENG_MSG_SET_SENSOR_CONTROL_CONFIG "32 word"
  | LOC_ENG_MSG_SET_SENSOR_PROPERTIES "(bool \<times> rat) list"
  | LOC_ENG_MSG_SET_SENSOR_PERF_CONTROL_CONFIG "32 word list"
  | LOC_ENG_MSG_EXT_POWER_CONFIG bool

datatype loc_eng_report =
    LOC_ENG_MSG_REPORT_POSITION GpsLocation ptr loc_sess_status "32 word"
  | LOC_ENG_MSG_REPORT_SV nat
  | LOC_ENG_MSG_REPORT_STATUS GpsStatusValue
  | LOC_ENG_MSG_REPORT_NMEA string

datatype loc_eng_agps_msg =
    LOC_ENG_MSG_REQUEST_ATL "32 word" AGpsType
  | LOC_ENG_MSG_RELEASE_ATL "32 word"
  | LOC_ENG_MSG_CONN loc_eng_conn_msg
  | LOC_ENG_MSG_ATL_OPEN_SUCCESS AGpsType string AGpsBearerType
  | LOC_ENG_MSG_ATL_CLOSED AGpsType
  | LOC_ENG_MSG_ATL_OPEN_FAILED AGpsType

datatype ulp_msg =
    ULP_MSG_START_FIX
  | ULP_MSG_STOP_FIX
  | ULP_MSG_UPDATE_CRITERIA nat
  | ULP_MSG_INJECT_PHONE_CONTEXT_SETTINGS nat
  | ULP_MSG_INJECT_NETWORK_POSITION nat
  | ULP_MSG_INJECT_RAW_COMMAND "8 word list"
  | ULP_REPORT loc_eng_report

datatype loc_eng_msg =
    LOC_ENG_MSG_QUIT
  | LOC_ENG_MSG_ENGINE_DOWN
  | LOC_ENG_MSG_ENGINE_UP
  | LOC_ENG_MSG_START_FIX
  | LOC_ENG_MSG_STOP_FIX
  | LOC_ENG_MSG_DELETE_AIDING_DATA "16 word"
  | Setting loc_eng_setting
  | Report loc_eng_report
  | Connection loc_eng_agps_msg
  | LOC_ENG_MSG_REQUEST_NI GpsNiNotification ptr
  | LOC_ENG_MSG_INFORM_NI_RESPONSE int ptr
  | LOC_ENG_MSG_REQUEST_XTRA_DATA
  | LOC_ENG_MSG_REQUEST_TIME
  | LOC_ENG_MSG_REQUEST_POSITION
  | LOC_ENG_MSG_REQUEST_PHONE_CONTEXT nat
  | LOC_ENG_MSG_REQUEST_NETWORK_POSIITON nat

end
