(* ===== verification/Loc_Eng.thy ===== *)
theory Loc_Eng
  imports Loc_Msg Sysfs
begin

unbundle bit_operations_syntax

text \<open>
  The location engine (\<open>gps/libloc_api_50001/loc_eng.cpp\<close>, \<open>.h\<close>, \<open>loc_eng_xtra.cpp\<close>): the functions the HAL
  calls, which put messages on a queue, and the thread that takes them off and acts.

  \<^item> \<open>loc_eng_data\<close> is \<open>loc_eng_data_s_type\<close> with the queues of its context and the session flag of the
    adapter (\<open>LocApiAdapter.h\<close>). A callback is whether it is set. The queues are lists: what
    \<open>Msg_Q\<close> shows of the message queue. \<open>eng_calls\<close> is every call out of the engine, in order.
  \<^item> The adapter to the modem is a library that is loaded at run time. What it answers is an argument,
    a function of the calls so far; the default implementations of its base class, which accept
    everything, are one instance (\<open>base_adapter\<close>).
  \<^item> An operation that would go through a \<open>NULL\<close> pointer is \<open>None\<close>.
\<close>

section \<open>State\<close>

datatype loc_mute_session = LOC_MUTE_SESS_NONE | LOC_MUTE_SESS_WAIT | LOC_MUTE_SESS_IN_SESSION

text \<open>Calls of the framework's callbacks and of the adapter.\<close>

datatype loc_call =
    StatusCb GpsStatusValue
  | LocationCb "GpsLocation option"
  | SvStatusCb nat
  | NmeaCb string
  | GenerateNmeaPos GpsLocation
  | GenerateNmeaSv nat
  | XtraDownloadCb
  | RequestUtcCb
  | NetworkPositionCb nat
  | PhoneContextCb nat
  | CapabilitiesCb "32 word"
  | NiCall ni_out
  | FreeRaw ptr
  | Reinit
  | StartFix
  | StopFix
  | DeleteAidingData "16 word"
  | ResendPositionMode
  | InformNi int ptr
  | Forward loc_eng_setting
  | LaunchServer

datatype api_err = API_SUCCESS | API_ENGINE_DOWN | API_OTHER

record adapter =
  reinit_result :: "loc_call list \<Rightarrow> api_err"
  startFix_result :: "loc_call list \<Rightarrow> api_err"
  stopFix_result :: "loc_call list \<Rightarrow> api_err"
  fixCriteria :: "loc_call list \<Rightarrow> LocPosMode"

definition base_adapter :: adapter where
  "base_adapter = \<lparr>reinit_result = \<lambda>_. API_SUCCESS, startFix_result = \<lambda>_. API_SUCCESS,
     stopFix_result = \<lambda>_. API_SUCCESS, fixCriteria = \<lambda>_. defaultLocPosMode\<rparr>"

text \<open>What surrounds the engine: configuration, adapter, name resolution, whether threads can be
  created, whether the daemon server is compiled in and the baseband property, and the bytes behind
  a subscriber object on the stack.\<close>

record eng_env =
  gps_conf :: loc_gps_cfg
  client :: adapter
  resolve_in_addr :: "string \<Rightarrow> 32 word option"
  thread_ok :: bool
  bit_api :: bool
  baseband :: string
  stack_bytes :: "8 word list"

record loc_eng_data =
  has_context :: bool
  navigating :: bool
  location_cb :: bool
  status_cb :: bool
  sv_status_cb :: bool
  agps_status_cb :: bool
  nmea_cb :: bool
  request_utc_time_cb :: bool
  ulp_network_callback :: bool
  ulp_phone_context_req_cb :: bool
  download_request_cb :: bool
  intermediateFix :: "8 word"
  agps_request_pending :: bool
  stop_request_pending :: bool
  loc_eng_ni_data :: ni_data
  agnss_nif :: "AgpsStateMachine option"
  internet_nif :: "AgpsStateMachine option"
  wifi_nif :: "AgpsStateMachine option"
  engine_status :: GpsStatusValue
  fix_session_status :: GpsStatusValue
  aiding_data_for_deletion :: "16 word"
  mute_session_state :: loc_mute_session
  generateNmea :: bool
  supl_host :: "(string \<times> 32 word) option"
  c2k_host :: "(string \<times> 32 word) option"
  ulp_initialized :: bool
  deferred_q :: "loc_eng_msg list"
  ulp_q :: "ulp_msg list"
  eng_calls :: "loc_call list"

definition log_calls :: "loc_call list \<Rightarrow> loc_eng_data \<Rightarrow> loc_eng_data" where
  "log_calls cs d = d\<lparr>eng_calls := eng_calls d @ cs\<rparr>"

definition loc_eng_msg_sender :: "loc_eng_msg \<Rightarrow> loc_eng_data \<Rightarrow> loc_eng_data" where
  "loc_eng_msg_sender m d = d\<lparr>deferred_q := deferred_q d @ [m]\<rparr>"

definition loc_ulp_msg_sender :: "ulp_msg \<Rightarrow> loc_eng_data \<Rightarrow> loc_eng_data" where
  "loc_ulp_msg_sender m d = d\<lparr>ulp_q := ulp_q d @ [m]\<rparr>"

definition ulp_active :: "eng_env \<Rightarrow> loc_eng_data \<Rightarrow> bool" where
  "ulp_active e d \<longleftrightarrow> ulp_initialized d \<and> CAPABILITIES (gps_conf e) AND ULP_CAPABILITY \<noteq> 0"

section \<open>Sessions and statuses\<close>

definition loc_inform_gps_status :: "GpsStatusValue \<Rightarrow> loc_eng_data \<Rightarrow> loc_eng_data" where
  "loc_inform_gps_status status d = (if status_cb d then log_calls [StatusCb status] d else d)"

definition loc_eng_start_handler :: "eng_env \<Rightarrow> loc_eng_data \<Rightarrow> loc_eng_data" where
  "loc_eng_start_handler e d =
     (if \<not> navigating d then
        let ret = startFix_result (client e) (eng_calls d); d = log_calls [StartFix] d
        in if ret = API_SUCCESS \<or> ret = API_ENGINE_DOWN
           then loc_inform_gps_status GPS_STATUS_SESSION_BEGIN (d\<lparr>navigating := True\<rparr>) else d
      else d)"

definition loc_eng_stop_handler :: "eng_env \<Rightarrow> loc_eng_data \<Rightarrow> loc_eng_data" where
  "loc_eng_stop_handler e d =
     (if navigating d then
        let ret = stopFix_result (client e) (eng_calls d); d = log_calls [StopFix] d;
            d = (if ret = API_SUCCESS then loc_inform_gps_status GPS_STATUS_SESSION_END d else d)
        in d\<lparr>navigating := False\<rparr>
      else d)"

definition loc_eng_mute_one_session :: "loc_eng_data \<Rightarrow> loc_eng_data" where
  "loc_eng_mute_one_session d = d\<lparr>mute_session_state := LOC_MUTE_SESS_WAIT\<rparr>"

definition next_mute :: "GpsStatusValue \<Rightarrow> loc_mute_session \<Rightarrow> loc_mute_session" where
  "next_mute status m =
     (let m = (if (status = GPS_STATUS_SESSION_BEGIN \<or> status = GPS_STATUS_ENGINE_ON) \<and> m = LOC_MUTE_SESS_WAIT
               then LOC_MUTE_SESS_IN_SESSION else m)
      in if m = LOC_MUTE_SESS_IN_SESSION \<and> (status = GPS_STATUS_SESSION_END \<or> status = GPS_STATUS_ENGINE_OFF)
         then LOC_MUTE_SESS_NONE else m)"

definition loc_eng_report_status :: "GpsStatusValue \<Rightarrow> loc_eng_data \<Rightarrow> loc_eng_data" where
  "loc_eng_report_status status d =
     (let d = d\<lparr>mute_session_state := next_mute status (mute_session_state d)\<rparr>;
          d = (if status \<noteq> GPS_STATUS_NONE \<and> \<not> (status = GPS_STATUS_SESSION_END \<and> navigating d)
                  \<and> \<not> (status = GPS_STATUS_SESSION_BEGIN \<and> \<not> navigating d)
                  \<and> mute_session_state d \<noteq> LOC_MUTE_SESS_IN_SESSION
               then loc_inform_gps_status status d else d);
          d = (if status = GPS_STATUS_ENGINE_ON \<or> status = GPS_STATUS_ENGINE_OFF
               then d\<lparr>engine_status := status\<rparr> else d)
      in if status = GPS_STATUS_SESSION_BEGIN \<or> status = GPS_STATUS_SESSION_END
         then d\<lparr>fix_session_status := status\<rparr> else d)"

section \<open>Settings for the modem\<close>

definition sensor_settings :: "loc_gps_cfg \<Rightarrow> (bool \<times> rat) list" where
  "sensor_settings c =
     [(GYRO_BIAS_RANDOM_WALK_VALID c \<noteq> 0, GYRO_BIAS_RANDOM_WALK c),
      (ACCEL_RANDOM_WALK_SPECTRAL_DENSITY_VALID c \<noteq> 0, ACCEL_RANDOM_WALK_SPECTRAL_DENSITY c),
      (ANGLE_RANDOM_WALK_SPECTRAL_DENSITY_VALID c \<noteq> 0, ANGLE_RANDOM_WALK_SPECTRAL_DENSITY c),
      (RATE_RANDOM_WALK_SPECTRAL_DENSITY_VALID c \<noteq> 0, RATE_RANDOM_WALK_SPECTRAL_DENSITY c),
      (VELOCITY_RANDOM_WALK_SPECTRAL_DENSITY_VALID c \<noteq> 0, VELOCITY_RANDOM_WALK_SPECTRAL_DENSITY c)]"

definition perf_settings :: "loc_gps_cfg \<Rightarrow> 32 word list" where
  "perf_settings c =
     [SENSOR_CONTROL_MODE c, SENSOR_ACCEL_SAMPLES_PER_BATCH c, SENSOR_ACCEL_BATCHES_PER_SEC c,
      SENSOR_GYRO_SAMPLES_PER_BATCH c, SENSOR_GYRO_BATCHES_PER_SEC c,
      SENSOR_ACCEL_SAMPLES_PER_BATCH_HIGH c, SENSOR_ACCEL_BATCHES_PER_SEC_HIGH c,
      SENSOR_GYRO_SAMPLES_PER_BATCH_HIGH c, SENSOR_GYRO_BATCHES_PER_SEC_HIGH c,
      SENSOR_ALGORITHM_CONFIG_MASK c]"

definition reinit_settings :: "loc_gps_cfg \<Rightarrow> loc_eng_setting list" where
  "reinit_settings c =
     [LOC_ENG_MSG_SUPL_VERSION (SUPL_VER c), LOC_ENG_MSG_LPP_CONFIG (LPP_PROFILE c),
      LOC_ENG_MSG_SET_SENSOR_CONTROL_CONFIG (SENSOR_USAGE c)]
     @ (if list_ex fst (sensor_settings c) then [LOC_ENG_MSG_SET_SENSOR_PROPERTIES (sensor_settings c)] else [])
     @ [LOC_ENG_MSG_SET_SENSOR_PERF_CONTROL_CONFIG (perf_settings c)]"

definition loc_eng_reinit :: "eng_env \<Rightarrow> loc_eng_data \<Rightarrow> api_err \<times> loc_eng_data" where
  "loc_eng_reinit e d =
     (let ret = reinit_result (client e) (eng_calls d); d = log_calls [Reinit] d
      in (ret, if ret = API_SUCCESS
               then fold (\<lambda>m. loc_eng_msg_sender (Setting m)) (reinit_settings (gps_conf e)) d else d))"

definition MAX_URL_LEN :: nat where "MAX_URL_LEN = 256"

definition loc_eng_set_server ::
    "eng_env \<Rightarrow> LocServerType \<Rightarrow> string \<Rightarrow> 32 word \<Rightarrow> loc_eng_data \<Rightarrow> int \<times> loc_eng_data" where
  "loc_eng_set_server e type hostname port d =
     (if type = LOC_AGPS_SUPL_SERVER then
        let url = hostname @ '':'' @ dec (uint port)
        in (0, if length url < MAX_URL_LEN
               then loc_eng_msg_sender (Setting (LOC_ENG_MSG_SET_SERVER_URL url)) d else d)
      else (case resolve_in_addr e hostname of
              None \<Rightarrow> (- 2, d)
            | Some ip \<Rightarrow> (0, loc_eng_msg_sender (Setting (LOC_ENG_MSG_SET_SERVER_IPV4 ip port type)) d)))"

definition loc_eng_set_server_proxy ::
    "eng_env \<Rightarrow> LocServerType \<Rightarrow> string \<Rightarrow> 32 word \<Rightarrow> loc_eng_data \<Rightarrow> int \<times> loc_eng_data" where
  "loc_eng_set_server_proxy e type hostname port d =
     (if has_context d then loc_eng_set_server e type hostname port d
      else (0, case type of
          LOC_AGPS_SUPL_SERVER \<Rightarrow> d\<lparr>supl_host := Some (strlcpy hostname 101, port)\<rparr>
        | LOC_AGPS_CDMA_PDE_SERVER \<Rightarrow> d\<lparr>c2k_host := Some (strlcpy hostname 101, port)\<rparr>
        | _ \<Rightarrow> d))"

definition loc_eng_agps_reinit :: "eng_env \<Rightarrow> loc_eng_data \<Rightarrow> loc_eng_data" where
  "loc_eng_agps_reinit e d =
     (let d = (case supl_host d of None \<Rightarrow> d | Some (h, p) \<Rightarrow> snd (loc_eng_set_server e LOC_AGPS_SUPL_SERVER h p d))
      in case c2k_host d of None \<Rightarrow> d | Some (h, p) \<Rightarrow> snd (loc_eng_set_server e LOC_AGPS_CDMA_PDE_SERVER h p d))"

text \<open>\<open>bearers\<close> are the bytes that the three machines find in \<open>mBearer\<close>.\<close>

definition loc_eng_agps_init :: "eng_env \<Rightarrow> AGpsBearerType \<Rightarrow> loc_eng_data \<Rightarrow> loc_eng_data" where
  "loc_eng_agps_init e bearers d =
     (if \<not> has_context d \<or> agps_status_cb d then d
      else let d = d\<lparr>agps_status_cb := True,
                     agnss_nif := Some (newAgpsStateMachine AGPS_TYPE_SUPL False bearers),
                     internet_nif := Some (newAgpsStateMachine AGPS_TYPE_WWAN_ANY False bearers),
                     wifi_nif := Some (newAgpsStateMachine AGPS_TYPE_WIFI True bearers)\<rparr>;
               d = (if bit_api e \<and> (baseband e = ''svlte2a'' \<or> baseband e = ''msm'')
                    then log_calls [LaunchServer] d else d)
        in loc_eng_agps_reinit e d)"

section \<open>The engine goes down and comes up\<close>

definition ni_effects :: "ni_out list \<Rightarrow> loc_eng_data \<Rightarrow> loc_eng_data" where
  "ni_effects os d = fold (\<lambda>x d. case x of NiMute \<Rightarrow> loc_eng_mute_one_session d | _ \<Rightarrow> log_calls [NiCall x] d) os d"

definition loc_eng_handle_engine_down :: "loc_eng_data \<Rightarrow> loc_eng_data" where
  "loc_eng_handle_engine_down d =
     (case loc_eng_ni_reset_on_engine_restart (loc_eng_ni_data d) of (n, os) \<Rightarrow>
        loc_eng_report_status GPS_STATUS_ENGINE_OFF (ni_effects os (d\<lparr>loc_eng_ni_data := n\<rparr>)))"

definition drop_both :: "loc_eng_data \<Rightarrow> loc_eng_data option" where
  "drop_both d =
     do {a \<leftarrow> agnss_nif d; i \<leftarrow> internet_nif d;
         Some (d\<lparr>agnss_nif := Some (dropAllSubscribers a), internet_nif := Some (dropAllSubscribers i)\<rparr>)}"

definition loc_eng_handle_engine_up :: "eng_env \<Rightarrow> loc_eng_data \<Rightarrow> loc_eng_data option" where
  "loc_eng_handle_engine_up e d =
     do {let d = snd (loc_eng_reinit e d);
         d \<leftarrow> (if agps_status_cb d then map_option (loc_eng_agps_reinit e) (drop_both d) else Some d);
         let d = loc_eng_report_status GPS_STATUS_ENGINE_ON d;
         Some (if navigating d
               then loc_eng_start_handler e ((log_calls [ResendPositionMode] d)\<lparr>navigating := False\<rparr>) else d)}"

section \<open>The messages of the engine's thread\<close>

text \<open>Whether a position report that is not a failure is passed on.\<close>

definition position_wanted :: "loc_gps_cfg \<Rightarrow> 8 word \<Rightarrow> GpsLocation \<Rightarrow> loc_sess_status \<Rightarrow> 32 word \<Rightarrow> bool" where
  "position_wanted c intermediate location status technology_mask \<longleftrightarrow>
     (status = LOC_SESS_SUCCESS \<and>
       ((LOCATION_HAS_SOURCE_INFO AND loc_flags location \<noteq> 0 \<and> ULP_LOCATION_IS_FROM_HYBRID = position_source location)
        \<or> LOC_POS_TECH_MASK_SATELLITE AND technology_mask \<noteq> 0 \<or> LOC_POS_TECH_MASK_SENSORS AND technology_mask \<noteq> 0))
     \<or> (intermediate = 1 \<and>
       \<not> (loc_flags location AND GPS_LOCATION_HAS_ACCURACY \<noteq> 0 \<and> ACCURACY_THRES c \<noteq> 0
          \<and> accuracy location > of_nat (unat (ACCURACY_THRES c))))"

definition handle_report_position ::
    "eng_env \<Rightarrow> GpsLocation \<Rightarrow> loc_sess_status \<Rightarrow> 32 word \<Rightarrow> loc_eng_data \<Rightarrow> loc_eng_data" where
  "handle_report_position e location status technology_mask d =
     (if mute_session_state d = LOC_MUTE_SESS_IN_SESSION then d
      else let
        (reported, d) =
          (if location_cb d then
             if status = LOC_SESS_FAILURE then (True, log_calls [LocationCb None] d)
             else if position_wanted (gps_conf e) (intermediateFix d) location status technology_mask
             then (True, log_calls [LocationCb (Some location)] d) else (False, d)
           else (False, d));
        d = (if reported \<and> recurrence (fixCriteria (client e) (eng_calls d)) = GPS_POSITION_RECURRENCE_SINGLE
             then (if status = LOC_SESS_INTERMEDIATE then log_calls [StopFix] d else d)\<lparr>navigating := False\<rparr>
             else d);
        d = (if generateNmea d \<and> position_source location = ULP_LOCATION_IS_FROM_GNSS
             then log_calls [GenerateNmeaPos location] d else d)
      in if rawData location \<noteq> NULL then log_calls [FreeRaw (rawData location)] d else d)"

definition handle_report :: "eng_env \<Rightarrow> loc_eng_report \<Rightarrow> loc_eng_data \<Rightarrow> loc_eng_data" where
  "handle_report e r d =
     (case r of
        LOC_ENG_MSG_REPORT_POSITION location ext status tech \<Rightarrow> handle_report_position e location status tech d
      | LOC_ENG_MSG_REPORT_SV sv \<Rightarrow>
          if mute_session_state d = LOC_MUTE_SESS_IN_SESSION then d
          else let d = (if sv_status_cb d then log_calls [SvStatusCb sv] d else d)
            in if generateNmea d then log_calls [GenerateNmeaSv sv] d else d
      | LOC_ENG_MSG_REPORT_STATUS status \<Rightarrow> loc_eng_report_status status d
      | LOC_ENG_MSG_REPORT_NMEA nmea \<Rightarrow> if nmea_cb d then log_calls [NmeaCb nmea] d else d)"

datatype nif = Agnss | Internet | Wifi

primrec nif_of :: "nif \<Rightarrow> loc_eng_data \<Rightarrow> AgpsStateMachine option" where
  "nif_of Agnss d = agnss_nif d"
| "nif_of Internet d = internet_nif d"
| "nif_of Wifi d = wifi_nif d"

primrec set_nif :: "nif \<Rightarrow> AgpsStateMachine \<Rightarrow> loc_eng_data \<Rightarrow> loc_eng_data" where
  "set_nif Agnss m d = d\<lparr>agnss_nif := Some m\<rparr>"
| "set_nif Internet m d = d\<lparr>internet_nif := Some m\<rparr>"
| "set_nif Wifi m d = d\<lparr>wifi_nif := Some m\<rparr>"

definition on_nif :: "nif \<Rightarrow> (AgpsStateMachine \<Rightarrow> AgpsStateMachine) \<Rightarrow> loc_eng_data \<Rightarrow> loc_eng_data option" where
  "on_nif n f d = do {m \<leftarrow> nif_of n d; Some (set_nif n (f m) d)}"

definition nif_of_agps_type :: "AGpsType \<Rightarrow> nif" where
  "nif_of_agps_type t = (case t of AGPS_TYPE_WIFI \<Rightarrow> Wifi | AGPS_TYPE_SUPL \<Rightarrow> Agnss | _ \<Rightarrow> Internet)"

definition nif_of_request :: "loc_if_req_type \<Rightarrow> nif option" where
  "nif_of_request t =
     (case t of LOC_ENG_IF_REQUEST_TYPE_SUPL \<Rightarrow> Some Agnss | LOC_ENG_IF_REQUEST_TYPE_ANY \<Rightarrow> Some Internet
      | LOC_ENG_IF_REQUEST_TYPE_WIFI \<Rightarrow> None)"

text \<open>\<open>handle_connection\<close> with its stack bytes: the requests and releases of the modem and the daemons,
  and the answers of the connectivity service.\<close>

definition handle_conn_msg :: "8 word list \<Rightarrow> loc_eng_conn_msg \<Rightarrow> loc_eng_data \<Rightarrow> loc_eng_data option" where
  "handle_conn_msg junk c d =
     (case c of
        loc_eng_msg_request_bit ifType ipv4 ipv6 \<Rightarrow>
          (case nif_of_request ifType of None \<Rightarrow> Some d
           | Some n \<Rightarrow> on_nif n (subscribeRsrc (newBITSubscriber junk ipv4 (Some ipv6))) d)
      | loc_eng_msg_release_bit ifType ipv4 ipv6 \<Rightarrow>
          (case nif_of_request ifType of None \<Rightarrow> Some d
           | Some n \<Rightarrow> on_nif n (\<lambda>m. snd (unsubscribeRsrc (newBITSubscriber junk ipv4 (Some ipv6)) m)) d)
      | loc_eng_msg_request_wifi ifType sender s p \<Rightarrow>
          if sender = IF_REQUEST_SENDER_ID_QUIPC \<or> sender = IF_REQUEST_SENDER_ID_MSAPM
          then on_nif Wifi (subscribeRsrc (newWIFISubscriber junk (Some s) (Some p) sender)) d else Some d
      | loc_eng_msg_release_wifi ifType sender s p \<Rightarrow>
          on_nif Wifi (\<lambda>m. snd (unsubscribeRsrc (newWIFISubscriber junk (Some s) (Some p) sender) m)) d)"

definition grant_nif :: "string \<Rightarrow> AGpsBearerType \<Rightarrow> AgpsStateMachine \<Rightarrow> AgpsStateMachine option" where
  "grant_nif apn bearer m = map_option (onRsrcEvent RSRC_GRANTED) (setAPN (Some apn) (length apn) (setBearer bearer m))"

definition handle_connection :: "8 word list \<Rightarrow> loc_eng_agps_msg \<Rightarrow> loc_eng_data \<Rightarrow> loc_eng_data option" where
  "handle_connection junk c d =
     (case c of
        LOC_ENG_MSG_CONN c \<Rightarrow> handle_conn_msg junk c d
      | LOC_ENG_MSG_REQUEST_ATL handle type \<Rightarrow>
          let backwardCompatibleMode = (type = AGPS_TYPE_INVALID);
              n = (if type = AGPS_TYPE_SUPL \<or> backwardCompatibleMode then Agnss else Internet)
          in on_nif n (subscribeRsrc (newATLSubscriber junk handle backwardCompatibleMode)) d
      | LOC_ENG_MSG_RELEASE_ATL handle \<Rightarrow>
          do {m \<leftarrow> agnss_nif d;
              let (found, m) = unsubscribeRsrc (newATLSubscriber junk handle False) m;
              let d = set_nif Agnss m d;
              if found then Some d
              else on_nif Internet (\<lambda>m. snd (unsubscribeRsrc (newATLSubscriber junk handle False) m)) d}
      | LOC_ENG_MSG_ATL_OPEN_SUCCESS type apn bearer \<Rightarrow>
          do {let n = nif_of_agps_type type; m \<leftarrow> nif_of n d; m \<leftarrow> grant_nif apn bearer m; Some (set_nif n m d)}
      | LOC_ENG_MSG_ATL_CLOSED type \<Rightarrow> on_nif (nif_of_agps_type type) (onRsrcEvent RSRC_RELEASED) d
      | LOC_ENG_MSG_ATL_OPEN_FAILED type \<Rightarrow> on_nif (nif_of_agps_type type) (onRsrcEvent RSRC_DENIED) d)"

definition handle_ni_request :: "eng_env \<Rightarrow> GpsNiNotification \<Rightarrow> ptr \<Rightarrow> loc_eng_data \<Rightarrow> loc_eng_data" where
  "handle_ni_request e notif p d =
     (case loc_eng_ni_request_handler (thread_ok e) notif p (loc_eng_ni_data d) of (n, os) \<Rightarrow>
        ni_effects os (d\<lparr>loc_eng_ni_data := n\<rparr>))"

text \<open>The \<open>switch\<close> of the thread's loop. \<open>Forward\<close> is the adapter function of the setting with its fields;
  for \<open>LOC_ENG_MSG_ENABLE_DATA\<close> it is the two functions \<open>enableData\<close> and \<open>setAPN\<close>.\<close>

definition handle_switch :: "eng_env \<Rightarrow> loc_eng_msg \<Rightarrow> loc_eng_data \<Rightarrow> loc_eng_data option" where
  "handle_switch e m d =
     (case m of
        LOC_ENG_MSG_QUIT \<Rightarrow> Some d
      | LOC_ENG_MSG_REQUEST_NI notif p \<Rightarrow> Some (handle_ni_request e notif p d)
      | LOC_ENG_MSG_INFORM_NI_RESPONSE response p \<Rightarrow> Some (log_calls [InformNi response p] d)
      | LOC_ENG_MSG_START_FIX \<Rightarrow> Some (loc_eng_start_handler e d)
      | LOC_ENG_MSG_STOP_FIX \<Rightarrow>
          Some (if agps_request_pending d then d\<lparr>stop_request_pending := True\<rparr> else loc_eng_stop_handler e d)
      | Setting s \<Rightarrow> Some (log_calls [Forward s] d)
      | Report r \<Rightarrow> Some (handle_report e r d)
      | Connection c \<Rightarrow> handle_connection (stack_bytes e) c d
      | LOC_ENG_MSG_REQUEST_XTRA_DATA \<Rightarrow> Some (if download_request_cb d then log_calls [XtraDownloadCb] d else d)
      | LOC_ENG_MSG_REQUEST_TIME \<Rightarrow> Some (if request_utc_time_cb d then log_calls [RequestUtcCb] d else d)
      | LOC_ENG_MSG_REQUEST_POSITION \<Rightarrow> Some d
      | LOC_ENG_MSG_DELETE_AIDING_DATA f \<Rightarrow>
          Some (d\<lparr>aiding_data_for_deletion := aiding_data_for_deletion d OR f\<rparr>)
      | LOC_ENG_MSG_ENGINE_DOWN \<Rightarrow> Some (loc_eng_handle_engine_down d)
      | LOC_ENG_MSG_ENGINE_UP \<Rightarrow> loc_eng_handle_engine_up e d
      | LOC_ENG_MSG_REQUEST_NETWORK_POSIITON r \<Rightarrow>
          Some (if ulp_network_callback d then log_calls [NetworkPositionCb r] d else d)
      | LOC_ENG_MSG_REQUEST_PHONE_CONTEXT r \<Rightarrow>
          Some (if ulp_phone_context_req_cb d then log_calls [PhoneContextCb r] d else d))"

text \<open>What follows the \<open>switch\<close>.\<close>

fun answers_agps_request :: "loc_eng_msg \<Rightarrow> bool" where
  "answers_agps_request (Connection (LOC_ENG_MSG_ATL_OPEN_FAILED _)) = True"
| "answers_agps_request (Connection (LOC_ENG_MSG_ATL_CLOSED _)) = True"
| "answers_agps_request (Connection (LOC_ENG_MSG_ATL_OPEN_SUCCESS _ _ _)) = True"
| "answers_agps_request _ = False"

definition delete_pending_aiding_data :: "loc_eng_data \<Rightarrow> loc_eng_data" where
  "delete_pending_aiding_data d =
     (if engine_status d \<noteq> GPS_STATUS_ENGINE_ON \<and> aiding_data_for_deletion d \<noteq> 0
      then (log_calls [DeleteAidingData (aiding_data_for_deletion d)] d)\<lparr>aiding_data_for_deletion := 0\<rparr> else d)"

definition after_switch :: "eng_env \<Rightarrow> loc_eng_msg \<Rightarrow> loc_eng_data \<Rightarrow> loc_eng_data" where
  "after_switch e m d =
     (let d = (if answers_agps_request m then
                 (let d = d\<lparr>agps_request_pending := False\<rparr> in
                  if stop_request_pending d then (loc_eng_stop_handler e d)\<lparr>stop_request_pending := False\<rparr> else d)
               else d)
      in delete_pending_aiding_data (d\<lparr>stop_request_pending := False\<rparr>))"

text \<open>The destructor of an answer to a network-initiated request gives the request's memory back.\<close>

definition delete_msg :: "loc_eng_msg \<Rightarrow> loc_eng_data \<Rightarrow> loc_eng_data" where
  "delete_msg m d =
     (case m of LOC_ENG_MSG_INFORM_NI_RESPONSE response p \<Rightarrow> if p \<noteq> NULL then log_calls [NiCall (NiFree p)] d else d
      | _ \<Rightarrow> d)"

definition handle_msg :: "eng_env \<Rightarrow> loc_eng_msg \<Rightarrow> loc_eng_data \<Rightarrow> loc_eng_data option" where
  "handle_msg e m d = map_option (\<lambda>d. delete_msg m (after_switch e m d)) (handle_switch e m d)"

text \<open>The loop, for at most \<open>n\<close> messages; it waits on an empty queue and ends with a message for an engine
  that is not set up or the message to quit.\<close>

fun loc_eng_deferred_action_thread :: "nat \<Rightarrow> eng_env \<Rightarrow> loc_eng_data \<Rightarrow> loc_eng_data option" where
  "loc_eng_deferred_action_thread 0 e d = Some d"
| "loc_eng_deferred_action_thread (Suc n) e d =
     (case deferred_q d of
        [] \<Rightarrow> Some d
      | m # q \<Rightarrow>
          let d = d\<lparr>deferred_q := q\<rparr> in
          if \<not> has_context d \<or> m = LOC_ENG_MSG_QUIT then Some d
          else do {d \<leftarrow> handle_msg e m d; loc_eng_deferred_action_thread n e d})"

section \<open>The functions of the HAL\<close>

text \<open>\<open>loc_eng_init\<close>. \<open>callbacks\<close> are which callbacks the framework gives, \<open>client_ok\<close> whether an adapter
  could be made. Everything but the two queues, which belong to the context, is cleared first.\<close>

record loc_callbacks =
  has_location_cb :: bool
  has_status_cb :: bool
  has_sv_status_cb :: bool
  has_nmea_cb :: bool
  has_set_capabilities_cb :: bool
  has_request_utc_time_cb :: bool

definition LOC_API_ADAPTER_BIT_NMEA_1HZ_REPORT :: "32 word" where "LOC_API_ADAPTER_BIT_NMEA_1HZ_REPORT = 4"
definition NMEA_PROVIDER_AP :: "8 word" where "NMEA_PROVIDER_AP = 0"

definition cleared_data :: loc_eng_data where
  "cleared_data = \<lparr>has_context = False, navigating = False, location_cb = False, status_cb = False,
     sv_status_cb = False, agps_status_cb = False, nmea_cb = False, request_utc_time_cb = False,
     ulp_network_callback = False, ulp_phone_context_req_cb = False, download_request_cb = False,
     intermediateFix = 0, agps_request_pending = False, stop_request_pending = False,
     loc_eng_ni_data = \<lparr>ni_notify_cb = False, respTimeLeft = 0, respRecvd = False, rawRequest = NULL,
       reqID = 0, resp = 0\<rparr>,
     agnss_nif = None, internet_nif = None, wifi_nif = None, engine_status = GPS_STATUS_NONE,
     fix_session_status = GPS_STATUS_NONE, aiding_data_for_deletion = 0,
     mute_session_state = LOC_MUTE_SESS_NONE, generateNmea = False, supl_host = None, c2k_host = None,
     ulp_initialized = False, deferred_q = [], ulp_q = [], eng_calls = []\<rparr>"

fun init_tries :: "nat \<Rightarrow> eng_env \<Rightarrow> loc_eng_data \<Rightarrow> api_err \<times> loc_eng_data" where
  "init_tries 0 e d = (API_OTHER, d)"
| "init_tries (Suc tries) e d =
     (case loc_eng_reinit e d of (ret, d) \<Rightarrow> if ret = API_SUCCESS \<or> tries = 0 then (ret, d) else init_tries tries e d)"

definition loc_eng_init ::
    "eng_env \<Rightarrow> bool \<Rightarrow> loc_callbacks option \<Rightarrow> 32 word \<Rightarrow> loc_eng_data \<Rightarrow> api_err option \<times> loc_eng_data" where
  "loc_eng_init e client_ok callbacks event d =
     (case callbacks of None \<Rightarrow> (Some API_SUCCESS, d)
      | Some cb \<Rightarrow>
        if event = 0 \<or> has_context d then (Some API_SUCCESS, d)
        else let
          d = cleared_data\<lparr>has_context := True, eng_calls := eng_calls d\<rparr>;
          d = (if has_set_capabilities_cb cb then log_calls [CapabilitiesCb (CAPABILITIES (gps_conf e))] d else d);
          d = d\<lparr>location_cb := has_location_cb cb, sv_status_cb := has_sv_status_cb cb,
                status_cb := has_status_cb cb, nmea_cb := has_nmea_cb cb,
                request_utc_time_cb := has_request_utc_time_cb cb,
                intermediateFix := ucast (INTERMEDIATE_POS (gps_conf e)),
                generateNmea := event AND LOC_API_ADAPTER_BIT_NMEA_1HZ_REPORT \<noteq> 0
                  \<and> NMEA_PROVIDER (gps_conf e) = NMEA_PROVIDER_AP\<rparr>
        in if \<not> client_ok then (None, d\<lparr>has_context := False\<rparr>)
           else (case init_tries 30 e d of (ret, d) \<Rightarrow> (Some ret, d)))"

text \<open>The other functions put a message on a queue; one that finds no context does nothing.\<close>

datatype hal_call =
    HalStart | HalStop | HalCleanup | HalSetPositionMode LocPosMode | HalInjectTime int int int
  | HalInjectLocation rat rat rat | HalDeleteAidingData "16 word"
  | HalSetServer LocServerType string "32 word" | HalAgpsInit AGpsBearerType
  | HalAgpsOpen AGpsType "string option" AGpsBearerType | HalAgpsClosed AGpsType | HalAgpsOpenFailed AGpsType
  | HalNetworkAvailability int "string option" | HalNiInit bool | HalNiRespond "32 word" int
  | HalXtraInit bool | HalXtraInject "8 word list" | HalUlpInit bool | HalRawCommand "8 word list"
  | HalUpdateCriteria nat | HalPhoneContextSettings "32 word" bool nat | HalPhoneContextInit bool
  | HalNetworkInit bool | HalNetworkPosition nat

definition loc_eng_start :: "eng_env \<Rightarrow> loc_eng_data \<Rightarrow> loc_eng_data" where
  "loc_eng_start e d =
     (if \<not> has_context d then d
      else if ulp_active e d then loc_ulp_msg_sender ULP_MSG_START_FIX d
      else loc_eng_msg_sender LOC_ENG_MSG_START_FIX d)"

definition loc_eng_stop :: "eng_env \<Rightarrow> loc_eng_data \<Rightarrow> loc_eng_data" where
  "loc_eng_stop e d =
     (if \<not> has_context d then d
      else if ulp_active e d then loc_ulp_msg_sender ULP_MSG_STOP_FIX d
      else loc_eng_msg_sender LOC_ENG_MSG_STOP_FIX d)"

definition loc_eng_cleanup :: "eng_env \<Rightarrow> loc_eng_data \<Rightarrow> loc_eng_data" where
  "loc_eng_cleanup e d = (if has_context d \<and> navigating d then loc_eng_stop e d else d)"

definition MAX_APN_LEN :: nat where "MAX_APN_LEN = 100"

definition when_ready :: "loc_eng_msg \<Rightarrow> loc_eng_data \<Rightarrow> loc_eng_data" where
  "when_ready m d = (if has_context d then loc_eng_msg_sender m d else d)"

definition when_agps_ready :: "loc_eng_agps_msg \<Rightarrow> loc_eng_data \<Rightarrow> loc_eng_data" where
  "when_agps_ready c d = (if has_context d \<and> agps_status_cb d then loc_eng_msg_sender (Connection c) d else d)"

definition send_checked :: "loc_eng_msg \<Rightarrow> loc_eng_data \<Rightarrow> loc_eng_data option" where
  "send_checked m d = (if has_context d then Some (loc_eng_msg_sender m d) else None)"

definition when_ulp :: "eng_env \<Rightarrow> ulp_msg \<Rightarrow> loc_eng_data \<Rightarrow> loc_eng_data option" where
  "when_ulp e m d =
     (if \<not> ulp_active e d then Some d
      else if has_context d then Some (loc_ulp_msg_sender m d) else None)"

text \<open>The functions of the XTRA and ULP interfaces do not look whether there is a context.\<close>

fun hal_exec :: "eng_env \<Rightarrow> hal_call \<Rightarrow> loc_eng_data \<Rightarrow> loc_eng_data option" where
  "hal_exec e HalStart d = Some (loc_eng_start e d)"
| "hal_exec e HalStop d = Some (loc_eng_stop e d)"
| "hal_exec e HalCleanup d = Some (loc_eng_cleanup e d)"
| "hal_exec e (HalSetPositionMode params) d =
     Some (when_ready (Setting (LOC_ENG_MSG_SET_POSITION_MODE params)) d)"
| "hal_exec e (HalInjectTime time ref unc) d =
     Some (when_ready (Setting (LOC_ENG_MSG_SET_TIME time ref unc)) d)"
| "hal_exec e (HalInjectLocation lat long acc) d =
     Some (when_ready (Setting (LOC_ENG_MSG_INJECT_LOCATION lat long acc)) d)"
| "hal_exec e (HalDeleteAidingData f) d = Some (when_ready (LOC_ENG_MSG_DELETE_AIDING_DATA f) d)"
| "hal_exec e (HalSetServer type host port) d =
     Some (snd (loc_eng_set_server_proxy e type host port d))"
| "hal_exec e (HalAgpsInit bearers) d = Some (loc_eng_agps_init e bearers d)"
| "hal_exec e (HalAgpsOpen type apn bearer) d =
     Some ((case apn of None \<Rightarrow> d
      | Some a \<Rightarrow> when_agps_ready (LOC_ENG_MSG_ATL_OPEN_SUCCESS type (take MAX_APN_LEN a) bearer) d))"
| "hal_exec e (HalAgpsClosed type) d = Some (when_agps_ready (LOC_ENG_MSG_ATL_CLOSED type) d)"
| "hal_exec e (HalAgpsOpenFailed type) d =
     Some (when_agps_ready (LOC_ENG_MSG_ATL_OPEN_FAILED type) d)"
| "hal_exec e (HalNetworkAvailability available apn) d =
     Some ((case apn of None \<Rightarrow> d
      | Some a \<Rightarrow> when_ready (Setting (LOC_ENG_MSG_ENABLE_DATA available (take MAX_APN_LEN a))) d))"
| "hal_exec e (HalNiInit cb) d =
     Some (d\<lparr>loc_eng_ni_data := loc_eng_ni_init cb (loc_eng_ni_data d)\<rparr>)"
| "hal_exec e (HalNiRespond i r) d =
     Some (d\<lparr>loc_eng_ni_data := loc_eng_ni_respond i r (loc_eng_ni_data d)\<rparr>)"
| "hal_exec e (HalXtraInit cb) d = Some (d\<lparr>download_request_cb := cb\<rparr>)"
| "hal_exec e (HalXtraInject bytes) d = send_checked (Setting (LOC_ENG_MSG_INJECT_XTRA_DATA bytes)) d"
| "hal_exec e (HalUlpInit has_interface) d =
     Some ((if has_interface then d\<lparr>ulp_initialized := True\<rparr> else d))"
| "hal_exec e (HalRawCommand c) d =
     (if has_context d then when_ulp e (ULP_MSG_INJECT_RAW_COMMAND c) d else Some d)"
| "hal_exec e (HalUpdateCriteria c) d =
     (if has_context d then when_ulp e (ULP_MSG_UPDATE_CRITERIA c) d else Some d)"
| "hal_exec e (HalPhoneContextSettings context_type charging s) d =
     do {d \<leftarrow> when_ulp e (ULP_MSG_INJECT_PHONE_CONTEXT_SETTINGS s) d;
         if context_type AND ULP_PHONE_CONTEXT_BATTERY_CHARGING_STATE \<noteq> 0
         then send_checked (Setting (LOC_ENG_MSG_EXT_POWER_CONFIG charging)) d else Some d}"
| "hal_exec e (HalPhoneContextInit cb) d = Some (d\<lparr>ulp_phone_context_req_cb := cb\<rparr>)"
| "hal_exec e (HalNetworkInit cb) d = Some (d\<lparr>ulp_network_callback := cb\<rparr>)"
| "hal_exec e (HalNetworkPosition p) d = when_ulp e (ULP_MSG_INJECT_NETWORK_POSITION p) d"

end
