(* ===== verification/Loc_Eng_Facts.thy ===== *)
theory Loc_Eng_Facts
  imports Loc_Eng
begin

text \<open>
  What the engine of \<open>Loc_Eng\<close> guarantees: sessions, muting, the deletion of aiding data, the recovery
  from a restart of the modem, the data connections, and that its thread handles every message.
\<close>

section \<open>Runs of the engine\<close>

fun run_msgs :: "eng_env \<Rightarrow> loc_eng_msg list \<Rightarrow> loc_eng_data \<Rightarrow> loc_eng_data option" where
  "run_msgs e [] d = Some d"
| "run_msgs e (m # ms) d = do {d \<leftarrow> handle_msg e m d; run_msgs e ms d}"

text \<open>The engine in its surroundings: \<open>hal\<close> are the framework's calls, \<open>sender\<close> the modem's adapter, the
  daemon server and the ULP library, which put messages on the queue, \<open>ni_thread\<close> what the threads for
  network-initiated requests do to their data, and \<open>thread\<close> is a round of the engine's thread. \<open>up\<close>
  says whether the modem may come up again.\<close>

inductive eng_reachable :: "eng_env \<Rightarrow> bool \<Rightarrow> loc_eng_data \<Rightarrow> bool" for e up where
  init: "\<not> has_context d0 \<Longrightarrow> event \<noteq> 0 \<Longrightarrow> loc_eng_init e client_ok (Some cb) event d0 = (r, d) \<Longrightarrow>
    eng_reachable e up d"
| hal: "eng_reachable e up d \<Longrightarrow> hal_exec e c d = Some d' \<Longrightarrow> eng_reachable e up d'"
| sender: "eng_reachable e up d \<Longrightarrow> eng_reachable e up (loc_eng_msg_sender m d)"
| ni_thread: "eng_reachable e up d \<Longrightarrow> eng_reachable e up (d\<lparr>loc_eng_ni_data := n\<rparr>)"
| thread: "eng_reachable e up d \<Longrightarrow> deferred_q d = m # q \<Longrightarrow> has_context d \<Longrightarrow> m \<noteq> LOC_ENG_MSG_QUIT \<Longrightarrow>
    (m = LOC_ENG_MSG_ENGINE_UP \<Longrightarrow> up) \<Longrightarrow> handle_msg e m (d\<lparr>deferred_q := q\<rparr>) = Some d' \<Longrightarrow> eng_reachable e up d'"

lemmas eng_defs =
  log_calls_def loc_eng_msg_sender_def loc_ulp_msg_sender_def loc_inform_gps_status_def
  loc_eng_mute_one_session_def

lemma ni_effects_eq: "ni_effects os d =
    d\<lparr>mute_session_state := (if NiMute \<in> set os then LOC_MUTE_SESS_WAIT else mute_session_state d),
      eng_calls := eng_calls d @ map NiCall (filter (\<lambda>x. x \<noteq> NiMute) os)\<rparr>"
proof (induction os arbitrary: d)
  case (Cons x os)
  have "ni_effects (x # os) d = ni_effects os (case x of NiMute \<Rightarrow> loc_eng_mute_one_session d | _ \<Rightarrow> log_calls [NiCall x] d)"
    by (simp add: ni_effects_def)
  with Cons show ?case by (cases x) (simp_all add: eng_defs)
qed (simp add: ni_effects_def)

lemma set_server_eq: "snd (loc_eng_set_server e type host port d) =
    fold (\<lambda>s. loc_eng_msg_sender (Setting s))
      (if type = LOC_AGPS_SUPL_SERVER
       then (if length (host @ '':'' @ dec (uint port)) < MAX_URL_LEN
             then [LOC_ENG_MSG_SET_SERVER_URL (host @ '':'' @ dec (uint port))] else [])
       else (case resolve_in_addr e host of None \<Rightarrow> [] | Some ip \<Rightarrow> [LOC_ENG_MSG_SET_SERVER_IPV4 ip port type])) d"
  by (simp add: loc_eng_set_server_def Let_def split: option.split)

lemma send_settings: "fold (\<lambda>s. loc_eng_msg_sender (Setting s)) ss d = d\<lparr>deferred_q := deferred_q d @ map Setting ss\<rparr>"
  by (induction ss arbitrary: d) (simp_all add: loc_eng_msg_sender_def)

definition server_settings :: "eng_env \<Rightarrow> loc_eng_data \<Rightarrow> loc_eng_setting list" where
  "server_settings e d =
     (case supl_host d of None \<Rightarrow> [] | Some (h, p) \<Rightarrow>
        if length (h @ '':'' @ dec (uint p)) < MAX_URL_LEN then [LOC_ENG_MSG_SET_SERVER_URL (h @ '':'' @ dec (uint p))] else [])
     @ (case c2k_host d of None \<Rightarrow> [] | Some (h, p) \<Rightarrow>
        (case resolve_in_addr e h of None \<Rightarrow> [] | Some ip \<Rightarrow> [LOC_ENG_MSG_SET_SERVER_IPV4 ip p LOC_AGPS_CDMA_PDE_SERVER]))"

lemma agps_reinit_eq: "loc_eng_agps_reinit e d = d\<lparr>deferred_q := deferred_q d @ map Setting (server_settings e d)\<rparr>"
  by (auto simp: loc_eng_agps_reinit_def server_settings_def set_server_eq send_settings Let_def split: option.split)

lemma reinit_eq: "loc_eng_reinit e d =
    (reinit_result (client e) (eng_calls d),
     d\<lparr>eng_calls := eng_calls d @ [Reinit],
       deferred_q := deferred_q d @ (if reinit_result (client e) (eng_calls d) = API_SUCCESS
         then map Setting (reinit_settings (gps_conf e)) else [])\<rparr>)"
  by (simp add: loc_eng_reinit_def Let_def log_calls_def send_settings)

text \<open>\<open>quiet d d'\<close>: \<open>d'\<close> comes from \<open>d\<close> by calls none of which deletes aiding data, without a change to
  the aiding data, the deferral of stops, the callbacks or the set-up.\<close>

definition new_calls :: "loc_eng_data \<Rightarrow> loc_eng_data \<Rightarrow> loc_call list" where
  "new_calls d d' = drop (length (eng_calls d)) (eng_calls d')"

definition deletes :: "loc_call list \<Rightarrow> 16 word list" where
  "deletes cs = concat (map (\<lambda>c. case c of DeleteAidingData f \<Rightarrow> [f] | _ \<Rightarrow> []) cs)"

definition quiet :: "loc_eng_data \<Rightarrow> loc_eng_data \<Rightarrow> bool" where
  "quiet d d' \<longleftrightarrow> (\<exists>cs. eng_calls d' = eng_calls d @ cs \<and> deletes cs = [])
     \<and> aiding_data_for_deletion d' = aiding_data_for_deletion d
     \<and> agps_request_pending d' = agps_request_pending d \<and> stop_request_pending d' = stop_request_pending d
     \<and> has_context d' = has_context d \<and> agps_status_cb d' = agps_status_cb d
     \<and> location_cb d' = location_cb d \<and> status_cb d' = status_cb d"

lemma deletes_simps [simp]:
  "deletes [] = []" "deletes (cs @ cs') = deletes cs @ deletes cs'"
  "deletes (c # cs) = (case c of DeleteAidingData f \<Rightarrow> [f] | _ \<Rightarrow> []) @ deletes cs"
  by (simp_all add: deletes_def)

lemma deletes_NiCall [simp]: "deletes (map NiCall os) = []"
  by (induction os) simp_all

lemma quiet_refl [simp]: "quiet d d"
  by (simp add: quiet_def)

lemma quiet_trans [trans]: "quiet d d' \<Longrightarrow> quiet d' d'' \<Longrightarrow> quiet d d''"
  unfolding quiet_def by fastforce

lemma quiet_start: "quiet d (loc_eng_start_handler e d)"
  by (auto simp: quiet_def loc_eng_start_handler_def Let_def eng_defs)

lemma quiet_stop: "quiet d (loc_eng_stop_handler e d)"
  by (auto simp: quiet_def loc_eng_stop_handler_def Let_def eng_defs)

lemma quiet_status: "quiet d (loc_eng_report_status s d)"
  by (auto simp: quiet_def loc_eng_report_status_def Let_def eng_defs)

lemma quiet_position: "quiet d (handle_report_position e l s t d)"
  by (auto simp: quiet_def handle_report_position_def Let_def eng_defs split: if_splits)

lemma quiet_report: "quiet d (handle_report e r d)"
  using quiet_status quiet_position
  by (auto simp: handle_report_def Let_def split: loc_eng_report.split) (auto simp: quiet_def eng_defs)

lemma quiet_set_nif [simp]: "quiet d (set_nif n m d)"
  by (cases n) (simp_all add: quiet_def)

lemma quiet_on_nif: "on_nif n f d = Some d' \<Longrightarrow> quiet d d'"
  by (auto simp: on_nif_def)

lemma quiet_conn: "handle_conn_msg junk c d = Some d' \<Longrightarrow> quiet d d'"
  by (auto simp: handle_conn_msg_def quiet_on_nif split: loc_eng_conn_msg.splits option.splits if_splits)

lemma quiet_connection: "handle_connection junk c d = Some d' \<Longrightarrow> quiet d d'"
proof (cases c)
  case (LOC_ENG_MSG_RELEASE_ATL handle)
  assume h: "handle_connection junk c d = Some d'"
  then obtain m where m: "agnss_nif d = Some m" by (auto simp: handle_connection_def LOC_ENG_MSG_RELEASE_ATL)
  obtain found m' where u: "unsubscribeRsrc (newATLSubscriber junk handle False) m = (found, m')" by force
  have "quiet d (set_nif Agnss m' d)" by (rule quiet_set_nif)
  also have "quiet (set_nif Agnss m' d) d'"
    using h by (cases found) (auto simp: handle_connection_def LOC_ENG_MSG_RELEASE_ATL m u Let_def quiet_on_nif)
  finally show ?thesis .
qed (auto simp: handle_connection_def Let_def quiet_conn quiet_on_nif)

lemma quiet_ni: "quiet d (ni_effects os (d\<lparr>loc_eng_ni_data := n\<rparr>))"
  by (simp add: ni_effects_eq quiet_def)

lemma quiet_ni_request: "quiet d (handle_ni_request e n p d)"
  by (simp add: handle_ni_request_def quiet_ni split: prod.split)

lemma quiet_down: "quiet d (loc_eng_handle_engine_down d)"
  using quiet_trans [OF quiet_ni quiet_status]
  by (simp add: loc_eng_handle_engine_down_def split: prod.split)

lemma quiet_up:
  assumes "loc_eng_handle_engine_up e d = Some d'"
  shows "quiet d d'"
proof -
  let ?d1 = "snd (loc_eng_reinit e d)"
  obtain d2 where d2: "(if agps_status_cb ?d1 then map_option (loc_eng_agps_reinit e) (drop_both ?d1) else Some ?d1) = Some d2"
    and d': "d' = (let d = loc_eng_report_status GPS_STATUS_ENGINE_ON d2 in
      if navigating d then loc_eng_start_handler e ((log_calls [ResendPositionMode] d)\<lparr>navigating := False\<rparr>) else d)"
    using assms by (auto simp: loc_eng_handle_engine_up_def Let_def)
  have "quiet d ?d1" by (simp add: reinit_eq quiet_def)
  also have "quiet ?d1 d2" using d2 by (auto simp: agps_reinit_eq drop_both_def quiet_def split: if_splits)
  also have "quiet d2 (loc_eng_report_status GPS_STATUS_ENGINE_ON d2)" using quiet_status .
  also have "quiet (loc_eng_report_status GPS_STATUS_ENGINE_ON d2) d'"
  proof -
    have "quiet x ((log_calls [ResendPositionMode] x)\<lparr>navigating := False\<rparr>)" for x
      by (simp add: quiet_def log_calls_def)
    then show ?thesis using quiet_trans [OF _ quiet_start] by (simp add: d' Let_def)
  qed
  finally show ?thesis .
qed


section \<open>Aiding data and deferred stops\<close>

definition requested :: "loc_eng_msg \<Rightarrow> 16 word" where
  "requested m = (case m of LOC_ENG_MSG_DELETE_AIDING_DATA f \<Rightarrow> f | _ \<Rightarrow> 0)"

lemma handle_switch_cases:
  assumes "handle_switch e m d = Some d'" and "\<not> agps_request_pending d"
  obtains "quiet d d'" "requested m = 0"
  | f where "m = LOC_ENG_MSG_DELETE_AIDING_DATA f" "d' = d\<lparr>aiding_data_for_deletion := aiding_data_for_deletion d OR f\<rparr>"
proof (cases m)
  case (LOC_ENG_MSG_DELETE_AIDING_DATA f)
  with assms that(2) show ?thesis by (simp add: handle_switch_def)
next
  case LOC_ENG_MSG_STOP_FIX
  with assms quiet_stop [of d e] that(1) show ?thesis by (auto simp: handle_switch_def requested_def)
next
  case (Connection c)
  with assms quiet_connection that(1) show ?thesis by (auto simp: handle_switch_def requested_def)
next
  case LOC_ENG_MSG_ENGINE_UP
  with assms quiet_up that(1) show ?thesis by (auto simp: handle_switch_def requested_def)
qed (use assms that(1) in \<open>auto simp: handle_switch_def requested_def quiet_start quiet_report quiet_ni_request quiet_down\<close>,
     auto simp: quiet_def log_calls_def split: if_splits)

lemma clear_flags:
  "\<not> agps_request_pending d \<Longrightarrow> d\<lparr>agps_request_pending := False\<rparr> = d"
  "\<not> stop_request_pending d \<Longrightarrow> d\<lparr>stop_request_pending := False\<rparr> = d"
  by (cases d, simp)+

lemma after_switch_eq:
  assumes "\<not> agps_request_pending d" and "\<not> stop_request_pending d"
  shows "after_switch e m d = delete_pending_aiding_data d"
  using assms by (simp add: after_switch_def Let_def clear_flags)

lemma handle_msgE:
  assumes "handle_msg e m d = Some d'" and "\<not> agps_request_pending d" and "\<not> stop_request_pending d"
  obtains d1 where "handle_switch e m d = Some d1" "d' = delete_msg m (delete_pending_aiding_data d1)"
    "\<not> agps_request_pending d1" "\<not> stop_request_pending d1"
proof -
  obtain d1 where d1: "handle_switch e m d = Some d1" "d' = delete_msg m (after_switch e m d1)"
    using assms(1) by (auto simp: handle_msg_def)
  have f: "\<not> agps_request_pending d1" "\<not> stop_request_pending d1"
    by (rule handle_switch_cases [OF d1(1) assms(2)]; use assms(2,3) in \<open>simp add: quiet_def\<close>)+
  show ?thesis using that [OF d1(1) _ f] d1(2) after_switch_eq [OF f] by simp
qed

lemma init_tries_eq: "\<exists>k q. snd (init_tries n e d) = d\<lparr>eng_calls := eng_calls d @ replicate k Reinit, deferred_q := deferred_q d @ q\<rparr>"
proof (induction n arbitrary: d)
  case 0
  show ?case by (rule exI [of _ 0], rule exI [of _ "[]"]) simp
next
  case (Suc n)
  obtain r d1 where d1: "loc_eng_reinit e d = (r, d1)" by force
  then obtain q1 where q1: "d1 = d\<lparr>eng_calls := eng_calls d @ [Reinit], deferred_q := deferred_q d @ q1\<rparr>"
    by (auto simp: reinit_eq)
  from Suc [of d1] obtain k q where k: "snd (init_tries n e d1) =
      d1\<lparr>eng_calls := eng_calls d1 @ replicate k Reinit, deferred_q := deferred_q d1 @ q\<rparr>" by blast
  show ?case
  proof (cases "r = API_SUCCESS \<or> n = 0")
    case True
    then have "snd (init_tries (Suc n) e d) = d1" by (simp add: d1)
    then show ?thesis using q1 by (intro exI [of _ 1] exI [of _ q1]) simp
  next
    case False
    then have eq: "snd (init_tries (Suc n) e d) = snd (init_tries n e d1)" by (simp add: d1)
    show ?thesis unfolding eq k unfolding q1 by (intro exI [of _ "Suc k"] exI [of _ "q1 @ q"]) simp
  qed
qed

text \<open>What a set-up engine looks like: everything cleared but the callbacks and settings.\<close>

lemma init_eq:
  assumes "\<not> has_context d0" and "event \<noteq> 0" and "loc_eng_init e client_ok (Some cb) event d0 = (r, d)"
  shows "\<not> agps_request_pending d \<and> \<not> stop_request_pending d \<and> agnss_nif d = None \<and> internet_nif d = None
    \<and> wifi_nif d = None \<and> \<not> agps_status_cb d \<and> aiding_data_for_deletion d = 0 \<and> engine_status d = GPS_STATUS_NONE
    \<and> supl_host d = None \<and> c2k_host d = None \<and> mute_session_state d = LOC_MUTE_SESS_NONE \<and> \<not> navigating d
    \<and> has_context d = client_ok"
proof -
  let ?d1 = "cleared_data\<lparr>has_context := True, eng_calls := eng_calls d0\<rparr>"
  let ?d2 = "(if has_set_capabilities_cb cb then log_calls [CapabilitiesCb (CAPABILITIES (gps_conf e))] ?d1 else ?d1)
    \<lparr>location_cb := has_location_cb cb, sv_status_cb := has_sv_status_cb cb,
                status_cb := has_status_cb cb, nmea_cb := has_nmea_cb cb,
                request_utc_time_cb := has_request_utc_time_cb cb,
                intermediateFix := ucast (INTERMEDIATE_POS (gps_conf e)),
                generateNmea := event AND LOC_API_ADAPTER_BIT_NMEA_1HZ_REPORT \<noteq> 0
                  \<and> NMEA_PROVIDER (gps_conf e) = NMEA_PROVIDER_AP\<rparr>"
  obtain k q where "d = ?d2\<lparr>has_context := False\<rparr> \<and> \<not> client_ok
      \<or> d = ?d2\<lparr>eng_calls := eng_calls ?d2 @ replicate k Reinit, deferred_q := deferred_q ?d2 @ q\<rparr> \<and> client_ok"
    using init_tries_eq [of 30 e ?d2] assms
    by (auto simp: loc_eng_init_def Let_def simp del: init_tries.simps split: if_splits prod.splits)
  then show ?thesis
    by (cases "has_set_capabilities_cb cb") (auto simp: cleared_data_def log_calls_def)
qed

lemma flags_hal:
  assumes "hal_exec e c d = Some d'"
  shows "agps_request_pending d' = agps_request_pending d \<and> stop_request_pending d' = stop_request_pending d"
  using assms
  by (cases c)
    (auto simp: loc_eng_start_def loc_eng_stop_def loc_eng_cleanup_def when_ready_def when_agps_ready_def when_ulp_def
      send_checked_def loc_eng_set_server_proxy_def set_server_eq send_settings loc_eng_agps_init_def agps_reinit_eq
      Let_def eng_defs split: if_splits option.splits LocServerType.splits)

lemma flags_delete [simp]:
  "agps_request_pending (delete_msg m d) = agps_request_pending d" "stop_request_pending (delete_msg m d) = stop_request_pending d"
  "agps_request_pending (delete_pending_aiding_data d) = agps_request_pending d"
  "stop_request_pending (delete_pending_aiding_data d) = stop_request_pending d"
  by (simp_all add: delete_msg_def delete_pending_aiding_data_def log_calls_def split: loc_eng_msg.split)

text \<open>Nothing ever sets the flag that defers a stop.\<close>

lemma never_deferred: "eng_reachable e up d \<Longrightarrow> \<not> agps_request_pending d \<and> \<not> stop_request_pending d"
proof (induction rule: eng_reachable.induct)
  case (init d0 event client_ok cb r d)
  with init_eq show ?case by blast
next
  case (hal d c d')
  with flags_hal show ?case by simp
next
  case (thread d m q d')
  have "\<not> agps_request_pending (d\<lparr>deferred_q := q\<rparr>)" "\<not> stop_request_pending (d\<lparr>deferred_q := q\<rparr>)"
    using thread.IH by simp_all
  from handle_msgE [OF thread.hyps(6) this] show ?case by (metis flags_delete)
qed (simp_all add: loc_eng_msg_sender_def)

section \<open>Properties of the single operations\<close>

definition all_bits :: "16 word list \<Rightarrow> 16 word" where
  "all_bits fs = fold (OR) fs 0"

lemma deletes_delete_msg [simp]:
  "aiding_data_for_deletion (delete_msg m d) = aiding_data_for_deletion d"
  "engine_status (delete_msg m d) = engine_status d"
  "\<exists>cs. eng_calls (delete_msg m d) = eng_calls d @ cs \<and> deletes cs = []"
  by (simp_all add: delete_msg_def log_calls_def split: loc_eng_msg.split)

text \<open>C15: the thread deletes aiding data only while the engine is not on; while it is not on nothing
  stays undeleted after a message; and every bit that was asked for is either handed to the modem
  or still remembered, and no other bit ever is.\<close>
theorem aiding_data_deleted:
  assumes "eng_reachable e up d" and "deferred_q d = m # q" and "handle_msg e m (d\<lparr>deferred_q := q\<rparr>) = Some d'"
  shows "all_bits (deletes (new_calls d d')) OR aiding_data_for_deletion d' = aiding_data_for_deletion d OR requested m
    \<and> (engine_status d' \<noteq> GPS_STATUS_ENGINE_ON \<longrightarrow> aiding_data_for_deletion d' = 0)
    \<and> (engine_status d' = GPS_STATUS_ENGINE_ON \<longrightarrow> deletes (new_calls d d') = [])"
proof -
  let ?d = "d\<lparr>deferred_q := q\<rparr>"
  have f: "\<not> agps_request_pending ?d" "\<not> stop_request_pending ?d"
    using never_deferred [OF assms(1)] by simp_all
  obtain d1 where d1: "handle_switch e m ?d = Some d1" "d' = delete_msg m (delete_pending_aiding_data d1)"
    using handle_msgE [OF assms(3) f] by blast
  have "aiding_data_for_deletion d1 = aiding_data_for_deletion d OR requested m
      \<and> (\<exists>cs. eng_calls d1 = eng_calls d @ cs \<and> deletes cs = [])"
    by (rule handle_switch_cases [OF d1(1) f(1)]) (auto simp: quiet_def requested_def)
  then obtain cs where a: "aiding_data_for_deletion d1 = aiding_data_for_deletion d OR requested m"
    and cs: "eng_calls d1 = eng_calls d @ cs" "deletes cs = []" by blast
  obtain cs' where cs': "eng_calls d' = eng_calls (delete_pending_aiding_data d1) @ cs'" "deletes cs' = []"
    using deletes_delete_msg(3) d1(2) by blast
  show ?thesis
    using cs cs' by (auto simp: new_calls_def d1(2) delete_pending_aiding_data_def log_calls_def all_bits_def a [symmetric])
qed

text \<open>A stop is never put off: whatever has happened before, when the thread comes to a stop the session
  is over, with exactly one call to the modem if there was a session and none if there was not. The
  code to defer it until a data call is done is never reached.\<close>
theorem stop_not_deferred:
  assumes "eng_reachable e up d" and "deferred_q d = LOC_ENG_MSG_STOP_FIX # q"
    and "handle_msg e LOC_ENG_MSG_STOP_FIX (d\<lparr>deferred_q := q\<rparr>) = Some d'"
  shows "\<not> navigating d' \<and> filter (\<lambda>c. c = StopFix \<or> c = StartFix) (new_calls d d') = (if navigating d then [StopFix] else [])"
proof -
  let ?d = "d\<lparr>deferred_q := q\<rparr>"
  have f: "\<not> agps_request_pending ?d" "\<not> stop_request_pending ?d"
    using never_deferred [OF assms(1)] by simp_all
  obtain d1 where d1: "handle_switch e LOC_ENG_MSG_STOP_FIX ?d = Some d1"
    "d' = delete_msg LOC_ENG_MSG_STOP_FIX (delete_pending_aiding_data d1)"
    using handle_msgE [OF assms(3) f] by blast
  have "d1 = loc_eng_stop_handler e ?d" using d1(1) f(1) by (simp add: handle_switch_def)
  then show ?thesis
    by (auto simp: d1(2) loc_eng_stop_handler_def Let_def eng_defs delete_msg_def delete_pending_aiding_data_def new_calls_def)
qed


section \<open>Muted sessions and reports\<close>

fun ends_session :: "loc_eng_report \<Rightarrow> bool" where
  "ends_session (LOC_ENG_MSG_REPORT_STATUS s) \<longleftrightarrow> s = GPS_STATUS_SESSION_END \<or> s = GPS_STATUS_ENGINE_OFF"
| "ends_session _ \<longleftrightarrow> False"

fun nmea_sentences :: "loc_eng_report \<Rightarrow> string list" where
  "nmea_sentences (LOC_ENG_MSG_REPORT_NMEA s) = [s]"
| "nmea_sentences _ = []"

lemma muted_report:
  assumes "mute_session_state d = LOC_MUTE_SESS_IN_SESSION" and "\<not> ends_session r"
  shows "eng_calls (handle_report e r d) = eng_calls d @ (if nmea_cb d then map NmeaCb (nmea_sentences r) else [])"
    "mute_session_state (handle_report e r d) = LOC_MUTE_SESS_IN_SESSION" "nmea_cb (handle_report e r d) = nmea_cb d"
  using assms
  by (cases r; auto simp: handle_report_def handle_report_position_def loc_eng_report_status_def next_mute_def
      eng_defs Let_def)+

lemma muted_reports:
  assumes "mute_session_state d = LOC_MUTE_SESS_IN_SESSION" and "\<not> list_ex ends_session rs"
  shows "eng_calls (fold (handle_report e) rs d) =
      eng_calls d @ (if nmea_cb d then map NmeaCb (concat (map nmea_sentences rs)) else [])
    \<and> mute_session_state (fold (handle_report e) rs d) = LOC_MUTE_SESS_IN_SESSION"
  using assms
proof (induction rs arbitrary: d)
  case (Cons r rs)
  then have "\<not> ends_session r" by simp
  from muted_report [OF Cons.prems(1) this, of e] Cons.IH [of "handle_report e r d"] Cons.prems(2)
  show ?case by simp
qed simp



section \<open>The data connections\<close>

text \<open>\<open>same_conns d d'\<close>: the machines of the data connections, the queue and the set-up are the same.\<close>

definition same_conns :: "loc_eng_data \<Rightarrow> loc_eng_data \<Rightarrow> bool" where
  "same_conns d d' \<longleftrightarrow> agnss_nif d' = agnss_nif d \<and> internet_nif d' = internet_nif d \<and> wifi_nif d' = wifi_nif d
     \<and> deferred_q d' = deferred_q d \<and> has_context d' = has_context d \<and> agps_status_cb d' = agps_status_cb d"

lemma conns_refl [simp]: "same_conns d d"
  by (simp add: same_conns_def)

lemma conns_trans [trans]: "same_conns d d' \<Longrightarrow> same_conns d' d'' \<Longrightarrow> same_conns d d''"
  by (simp add: same_conns_def)

lemma conns_log [simp]: "same_conns d (log_calls cs d)"
  by (simp add: same_conns_def log_calls_def)

lemma conns_handlers [simp]:
  "same_conns d (loc_eng_start_handler e d)" "same_conns d (loc_eng_stop_handler e d)" "same_conns d (loc_eng_report_status s d)"
  by (simp_all add: same_conns_def loc_eng_start_handler_def loc_eng_stop_handler_def loc_eng_report_status_def Let_def eng_defs)

lemma conns_position [simp]: "same_conns d (handle_report_position e l s t d)"
  by (auto simp: same_conns_def handle_report_position_def Let_def eng_defs split: if_splits)

lemma conns_report [simp]: "same_conns d (handle_report e r d)"
  by (auto simp: handle_report_def Let_def split: loc_eng_report.split) (simp add: same_conns_def eng_defs)

lemma conns_ni [simp]: "same_conns d (ni_effects os (d\<lparr>loc_eng_ni_data := n\<rparr>))"
  by (simp add: ni_effects_eq same_conns_def)

lemma conns_ni_request [simp]: "same_conns d (handle_ni_request e n p d)"
  by (simp add: handle_ni_request_def split: prod.split)

lemma conns_down [simp]: "same_conns d (loc_eng_handle_engine_down d)"
  using conns_trans [OF conns_ni conns_handlers(3)]
  by (simp add: loc_eng_handle_engine_down_def split: prod.split)

lemma conns_after_switch [simp]: "same_conns d (delete_msg m (after_switch e m d))"
proof -
  have "same_conns d (if stop_request_pending d then (loc_eng_stop_handler e d)\<lparr>stop_request_pending := False\<rparr> else d)" for d
    using conns_handlers(2) [of d e] by (simp add: same_conns_def)
  moreover have "same_conns d (d\<lparr>agps_request_pending := False\<rparr>)" "same_conns d (d\<lparr>stop_request_pending := False\<rparr>)" for d
    by (simp_all add: same_conns_def)
  moreover have "same_conns d (delete_pending_aiding_data d)" "same_conns d (delete_msg m d)" for d
    by (simp_all add: same_conns_def delete_pending_aiding_data_def delete_msg_def log_calls_def split: loc_eng_msg.split)
  ultimately show ?thesis unfolding after_switch_def Let_def by (smt (verit) conns_trans)
qed

lemma nif_of_set [simp]: "nif_of n' (set_nif n m d) = (if n' = n then Some m else nif_of n' d)"
  by (cases n; cases n') simp_all

lemma set_nif_frame [simp]:
  "deferred_q (set_nif n m d) = deferred_q d" "has_context (set_nif n m d) = has_context d"
  "agps_status_cb (set_nif n m d) = agps_status_cb d"
  by (cases n; simp)+

text \<open>A message about a connection changes nothing but machines, each by operations of \<open>Agps\<close>; it goes
  through \<open>NULL\<close> only if the machines have not been made.\<close>

definition conn_inv :: "loc_eng_data \<Rightarrow> bool" where
  "conn_inv d \<longleftrightarrow> (\<forall>n m. nif_of n d = Some m \<longrightarrow> agps_inv m)"

definition nif_step :: "loc_eng_data \<Rightarrow> loc_eng_data \<Rightarrow> bool" where
  "nif_step d d' \<longleftrightarrow> deferred_q d' = deferred_q d \<and> has_context d' = has_context d
     \<and> agps_status_cb d' = agps_status_cb d
     \<and> (\<forall>n. nif_of n d' = None \<longleftrightarrow> nif_of n d = None)
     \<and> (conn_inv d \<longrightarrow> conn_inv d')"

lemma nif_step_refl [simp]: "nif_step d d"
  by (simp add: nif_step_def)

lemma nif_step_set: "nif_of n d = Some m \<Longrightarrow> (agps_inv m \<Longrightarrow> agps_inv m') \<Longrightarrow> nif_step d (set_nif n m' d)"
  by (auto simp: nif_step_def conn_inv_def)

lemma conns_nif: "same_conns d d' \<Longrightarrow> nif_of n d' = nif_of n d"
  by (cases n) (simp_all add: same_conns_def)

lemma nif_step_frame: "same_conns d d' \<Longrightarrow> nif_step d d'"
  by (simp add: nif_step_def conn_inv_def conns_nif) (simp add: same_conns_def)

lemma nif_step_trans: "nif_step d d' \<Longrightarrow> nif_step d' d'' \<Longrightarrow> nif_step d d''"
  unfolding nif_step_def by simp

lemma on_nif_step:
  assumes "nif_of n d \<noteq> None" and "\<And>m. agps_inv m \<Longrightarrow> agps_inv (f m)"
  shows "\<exists>d'. on_nif n f d = Some d' \<and> nif_step d d'"
  using assms nif_step_set by (auto simp: on_nif_def)

lemma conn_step:
  assumes "\<forall>n. nif_of n d \<noteq> None"
  shows "\<exists>d'. handle_conn_msg junk c d = Some d' \<and> nif_step d d'"
proof -
  have "\<exists>d'. on_nif n f d = Some d' \<and> nif_step d d'" if "\<And>m. agps_inv m \<Longrightarrow> agps_inv (f m)" for n f
    using on_nif_step assms that by blast
  then show ?thesis
    by (auto simp: handle_conn_msg_def subscribeRsrc_inv unsubscribeRsrc_inv
        split: loc_eng_conn_msg.split option.split)
qed

lemma grant_step: "\<exists>m'. grant_nif apn bearer m = Some m' \<and> (agps_inv m \<longrightarrow> agps_inv m')"
  by (simp add: grant_nif_def setAPN_def setBearer_def onRsrcEvent_inv del: onRsrcEvent.simps)

lemma connection_step:
  assumes "\<forall>n. nif_of n d \<noteq> None"
  shows "\<exists>d'. handle_connection junk c d = Some d' \<and> nif_step d d'"
proof -
  have op: "\<exists>d'. on_nif n f d = Some d' \<and> nif_step d d'" if "\<And>m. agps_inv m \<Longrightarrow> agps_inv (f m)" for n f
    using on_nif_step assms that by blast
  show ?thesis
  proof (cases c)
    case (LOC_ENG_MSG_RELEASE_ATL handle)
    obtain m where m: "nif_of Agnss d = Some m" using assms by blast
    obtain found m' where u: "unsubscribeRsrc (newATLSubscriber junk handle False) m = (found, m')" by force
    then have 1: "nif_step d (set_nif Agnss m' d)" using nif_step_set [OF m] unsubscribeRsrc_inv by (metis snd_conv)
    have "\<exists>d'. on_nif Internet (\<lambda>m. snd (unsubscribeRsrc (newATLSubscriber junk handle False) m)) (set_nif Agnss m' d) = Some d'
        \<and> nif_step (set_nif Agnss m' d) d'"
      by (rule on_nif_step) (use spec [OF assms, of Internet] unsubscribeRsrc_inv in auto)
    with 1 u m show ?thesis
      by (auto simp: handle_connection_def LOC_ENG_MSG_RELEASE_ATL Let_def intro: nif_step_trans)
  next
    case (LOC_ENG_MSG_ATL_OPEN_SUCCESS type apn bearer)
    obtain m where m: "nif_of (nif_of_agps_type type) d = Some m" using assms by blast
    with grant_step [of apn bearer m] nif_step_set [OF m] show ?thesis
      by (auto simp: handle_connection_def LOC_ENG_MSG_ATL_OPEN_SUCCESS)
  qed (use op conn_step [OF assms] in \<open>auto simp: handle_connection_def Let_def subscribeRsrc_inv onRsrcEvent_inv
      simp del: onRsrcEvent.simps\<close>)
qed

definition machines_made :: "loc_eng_data \<Rightarrow> bool" where
  "machines_made d \<longleftrightarrow> (\<forall>n. nif_of n d \<noteq> None \<longleftrightarrow> agps_status_cb d)"

lemma all_nif: "(\<forall>n. P n) \<longleftrightarrow> P Agnss \<and> P Internet \<and> P Wifi"
  by (metis nif.exhaust)

lemma machines_made_step: "nif_step d d' \<Longrightarrow> machines_made d \<Longrightarrow> machines_made d'"
  by (simp add: nif_step_def machines_made_def)

lemma made_nifs: "machines_made d \<Longrightarrow> agps_status_cb d \<Longrightarrow> \<forall>n. nif_of n d \<noteq> None"
  by (simp add: machines_made_def)

lemma length_reinit_settings: "length (reinit_settings c) \<le> 5"
  by (simp add: reinit_settings_def)

lemma length_server_settings: "length (server_settings e d) \<le> 2"
  by (auto simp: server_settings_def split: option.split)

lemma up_step:
  assumes "machines_made d"
  shows "\<exists>d' ss. loc_eng_handle_engine_up e d = Some d' \<and> deferred_q d' = deferred_q d @ map Setting ss \<and> length ss \<le> 7
    \<and> has_context d' = has_context d \<and> agps_status_cb d' = agps_status_cb d \<and> machines_made d'"
proof -
  let ?ss = "if reinit_result (client e) (eng_calls d) = API_SUCCESS then reinit_settings (gps_conf e) else []"
  let ?d1 = "snd (loc_eng_reinit e d)"
  let ?step = "\<lambda>d' ss. deferred_q d' = deferred_q d @ map Setting ss \<and> length ss \<le> 7
    \<and> has_context d' = has_context d \<and> agps_status_cb d' = agps_status_cb d \<and> machines_made d'"
  have made1: "machines_made ?d1" "agps_status_cb ?d1 = agps_status_cb d" "has_context ?d1 = has_context d"
    "deferred_q ?d1 = deferred_q d @ map Setting ?ss"
    using assms conns_nif [of d "d\<lparr>eng_calls := x\<rparr>" for x] machines_made_step
    by (simp_all add: reinit_eq machines_made_def all_nif)
  have len: "length ?ss \<le> 5" by (simp add: length_reinit_settings)
  obtain d2 ss where d2: "(if agps_status_cb ?d1 then map_option (loc_eng_agps_reinit e) (drop_both ?d1) else Some ?d1) = Some d2"
    and s2: "?step d2 ss"
  proof (cases "agps_status_cb ?d1")
    case True
    then obtain a i w where aiw: "agnss_nif ?d1 = Some a" "internet_nif ?d1 = Some i" "wifi_nif ?d1 = Some w"
      using made1(1) by (auto simp: machines_made_def all_nif)
    let ?d = "?d1\<lparr>agnss_nif := Some (dropAllSubscribers a), internet_nif := Some (dropAllSubscribers i)\<rparr>"
    have "length (?ss @ server_settings e ?d) \<le> 7" using len length_server_settings [of e ?d] by simp
    with True aiw made1 show ?thesis
      by (intro that [of "loc_eng_agps_reinit e ?d" "?ss @ server_settings e ?d"])
        (simp_all add: drop_both_def agps_reinit_eq machines_made_def all_nif)
  next
    case False
    with made1 len show ?thesis by (intro that [of ?d1 ?ss]) simp_all
  qed
  have fr: "nif_step d2 (let d = loc_eng_report_status GPS_STATUS_ENGINE_ON d2 in
      if navigating d then loc_eng_start_handler e ((log_calls [ResendPositionMode] d)\<lparr>navigating := False\<rparr>) else d)" (is "nif_step d2 ?d3")
  proof -
    have "same_conns d ((log_calls [ResendPositionMode] d)\<lparr>navigating := False\<rparr>)" for d
      by (simp add: same_conns_def log_calls_def)
    then show ?thesis unfolding Let_def
      by (intro nif_step_frame) (smt (verit) conns_handlers conns_trans)
  qed
  have "loc_eng_handle_engine_up e d = Some ?d3" using d2 by (simp add: loc_eng_handle_engine_up_def Let_def)
  moreover have "?step ?d3 ss"
    using s2 fr machines_made_step [OF fr] by (simp add: nif_step_def)
  ultimately show ?thesis by blast
qed

lemma switch_step:
  assumes made: "machines_made d" and c: "agps_status_cb d \<or> (\<forall>c. m \<noteq> Connection c)"
  shows "\<exists>d' ss. handle_switch e m d = Some d' \<and> deferred_q d' = deferred_q d @ map Setting ss
    \<and> length ss \<le> (if m = LOC_ENG_MSG_ENGINE_UP then 7 else 0)
    \<and> has_context d' = has_context d \<and> agps_status_cb d' = agps_status_cb d \<and> machines_made d'
    \<and> (m \<noteq> LOC_ENG_MSG_ENGINE_UP \<longrightarrow> nif_step d d')"
proof (cases "m = LOC_ENG_MSG_ENGINE_UP")
  case True
  with up_step [OF made] show ?thesis by (simp add: handle_switch_def)
next
  case False
  have "\<exists>d'. handle_switch e m d = Some d' \<and> nif_step d d'"
  proof (cases m)
    case (Connection c)
    with made_nifs [OF made] c connection_step show ?thesis by (simp add: handle_switch_def)
  next
    case LOC_ENG_MSG_STOP_FIX
    have "nif_step d (d\<lparr>stop_request_pending := True\<rparr>)" by (intro nif_step_frame) (simp add: same_conns_def)
    with LOC_ENG_MSG_STOP_FIX show ?thesis by (simp add: handle_switch_def nif_step_frame)
  next
    case (LOC_ENG_MSG_DELETE_AIDING_DATA f)
    have "nif_step d (d\<lparr>aiding_data_for_deletion := a\<rparr>)" for a by (intro nif_step_frame) (simp add: same_conns_def)
    with LOC_ENG_MSG_DELETE_AIDING_DATA show ?thesis by (simp add: handle_switch_def)
  qed (use False in \<open>simp_all add: handle_switch_def nif_step_frame\<close>)
  then obtain d' where d': "handle_switch e m d = Some d'" "nif_step d d'" by blast
  with False machines_made_step [OF d'(2) made] show ?thesis
    by (intro exI [of _ d'] exI [of _ "[]"]) (simp add: nif_step_def)
qed

lemma msg_step:
  assumes "machines_made d" and "agps_status_cb d \<or> (\<forall>c. m \<noteq> Connection c)"
  shows "\<exists>d' ss. handle_msg e m d = Some d' \<and> deferred_q d' = deferred_q d @ map Setting ss
    \<and> length ss \<le> (if m = LOC_ENG_MSG_ENGINE_UP then 7 else 0)
    \<and> has_context d' = has_context d \<and> agps_status_cb d' = agps_status_cb d \<and> machines_made d'
    \<and> (m \<noteq> LOC_ENG_MSG_ENGINE_UP \<longrightarrow> nif_step d d')"
proof -
  obtain d1 ss where d1: "handle_switch e m d = Some d1" "deferred_q d1 = deferred_q d @ map Setting ss"
    "length ss \<le> (if m = LOC_ENG_MSG_ENGINE_UP then 7 else 0)" "has_context d1 = has_context d"
    "agps_status_cb d1 = agps_status_cb d" "machines_made d1" "m \<noteq> LOC_ENG_MSG_ENGINE_UP \<longrightarrow> nif_step d d1"
    using switch_step [OF assms] by blast
  let ?d' = "delete_msg m (after_switch e m d1)"
  have f: "nif_step d1 ?d'" by (simp add: nif_step_frame)
  then have "machines_made ?d'" using machines_made_step d1(6) by blast
  moreover have "m \<noteq> LOC_ENG_MSG_ENGINE_UP \<longrightarrow> nif_step d ?d'" using d1(7) f nif_step_trans by blast
  moreover have "handle_msg e m d = Some ?d'" using d1(1) by (simp add: handle_msg_def)
  ultimately show ?thesis using d1 f by (intro exI [of _ ?d'] exI [of _ ss]) (simp add: nif_step_def)
qed

definition nifs :: "loc_eng_data \<Rightarrow> AgpsStateMachine option \<times> AgpsStateMachine option \<times> AgpsStateMachine option \<times> bool" where
  "nifs d = (agnss_nif d, internet_nif d, wifi_nif d, agps_status_cb d)"

lemma nifs_senders [simp]:
  "nifs (loc_eng_start e d) = nifs d" "nifs (loc_eng_stop e d) = nifs d" "nifs (loc_eng_cleanup e d) = nifs d"
  "nifs (when_ready m d) = nifs d" "nifs (when_agps_ready a d) = nifs d"
  "nifs (snd (loc_eng_set_server_proxy e type host port d)) = nifs d"
  "nifs (d\<lparr>loc_eng_ni_data := n\<rparr>) = nifs d" "nifs (d\<lparr>download_request_cb := b\<rparr>) = nifs d"
  "nifs (d\<lparr>ulp_initialized := b\<rparr>) = nifs d" "nifs (d\<lparr>ulp_phone_context_req_cb := b\<rparr>) = nifs d"
  "nifs (d\<lparr>ulp_network_callback := b\<rparr>) = nifs d"
  by (simp_all add: nifs_def loc_eng_start_def loc_eng_stop_def loc_eng_cleanup_def when_ready_def when_agps_ready_def
      loc_eng_set_server_proxy_def set_server_eq send_settings loc_eng_msg_sender_def loc_ulp_msg_sender_def
      split: LocServerType.split)

lemma nifs_checked:
  "send_checked m d = Some d' \<Longrightarrow> nifs d' = nifs d" "when_ulp e u d = Some d' \<Longrightarrow> nifs d' = nifs d"
  by (auto simp: nifs_def send_checked_def when_ulp_def loc_eng_msg_sender_def loc_ulp_msg_sender_def split: if_splits)

lemma nifs_exec:
  assumes "hal_exec e c d = Some d'" and "\<And>b. c \<noteq> HalAgpsInit b"
  shows "nifs d' = nifs d"
  using assms(1)
proof (cases c)
  case (HalAgpsInit b)
  with assms(2) show ?thesis by blast
next
  case (HalPhoneContextSettings t b s)
  with assms(1) show ?thesis by (auto dest!: nifs_checked simp: bind_eq_Some_conv split: if_splits)
next
  case (HalAgpsOpen t apn b)
  with assms(1) show ?thesis by (auto split: option.splits)
next
  case (HalNetworkAvailability a apn)
  with assms(1) show ?thesis by (auto split: option.splits)
qed (auto dest: nifs_checked split: if_splits)

lemma nifs_hal:
  assumes "hal_exec e c d = Some d'"
  shows "(machines_made d \<longrightarrow> machines_made d') \<and> (conn_inv d \<longrightarrow> conn_inv d')"
proof (cases "\<exists>b. c = HalAgpsInit b")
  case True
  with assms obtain b where d': "d' = loc_eng_agps_init e b d" by auto
  let ?d = "d\<lparr>agps_status_cb := True, agnss_nif := Some (newAgpsStateMachine AGPS_TYPE_SUPL False b),
    internet_nif := Some (newAgpsStateMachine AGPS_TYPE_WWAN_ANY False b),
    wifi_nif := Some (newAgpsStateMachine AGPS_TYPE_WIFI True b)\<rparr>"
  have "d' = d \<or> same_conns (?d\<lparr>deferred_q := deferred_q d'\<rparr>) d'"
    by (simp add: d' loc_eng_agps_init_def agps_reinit_eq same_conns_def log_calls_def Let_def)
  then show ?thesis
  proof
    assume f: "same_conns (?d\<lparr>deferred_q := deferred_q d'\<rparr>) d'"
    have "machines_made d'" "conn_inv d'"
      using f agps_inv_new by (auto simp: same_conns_def machines_made_def conn_inv_def all_nif)
    then show ?thesis by simp
  qed simp
next
  case False
  then have "nifs d' = nifs d" using nifs_exec [OF assms] by blast
  then show ?thesis by (simp add: machines_made_def conn_inv_def all_nif nifs_def)
qed

lemma no_machines:
  assumes "\<forall>n. nif_of n d = None" and "handle_connection junk c d = Some d'"
  shows "d' = d"
proof -
  have "on_nif n f d = None" "agnss_nif d = None" for n f
    using assms(1) by (simp_all add: on_nif_def) (metis nif_of.simps(1))
  with assms show ?thesis
    by (auto simp: handle_connection_def handle_conn_msg_def Let_def
        split: loc_eng_agps_msg.splits loc_eng_conn_msg.splits option.splits if_splits)
qed

lemma nifs_thread:
  assumes "machines_made d" and "handle_msg e m (d\<lparr>deferred_q := q\<rparr>) = Some d'"
  shows "machines_made d' \<and> (m \<noteq> LOC_ENG_MSG_ENGINE_UP \<longrightarrow> conn_inv d \<longrightarrow> conn_inv d')"
proof -
  let ?d = "d\<lparr>deferred_q := q\<rparr>"
  have made: "machines_made ?d" "conn_inv ?d = conn_inv d" using assms(1) by (simp_all add: machines_made_def conn_inv_def all_nif)
  consider "agps_status_cb ?d \<or> (\<forall>c. m \<noteq> Connection c)" | c where "m = Connection c" "\<forall>n. nif_of n ?d = None"
    using made(1) unfolding machines_made_def by blast
  then show ?thesis
  proof cases
    case 1
    from msg_step [OF made(1) 1, of e] assms(2)
    have "machines_made d'" "m \<noteq> LOC_ENG_MSG_ENGINE_UP \<longrightarrow> nif_step ?d d'" by auto
    then show ?thesis using made(2) by (auto simp: nif_step_def)
  next
    case 2
    obtain d1 where d1: "handle_switch e m ?d = Some d1" "d' = delete_msg m (after_switch e m d1)"
      using assms(2) by (auto simp: handle_msg_def)
    have "d1 = ?d" using d1(1) 2 no_machines by (simp add: handle_switch_def)
    then have "nif_step ?d d'" using d1(2) by (simp add: nif_step_frame)
    then have "machines_made d'" "conn_inv ?d \<longrightarrow> conn_inv d'"
      using machines_made_step made(1) by (blast, simp add: nif_step_def)
    then show ?thesis using made(2) by simp
  qed
qed

lemma reachable_made: "eng_reachable e up d \<Longrightarrow> machines_made d"
proof (induction rule: eng_reachable.induct)
  case (init d0 event client_ok cb r d)
  from init_eq [OF this] show ?case by (simp add: machines_made_def all_nif)
next
  case (hal d c d')
  with nifs_hal show ?case by blast
next
  case (thread d m q d')
  with nifs_thread show ?case by blast
qed (simp_all add: machines_made_def all_nif loc_eng_msg_sender_def)

lemma reachable_conn: "eng_reachable e up d \<Longrightarrow> \<not> up \<Longrightarrow> conn_inv d"
proof (induction rule: eng_reachable.induct)
  case (init d0 event client_ok cb r d)
  from init_eq [OF init(1-3)] show ?case by (simp add: conn_inv_def all_nif)
next
  case (hal d c d')
  with nifs_hal show ?case by blast
next
  case (thread d m q d')
  with nifs_thread reachable_made show ?case by blast
qed (simp_all add: conn_inv_def all_nif loc_eng_msg_sender_def)

text \<open>C9: the three machines of the data connections exist exactly if the AGPS interface has been set up,
  and as long as the modem does not restart each of them is consistent, whatever the framework, the
  modem and the daemons ask for in whatever order: it is in the released state exactly if it has no
  subscribers, while it waits for or has the connection there is an active subscriber, and no
  client is subscribed twice.\<close>
theorem data_connections_consistent:
  assumes "eng_reachable e up d"
  shows "(nif_of n d = None \<longleftrightarrow> \<not> agps_status_cb d)
    \<and> (\<not> up \<and> nif_of n d = Some m \<longrightarrow>
        (mStatePtr m = AgpsReleasedState \<longleftrightarrow> mSubscribers m = [])
      \<and> (mStatePtr m \<in> {AgpsPendingState, AgpsAcquiredState} \<longrightarrow> hasActiveSubscribers m)
      \<and> no_duplicates (mSubscribers m))"
proof (intro conjI impI)
  show "nif_of n d = None \<longleftrightarrow> \<not> agps_status_cb d"
    using reachable_made [OF assms] unfolding machines_made_def by blast
qed (use reachable_conn [OF assms] in \<open>auto simp: conn_inv_def agps_inv_def\<close>)

text \<open>The thread comes to an end: no message makes it send others for ever.\<close>

definition pending_work :: "loc_eng_msg list \<Rightarrow> nat" where
  "pending_work q = length q + 7 * count_list q LOC_ENG_MSG_ENGINE_UP"

lemma pending_work_settings [simp]: "pending_work (q @ map Setting ss) = pending_work q + length ss"
  by (induction ss arbitrary: q rule: rev_induct) (simp_all add: pending_work_def)

lemma thread_drains:
  assumes "machines_made d" and "has_context d" and "LOC_ENG_MSG_QUIT \<notin> set (deferred_q d)"
    and "agps_status_cb d \<or> (\<forall>c. Connection c \<notin> set (deferred_q d))" and "pending_work (deferred_q d) \<le> n"
  shows "\<exists>d'. loc_eng_deferred_action_thread n e d = Some d' \<and> deferred_q d' = []"
  using assms
proof (induction n arbitrary: d)
  case 0
  then show ?case by (simp add: pending_work_def)
next
  case (Suc n)
  show ?case
  proof (cases "deferred_q d")
    case Nil
    then show ?thesis by simp
  next
    case (Cons m q)
    let ?d = "d\<lparr>deferred_q := q\<rparr>"
    have "machines_made ?d" using Suc.prems(1) by (simp add: machines_made_def all_nif)
    moreover have "agps_status_cb ?d \<or> (\<forall>c. m \<noteq> Connection c)" using Suc.prems(4) Cons by auto
    ultimately obtain d' ss where d': "handle_msg e m ?d = Some d'" "deferred_q d' = q @ map Setting ss"
      "length ss \<le> (if m = LOC_ENG_MSG_ENGINE_UP then 7 else 0)" "has_context d'" "agps_status_cb d' = agps_status_cb d"
      "machines_made d'"
      using msg_step [of ?d m e] Suc.prems(2) by fastforce
    have "pending_work (deferred_q d') \<le> n"
      using Suc.prems(5) d'(3) Cons unfolding d'(2) pending_work_settings
      by (auto simp: pending_work_def split: if_splits)
    moreover have "LOC_ENG_MSG_QUIT \<notin> set (deferred_q d')" "agps_status_cb d' \<or> (\<forall>c. Connection c \<notin> set (deferred_q d'))"
      using Suc.prems(3,4) Cons d'(2,5) by auto
    moreover have "m \<noteq> LOC_ENG_MSG_QUIT" using Suc.prems(3) Cons by auto
    ultimately show ?thesis using Suc.IH [OF d'(6,4)] Suc.prems(2) Cons d'(1) by simp
  qed
qed


text \<open>A message about a data connection that comes before the AGPS interface is set up goes through a
  null pointer.\<close>

lemma connection_before_agps_init:
  assumes "machines_made d" and "\<not> agps_status_cb d"
  shows "handle_switch e (Connection (LOC_ENG_MSG_REQUEST_ATL handle type)) d = None"
  using assms by (auto simp: handle_switch_def handle_connection_def on_nif_def machines_made_def Let_def)

text \<open>The address of a server that is given before the engine is set up is kept for later, and cleared
  by the set-up.\<close>

lemma server_forgotten_by_init:
  assumes "\<not> has_context d" and "event \<noteq> 0"
    and "hal_exec e (HalSetServer LOC_AGPS_SUPL_SERVER host port) d = Some d1"
    and "loc_eng_init e True (Some cb) event d1 = (r, d2)"
  shows "supl_host d1 = Some (strlcpy host 101, port) \<and> supl_host d2 = None"
proof -
  have "d1 = d\<lparr>supl_host := Some (strlcpy host 101, port)\<rparr>"
    using assms(1,3) by (simp add: loc_eng_set_server_proxy_def)
  with init_eq [OF _ assms(2,4)] assms(1) show ?thesis by simp
qed


section \<open>Concrete runs\<close>

definition conf0 :: loc_gps_cfg where
  "conf0 = loc_default_parameters
     (loc_gps_cfg.make 0 0 0 0 0 0 0 0 0 0 0 0 0 0 0 0 0 0 0 0 0 0 0 0 0 0 0 0 0)"

definition env0 :: eng_env where
  "env0 = \<lparr>gps_conf = conf0, client = base_adapter, resolve_in_addr = \<lambda>_. None, thread_ok = True, bit_api = False,
     baseband = ''msm'', stack_bytes = []\<rparr>"

text \<open>A modem that is down while the engine is set up.\<close>

definition env_down :: eng_env where
  "env_down = env0\<lparr>client := base_adapter\<lparr>reinit_result := \<lambda>_. API_ENGINE_DOWN\<rparr>\<rparr>"

definition callbacks0 :: loc_callbacks where
  "callbacks0 = \<lparr>has_location_cb = True, has_status_cb = True, has_sv_status_cb = True, has_nmea_cb = True,
     has_set_capabilities_cb = False, has_request_utc_time_cb = False\<rparr>"

definition ready :: "eng_env \<Rightarrow> loc_eng_data" where
  "ready e = loc_eng_agps_init e AGPS_APN_BEARER_IPV4 (snd (loc_eng_init e True (Some callbacks0) 1 cleared_data))"

lemma reach_ready: "eng_reachable e up (ready e)"
  unfolding ready_def
  by (rule eng_reachable.hal [OF eng_reachable.init [of cleared_data 1 e True callbacks0], of _ _ "HalAgpsInit AGPS_APN_BEARER_IPV4"])
    (simp_all add: cleared_data_def prod_eq_iff)

lemma init_tries_down:
  "init_tries (Suc n) env_down d = (API_ENGINE_DOWN, d\<lparr>eng_calls := eng_calls d @ replicate (Suc n) Reinit\<rparr>)"
  by (induction n arbitrary: d) (simp_all add: reinit_eq env_down_def base_adapter_def env0_def)

lemma ready_env_down: "deferred_q (ready env_down) = []" "has_context (ready env_down)" "agps_status_cb (ready env_down)"
   "navigating (ready env_down) = False" "engine_status (ready env_down) = GPS_STATUS_NONE"
   "aiding_data_for_deletion (ready env_down) = 0"
proof -
  have "\<not> bit_api env_down" by (simp add: env_down_def env0_def)
  then show "deferred_q (ready env_down) = []" "has_context (ready env_down)" "agps_status_cb (ready env_down)"
    "navigating (ready env_down) = False" "engine_status (ready env_down) = GPS_STATUS_NONE"
    "aiding_data_for_deletion (ready env_down) = 0"
    by (simp_all add: ready_def loc_eng_init_def init_tries_down [of 29, simplified] agps_reinit_eq cleared_data_def
        callbacks0_def loc_eng_agps_init_def server_settings_def Let_def)
qed


definition asked :: "loc_eng_msg list \<Rightarrow> loc_eng_data" where
  "asked ms = fold loc_eng_msg_sender ms (ready env_down)"

lemma reach_asked: "eng_reachable env_down up (asked ms)"
proof (induction ms rule: rev_induct)
  case Nil
  then show ?case by (simp add: asked_def reach_ready)
next
  case (snoc m ms)
  from eng_reachable.sender [OF snoc, of m] show ?case by (simp add: asked_def)
qed

lemma asked_eq: "asked ms = (ready env_down)\<lparr>deferred_q := ms\<rparr>"
proof (induction ms rule: rev_induct)
  case Nil
  have "d\<lparr>deferred_q := deferred_q d\<rparr> = d" for d :: loc_eng_data by simp
  from this [of "ready env_down"] show ?case by (simp add: asked_def ready_env_down)
next
  case (snoc m ms)
  then show ?case by (simp add: asked_def loc_eng_msg_sender_def)
qed


theorem aiding_data_deleted_witness:
  "\<exists>d'. handle_msg env_down (LOC_ENG_MSG_DELETE_AIDING_DATA 5) ((asked [LOC_ENG_MSG_DELETE_AIDING_DATA 5])\<lparr>deferred_q := []\<rparr>) = Some d'
    \<and> all_bits (deletes (new_calls (asked [LOC_ENG_MSG_DELETE_AIDING_DATA 5]) d')) = 5"
proof -
  let ?m = "LOC_ENG_MSG_DELETE_AIDING_DATA 5" and ?d = "asked [LOC_ENG_MSG_DELETE_AIDING_DATA 5]"
  obtain d' where d': "handle_msg env_down ?m (?d\<lparr>deferred_q := []\<rparr>) = Some d'" "engine_status d' \<noteq> GPS_STATUS_ENGINE_ON"
    by (force simp: handle_msg_def handle_switch_def after_switch_def delete_pending_aiding_data_def delete_msg_def
        asked_eq ready_env_down log_calls_def Let_def)
  with aiding_data_deleted [OF reach_asked, of "[?m]" ?m "[]" d'] show ?thesis
    by (auto simp: asked_eq ready_env_down requested_def)
qed

theorem stop_not_deferred_witness:
  "\<exists>d'. handle_msg env_down LOC_ENG_MSG_STOP_FIX ((asked [LOC_ENG_MSG_STOP_FIX])\<lparr>deferred_q := []\<rparr>) = Some d' \<and> \<not> navigating d'"
proof -
  obtain d' where d': "handle_msg env_down LOC_ENG_MSG_STOP_FIX ((asked [LOC_ENG_MSG_STOP_FIX])\<lparr>deferred_q := []\<rparr>) = Some d'"
    by (simp add: handle_msg_def handle_switch_def split: if_splits)
  with stop_not_deferred [OF reach_asked, of "[LOC_ENG_MSG_STOP_FIX]" "[]" d'] show ?thesis
    by (simp add: asked_eq)
qed



definition location0 :: GpsLocation where
  "location0 = \<lparr>loc_flags = GPS_LOCATION_HAS_ACCURACY, position_source = ULP_LOCATION_IS_FROM_GNSS, latitude = 0, longitude = 0,
     altitude = 0, speed = 0, bearing = 0, accuracy = 20, loc_timestamp = 0, rawDataSize = 0, rawData = 0\<rparr>"


theorem data_connections_consistent_witness:
  "\<exists>m. nif_of Wifi (ready env_down) = Some m \<and> (mStatePtr m = AgpsReleasedState \<longleftrightarrow> mSubscribers m = [])"
  using data_connections_consistent [OF reach_ready, of Wifi env_down False] by (auto simp: ready_env_down simp del: nif_of.simps)

end
