(* ===== verification/Printf.thy ===== *)
theory Printf
  imports Complex_Main "HOL-Library.Word" Sysfs
begin

text \<open>
  The conversions of \<open>printf\<close> that the GPS library uses, and \<open>snprintf\<close> into the middle of a buffer. A
  \<open>double\<close> is a rational number and is printed exactly rounded, a tie to the even digit, as the C
  library does; not-a-number and the infinities are not modelled.
\<close>

section \<open>Conversions\<close>

definition pad0 :: "nat \<Rightarrow> string \<Rightarrow> string" where
  "pad0 w s = replicate (w - length s) (CHR ''0'') @ s"

text \<open>\<open>%0wd\<close>: the zeros go between the sign and the digits.\<close>

definition fmt_0d :: "nat \<Rightarrow> int \<Rightarrow> string" where
  "fmt_0d w x = (if x < 0 then CHR ''-'' # pad0 (w - 1) (dec_pos (- x)) else pad0 w (dec_pos x))"

text \<open>\<open>%2.2d\<close>: at least two digits.\<close>

definition fmt_2_2d :: "int \<Rightarrow> string" where
  "fmt_2_2d x = (if x < 0 then CHR ''-'' # pad0 2 (dec_pos (- x)) else pad0 2 (dec_pos x))"

definition hex_digit :: "nat \<Rightarrow> char" where
  "hex_digit n = char_of (if n < 10 then 48 + n else 55 + n)"

text \<open>\<open>%02X\<close> of a byte.\<close>

definition fmt_02X :: "8 word \<Rightarrow> string" where
  "fmt_02X b = [hex_digit (unat b div 16), hex_digit (unat b mod 16)]"

definition round_half_even :: "rat \<Rightarrow> int" where
  "round_half_even x =
     (let n = \<lfloor>x\<rfloor>; r = x - of_int n
      in if r < 1 / 2 \<or> r = 1 / 2 \<and> even n then n else n + 1)"

text \<open>\<open>%.pf\<close> and \<open>%0w.pf\<close>.\<close>

definition fixed_abs :: "nat \<Rightarrow> rat \<Rightarrow> string" where
  "fixed_abs p x =
     (let n = round_half_even (\<bar>x\<bar> * 10 ^ p)
      in dec_pos (n div 10 ^ p) @ ''.'' @ pad0 p (dec_pos (n mod 10 ^ p)))"

definition fixed :: "nat \<Rightarrow> rat \<Rightarrow> string" where
  "fixed p x = (if x < 0 then ''-'' else '''') @ fixed_abs p x"

definition fixed_0 :: "nat \<Rightarrow> nat \<Rightarrow> rat \<Rightarrow> string" where
  "fixed_0 w p x = (if x < 0 then CHR ''-'' # pad0 (w - 1) (fixed_abs p x) else pad0 w (fixed_abs p x))"

section \<open>Their lengths\<close>

lemma length_pad0 [simp]: "length (pad0 w s) = max w (length s)"
  by (simp add: pad0_def)

lemma length_fmt_0d:
  assumes "0 \<le> x" and "x < 10 ^ Suc k"
  shows "length (fmt_0d w x) \<le> max w (Suc k)"
  using assms length_dec_pos [OF assms(2)] by (simp add: fmt_0d_def)

lemma length_fmt_2_2d: "0 \<le> x \<Longrightarrow> x < 100 \<Longrightarrow> length (fmt_2_2d x) \<le> 2"
  using length_dec_pos [of x 1] by (simp add: fmt_2_2d_def)

lemma length_fmt_02X [simp]: "length (fmt_02X b) = 2"
  by (simp add: fmt_02X_def)

lemma round_half_even_bounds: "of_int (round_half_even x) \<le> x + 1 / 2" "x - 1 / 2 \<le> of_int (round_half_even x)"
proof -
  have "of_int \<lfloor>x\<rfloor> \<le> x" and "x < of_int \<lfloor>x\<rfloor> + 1" by linarith+
  then show "of_int (round_half_even x) \<le> x + 1 / 2" "x - 1 / 2 \<le> of_int (round_half_even x)"
    unfolding round_half_even_def Let_def by (simp_all split: if_split, linarith+)
qed

lemma round_half_even_nonneg: "0 \<le> x \<Longrightarrow> 0 \<le> round_half_even x"
  by (simp add: round_half_even_def Let_def)

lemma round_half_even_le: "x \<le> of_int n \<Longrightarrow> round_half_even x \<le> n"
proof -
  assume "x \<le> of_int n"
  with round_half_even_bounds(1) [of x] have "of_int (round_half_even x) < (of_int (n + 1) :: rat)" by simp
  then show ?thesis unfolding of_int_less_iff by simp
qed

lemma length_fixed_abs:
  assumes "\<bar>x\<bar> < 10 ^ Suc k - 1" and "0 < p"
  shows "length (fixed_abs p x) \<le> Suc k + 1 + p"
proof -
  let ?n = "round_half_even (\<bar>x\<bar> * 10 ^ p)"
  have n0: "0 \<le> ?n" by (simp add: round_half_even_nonneg)
  have "\<bar>x\<bar> * 10 ^ p \<le> of_int ((10 ^ Suc k - 1) * 10 ^ p)"
    using assms(1) by (simp add: mult_right_mono)
  then have "?n \<le> (10 ^ Suc k - 1) * 10 ^ p" by (rule round_half_even_le)
  then have "?n div 10 ^ p \<le> (10 ^ Suc k - 1) * 10 ^ p div 10 ^ p" by (rule zdiv_mono1) simp
  then have "?n div 10 ^ p \<le> 10 ^ Suc k - 1" by simp
  then have 1: "length (dec_pos (?n div 10 ^ p)) \<le> Suc k"
    by (intro length_dec_pos) (use n0 in \<open>simp_all add: pos_imp_zdiv_nonneg_iff\<close>)
  obtain q where q: "p = Suc q" using assms(2) by (cases p) auto
  have 2: "length (dec_pos (?n mod 10 ^ p)) \<le> Suc q" unfolding q by (intro length_dec_pos) simp_all
  show ?thesis using 1 2 by (simp add: fixed_abs_def Let_def q)
qed

lemma length_fixed: "\<bar>x\<bar> < 10 ^ Suc k - 1 \<Longrightarrow> length (fixed 1 x) \<le> k + 4"
  using length_fixed_abs [of x k 1] by (simp add: fixed_def)

section \<open>No conversion prints a NUL\<close>

lemma dec_pos_chars: "0 \<le> n \<Longrightarrow> c \<in> set (dec_pos n) \<Longrightarrow> c \<in> set ''0123456789''"
proof (induction n rule: dec_pos.induct)
  case (1 n)
  have "\<forall>m \<in> set [0..9 :: int]. char_of (48 + m) \<in> set ''0123456789''" by code_simp
  then have d: "char_of (48 + m) \<in> set ''0123456789''" if "0 \<le> m" "m < 10" for m :: int
  proof -
    have "m \<in> set [0..9]" using that by simp
    with \<open>\<forall>m \<in> set [0..9]. _ m\<close> show ?thesis by blast
  qed
  show ?case
  proof (cases "n < 10")
    case True
    then have "c = char_of (48 + n)" using 1(3) by (subst (asm) dec_pos.simps) simp
    with d [of n] 1(2) True show ?thesis by simp
  next
    case False
    have "c \<in> set (dec_pos (n div 10)) \<or> c = char_of (48 + n mod 10)"
      using 1(3) False by (subst (asm) dec_pos.simps) auto
    then show ?thesis
    proof
      assume "c \<in> set (dec_pos (n div 10))"
      then show ?thesis using 1(1) [OF False] 1(2) by (simp add: pos_imp_zdiv_nonneg_iff)
    next
      assume "c = char_of (48 + n mod 10)"
      then show ?thesis using d [of "n mod 10"] by simp
    qed
  qed
qed

abbreviation NUL :: char where "NUL \<equiv> CHR 0x00"

definition no_nul :: "string \<Rightarrow> bool" where
  "no_nul s \<longleftrightarrow> NUL \<notin> set s"

lemma no_nul_simps [simp]:
  "no_nul []" "no_nul (c # s) \<longleftrightarrow> c \<noteq> NUL \<and> no_nul s" "no_nul (s @ t) \<longleftrightarrow> no_nul s \<and> no_nul t"
  "no_nul (pad0 w s) \<longleftrightarrow> no_nul s"
  by (auto simp: no_nul_def pad0_def)

lemma no_nul_dec_pos [simp]: "0 \<le> n \<Longrightarrow> no_nul (dec_pos n)"
  using dec_pos_chars unfolding no_nul_def by fastforce

lemma no_nul_ints [simp]: "no_nul (fmt_0d w x)" "no_nul (fmt_2_2d x)" "no_nul (dec x)"
  by (simp_all add: fmt_0d_def fmt_2_2d_def dec_def)

lemma hex_digit_not_nul: "n < 16 \<Longrightarrow> hex_digit n \<noteq> NUL"
proof -
  assume "n < 16"
  then have "n \<in> set [0..<16]" by simp
  moreover have "\<forall>n \<in> set [0..<16]. hex_digit n \<noteq> NUL" by code_simp
  ultimately show ?thesis by blast
qed

lemma no_nul_fmt_02X [simp]: "no_nul (fmt_02X b)"
proof -
  have "unat b div 16 < 16" using unsigned_less [of b, where 'a = nat] by simp
  then show ?thesis using hex_digit_not_nul by (simp add: fmt_02X_def)
qed

lemma no_nul_fixed [simp]: "no_nul (fixed p x)" "no_nul (fixed_0 w p x)"
proof -
  have "0 \<le> round_half_even (\<bar>x\<bar> * 10 ^ p)" by (simp add: round_half_even_nonneg)
  then have "no_nul (fixed_abs p x)" by (simp add: fixed_abs_def Let_def pos_imp_zdiv_nonneg_iff)
  then show "no_nul (fixed p x)" "no_nul (fixed_0 w p x)" by (simp_all add: fixed_def fixed_0_def)
qed

section \<open>Buffers\<close>

text \<open>\<open>snprintf (buf + off, n, ...)\<close> with a text to print: at most \<open>n - 1\<close> characters and a NUL are written;
  writing past the end of the buffer is the fault \<open>None\<close>. The function returns the length of the text.\<close>

definition snprintf :: "nat \<Rightarrow> nat \<Rightarrow> string \<Rightarrow> string \<Rightarrow> string option" where
  "snprintf off n text buf =
     (let k = min (length text) (n - 1)
      in if n = 0 then Some buf
         else if off + k + 1 \<le> length buf then Some (take off buf @ take k text @ [NUL] @ drop (off + k + 1) buf)
         else None)"

text \<open>The string at a pointer.\<close>

definition c_str :: "string \<Rightarrow> string" where
  "c_str buf = takeWhile (\<lambda>c. c \<noteq> NUL) buf"

lemma c_str_append [simp]: "no_nul s \<Longrightarrow> c_str (s @ NUL # r) = s"
  by (induction s) (auto simp: c_str_def)

end
