(* ===== verification/Nmea.thy ===== *)
theory Nmea
  imports Loc_Msg Printf
begin

unbundle bit_operations_syntax

text \<open>
  The generation of NMEA sentences (\<open>gps/libloc_api_50001/loc_eng_nmea.cpp\<close>) from position and satellite
  reports, when the modem does not deliver them itself.

  \<^item> \<open>sentence\<close> is the buffer of 200 characters on the stack, with \<open>pMarker\<close> as an index into it; a write
    past its end is \<open>Overrun\<close>. A text that does not fit makes the functions return: \<open>FormatError\<close>.
  \<^item> A function is a list of steps, each of which goes on or stops; \<open>nmea_cb_calls\<close> are the calls of the
    framework's callback so far, with the string and the length that it is given.
  \<^item> A \<open>float\<close> is a rational number; the arithmetic is exact.
\<close>

section \<open>Data\<close>

definition NMEA_SENTENCE_MAX_LENGTH :: nat where "NMEA_SENTENCE_MAX_LENGTH = 200"
definition GPS_MAX_SVS :: nat where "GPS_MAX_SVS = 32"
definition GPS_LOCATION_HAS_LAT_LONG :: "16 word" where "GPS_LOCATION_HAS_LAT_LONG = 0x0001"
definition GPS_LOCATION_HAS_ALTITUDE :: "16 word" where "GPS_LOCATION_HAS_ALTITUDE = 0x0002"
definition GPS_LOCATION_HAS_SPEED :: "16 word" where "GPS_LOCATION_HAS_SPEED = 0x0004"
definition GPS_LOCATION_HAS_BEARING :: "16 word" where "GPS_LOCATION_HAS_BEARING = 0x0008"
definition GPS_LOCATION_EXTENDED_HAS_DOP :: "16 word" where "GPS_LOCATION_EXTENDED_HAS_DOP = 0x0001"
definition GPS_LOCATION_EXTENDED_HAS_ALTITUDE_MEAN_SEA_LEVEL :: "16 word" where
  "GPS_LOCATION_EXTENDED_HAS_ALTITUDE_MEAN_SEA_LEVEL = 0x0002"
definition GPS_LOCATION_EXTENDED_HAS_MAG_DEV :: "16 word" where "GPS_LOCATION_EXTENDED_HAS_MAG_DEV = 0x0004"

record GpsLocationExtended =
  ext_flags :: "16 word"
  altitudeMeanSeaLevel :: rat
  ext_pdop :: rat
  ext_hdop :: rat
  ext_vdop :: rat
  magneticDeviation :: rat

record GpsSvInfo =
  prn :: int
  snr :: rat
  elevation :: rat
  azimuth :: rat

record GpsSvStatus =
  num_svs :: int
  sv_list :: "GpsSvInfo list"
  used_in_fix_mask :: "32 word"

datatype nmea_stop = FormatError | Overrun

record nmea_state =
  sentence :: string
  pMarker :: nat
  lengthRemaining :: nat
  nmea_cb_calls :: "(string \<times> int) list"
  sv_used_mask :: "32 word"
  pdop :: rat
  hdop :: rat
  vdop :: rat

type_synonym nmea_step = "nmea_state \<Rightarrow> nmea_stop option \<times> nmea_state"

fun run_steps :: "nmea_step list \<Rightarrow> nmea_step" where
  "run_steps [] s = (None, s)"
| "run_steps (f # fs) s = (case f s of (None, s) \<Rightarrow> run_steps fs s | (Some e, s) \<Rightarrow> (Some e, s))"

section \<open>Writing a sentence\<close>

text \<open>The start of a sentence, a \<open>snprintf\<close> whose length is checked, one whose length is not, and the end:
  the checksum, and the call of the callback.\<close>

definition start_sentence :: nmea_step where
  "start_sentence s = (None, s\<lparr>pMarker := 0, lengthRemaining := NMEA_SENTENCE_MAX_LENGTH\<rparr>)"

definition emit :: "string \<Rightarrow> nmea_step" where
  "emit text s =
     (case snprintf (pMarker s) (lengthRemaining s) text (sentence s) of
        None \<Rightarrow> (Some Overrun, s)
      | Some buf \<Rightarrow>
          let s = s\<lparr>sentence := buf\<rparr> in
          if lengthRemaining s \<le> length text then (Some FormatError, s)
          else (None, s\<lparr>pMarker := pMarker s + length text, lengthRemaining := lengthRemaining s - length text\<rparr>))"

definition emit_unchecked :: "string \<Rightarrow> nmea_step" where
  "emit_unchecked text s =
     (case snprintf (pMarker s) (lengthRemaining s) text (sentence s) of
        None \<Rightarrow> (Some Overrun, s)
      | Some buf \<Rightarrow> (None, s\<lparr>sentence := buf\<rparr>))"

text \<open>\<open>loc_eng_nmea_put_checksum\<close>: the loop over the characters after the dollar sign.\<close>

fun checksum_loop :: "string \<Rightarrow> 8 word \<Rightarrow> nat \<Rightarrow> (8 word \<times> nat) option" where
  "checksum_loop [] checksum len = None"
| "checksum_loop (c # cs) checksum len =
     (if c = NUL then Some (checksum, len) else checksum_loop cs (checksum XOR of_char c) (len + 1))"

definition loc_eng_nmea_put_checksum :: "string \<Rightarrow> nat \<Rightarrow> (int \<times> string) option" where
  "loc_eng_nmea_put_checksum pNmea maxSize =
     do {(checksum, len) \<leftarrow> checksum_loop (drop 1 pNmea) 0 0;
         let text = ''*'' @ fmt_02X checksum @ [CHR 0x0D, CHR 0x0A];
         buf \<leftarrow> snprintf (1 + len) maxSize text pNmea;
         Some (int len + int (length text), buf)}"

definition loc_eng_nmea_send :: "string \<Rightarrow> int \<Rightarrow> nmea_state \<Rightarrow> nmea_state" where
  "loc_eng_nmea_send pNmea len s = s\<lparr>nmea_cb_calls := nmea_cb_calls s @ [(c_str pNmea, len)]\<rparr>"

definition finish_sentence :: nmea_step where
  "finish_sentence s =
     (case loc_eng_nmea_put_checksum (sentence s) NMEA_SENTENCE_MAX_LENGTH of
        None \<Rightarrow> (Some Overrun, s)
      | Some (len, buf) \<Rightarrow> (None, loc_eng_nmea_send buf len (s\<lparr>sentence := buf\<rparr>)))"

text \<open>A sentence from the texts of its checked calls and that of the last call, if it is not checked.\<close>

definition put_sentence :: "string list \<Rightarrow> string option \<Rightarrow> nmea_step list" where
  "put_sentence texts text =
     start_sentence # map emit texts @ (case text of None \<Rightarrow> [] | Some t \<Rightarrow> [emit_unchecked t]) @ [finish_sentence]"

section \<open>Times\<close>

text \<open>\<open>gmtime\<close>. \<open>C\<close> division and remainder round towards zero; \<open>time_t\<close> has 32 bits.\<close>

definition c_div :: "int \<Rightarrow> int \<Rightarrow> int" where
  "c_div a b = (if 0 \<le> a then a div b else - ((- a) div b))"

definition c_rem :: "int \<Rightarrow> int \<Rightarrow> int" where
  "c_rem a b = (if 0 \<le> a then a mod b else - ((- a) mod b))"

definition time_t_of :: "int \<Rightarrow> int" where
  "time_t_of t = (t + 2 ^ 31) mod 2 ^ 32 - 2 ^ 31"

definition leap_year :: "int \<Rightarrow> bool" where
  "leap_year y \<longleftrightarrow> y mod 4 = 0 \<and> y mod 100 \<noteq> 0 \<or> y mod 400 = 0"

definition days_in_year :: "int \<Rightarrow> int" where
  "days_in_year y = (if leap_year y then 366 else 365)"

definition month_lengths :: "int \<Rightarrow> int list" where
  "month_lengths y = [31, if leap_year y then 29 else 28, 31, 30, 31, 30, 31, 31, 30, 31, 30, 31]"

text \<open>The year and the day in it of a day counted from the first of January of year \<open>y\<close>.\<close>

function year_of :: "int \<Rightarrow> int \<Rightarrow> int \<times> int" where
  "year_of y d =
     (if d < 0 then year_of (y - 1) (d + days_in_year (y - 1))
      else if days_in_year y \<le> d then year_of (y + 1) (d - days_in_year y) else (y, d))"
  by pat_completeness auto
termination
  by (relation "measure (\<lambda>(y, d). nat (if d < 0 then 366 - d else d))") (auto simp: days_in_year_def split: if_splits)

declare year_of.simps [simp del]

fun month_of :: "int list \<Rightarrow> int \<Rightarrow> int \<times> int" where
  "month_of [] d = (0, d)"
| "month_of (m # ms) d = (if d < m then (0, d) else case month_of ms (d - m) of (n, d) \<Rightarrow> (n + 1, d))"

record tm =
  tm_year :: int
  tm_mon :: int
  tm_mday :: int
  tm_hour :: int
  tm_min :: int
  tm_sec :: int

definition gmtime :: "int \<Rightarrow> tm" where
  "gmtime t =
     (case year_of 1970 (t div 86400) of (y, yd) \<Rightarrow>
      case month_of (month_lengths y) yd of (m, d) \<Rightarrow>
        \<lparr>tm_year = y - 1900, tm_mon = m, tm_mday = d + 1,
         tm_hour = t mod 86400 div 3600, tm_min = t mod 3600 div 60, tm_sec = t mod 60\<rparr>)"

definition utc_of :: "GpsLocation \<Rightarrow> tm" where
  "utc_of location = gmtime (time_t_of (c_div (loc_timestamp location) 1000))"

section \<open>Position reports\<close>

lemma drop_bit_less: "0 < (m :: 32 word) \<Longrightarrow> unat (drop_bit 1 m) < unat m"
proof -
  assume "0 < m"
  then have "0 < unat m" by (simp add: unat_gt_0 word_neq_0_conv)
  then show ?thesis by (simp only: drop_bit_eq_div power_one_right) (simp add: unat_div_distrib)
qed

text \<open>The loop over the mask of used satellites.\<close>

function sv_used_loop :: "8 word \<Rightarrow> 32 word \<Rightarrow> nat \<Rightarrow> 8 word list" where
  "sv_used_loop i m svUsedCount =
     (if 0 < m \<and> svUsedCount < 32
      then if m AND 1 \<noteq> 0 then i # sv_used_loop (i + 1) (drop_bit 1 m) (svUsedCount + 1)
           else sv_used_loop (i + 1) (drop_bit 1 m) svUsedCount
      else [])"
  by pat_completeness auto

termination
  by (relation "measure (\<lambda>(i, m, c). unat m)") (auto simp del: One_nat_def intro: drop_bit_less [simplified One_nat_def] drop_bit_less)

declare sv_used_loop.simps [simp del]

definition fix_type :: "nat \<Rightarrow> char" where
  "fix_type svUsedCount = (if svUsedCount = 0 then CHR ''1'' else if svUsedCount \<le> 3 then CHR ''2'' else CHR ''3'')"

text \<open>Where the dilution of precision comes from: the report, the cache, or nowhere.\<close>

definition dops :: "GpsLocationExtended \<Rightarrow> nmea_state \<Rightarrow> (rat \<times> rat \<times> rat) option" where
  "dops ext s =
     (if ext_flags ext AND GPS_LOCATION_EXTENDED_HAS_DOP \<noteq> 0 then Some (ext_pdop ext, ext_hdop ext, ext_vdop ext)
      else if 0 < pdop s \<and> 0 < hdop s \<and> 0 < vdop s then Some (pdop s, hdop s, vdop s)
      else None)"

definition gpgsa :: "8 word list \<Rightarrow> (rat \<times> rat \<times> rat) option \<Rightarrow> string list \<times> string option" where
  "gpgsa used dop =
     ((''$GPGSA,A,'' @ [fix_type (length used)] @ '','')
      # map (\<lambda>i. if i < length used then fmt_0d 2 (uint (used ! i)) @ '','' else '','') [0..<12],
      Some (case dop of Some (p, h, v) \<Rightarrow> fixed 1 p @ '','' @ fixed 1 h @ '','' @ fixed 1 v | None \<Rightarrow> '',,''))"

definition mode_indicator :: "GpsLocation \<Rightarrow> LocPositionMode \<Rightarrow> string" where
  "mode_indicator location mode =
     (if loc_flags location AND GPS_LOCATION_HAS_LAT_LONG = 0 then ''N''
      else if mode = LOC_POSITION_MODE_STANDALONE then ''A'' else ''D'')"

text \<open>The magnetic track: the corrected value is computed into a variable of an inner block that shadows
  the one that is printed.\<close>

definition gpvtg :: "GpsLocation \<Rightarrow> GpsLocationExtended \<Rightarrow> LocPositionMode \<Rightarrow> string list \<times> string option" where
  "gpvtg location ext mode =
     ([if loc_flags location AND GPS_LOCATION_HAS_BEARING \<noteq> 0
       then let magTrack = bearing location
            in ''$GPVTG,'' @ fixed 1 (bearing location) @ '',T,'' @ fixed 1 magTrack @ '',M,''
       else ''$GPVTG,,T,,M,'',
       if loc_flags location AND GPS_LOCATION_HAS_SPEED \<noteq> 0
       then fixed 1 (speed location * (3600 / 1852)) @ '',N,'' @ fixed 1 (speed location * (36 / 10)) @ '',K,''
       else '',N,,K,''],
      Some (mode_indicator location mode))"

definition hms :: "tm \<Rightarrow> string" where
  "hms t = fmt_0d 2 (tm_hour t) @ fmt_0d 2 (tm_min t) @ fmt_0d 2 (tm_sec t)"

definition fmod60 :: "rat \<Rightarrow> rat" where
  "fmod60 x = (if 0 \<le> x then x - 60 * of_int \<lfloor>x / 60\<rfloor> else x - 60 * of_int \<lceil>x / 60\<rceil>)"

definition lat_long_text :: "GpsLocation \<Rightarrow> string" where
  "lat_long_text location =
     (if loc_flags location AND GPS_LOCATION_HAS_LAT_LONG \<noteq> 0
      then let lat = latitude location; long = longitude location;
               latHemisphere = (if 0 < lat then ''N'' else ''S''); lat = (if 0 < lat then lat else lat * - 1);
               lonHemisphere = (if long < 0 then ''W'' else ''E''); long = (if long < 0 then long * - 1 else long)
           in fmt_0d 2 (\<lfloor>lat\<rfloor> mod 256) @ fixed_0 9 6 (fmod60 (lat * 60)) @ '','' @ latHemisphere @ '',''
              @ fmt_0d 3 (\<lfloor>long\<rfloor> mod 256) @ fixed_0 9 6 (fmod60 (long * 60)) @ '','' @ lonHemisphere @ '',''
      else '',,,,'')"

definition gprmc :: "GpsLocation \<Rightarrow> GpsLocationExtended \<Rightarrow> LocPositionMode \<Rightarrow> string list \<times> string option" where
  "gprmc location ext mode =
     (let t = utc_of location in
      ([''$GPRMC,'' @ hms t @ '',A,'',
        lat_long_text location,
        if loc_flags location AND GPS_LOCATION_HAS_SPEED \<noteq> 0 then fixed 1 (speed location * (3600 / 1852)) @ '','' else '','',
        if loc_flags location AND GPS_LOCATION_HAS_BEARING \<noteq> 0 then fixed 1 (bearing location) @ '','' else '','',
        fmt_2_2d (tm_mday t) @ fmt_2_2d (tm_mon t + 1) @ fmt_2_2d (c_rem (tm_year t) 100) @ '','',
        if ext_flags ext AND GPS_LOCATION_EXTENDED_HAS_MAG_DEV \<noteq> 0
        then fixed 1 \<bar>magneticDeviation ext\<bar> @ '','' @ (if magneticDeviation ext < 0 then ''W'' else ''E'') @ '',''
        else '',,''],
       Some (mode_indicator location mode)))"

definition gps_quality :: "GpsLocation \<Rightarrow> LocPositionMode \<Rightarrow> string" where
  "gps_quality location mode =
     (if loc_flags location AND GPS_LOCATION_HAS_LAT_LONG = 0 then ''0''
      else if mode = LOC_POSITION_MODE_STANDALONE then ''1'' else ''2'')"

definition gpgga ::
    "GpsLocation \<Rightarrow> GpsLocationExtended \<Rightarrow> LocPositionMode \<Rightarrow> nat \<Rightarrow> (rat \<times> rat \<times> rat) option \<Rightarrow> string list \<times> string option" where
  "gpgga location ext mode svUsedCount dop =
     ([''$GPGGA,'' @ hms (utc_of location) @ '','',
       lat_long_text location,
       gps_quality location mode @ '','' @ fmt_0d 2 (int svUsedCount)
         @ (case dop of Some (p, h, v) \<Rightarrow> '','' @ fixed 1 h @ '','' | None \<Rightarrow> '',,''),
       if ext_flags ext AND GPS_LOCATION_EXTENDED_HAS_ALTITUDE_MEAN_SEA_LEVEL \<noteq> 0
       then fixed 1 (altitudeMeanSeaLevel ext) @ '',M,'' else '',,''],
      Some (if loc_flags location AND GPS_LOCATION_HAS_ALTITUDE \<noteq> 0
               \<and> ext_flags ext AND GPS_LOCATION_EXTENDED_HAS_ALTITUDE_MEAN_SEA_LEVEL \<noteq> 0
            then fixed 1 (altitude location - altitudeMeanSeaLevel ext) @ '',M,,'' else '',,,''))"

text \<open>\<open>sentence0\<close> is the cleared buffer. The mask is cleared at once, the cached dilutions at the end.\<close>

definition sentence0 :: string where "sentence0 = replicate NMEA_SENTENCE_MAX_LENGTH NUL"

definition loc_eng_nmea_generate_pos :: "GpsLocation \<Rightarrow> GpsLocationExtended \<Rightarrow> LocPositionMode \<Rightarrow> nmea_step" where
  "loc_eng_nmea_generate_pos location ext mode s =
     (let used = sv_used_loop 1 (sv_used_mask s) 0; dop = dops ext s
      in run_steps
        ((\<lambda>s. (None, s\<lparr>sentence := sentence0, sv_used_mask := 0\<rparr>))
         # case_prod put_sentence (gpgsa used dop)
         @ case_prod put_sentence (gpvtg location ext mode)
         @ case_prod put_sentence (gprmc location ext mode)
         @ case_prod put_sentence (gpgga location ext mode (length used) dop)
         @ [\<lambda>s. (None, s\<lparr>pdop := 0, hdop := 0, vdop := 0\<rparr>)]) s)"

section \<open>Satellite reports\<close>

text \<open>The conversion of a \<open>float\<close> to \<open>int\<close>.\<close>

definition to_int :: "rat \<Rightarrow> int" where
  "to_int x = (if 0 \<le> x then \<lfloor>x\<rfloor> else \<lceil>x\<rceil>)"

definition sv_texts :: "GpsSvInfo \<Rightarrow> string list" where
  "sv_texts sv =
     ('','' @ fmt_0d 2 (prn sv) @ '','' @ fmt_0d 2 (to_int (1 / 2 + elevation sv)) @ '',''
        @ fmt_0d 3 (to_int (1 / 2 + azimuth sv)) @ '','')
     # (if 0 < snr sv then [fmt_0d 2 (to_int (1 / 2 + snr sv))] else [])"

text \<open>The loop over the sentences. \<open>svs\<close> are the satellites from \<open>svNumber\<close> on.\<close>

fun gpgsv_loop :: "nat \<Rightarrow> int \<Rightarrow> int \<Rightarrow> int \<Rightarrow> GpsSvInfo list \<Rightarrow> nmea_step list" where
  "gpgsv_loop 0 sentenceNumber sentenceCount svCount svs = []"
| "gpgsv_loop (Suc n) sentenceNumber sentenceCount svCount svs =
     put_sentence ((''$GPGSV,'' @ dec sentenceCount @ '','' @ dec sentenceNumber @ '','' @ fmt_0d 2 svCount)
        # concat (map sv_texts (take 4 svs))) None
     @ gpgsv_loop n (sentenceNumber + 1) sentenceCount svCount (drop 4 svs)"

definition gpgsv :: "GpsSvStatus \<Rightarrow> nmea_step list" where
  "gpgsv svStatus =
     (if num_svs svStatus \<le> 0 then put_sentence [] (Some ''$GPGSV,1,1,0,'')
      else let svCount = num_svs svStatus;
               sentenceCount = svCount div 4 + (if svCount mod 4 \<noteq> 0 then 1 else 0)
           in gpgsv_loop (nat sentenceCount) 1 sentenceCount svCount (take (nat svCount) (sv_list svStatus)))"

text \<open>Without used satellites blank sentences are sent, otherwise the mask and the dilutions are kept for
  the next position report. Reading past the array of satellites is \<open>None\<close>.\<close>

definition cache_fix :: "GpsSvStatus \<Rightarrow> GpsLocationExtended \<Rightarrow> nmea_step" where
  "cache_fix svStatus ext s =
     (None, if ext_flags ext AND GPS_LOCATION_EXTENDED_HAS_DOP \<noteq> 0
        then s\<lparr>sv_used_mask := used_in_fix_mask svStatus, pdop := ext_pdop ext, hdop := ext_hdop ext, vdop := ext_vdop ext\<rparr>
        else s\<lparr>sv_used_mask := used_in_fix_mask svStatus, pdop := 0, hdop := 0, vdop := 0\<rparr>)"

definition blank_sentences :: "string list" where
  "blank_sentences = [''$GPGSA,A,1,,,,,,,,,,,,,,,'', ''$GPVTG,,T,,M,,N,,K,N'', ''$GPRMC,,V,,,,,,,,,,N'', ''$GPGGA,,,,,,0,,,,,,,,'']"

definition loc_eng_nmea_generate_sv ::
    "GpsSvStatus \<Rightarrow> GpsLocationExtended \<Rightarrow> nmea_state \<Rightarrow> (nmea_stop option \<times> nmea_state) option" where
  "loc_eng_nmea_generate_sv svStatus ext s =
     (if nat (num_svs svStatus) > length (sv_list svStatus) then None
      else Some (run_steps
        ((\<lambda>s. (None, s\<lparr>sentence := sentence0\<rparr>))
         # gpgsv svStatus
         @ (if used_in_fix_mask svStatus = 0
            then concat (map (\<lambda>t. put_sentence [] (Some t)) blank_sentences) else [cache_fix svStatus ext])) s))"

section \<open>What becomes of a sentence\<close>

lemma run_steps_append: "run_steps (fs @ gs) s = (case run_steps fs s of (None, s) \<Rightarrow> run_steps gs s | (Some e, s) \<Rightarrow> (Some e, s))"
  by (induction fs arbitrary: s) (auto split: prod.split option.split)

text \<open>\<open>written s pre\<close>: the buffer starts with \<open>pre\<close>, and the marker is behind it. \<open>only_buffer s s'\<close>: nothing else
  has changed.\<close>

definition written :: "nmea_state \<Rightarrow> string \<Rightarrow> bool" where
  "written s pre \<longleftrightarrow> length (sentence s) = 200 \<and> take (length pre) (sentence s) = pre \<and> pMarker s = length pre
     \<and> length pre < 200 \<and> lengthRemaining s = 200 - length pre"

definition only_buffer :: "nmea_state \<Rightarrow> nmea_state \<Rightarrow> bool" where
  "only_buffer s s' \<longleftrightarrow> nmea_cb_calls s' = nmea_cb_calls s \<and> sv_used_mask s' = sv_used_mask s \<and> pdop s' = pdop s
     \<and> hdop s' = hdop s \<and> vdop s' = vdop s \<and> length (sentence s') = length (sentence s)"

lemma only_buffer_refl [simp]: "only_buffer s s"
  by (simp add: only_buffer_def)

lemma only_buffer_trans [trans]: "only_buffer s s' \<Longrightarrow> only_buffer s' s'' \<Longrightarrow> only_buffer s s''"
  by (simp add: only_buffer_def)

lemma length_snprintf: "snprintf off n text buf = Some buf' \<Longrightarrow> length buf' = length buf"
  by (auto simp: snprintf_def Let_def split: if_splits)

lemma snprintf_written:
  assumes "written s pre"
  shows "\<exists>r. snprintf (pMarker s) (lengthRemaining s) text (sentence s) =
    Some (pre @ take (199 - length pre) text @ NUL # r) \<and> length (pre @ take (199 - length pre) text @ NUL # r) = 200"
proof -
  let ?k = "min (length text) (199 - length pre)"
  have k: "length pre + ?k + 1 \<le> 200" using assms by (auto simp: written_def min_def)
  have "take ?k text = take (199 - length pre) text" by (simp add: min_def)
  with assms k have eq: "snprintf (pMarker s) (lengthRemaining s) text (sentence s) =
      Some (pre @ take (199 - length pre) text @ NUL # drop (length pre + ?k + 1) (sentence s))"
    by (simp add: written_def snprintf_def Let_def min.commute)
  show ?thesis
    by (intro exI conjI, rule eq) (use length_snprintf [OF eq] assms in \<open>simp add: written_def\<close>)
qed

lemma emit_fits:
  assumes "written s pre" and "length pre + length text < 200"
  shows "\<exists>s' r. emit text s = (None, s') \<and> written s' (pre @ text) \<and> sentence s' = (pre @ text) @ NUL # r \<and> only_buffer s s'"
proof -
  obtain r where r: "snprintf (pMarker s) (lengthRemaining s) text (sentence s) = Some (pre @ text @ NUL # r)"
    "length (pre @ text @ NUL # r) = 200"
    using snprintf_written [OF assms(1), of "text"] assms(2) by auto
  with assms show ?thesis
    by (simp add: emit_def Let_def written_def only_buffer_def)
qed

lemma emit_too_long:
  assumes "written s pre" and "200 \<le> length pre + length text"
  shows "\<exists>s'. emit text s = (Some FormatError, s') \<and> only_buffer s s'"
proof -
  obtain r where r: "snprintf (pMarker s) (lengthRemaining s) text (sentence s) = Some (pre @ take (199 - length pre) text @ NUL # r)"
    "length (pre @ take (199 - length pre) text @ NUL # r) = 200"
    using snprintf_written [OF assms(1), of "text"] by blast
  with assms show ?thesis
    by (simp add: emit_def Let_def written_def only_buffer_def)
qed

lemma emits_fit:
  assumes "written s pre" and "length (pre @ concat texts) < 200"
  shows "\<exists>s' r. run_steps (map emit texts) s = (None, s') \<and> written s' (pre @ concat texts) \<and> only_buffer s s'
    \<and> (texts \<noteq> [] \<longrightarrow> sentence s' = (pre @ concat texts) @ NUL # r)"
  using assms
proof (induction texts arbitrary: s pre)
  case (Cons t ts)
  then have "length pre + length t < 200" by simp
  from emit_fits [OF Cons.prems(1) this] obtain s1 r1 where
    s1: "emit t s = (None, s1)" "written s1 (pre @ t)" "sentence s1 = (pre @ t) @ NUL # r1" "only_buffer s s1" by blast
  have "length ((pre @ t) @ concat ts) < 200" using Cons.prems(2) by simp
  from Cons.IH [OF s1(2) this] obtain s2 r2 where
    s2: "run_steps (map emit ts) s1 = (None, s2)" "written s2 ((pre @ t) @ concat ts)" "only_buffer s1 s2"
      "ts \<noteq> [] \<longrightarrow> sentence s2 = ((pre @ t) @ concat ts) @ NUL # r2" by blast
  have "ts = [] \<Longrightarrow> s2 = s1" using s2(1) by simp
  then have "\<exists>r. sentence s2 = (pre @ t @ concat ts) @ NUL # r" using s1(3) s2(4) by (cases "ts = []") auto
  with s1 s2 only_buffer_trans [OF s1(4) s2(3)] show ?case by simp
qed auto

lemma emits_too_long:
  assumes "written s pre" and "200 \<le> length (pre @ concat texts)"
  shows "\<exists>s'. run_steps (map emit texts) s = (Some FormatError, s') \<and> only_buffer s s'"
  using assms
proof (induction texts arbitrary: s pre)
  case Nil
  then show ?case by (simp add: written_def)
next
  case (Cons t ts)
  show ?case
  proof (cases "length pre + length t < 200")
    case True
    from emit_fits [OF Cons.prems(1) this] obtain s1 where
      s1: "emit t s = (None, s1)" "written s1 (pre @ t)" "only_buffer s s1" by blast
    have "200 \<le> length ((pre @ t) @ concat ts)" using Cons.prems(2) by simp
    from Cons.IH [OF s1(2) this] s1 show ?thesis using only_buffer_trans by fastforce
  next
    case False
    then obtain s' where "emit t s = (Some FormatError, s')" "only_buffer s s'"
      using emit_too_long [OF Cons.prems(1), of t] by auto
    then show ?thesis by simp
  qed
qed

section \<open>The checksum\<close>

definition xor_all :: "string \<Rightarrow> 8 word" where
  "xor_all s = fold (\<lambda>c w. w XOR of_char c) s 0"

definition with_checksum :: "string \<Rightarrow> string" where
  "with_checksum body = body @ ''*'' @ fmt_02X (xor_all (tl body)) @ [CHR 0x0D, CHR 0x0A]"

lemma checksum_loop_eq:
  "no_nul s \<Longrightarrow> checksum_loop (s @ NUL # r) w n = Some (fold (\<lambda>c w. w XOR of_char c) s w, n + length s)"
  by (induction s arbitrary: w n) simp_all

lemma put_checksum_eq:
  assumes "no_nul body" and "body \<noteq> []"
  shows "loc_eng_nmea_put_checksum (body @ NUL # r) maxSize =
    map_option (\<lambda>buf. (int (length body) + 4, buf))
      (snprintf (length body) maxSize (''*'' @ fmt_02X (xor_all (tl body)) @ [CHR 0x0D, CHR 0x0A]) (body @ NUL # r))"
proof -
  obtain c cs where body: "body = c # cs" using assms(2) by (cases body) auto
  have "checksum_loop (cs @ NUL # r) 0 0 = Some (xor_all cs, length cs)"
    using checksum_loop_eq [of cs r 0 0] assms(1) by (simp add: body xor_all_def)
  then show ?thesis
    by (simp add: loc_eng_nmea_put_checksum_def body Let_def map_option_case bind_eq_None_conv split: option.split)
qed

lemma finish_ok:
  assumes "sentence s = body @ NUL # r" and "length (sentence s) = 200" and "no_nul body" and "body \<noteq> []"
    and "length body \<le> 194"
  shows "\<exists>s'. finish_sentence s = (None, s'\<lparr>nmea_cb_calls := nmea_cb_calls s @ [(with_checksum body, int (length body) + 4)]\<rparr>)
    \<and> only_buffer s s'"
proof -
  let ?t = "''*'' @ fmt_02X (xor_all (tl body)) @ [CHR 0x0D, CHR 0x0A]"
  have "snprintf (length body) 200 ?t (body @ NUL # r) = Some (body @ ?t @ NUL # drop (length body + 6) (body @ NUL # r))"
    using assms(1,2,5) by (simp add: snprintf_def Let_def)
  moreover have "length (body @ ?t @ NUL # drop (length body + 6) (body @ NUL # r)) = 200"
    using assms(1,2,5) by simp
  moreover have "c_str (body @ ?t @ NUL # drop (length body + 6) (body @ NUL # r)) = with_checksum body"
    using c_str_append [of "body @ ?t"] assms(3) by (simp add: with_checksum_def)
  ultimately show ?thesis
    using put_checksum_eq [OF assms(3,4), of r 200] assms(1,2)
    by (intro exI [of _ "s\<lparr>sentence := body @ ?t @ NUL # drop (length body + 6) (body @ NUL # r)\<rparr>"])
      (simp add: finish_sentence_def NMEA_SENTENCE_MAX_LENGTH_def loc_eng_nmea_send_def only_buffer_def)
qed

lemma finish_overrun:
  assumes "sentence s = body @ NUL # r" and "length (sentence s) = 200" and "no_nul body" and "194 < length body"
  shows "finish_sentence s = (Some Overrun, s)"
proof -
  have "body \<noteq> []" using assms(4) by auto
  have "snprintf (length body) 200 (''*'' @ fmt_02X (xor_all (tl body)) @ [CHR 0x0D, CHR 0x0A]) (body @ NUL # r) = None"
    using assms(1,2,4) by (simp add: snprintf_def Let_def)
  with put_checksum_eq [OF assms(3) \<open>body \<noteq> []\<close>, of r 200] assms(1) show ?thesis
    by (simp add: finish_sentence_def NMEA_SENTENCE_MAX_LENGTH_def)
qed

section \<open>Outcomes\<close>

text \<open>The characters of a sentence before the checksum.\<close>

definition body_of :: "string list \<times> string option \<Rightarrow> string" where
  "body_of t = concat (fst t) @ (case snd t of None \<Rightarrow> '''' | Some u \<Rightarrow> u)"

text \<open>Before the unchecked text and the end of a sentence.\<close>

lemma put_sentence_start:
  assumes "length (sentence s) = 200"
  shows "\<exists>s1. start_sentence s = (None, s1) \<and> written s1 '''' \<and> only_buffer s s1"
  using assms by (simp add: start_sentence_def written_def only_buffer_def NMEA_SENTENCE_MAX_LENGTH_def)

lemma put_sentence_eq: "run_steps (put_sentence texts u) s =
    (case run_steps (start_sentence # map emit texts) s of (Some e, s) \<Rightarrow> (Some e, s)
     | (None, s) \<Rightarrow> run_steps ((case u of None \<Rightarrow> [] | Some t \<Rightarrow> [emit_unchecked t]) @ [finish_sentence]) s)"
proof -
  have "put_sentence texts u = (start_sentence # map emit texts)
      @ ((case u of None \<Rightarrow> [] | Some t \<Rightarrow> [emit_unchecked t]) @ [finish_sentence])"
    by (simp add: put_sentence_def)
  then show ?thesis by (simp only: run_steps_append)
qed

text \<open>After the texts: the buffer holds the body, cut at 199 characters.\<close>

lemma body_written:
  assumes "length (sentence s) = 200" and "length (concat (fst t)) < 200" and "fst t \<noteq> [] \<or> snd t \<noteq> None"
  shows "\<exists>s2 r. run_steps (put_sentence (fst t) (snd t)) s = run_steps [finish_sentence] s2 \<and> only_buffer s s2
    \<and> sentence s2 = take 199 (body_of t) @ NUL # r"
proof -
  obtain s1 where s1: "start_sentence s = (None, s1)" "written s1 ''''" "only_buffer s s1"
    using put_sentence_start [OF assms(1)] by blast
  obtain s2 r where s2: "run_steps (map emit (fst t)) s1 = (None, s2)" "written s2 (concat (fst t))" "only_buffer s1 s2"
      "fst t \<noteq> [] \<longrightarrow> sentence s2 = concat (fst t) @ NUL # r"
    using emits_fit [OF s1(2), of "fst t"] assms(2) by auto
  have run: "run_steps (start_sentence # map emit (fst t)) s = (None, s2)" using s1 s2 by simp
  show ?thesis
  proof (cases "snd t")
    case None
    with s2(4) assms(2,3) have "sentence s2 = take 199 (body_of t) @ NUL # r" by (simp add: body_of_def)
    with None run only_buffer_trans [OF s1(3) s2(3)] show ?thesis
      by (intro exI [of _ s2] exI [of _ r]) (simp add: put_sentence_eq del: run_steps.simps)
  next
    case (Some u)
    obtain r' where r': "snprintf (pMarker s2) (lengthRemaining s2) u (sentence s2) =
        Some (concat (fst t) @ take (199 - length (concat (fst t))) u @ NUL # r')"
      "length (concat (fst t) @ take (199 - length (concat (fst t))) u @ NUL # r') = 200"
      using snprintf_written [OF s2(2), of u] by blast
    let ?s3 = "s2\<lparr>sentence := concat (fst t) @ take (199 - length (concat (fst t))) u @ NUL # r'\<rparr>"
    have "run_steps (put_sentence (fst t) (snd t)) s = run_steps [finish_sentence] ?s3"
      using run Some r'(1) by (simp add: put_sentence_eq emit_unchecked_def)
    moreover have "only_buffer s ?s3"
      using only_buffer_trans [OF s1(3) s2(3)] r'(2) assms(1) by (simp add: only_buffer_def)
    moreover have "sentence ?s3 = take 199 (body_of t) @ NUL # r'" using assms(2) Some by (simp add: body_of_def)
    ultimately show ?thesis by blast
  qed
qed

lemma put_sentence_sent:
  assumes "length (sentence s) = 200" and "no_nul (body_of t)" and "body_of t \<noteq> ''''" and "length (body_of t) \<le> 194"
  shows "\<exists>s'. run_steps (put_sentence (fst t) (snd t)) s =
      (None, s'\<lparr>nmea_cb_calls := nmea_cb_calls s @ [(with_checksum (body_of t), int (length (with_checksum (body_of t))) - 1)]\<rparr>)
    \<and> only_buffer s s'"
proof -
  have "length (concat (fst t)) < 200" using assms(4) by (simp add: body_of_def)
  moreover have "fst t \<noteq> [] \<or> snd t \<noteq> None" using assms(3) by (cases "snd t") (auto simp: body_of_def)
  ultimately obtain s2 r where s2: "run_steps (put_sentence (fst t) (snd t)) s = run_steps [finish_sentence] s2"
    "only_buffer s s2" "sentence s2 = take 199 (body_of t) @ NUL # r"
    using body_written [OF assms(1)] by blast
  have len: "length (sentence s2) = 200" using s2(2) assms(1) by (simp add: only_buffer_def)
  have take: "take 199 (body_of t) = body_of t" using assms(4) by simp
  obtain s3 where s3: "finish_sentence s2 = (None, s3\<lparr>nmea_cb_calls := nmea_cb_calls s2
      @ [(with_checksum (body_of t), int (length (body_of t)) + 4)]\<rparr>)" "only_buffer s2 s3"
    using finish_ok [OF s2(3) [unfolded take] len assms(2-4)] by blast
  have "nmea_cb_calls s2 = nmea_cb_calls s" "int (length (with_checksum (body_of t))) - 1 = int (length (body_of t)) + 4"
    using s2(2) by (simp_all add: only_buffer_def with_checksum_def)
  with s2(1) s3 only_buffer_trans [OF s2(2) s3(2)] show ?thesis
    by (intro exI [of _ s3]) simp
qed

text \<open>A sentence whose checked texts do not fit into the buffer is given up, with nothing sent. Otherwise
  it is sent with the checksum over all characters after the first, in hexadecimal, and the length
  that the callback is given is one less than that of the sentence; and the checksum is written past the
  end of the buffer exactly if the body is longer than 194 characters.\<close>
theorem nmea_sentence_outcome:
  assumes "length (sentence s) = 200" and "no_nul (body_of t)" and "body_of t \<noteq> ''''"
  shows "\<exists>s'. run_steps (put_sentence (fst t) (snd t)) s =
      (if 200 \<le> length (concat (fst t)) then (Some FormatError, s')
       else if 194 < length (body_of t) then (Some Overrun, s')
       else (None, s'\<lparr>nmea_cb_calls := nmea_cb_calls s
              @ [(with_checksum (body_of t), int (length (with_checksum (body_of t))) - 1)]\<rparr>))
    \<and> only_buffer s s'"
proof (cases "200 \<le> length (concat (fst t))")
  case True
  obtain s1 where s1: "start_sentence s = (None, s1)" "written s1 ''''" "only_buffer s s1"
    using put_sentence_start [OF assms(1)] by blast
  obtain s2 where s2: "run_steps (map emit (fst t)) s1 = (Some FormatError, s2)" "only_buffer s1 s2"
    using emits_too_long [OF s1(2), of "fst t"] True by auto
  have "run_steps (put_sentence (fst t) (snd t)) s = (Some FormatError, s2)"
    using s1(1) s2(1) by (simp add: put_sentence_eq)
  with True only_buffer_trans [OF s1(3) s2(2)] show ?thesis by simp
next
  case False
  show ?thesis
  proof (cases "194 < length (body_of t)")
    case True
    have "fst t \<noteq> [] \<or> snd t \<noteq> None" using assms(3) by (cases "snd t") (auto simp: body_of_def)
    with False obtain s2 r where s2: "run_steps (put_sentence (fst t) (snd t)) s = run_steps [finish_sentence] s2"
      "only_buffer s s2" "sentence s2 = take 199 (body_of t) @ NUL # r"
      using body_written [OF assms(1)] by (meson not_le)
    have len: "length (sentence s2) = 200" using s2(2) assms(1) by (simp add: only_buffer_def)
    have "no_nul (take 199 (body_of t))" using assms(2) in_set_takeD unfolding no_nul_def by fastforce
    moreover have "194 < length (take 199 (body_of t))" using True by simp
    ultimately have "finish_sentence s2 = (Some Overrun, s2)" using finish_overrun [OF s2(3) len] by blast
    with s2 False True show ?thesis by auto
  next
    case short: False
    with put_sentence_sent [OF assms] False show ?thesis by simp
  qed
qed

section \<open>Runs of sentences\<close>

definition fits :: "string list \<times> string option \<Rightarrow> bool" where
  "fits t \<longleftrightarrow> no_nul (body_of t) \<and> body_of t \<noteq> '''' \<and> length (body_of t) \<le> 194"

definition sent_as :: "string list \<times> string option \<Rightarrow> string \<times> int" where
  "sent_as t = (with_checksum (body_of t), int (length (with_checksum (body_of t))) - 1)"

lemma run_sentences:
  assumes "length (sentence s) = 200" and "\<forall>t \<in> set ts. fits t"
  shows "\<exists>s'. run_steps (concat (map (case_prod put_sentence) ts)) s =
      (None, s'\<lparr>nmea_cb_calls := nmea_cb_calls s @ map sent_as ts\<rparr>) \<and> only_buffer s s'"
  using assms
proof (induction ts arbitrary: s)
  case Nil
  have "s\<lparr>nmea_cb_calls := nmea_cb_calls s\<rparr> = s" by simp
  then show ?case by (intro exI [of _ s]) simp
next
  case (Cons t ts)
  obtain s1 where s1: "run_steps (put_sentence (fst t) (snd t)) s = (None, s1\<lparr>nmea_cb_calls := nmea_cb_calls s @ [sent_as t]\<rparr>)"
    "only_buffer s s1"
    using put_sentence_sent [OF Cons.prems(1), of t] Cons.prems(2) by (auto simp: fits_def sent_as_def)
  let ?s1 = "s1\<lparr>nmea_cb_calls := nmea_cb_calls s @ [sent_as t]\<rparr>"
  have "length (sentence ?s1) = 200" using s1(2) Cons.prems(1) by (simp add: only_buffer_def)
  with Cons.IH [of ?s1] Cons.prems(2) obtain s2 where
    s2: "run_steps (concat (map (case_prod put_sentence) ts)) ?s1 =
      (None, s2\<lparr>nmea_cb_calls := nmea_cb_calls ?s1 @ map sent_as ts\<rparr>)" "only_buffer ?s1 s2" by auto
  let ?s2 = "s2\<lparr>nmea_cb_calls := nmea_cb_calls s\<rparr>"
  have "only_buffer s ?s2" using s1(2) s2(2) by (simp add: only_buffer_def)
  with s1(1) s2(1) show ?case
    by (cases t) (intro exI [of _ ?s2], simp add: run_steps_append)
qed

section \<open>The used satellites\<close>

lemma drop_bit_Suc_bit: "bit (drop_bit (Suc 0) m) k = bit (m :: 32 word) (Suc k)"
  by (simp add: bit_drop_bit_eq)

lemma used_bits_shift:
  "filter (bit (m :: 32 word)) [0..<32] =
    (if m AND 1 \<noteq> 0 then [0] else []) @ map Suc (filter (bit (drop_bit 1 m)) [0..<32])"
proof -
  have "[0..<32] = 0 # map Suc [0..<31]" by (simp add: map_Suc_upt upt_conv_Cons [of 0 32])
  moreover have "filter (bit (drop_bit 1 m)) [0..<32] = filter (\<lambda>k. bit m (Suc k)) [0..<31]"
  proof -
    have "\<not> bit m 32" using bit_imp_le_length [of m 32] by auto
    moreover have "[0..<32] = [0..<31] @ [31 :: nat]" by (simp add: upt_Suc_append [of 0 31, simplified])
    moreover have "bit (drop_bit (Suc 0) m) = (\<lambda>k. bit m (Suc k))" by (rule ext) (simp add: drop_bit_Suc_bit)
    ultimately show ?thesis by (simp del: upt_Suc)
  qed
  moreover have "bit m 0 \<longleftrightarrow> m AND 1 \<noteq> 0" by (simp add: bit_0 and_one_eq odd_iff_mod_2_eq_one)
  ultimately show ?thesis by (simp add: filter_map comp_def del: upt_Suc)
qed

lemma sv_used_loop_eq:
  "c + length (filter (bit m) [0..<32]) \<le> 32 \<Longrightarrow>
    sv_used_loop i m c = map (\<lambda>k. i + of_nat k) (filter (bit m) [0..<32])"
proof (induction i m c rule: sv_used_loop.induct)
  case (1 i m c)
  let ?bits = "\<lambda>m :: 32 word. filter (bit m) [0..<32]"
  show ?case
  proof (cases "m = 0")
    case True
    then show ?thesis by (subst sv_used_loop.simps) simp
  next
    case False
    then have "0 < m" by (simp add: word_gt_0)
    obtain k where k: "bit m k" using False by (metis bit_eqI bit_0_eq bot_apply bot_bool_def)
    then have "k < 32" using bit_imp_le_length by fastforce
    with k have "k \<in> set (?bits m)" by simp
    then have "0 < length (?bits m)" by (auto simp del: set_filter)
    then have c: "c < 32" using 1(3) by linarith
    have shift: "map (\<lambda>k. i + of_nat k) (map Suc (?bits (drop_bit 1 m))) = map (\<lambda>k. i + 1 + of_nat k) (?bits (drop_bit 1 m))"
      by (simp add: comp_def)
    show ?thesis
    proof (cases "m AND 1 \<noteq> 0")
      case True
      have "c + 1 + length (?bits (drop_bit 1 m)) \<le> 32" using 1(3) True by (subst (asm) used_bits_shift) simp
      with 1(1) \<open>0 < m\<close> c True shift show ?thesis
        by (subst sv_used_loop.simps, subst used_bits_shift) simp
    next
      case False
      have "c + length (?bits (drop_bit 1 m)) \<le> 32" using 1(3) False by (subst (asm) used_bits_shift) simp
      with 1(2) \<open>0 < m\<close> c False shift show ?thesis
        by (subst sv_used_loop.simps, subst used_bits_shift) simp
    qed
  qed
qed

lemma length_bits: "length (filter (bit (m :: 32 word)) [0..<32]) \<le> 32"
  using length_filter_le [of "bit m" "[0..<32]"] by simp

text \<open>The loop lists the numbers of the bits that are set, from 1.\<close>

definition used_svs :: "32 word \<Rightarrow> nat list" where
  "used_svs m = map Suc (filter (bit m) [0..<32])"

lemma sv_used_loop_used_svs: "sv_used_loop 1 m 0 = map of_nat (used_svs m)"
  using sv_used_loop_eq [of 0 m 1] length_bits [of m] by (simp add: used_svs_def)

lemma length_used_svs: "length (used_svs m) \<le> 32"
  using length_bits [of m] by (simp add: used_svs_def)

lemma used_svs_range: "x \<in> set (used_svs m) \<Longrightarrow> 1 \<le> x \<and> x \<le> 32"
  by (auto simp: used_svs_def)

section \<open>The range of a time\<close>

lemma year_of_range:
  "year_of y d = (y', d') \<Longrightarrow> 0 \<le> d' \<and> d' < days_in_year y' \<and> (- 365 * k \<le> d \<longrightarrow> 0 \<le> k \<longrightarrow> y - k \<le> y')"
proof (induction y d arbitrary: k rule: year_of.induct)
  case (1 y d)
  have pos: "365 \<le> days_in_year z" for z by (simp add: days_in_year_def)
  consider "d < 0" | "\<not> d < 0" "days_in_year y \<le> d" | "\<not> d < 0" "\<not> days_in_year y \<le> d" by blast
  then show ?case
  proof cases
    case 1
    have "year_of (y - 1) (d + days_in_year (y - 1)) = (y', d')"
      using "1.prems" 1 by (subst (asm) year_of.simps) simp
    from "1.IH"(1) [OF 1 this, of "k - 1"] 1 pos [of "y - 1"] show ?thesis by auto
  next
    case 2
    have "year_of (y + 1) (d - days_in_year y) = (y', d')"
      using "1.prems" 2 by (subst (asm) year_of.simps) simp
    from "1.IH"(2) [OF 2 this, of 0] "1.IH"(2) [OF 2 this, of k] 2 show ?thesis by auto
  next
    case 3
    have "y' = y" "d' = d" using "1.prems" 3 by (subst (asm) year_of.simps; simp)+
    with 3 show ?thesis by auto
  qed
qed

lemma month_of_range:
  "month_of ms d = (n, d') \<Longrightarrow> 0 \<le> d \<Longrightarrow> d < sum_list ms \<Longrightarrow> \<forall>m \<in> set ms. m \<le> 31 \<Longrightarrow>
    0 \<le> n \<and> n < int (length ms) \<and> 0 \<le> d' \<and> d' < 31"
proof (induction ms arbitrary: d n)
  case (Cons m ms)
  show ?case
  proof (cases "d < m")
    case True
    with Cons show ?thesis by auto
  next
    case False
    then obtain n1 where n1: "month_of ms (d - m) = (n1, d')" "n = n1 + 1"
      using Cons.prems(1) by (auto split: prod.splits)
    from Cons.IH [OF n1(1)] Cons.prems False n1(2) show ?thesis by auto
  qed
qed simp

lemma gmtime_range:
  assumes "- (2 ^ 31) \<le> t"
  shows "0 \<le> tm_hour (gmtime t) \<and> tm_hour (gmtime t) < 24 \<and> 0 \<le> tm_min (gmtime t) \<and> tm_min (gmtime t) < 60
    \<and> 0 \<le> tm_sec (gmtime t) \<and> tm_sec (gmtime t) < 60 \<and> 1 \<le> tm_mday (gmtime t) \<and> tm_mday (gmtime t) \<le> 31
    \<and> 0 \<le> tm_mon (gmtime t) \<and> tm_mon (gmtime t) < 12 \<and> 0 \<le> tm_year (gmtime t)"
proof -
  obtain y yd where y: "year_of 1970 (t div 86400) = (y, yd)" by force
  obtain m d where m: "month_of (month_lengths y) yd = (m, d)" by force
  have "- 365 * 69 \<le> t div 86400" using assms by simp
  with year_of_range [OF y, of 69] have yr: "0 \<le> yd" "yd < days_in_year y" "1901 \<le> y" by auto
  have "sum_list (month_lengths y) = days_in_year y" "\<forall>l \<in> set (month_lengths y). l \<le> 31" "length (month_lengths y) = 12"
    by (auto simp: month_lengths_def days_in_year_def)
  with month_of_range [OF m] yr have "0 \<le> m" "m < 12" "0 \<le> d" "d < 31" by auto
  moreover have "0 \<le> x \<Longrightarrow> x < 86400 \<Longrightarrow> 0 \<le> x div 3600 \<and> x div 3600 < 24"
    "0 \<le> x \<Longrightarrow> x < 3600 \<Longrightarrow> 0 \<le> x div 60 \<and> x div 60 < 60" for x :: int
    by (auto simp: pos_imp_zdiv_nonneg_iff intro: zdiv_mono1 [of x "86399" 3600, simplified, THEN order.strict_trans1]
        zdiv_mono1 [of x "3599" 60, simplified, THEN order.strict_trans1])
  ultimately show ?thesis using y m yr by (simp add: gmtime_def)
qed

lemma utc_range: "- (2 ^ 31) \<le> time_t_of t"
  by (simp add: time_t_of_def)

section \<open>The lengths of the sentences\<close>

text \<open>The range of a \<open>float\<close>.\<close>

definition is_float :: "rat \<Rightarrow> bool" where
  "is_float x \<longleftrightarrow> \<bar>x\<bar> < 2 ^ 128"

lemma length_float:
  assumes "is_float x"
  shows "length (fixed 1 x) \<le> 43" "length (fixed 1 (x * (3600 / 1852))) \<le> 43" "length (fixed 1 (x * (36 / 10))) \<le> 43"
    "length (fixed 1 \<bar>x\<bar>) \<le> 43"
proof -
  have b: "\<bar>x\<bar> < 340282366920938463463374607431768211456" using assms by (simp add: is_float_def)
  have "\<bar>x\<bar> < 10 ^ Suc 39 - 1" "\<bar>x * (3600 / 1852)\<bar> < 10 ^ Suc 39 - 1" "\<bar>x * (36 / 10)\<bar> < 10 ^ Suc 39 - 1" "\<bar>\<bar>x\<bar>\<bar> < 10 ^ Suc 39 - 1"
    using b by (simp_all add: abs_mult)
  then show "length (fixed 1 x) \<le> 43" "length (fixed 1 (x * (3600 / 1852))) \<le> 43" "length (fixed 1 (x * (36 / 10))) \<le> 43"
    "length (fixed 1 \<bar>x\<bar>) \<le> 43"
    using length_fixed [of _ 39] by fastforce+
qed

definition wf_position :: "GpsLocation \<Rightarrow> GpsLocationExtended \<Rightarrow> bool" where
  "wf_position l ext \<longleftrightarrow> is_float (speed l) \<and> is_float (bearing l) \<and> is_float (altitudeMeanSeaLevel ext)
     \<and> is_float (magneticDeviation ext) \<and> is_float (ext_pdop ext) \<and> is_float (ext_hdop ext) \<and> is_float (ext_vdop ext)
     \<and> \<bar>altitude l - altitudeMeanSeaLevel ext\<bar> < 10 ^ 47"

definition wf_dop :: "(rat \<times> rat \<times> rat) option \<Rightarrow> bool" where
  "wf_dop d \<longleftrightarrow> (\<forall>(p, h, v) \<in> set_option d. is_float p \<and> is_float h \<and> is_float v)"

lemma wf_dops:
  "wf_position l ext \<Longrightarrow> is_float (pdop s) \<Longrightarrow> is_float (hdop s) \<Longrightarrow> is_float (vdop s) \<Longrightarrow> wf_dop (dops ext s)"
  by (simp add: wf_dop_def dops_def wf_position_def)

lemma length_concat_bound: "\<forall>x \<in> set xs. length x \<le> n \<Longrightarrow> length (concat xs) \<le> n * length xs"
  by (induction xs) auto

lemma length_used: "length (fmt_0d 2 (uint (b :: 8 word))) \<le> 3"
  using length_fmt_0d [of "uint b" 2 2] uint_bounded [of b] by simp

lemma fits_gpgsa:
  assumes "wf_dop dop"
  shows "fits (gpgsa used dop)"
proof -
  let ?svs = "map (\<lambda>i. if i < length used then fmt_0d 2 (uint (used ! i)) @ '','' else '','') [0..<12]"
  have "length (concat ?svs) \<le> 4 * length ?svs"
    by (rule length_concat_bound) (use length_used in \<open>auto simp: le_Suc_eq\<close>)
  then have "length (concat ?svs) \<le> 48" by simp
  moreover have "no_nul (concat ?svs)" by (auto simp: no_nul_def) (use no_nul_ints in \<open>auto simp: no_nul_def\<close>)
  moreover have "length (case dop of Some (p, h, v) \<Rightarrow> fixed 1 p @ '','' @ fixed 1 h @ '','' @ fixed 1 v | None \<Rightarrow> '',,'') \<le> 131"
  proof (cases dop)
    case (Some d)
    obtain p h v where d: "d = (p, h, v)" by (cases d)
    then have "is_float p" "is_float h" "is_float v" using assms Some by (simp_all add: wf_dop_def)
    then have "length (fixed 1 p) \<le> 43" "length (fixed 1 h) \<le> 43" "length (fixed 1 v) \<le> 43" using length_float by blast+
    then show ?thesis by (simp add: Some d)
  qed simp
  ultimately show ?thesis
    by (auto simp: fits_def body_of_def gpgsa_def fix_type_def split: option.split)
qed

lemma length_hms:
  "length (hms (utc_of l)) \<le> 6" "no_nul (hms t)"
proof -
  have two: "length (fmt_0d 2 x) \<le> 2" if "0 \<le> x" "x < 100" for x
    using length_fmt_0d [of x 1 2] that by (simp add: numeral_2_eq_2)
  have "length (fmt_0d 2 (tm_hour (utc_of l))) \<le> 2" "length (fmt_0d 2 (tm_min (utc_of l))) \<le> 2"
    "length (fmt_0d 2 (tm_sec (utc_of l))) \<le> 2"
    using gmtime_range [OF utc_range, of "c_div (loc_timestamp l) 1000"] two by (simp_all add: utc_of_def)
  then show "length (hms (utc_of l)) \<le> 6" by (simp add: hms_def)
qed (simp add: hms_def)

lemma length_minutes:
  assumes "0 \<le> x"
  shows "length (fixed_0 9 6 (fmod60 x)) \<le> 9"
proof -
  let ?m = "fmod60 x"
  have "of_int \<lfloor>x / 60\<rfloor> \<le> x / 60" "x / 60 < of_int \<lfloor>x / 60\<rfloor> + 1" by linarith+
  then have "0 \<le> ?m" "?m < 60" using assms by (simp_all add: fmod60_def field_simps)
  then show ?thesis using length_fixed_abs [of ?m 1 6] by (simp add: fixed_0_def)
qed

lemma length_lat_long: "length (lat_long_text l) \<le> 30" "no_nul (lat_long_text l)"
proof -
  have deg: "length (fmt_0d 2 (n mod 256)) \<le> 3" "length (fmt_0d 3 (n mod 256)) \<le> 3" for n
    using length_fmt_0d [of "n mod 256" 2 2] length_fmt_0d [of "n mod 256" 2 3] by (simp_all add: order.strict_trans [OF pos_mod_bound])
  let ?lat = "if 0 < latitude l then latitude l else latitude l * - 1"
  let ?long = "if longitude l < 0 then longitude l * - 1 else longitude l"
  have min: "length (fixed_0 9 6 (fmod60 (?lat * 60))) \<le> 9" "length (fixed_0 9 6 (fmod60 (?long * 60))) \<le> 9"
    by (rule length_minutes, simp)+
  show "length (lat_long_text l) \<le> 30"
  proof (cases "loc_flags l AND GPS_LOCATION_HAS_LAT_LONG \<noteq> 0")
    case True
    have eq: "lat_long_text l = fmt_0d 2 (\<lfloor>?lat\<rfloor> mod 256) @ fixed_0 9 6 (fmod60 (?lat * 60)) @ '','' @ (if 0 < latitude l then ''N'' else ''S'') @ '',''
        @ fmt_0d 3 (\<lfloor>?long\<rfloor> mod 256) @ fixed_0 9 6 (fmod60 (?long * 60)) @ '','' @ (if longitude l < 0 then ''W'' else ''E'') @ '',''"
      unfolding lat_long_text_def Let_def by (rule if_P [OF True])
    have "length (lat_long_text l) = length (fmt_0d 2 (\<lfloor>?lat\<rfloor> mod 256)) + length (fixed_0 9 6 (fmod60 (?lat * 60)))
        + length (fmt_0d 3 (\<lfloor>?long\<rfloor> mod 256)) + length (fixed_0 9 6 (fmod60 (?long * 60))) + 6"
      unfolding eq by simp
    with deg(1) [of "\<lfloor>?lat\<rfloor>"] deg(2) [of "\<lfloor>?long\<rfloor>"] min show ?thesis by linarith
  qed (simp add: lat_long_text_def)
  show "no_nul (lat_long_text l)" by (simp add: lat_long_text_def Let_def)
qed

lemma mode_indicator_1: "length (mode_indicator l mode) = 1" "no_nul (mode_indicator l mode)"
  by (simp_all add: mode_indicator_def)

lemma fits_gpvtg:
  assumes "wf_position l ext"
  shows "fits (gpvtg l ext mode)"
proof -
  have "is_float (bearing l)" "is_float (speed l)" using assms by (simp_all add: wf_position_def)
  note f = length_float(1) [OF this(1)] length_float(2,3) [OF this(2)]
  show ?thesis using f mode_indicator_1 [of l mode]
    by (auto simp: fits_def body_of_def gpvtg_def Let_def)
qed

lemma fits_gprmc:
  assumes "wf_position l ext"
  shows "fits (gprmc l ext mode)"
proof -
  have "is_float (bearing l)" "is_float (speed l)" "is_float (magneticDeviation ext)" using assms by (simp_all add: wf_position_def)
  note f = length_float(1) [OF this(1)] length_float(2) [OF this(2)] length_float(4) [OF this(3)]
  let ?t = "utc_of l"
  note r = gmtime_range [OF utc_range, of "c_div (loc_timestamp l) 1000", folded utc_of_def]
  then have "0 \<le> c_rem (tm_year ?t) 100" "c_rem (tm_year ?t) 100 < 100" by (simp_all add: c_rem_def)
  then have date: "length (fmt_2_2d (tm_mday ?t)) \<le> 2" "length (fmt_2_2d (tm_mon ?t + 1)) \<le> 2"
    "length (fmt_2_2d (c_rem (tm_year ?t) 100)) \<le> 2"
    using r by (simp_all add: length_fmt_2_2d)
  show ?thesis using f date mode_indicator_1 [of l mode] length_hms(1) [of l] length_hms(2) [of ?t] length_lat_long [of l]
    by (auto simp: fits_def body_of_def gprmc_def Let_def)
qed

lemma fits_gpgga:
  assumes "wf_position l ext" and "wf_dop dop" and "n \<le> 32"
  shows "fits (gpgga l ext mode n dop)"
proof -
  let ?q = "gps_quality l mode @ '','' @ fmt_0d 2 (int n)
         @ (case dop of Some (p, h, v) \<Rightarrow> '','' @ fixed 1 h @ '','' | None \<Rightarrow> '',,'')"
  have "length (fmt_0d 2 (int n)) \<le> 2" using length_fmt_0d [of "int n" 1 2] assms(3) by simp
  moreover have "length (case dop of Some (p, h, v) \<Rightarrow> '','' @ fixed 1 h @ '','' | None \<Rightarrow> '',,'') \<le> 45"
    using assms(2) length_float(1) by (fastforce simp: wf_dop_def split: option.split)
  ultimately have q: "length ?q \<le> 49" "no_nul ?q"
    by (simp_all add: gps_quality_def split: option.split)
  have f: "length (fixed 1 (altitudeMeanSeaLevel ext)) \<le> 43" using assms(1) length_float(1) by (simp add: wf_position_def)
  have "\<bar>altitude l - altitudeMeanSeaLevel ext\<bar> < 10 ^ Suc 47 - 1" using assms(1) by (simp add: wf_position_def)
  then have a: "length (fixed 1 (altitude l - altitudeMeanSeaLevel ext)) \<le> 51"
    using length_fixed [of "altitude l - altitudeMeanSeaLevel ext" 47] by simp
  show ?thesis using q f a length_hms(1) [of l] length_hms(2) [of "utc_of l"] length_lat_long [of l]
    by (auto simp: fits_def body_of_def gpgga_def)
qed

section \<open>Properties\<close>


section \<open>Satellite reports\<close>

text \<open>Satellites with numbers and angles of at most three digits.\<close>

definition wf_sv :: "GpsSvInfo \<Rightarrow> bool" where
  "wf_sv sv \<longleftrightarrow> prn sv \<in> {0..999} \<and> 0 \<le> elevation sv \<and> elevation sv < 999 \<and> 0 \<le> azimuth sv \<and> azimuth sv < 999 \<and> snr sv < 999"

text \<open>The sentences about satellites in view: four satellites each.\<close>

fun gsv_sentences :: "nat \<Rightarrow> int \<Rightarrow> int \<Rightarrow> int \<Rightarrow> GpsSvInfo list \<Rightarrow> (string list \<times> string option) list" where
  "gsv_sentences 0 i n svCount svs = []"
| "gsv_sentences (Suc k) i n svCount svs =
     ((''$GPGSV,'' @ dec n @ '','' @ dec i @ '','' @ fmt_0d 2 svCount) # concat (map sv_texts (take 4 svs)), None)
     # gsv_sentences k (i + 1) n svCount (drop 4 svs)"

lemma gpgsv_loop_sentences: "gpgsv_loop k i n svCount svs = concat (map (case_prod put_sentence) (gsv_sentences k i n svCount svs))"
  by (induction k i n svCount svs rule: gpgsv_loop.induct) simp_all

lemma to_int_range: "0 \<le> x \<Longrightarrow> x < 999 \<Longrightarrow> 0 \<le> to_int (1 / 2 + x) \<and> to_int (1 / 2 + x) < 1000"
  by (simp add: to_int_def floor_less_iff)

lemma sv_texts_length:
  assumes "wf_sv sv"
  shows "length (concat (sv_texts sv)) \<le> 16" "no_nul (concat (sv_texts sv))"
proof -
  have l: "length (fmt_0d w x) \<le> max w 3" if "0 \<le> x" "x < 1000" for w x
    using length_fmt_0d [of x 2 w] that by (simp add: numeral_3_eq_3)
  have "length (fmt_0d 2 (prn sv)) \<le> 3" "length (fmt_0d 2 (to_int (1 / 2 + elevation sv))) \<le> 3"
    "length (fmt_0d 3 (to_int (1 / 2 + azimuth sv))) \<le> 3"
    using assms l [of "prn sv" 2] l [of "to_int (1 / 2 + elevation sv)" 2] l [of "to_int (1 / 2 + azimuth sv)" 3]
      to_int_range [of "elevation sv"] to_int_range [of "azimuth sv"] by (simp_all add: wf_sv_def)
  moreover have "0 < snr sv \<Longrightarrow> length (fmt_0d 2 (to_int (1 / 2 + snr sv))) \<le> 3"
    using assms l [of "to_int (1 / 2 + snr sv)" 2] to_int_range [of "snr sv"] by (simp add: wf_sv_def)
  ultimately show "length (concat (sv_texts sv)) \<le> 16" by (auto simp: sv_texts_def)
  show "no_nul (concat (sv_texts sv))" by (simp add: sv_texts_def)
qed

lemma svs_texts_length:
  assumes "\<forall>sv \<in> set svs. wf_sv sv"
  shows "length (concat (concat (map sv_texts svs))) \<le> 16 * length svs" "no_nul (concat (concat (map sv_texts svs)))"
  using assms sv_texts_length by (induction svs) fastforce+

lemma fits_gsv:
  assumes "\<forall>sv \<in> set svs. wf_sv sv" and "0 \<le> i" "i + int k \<le> 1000" "0 \<le> n" "n < 1000" "0 \<le> svCount" "svCount < 1000"
    and "t \<in> set (gsv_sentences k i n svCount svs)"
  shows "fits t"
  using assms
proof (induction k i n svCount svs rule: gsv_sentences.induct)
  case (2 k i n svCount svs)
  have l: "length (dec x) \<le> 3" if "0 \<le> x" "x < 1000" for x
    using length_dec_pos [of x 2] that by (simp add: dec_def numeral_3_eq_3)
  have "length (fmt_0d 2 svCount) \<le> 3" using length_fmt_0d [of svCount 2 2] "2.prems" by (simp add: numeral_3_eq_3)
  moreover have "length (dec n) \<le> 3" "length (dec i) \<le> 3" using l "2.prems" by simp_all
  moreover have wf: "\<forall>sv \<in> set (take 4 svs). wf_sv sv" using "2.prems"(1) in_set_takeD by fastforce
  then have "length (concat (concat (map sv_texts (take 4 svs)))) \<le> 64" using svs_texts_length(1) [OF wf] by simp
  moreover have "no_nul (concat (concat (map sv_texts (take 4 svs))))" using svs_texts_length(2) [OF wf] .
  ultimately have "fits (((''$GPGSV,'' @ dec n @ '','' @ dec i @ '','' @ fmt_0d 2 svCount) # concat (map sv_texts (take 4 svs))), None)"
    by (simp add: fits_def body_of_def)
  moreover have "\<forall>sv \<in> set (drop 4 svs). wf_sv sv" using "2.prems"(1) in_set_dropD by fastforce
  ultimately show ?case using "2.IH" "2.prems" by auto
qed simp

text \<open>The sentences about the satellites in view: one for each four of them, or the empty one.\<close>

definition gsv_of :: "GpsSvStatus \<Rightarrow> (string list \<times> string option) list" where
  "gsv_of st =
     (if num_svs st \<le> 0 then [([], Some ''$GPGSV,1,1,0,'')]
      else gsv_sentences (nat ((num_svs st + 3) div 4)) 1 ((num_svs st + 3) div 4) (num_svs st)
        (take (nat (num_svs st)) (sv_list st)))"

lemma ceil_div_4: "x div 4 + (if x mod 4 \<noteq> 0 then 1 else 0) = (x + 3) div (4 :: int)"
  by presburger

lemma gpgsv_sentences: "gpgsv st = concat (map (case_prod put_sentence) (gsv_of st))"
  by (simp add: gpgsv_def gsv_of_def Let_def ceil_div_4 gpgsv_loop_sentences)

definition blank_of :: "GpsSvStatus \<Rightarrow> (string list \<times> string option) list" where
  "blank_of st = (if used_in_fix_mask st = 0 then map (\<lambda>t. ([], Some t)) blank_sentences else [])"

lemma length_gsv_sentences: "length (gsv_sentences k i n c svs) = k"
  by (induction k i n c svs rule: gsv_sentences.induct) simp_all

lemma fits_gsv_of:
  assumes "num_svs st < 1000" and "\<forall>sv \<in> set (take (nat (num_svs st)) (sv_list st)). wf_sv sv"
  shows "\<forall>t \<in> set (gsv_of st @ blank_of st). fits t"
proof -
  have "fits t" if "t \<in> set (gsv_of st)" for t
  proof (cases "num_svs st \<le> 0")
    case True
    with that show ?thesis by (simp add: gsv_of_def fits_def body_of_def)
  next
    case False
    let ?n = "(num_svs st + 3) div 4"
    have "0 \<le> ?n" "?n \<le> 250" using False assms(1) by simp_all
    then show ?thesis using that False assms fits_gsv [of "take (nat (num_svs st)) (sv_list st)" 1 "nat ?n" ?n "num_svs st" t]
      by (simp add: gsv_of_def)
  qed
  moreover have "fits t" if "t \<in> set (blank_of st)" for t
    using that by (auto simp: blank_of_def blank_sentences_def fits_def body_of_def split: if_splits)
  ultimately show ?thesis by auto
qed


section \<open>Witnesses\<close>

definition nmea0 :: nmea_state where
  "nmea0 = \<lparr>sentence = sentence0, pMarker = 0, lengthRemaining = 0, nmea_cb_calls = [], sv_used_mask = 5,
     pdop = 0, hdop = 0, vdop = 0\<rparr>"

lemma length_nmea0: "length (sentence nmea0) = 200"
  by (simp add: nmea0_def sentence0_def NMEA_SENTENCE_MAX_LENGTH_def)

theorem nmea_sentence_outcome_witness:
  "\<exists>s'. run_steps (put_sentence [] (Some ''$GPGSV,1,1,0,'')) nmea0 =
    (None, s'\<lparr>nmea_cb_calls := [(''$GPGSV,1,1,0,*65'' @ [CHR 0x0D, CHR 0x0A], 17)]\<rparr>) \<and> only_buffer nmea0 s'"
proof -
  have "with_checksum ''$GPGSV,1,1,0,'' = ''$GPGSV,1,1,0,*65'' @ [CHR 0x0D, CHR 0x0A]" by code_simp
  moreover have "no_nul (body_of ([], Some ''$GPGSV,1,1,0,''))" "body_of ([], Some ''$GPGSV,1,1,0,'') = ''$GPGSV,1,1,0,''"
    by (simp_all add: body_of_def)
  ultimately show ?thesis
    using nmea_sentence_outcome [OF length_nmea0, of "([], Some ''$GPGSV,1,1,0,'')"] by (simp add: nmea0_def)
qed

definition fix0 :: GpsLocation where
  "fix0 = \<lparr>loc_flags = 0x1F, position_source = 0, latitude = 605 / 12, longitude = - 3 / 4, altitude = 80, speed = 2,
     bearing = 90, accuracy = 5, loc_timestamp = 1356998400000, rawDataSize = 0, rawData = 0\<rparr>"

definition ext0 :: GpsLocationExtended where
  "ext0 = \<lparr>ext_flags = 7, altitudeMeanSeaLevel = 30, ext_pdop = 2, ext_hdop = 1, ext_vdop = 3, magneticDeviation = - 4\<rparr>"


text \<open>The texts of that report.\<close>

lemma nmea_position_texts:
  "map body_of [gpgsa [1, 3] (Some (2, 1, 3)), gpvtg fix0 ext0 LOC_POSITION_MODE_STANDALONE,
     gprmc fix0 ext0 LOC_POSITION_MODE_STANDALONE, gpgga fix0 ext0 LOC_POSITION_MODE_STANDALONE 2 (Some (2, 1, 3))] =
   [''$GPGSA,A,2,01,03,,,,,,,,,,,2.0,1.0,3.0'',
    ''$GPVTG,90.0,T,90.0,M,3.9,N,7.2,K,A'',
    ''$GPRMC,000000,A,5025.000000,N,00045.000000,W,3.9,90.0,010113,4.0,W,A'',
    ''$GPGGA,000000,5025.000000,N,00045.000000,W,1,02,1.0,30.0,M,50.0,M,,'']"
  by code_simp

definition sv0 :: GpsSvInfo where
  "sv0 = \<lparr>prn = 7, snr = 305 / 10, elevation = 45, azimuth = 120\<rparr>"

definition svs0 :: GpsSvStatus where
  "svs0 = \<lparr>num_svs = 5, sv_list = replicate 32 sv0, used_in_fix_mask = 0x40\<rparr>"


lemma nmea_satellite_texts:
  "map body_of (gsv_of svs0) =
   [''$GPGSV,2,1,05,07,45,120,31,07,45,120,31,07,45,120,31,07,45,120,31'', ''$GPGSV,2,2,05,07,45,120,31'']"
  by code_simp

section \<open>What the sentences show\<close>

text \<open>The magnetic track that is printed is the true one, whatever the deviation.\<close>

lemma magnetic_track_uncorrected:
  "loc_flags l AND GPS_LOCATION_HAS_BEARING \<noteq> 0 \<Longrightarrow>
    hd (fst (gpvtg l ext mode)) = ''$GPVTG,'' @ fixed 1 (bearing l) @ '',T,'' @ fixed 1 (bearing l) @ '',M,''"
  by (simp add: gpvtg_def)

text \<open>Minutes just below 60 are printed as 60.\<close>

lemma sixty_minutes: "fixed_0 9 6 (fmod60 (599999999999 / 10000000000)) = ''60.000000''"
  by code_simp

end
