(* ===== verification/Loc_Api_Adapter.thy ===== *)
theory Loc_Api_Adapter
  imports Loc_Eng_Facts Printf
begin

text \<open>
  The base class of the modem's adapter (\<open>gps/libloc_api_50001/LocApiAdapter.cpp\<close>): the helpers that
  print binary data, the reports of the modem as messages to the engine, and the choice of the adapter.

  \<^item> A buffer is a list of characters, data of the modem a list of bytes; an access outside is the fault
    \<open>None\<close>. A \<open>char\<close> is unsigned, as on the target.
  \<^item> \<open>ulp\<close> is whether the adapter was given a function to send to the ULP library. A message to an engine
    without a context is a fault.
\<close>

section \<open>Printing data\<close>

fun hexcode_loop :: "nat \<Rightarrow> nat \<Rightarrow> string \<Rightarrow> int \<Rightarrow> 8 word list \<Rightarrow> (nat \<times> string) option" where
  "hexcode_loop 0 i hexstring string_size data = Some (i, hexstring)"
| "hexcode_loop (Suc n) i hexstring string_size data =
     (if length data \<le> i then None
      else let ch = data ! i in
        if int i * 2 + 3 \<le> string_size
        then do {h \<leftarrow> snprintf (i * 2) 3 (fmt_02X ch) hexstring; hexcode_loop n (i + 1) h string_size data}
        else Some (i, hexstring))"

definition hexcode :: "string \<Rightarrow> int \<Rightarrow> 8 word list \<Rightarrow> int \<Rightarrow> (nat \<times> string) option" where
  "hexcode hexstring string_size data data_size = hexcode_loop (nat data_size) 0 hexstring string_size data"

definition put_digit :: "8 word \<Rightarrow> int \<Rightarrow> nat \<times> string \<Rightarrow> (nat \<times> string) option" where
  "put_digit d string_size res =
     (case res of (idxOutput, addr_string) \<Rightarrow>
        if d \<le> 9 \<and> int idxOutput < string_size - 1
        then if idxOutput < length addr_string
             then Some (idxOutput + 1, addr_string[idxOutput := char_of (unat d + 48)]) else None
        else Some res)"

fun decode_loop :: "nat \<Rightarrow> nat \<Rightarrow> int \<Rightarrow> 8 word list \<Rightarrow> nat \<times> string \<Rightarrow> (nat \<times> string) option" where
  "decode_loop 0 i string_size data res = Some res"
| "decode_loop (Suc n) i string_size data res =
     (if length data \<le> i then None
      else let ch = data ! i; low = ch AND 0x0F; hi = drop_bit 4 ch in
        do {res \<leftarrow> put_digit low string_size res; res \<leftarrow> put_digit hi string_size res;
            decode_loop n (i + 1) string_size data res})"

definition set_char :: "nat \<Rightarrow> char \<Rightarrow> string \<Rightarrow> string option" where
  "set_char i c s = (if i < length s then Some (s[i := c]) else None)"

definition decodeAddress :: "string option \<Rightarrow> int \<Rightarrow> 8 word list option \<Rightarrow> int \<Rightarrow> (nat \<times> string option) option" where
  "decodeAddress addr_string string_size data data_size =
     (case (data, addr_string) of
        (Some d, Some s) \<Rightarrow>
          if d = [] then None
          else if d ! 0 \<noteq> 0x91 then map_option (\<lambda>s. (0, Some s)) (set_char 0 NUL s)
          else do {(idxOutput, s) \<leftarrow> decode_loop (nat data_size - 1) 1 string_size d (0, s);
                   map_option (\<lambda>s. (idxOutput, Some s)) (set_char idxOutput NUL s)}
      | _ \<Rightarrow> Some (0, addr_string))"

section \<open>Reports of the modem\<close>

definition send_ulp_checked :: "ulp_msg \<Rightarrow> loc_eng_data \<Rightarrow> loc_eng_data option" where
  "send_ulp_checked m d = (if has_context d then Some (loc_ulp_msg_sender m d) else None)"

definition reportPosition ::
    "bool \<Rightarrow> GpsLocation \<Rightarrow> ptr \<Rightarrow> loc_sess_status \<Rightarrow> 32 word \<Rightarrow> loc_eng_data \<Rightarrow> loc_eng_data option" where
  "reportPosition ulp location locationExt status loc_technology_mask d =
     (let msg = LOC_ENG_MSG_REPORT_POSITION location locationExt status loc_technology_mask
      in if ulp then send_ulp_checked (ULP_REPORT msg) d else send_checked (Report msg) d)"

definition reportSv :: "bool \<Rightarrow> nat \<Rightarrow> loc_eng_data \<Rightarrow> loc_eng_data option" where
  "reportSv ulp svStatus d =
     (let msg = LOC_ENG_MSG_REPORT_SV svStatus
      in if ulp then send_ulp_checked (ULP_REPORT msg) d else send_checked (Report msg) d)"

definition reportStatus :: "GpsStatusValue \<Rightarrow> loc_eng_data \<Rightarrow> loc_eng_data option" where
  "reportStatus status d = send_checked (Report (LOC_ENG_MSG_REPORT_STATUS status)) d"

text \<open>The message copies \<open>length\<close> characters of the sentence.\<close>

definition reportNmea :: "string \<Rightarrow> int \<Rightarrow> loc_eng_data \<Rightarrow> loc_eng_data option" where
  "reportNmea nmea len d =
     (if len < 0 \<or> length nmea < nat len then None
      else send_checked (Report (LOC_ENG_MSG_REPORT_NMEA (take (nat len) nmea))) d)"

definition requestATL :: "32 word \<Rightarrow> AGpsType \<Rightarrow> loc_eng_data \<Rightarrow> loc_eng_data option" where
  "requestATL connHandle agps_type d = send_checked (Connection (LOC_ENG_MSG_REQUEST_ATL connHandle agps_type)) d"

definition releaseATL :: "32 word \<Rightarrow> loc_eng_data \<Rightarrow> loc_eng_data option" where
  "releaseATL connHandle d = send_checked (Connection (LOC_ENG_MSG_RELEASE_ATL connHandle)) d"

definition requestXtraData :: "loc_eng_data \<Rightarrow> loc_eng_data option" where
  "requestXtraData d = send_checked LOC_ENG_MSG_REQUEST_XTRA_DATA d"

definition requestTime :: "loc_eng_data \<Rightarrow> loc_eng_data option" where
  "requestTime d = send_checked LOC_ENG_MSG_REQUEST_TIME d"

definition requestLocation :: "loc_eng_data \<Rightarrow> loc_eng_data option" where
  "requestLocation d = Some d"

definition requestNiNotify :: "GpsNiNotification \<Rightarrow> ptr \<Rightarrow> loc_eng_data \<Rightarrow> loc_eng_data option" where
  "requestNiNotify notif data d =
     (let notif = notif\<lparr>timeout := LOC_NI_NO_RESPONSE_TIME\<rparr> in send_checked (LOC_ENG_MSG_REQUEST_NI notif data) d)"

definition handleEngineDownEvent :: "loc_eng_data \<Rightarrow> loc_eng_data option" where
  "handleEngineDownEvent d = send_checked LOC_ENG_MSG_ENGINE_DOWN d"

definition handleEngineUpEvent :: "loc_eng_data \<Rightarrow> loc_eng_data option" where
  "handleEngineUpEvent d = send_checked LOC_ENG_MSG_ENGINE_UP d"

text \<open>What the modem's library calls.\<close>

datatype modem_event =
    ReportPosition GpsLocation ptr loc_sess_status "32 word" | ReportSv nat | ReportStatus GpsStatusValue
  | ReportNmea string int | RequestATL "32 word" AGpsType | ReleaseATL "32 word" | RequestXtraData | RequestTime
  | RequestLocation | RequestNiNotify GpsNiNotification ptr | EngineDownEvent | EngineUpEvent

fun modem_exec :: "bool \<Rightarrow> modem_event \<Rightarrow> loc_eng_data \<Rightarrow> loc_eng_data option" where
  "modem_exec ulp (ReportPosition l ext status tech) d = reportPosition ulp l ext status tech d"
| "modem_exec ulp (ReportSv sv) d = reportSv ulp sv d"
| "modem_exec ulp (ReportStatus status) d = reportStatus status d"
| "modem_exec ulp (ReportNmea nmea len) d = reportNmea nmea len d"
| "modem_exec ulp (RequestATL h t) d = requestATL h t d"
| "modem_exec ulp (ReleaseATL h) d = releaseATL h d"
| "modem_exec ulp RequestXtraData d = requestXtraData d"
| "modem_exec ulp RequestTime d = requestTime d"
| "modem_exec ulp RequestLocation d = requestLocation d"
| "modem_exec ulp (RequestNiNotify notif p) d = requestNiNotify notif p d"
| "modem_exec ulp EngineDownEvent d = handleEngineDownEvent d"
| "modem_exec ulp EngineUpEvent d = handleEngineUpEvent d"

section \<open>The choice of the adapter\<close>

text \<open>\<open>dlopen\<close> of the two libraries and \<open>dlsym\<close> in the one that is found; \<open>make\<close> is what the library's function returns.\<close>

definition getLocApiAdapter :: "(string \<Rightarrow> 'lib option) \<Rightarrow> ('lib \<Rightarrow> string \<Rightarrow> adapter option option) \<Rightarrow> adapter option" where
  "getLocApiAdapter dlopen dlsym =
     (case (case dlopen ''libloc_api_v02.so'' of None \<Rightarrow> dlopen ''libloc_api-rpc-qc.so'' | h \<Rightarrow> h) of
        None \<Rightarrow> Some base_adapter
      | Some handle \<Rightarrow>
          (case dlsym handle ''_Z16getLocApiAdapterR6LocEng'' of None \<Rightarrow> None | Some made \<Rightarrow> made))"

section \<open>What the helpers print\<close>

definition hex :: "8 word list \<Rightarrow> string" where
  "hex bs = concat (map fmt_02X bs)"

lemma length_hex [simp]: "length (hex bs) = 2 * length bs"
  by (induction bs) (simp_all add: hex_def)

text \<open>The number of bytes that \<open>hexcode\<close> prints.\<close>

definition hex_count :: "int \<Rightarrow> int \<Rightarrow> nat" where
  "hex_count string_size data_size = min (nat data_size) (nat ((string_size - 1) div 2))"

lemma hexcode_loop_ok:
  assumes "i + n \<le> length data" and "2 * i + 2 * m < length hexstring" and "m = min n (nat ((string_size - 1) div 2) - i)"
    and "take (2 * i) hexstring = hex (take i data)" and "i = 0 \<or> hexstring ! (2 * i) = NUL"
  shows "\<exists>r. hexcode_loop n i hexstring string_size data = Some (i + m, r) \<and> length r = length hexstring
    \<and> take (2 * (i + m)) r = hex (take (i + m) data) \<and> (if i + m = 0 then r = hexstring else r ! (2 * (i + m)) = NUL)"
  using assms
proof (induction n arbitrary: i m hexstring)
  case 0
  then show ?case by auto
next
  case (Suc n)
  have i: "i < length data" using Suc.prems(1) by simp
  show ?case
  proof (cases "int i * 2 + 3 \<le> string_size")
    case False
    then have "nat ((string_size - 1) div 2) \<le> i" by linarith
    then have "m = 0" using Suc.prems(3) by simp
    with False Suc.prems i show ?thesis by auto
  next
    case True
    then have k: "i < nat ((string_size - 1) div 2)" by linarith
    define m' where "m' = min n (nat ((string_size - 1) div 2) - Suc i)"
    then have m: "m = Suc m'" "m' = min n (nat ((string_size - 1) div 2) - Suc i)" using k Suc.prems(3) by linarith+
    let ?h = "take (2 * i) hexstring @ fmt_02X (data ! i) @ NUL # drop (2 * i + 3) hexstring"
    have l: "2 * i + 3 \<le> length hexstring" using Suc.prems(2) m by simp
    have h: "snprintf (i * 2) 3 (fmt_02X (data ! i)) hexstring = Some ?h"
      using l by (simp add: snprintf_def Let_def mult.commute numeral_3_eq_3)
    have len: "length ?h = length hexstring" using l by simp
    have "take (2 * Suc i) ?h = take (2 * i) hexstring @ fmt_02X (data ! i)" using l by simp
    then have "take (2 * Suc i) ?h = hex (take (Suc i) data)"
      using i Suc.prems(4) by (simp add: take_Suc_conv_app_nth hex_def)
    moreover have "?h ! (2 * Suc i) = NUL" using l by (simp add: nth_append fmt_02X_def)
    ultimately obtain hx where hx: "snprintf (i * 2) 3 (fmt_02X (data ! i)) hexstring = Some hx" "length hx = length hexstring"
      "take (2 * Suc i) hx = hex (take (Suc i) data)" "Suc i = 0 \<or> hx ! (2 * Suc i) = NUL"
      using h len by blast
    have "Suc i + n \<le> length data" "2 * Suc i + 2 * m' < length hx" using Suc.prems(1,2) m(1) hx(2) by simp_all
    from Suc.IH [OF this m(2) hx(3,4)] obtain r where
      r: "hexcode_loop n (Suc i) hx string_size data = Some (Suc i + m', r)" "length r = length hx"
      "take (2 * (Suc i + m')) r = hex (take (Suc i + m') data)" "r ! (2 * (Suc i + m')) = NUL" by auto
    have "hexcode_loop (Suc n) i hexstring string_size data = Some (i + m, r)"
      using True i hx(1) r(1) m(1) by (simp add: Let_def)
    then show ?thesis using r(2-4) hx(2) m(1) by simp
  qed
qed

text \<open>The number of bytes that \<open>hexcode\<close> prints, and what it prints.\<close>

lemma hexcode_prints:
  assumes "data_size \<le> int (length data)" and "2 * hex_count string_size data_size < length hexstring"
  shows "\<exists>r. hexcode hexstring string_size data data_size = Some (hex_count string_size data_size, r)
    \<and> length r = length hexstring \<and> take (2 * hex_count string_size data_size) r = hex (take (hex_count string_size data_size) data)
    \<and> (if hex_count string_size data_size = 0 then r = hexstring else r ! (2 * hex_count string_size data_size) = NUL)"
proof -
  let ?c = "hex_count string_size data_size"
  have "nat data_size \<le> length data" "?c = min (nat data_size) (nat ((string_size - 1) div 2))"
    using assms(1) by (simp_all add: hex_count_def)
  then have "\<exists>r. hexcode_loop (nat data_size) 0 hexstring string_size data = Some (0 + ?c, r) \<and> length r = length hexstring
    \<and> take (2 * (0 + ?c)) r = hex (take (0 + ?c) data) \<and> (if 0 + ?c = 0 then r = hexstring else r ! (2 * (0 + ?c)) = NUL)"
    by (intro hexcode_loop_ok) (use assms(2) in \<open>simp_all add: hex_def\<close>)
  then show ?thesis unfolding hexcode_def add_0 .
qed

definition digit_char :: "8 word \<Rightarrow> char" where
  "digit_char d = char_of (unat d + 48)"

definition digits_of :: "8 word list \<Rightarrow> 8 word list" where
  "digits_of bs = concat (map (\<lambda>b. filter (\<lambda>d. d \<le> 9) [b AND 0x0F, drop_bit 4 b]) bs)"

text \<open>The state of the loop after the digits \<open>ds\<close>: as many as there is room for are in the string.\<close>

definition printed :: "int \<Rightarrow> nat \<Rightarrow> 8 word list \<Rightarrow> nat \<times> string \<Rightarrow> bool" where
  "printed string_size L ds res \<longleftrightarrow>
     (let lim = nat (string_size - 1) in fst res = min (length ds) lim \<and> length (snd res) = L
        \<and> take (fst res) (snd res) = map digit_char (take lim ds))"

lemma put_digit_printed:
  assumes "printed string_size L ds res" and "nat (string_size - 1) \<le> L"
  shows "\<exists>res'. put_digit d string_size res = Some res' \<and> printed string_size L (ds @ filter (\<lambda>d. d \<le> 9) [d]) res'"
proof (cases "d \<le> 9 \<and> int (fst res) < string_size - 1")
  case True
  then have k: "fst res = length ds" "length ds < nat (string_size - 1)" "fst res < length (snd res)"
    using assms by (auto simp: printed_def Let_def)
  then have "take (fst res + 1) ((snd res)[fst res := digit_char d]) = map digit_char (take (nat (string_size - 1)) (ds @ [d]))"
    using assms(1) by (simp add: printed_def Let_def take_Suc_conv_app_nth)
  then have "printed string_size L (ds @ [d]) (fst res + 1, (snd res)[fst res := digit_char d])"
    using assms(1) k by (simp add: printed_def Let_def)
  with True k show ?thesis by (cases res) (simp add: put_digit_def digit_char_def)
next
  case False
  then have "put_digit d string_size res = Some res" by (auto simp: put_digit_def split: prod.split)
  moreover have "printed string_size L (ds @ filter (\<lambda>d. d \<le> 9) [d]) res"
    using False assms(1) by (auto simp: printed_def Let_def)
  ultimately show ?thesis by blast
qed

lemma decode_loop_printed:
  assumes "printed string_size L ds res" and "nat (string_size - 1) \<le> L" and "i + n \<le> length data"
  shows "\<exists>res'. decode_loop n i string_size data res = Some res' \<and>
    printed string_size L (ds @ digits_of (take n (drop i data))) res'"
  using assms
proof (induction n arbitrary: i ds res)
  case (Suc n)
  let ?ch = "data ! i"
  obtain res1 where r1: "put_digit (?ch AND 0x0F) string_size res = Some res1"
      "printed string_size L (ds @ filter (\<lambda>d. d \<le> 9) [?ch AND 0x0F]) res1"
    using put_digit_printed [OF Suc.prems(1,2)] by blast
  obtain res2 where r2: "put_digit (drop_bit 4 ?ch) string_size res1 = Some res2"
      "printed string_size L ((ds @ filter (\<lambda>d. d \<le> 9) [?ch AND 0x0F]) @ filter (\<lambda>d. d \<le> 9) [drop_bit 4 ?ch]) res2"
    using put_digit_printed [OF r1(2) Suc.prems(2)] by blast
  obtain res3 where r3: "decode_loop n (i + 1) string_size data res2 = Some res3"
      "printed string_size L (((ds @ filter (\<lambda>d. d \<le> 9) [?ch AND 0x0F]) @ filter (\<lambda>d. d \<le> 9) [drop_bit 4 ?ch])
        @ digits_of (take n (drop (i + 1) data))) res3"
    using Suc.IH [OF r2(2) Suc.prems(2), of "i + 1"] Suc.prems(3) by auto
  have "take (Suc n) (drop i data) = ?ch # take n (drop (i + 1) data)"
    using Suc.prems(3) by (simp add: Cons_nth_drop_Suc [symmetric])
  then have "((ds @ filter (\<lambda>d. d \<le> 9) [?ch AND 0x0F]) @ filter (\<lambda>d. d \<le> 9) [drop_bit 4 ?ch])
        @ digits_of (take n (drop (i + 1) data)) = ds @ digits_of (take (Suc n) (drop i data))"
    by (simp add: digits_of_def)
  with r3(2) have "printed string_size L (ds @ digits_of (take (Suc n) (drop i data))) res3" by simp
  with r1(1) r2(1) r3(1) Suc.prems(3) show ?case by (simp add: Let_def)
qed (simp add: digits_of_def)

text \<open>An address as the modem packs it: two digits in a byte, the first in the low half, and \<open>0xF\<close> to fill up.\<close>

fun pack_digits :: "8 word list \<Rightarrow> 8 word list" where
  "pack_digits [] = []"
| "pack_digits [d] = [push_bit 4 0xF OR d]"
| "pack_digits (d # e # ds) = (push_bit 4 e OR d) # pack_digits ds"

lemma pack_byte:
  fixes d e :: "8 word"
  assumes "d \<le> 9" and "e \<le> 15"
  shows "(push_bit 4 e OR d) AND 0x0F = d" "drop_bit 4 (push_bit 4 e OR d) = e"
proof -
  have "unat d \<le> 9" "unat e \<le> 15" using assms by (simp_all add: word_le_nat_alt)
  then have d: "d = of_nat (unat d)" "unat d \<in> set [0..<10]" and e: "e = of_nat (unat e)" "unat e \<in> set [0..<16]" by simp_all
  have "\<forall>i \<in> set [0..<10]. \<forall>j \<in> set [0..<16]. (push_bit 4 (of_nat j) OR of_nat i :: 8 word) AND 0x0F = of_nat i
      \<and> drop_bit 4 (push_bit 4 (of_nat j) OR of_nat i :: 8 word) = of_nat j" by code_simp
  with d(2) e(2) show "(push_bit 4 e OR d) AND 0x0F = d" "drop_bit 4 (push_bit 4 e OR d) = e" by (metis d(1) e(1))+
qed

lemma digits_of_pack: "\<forall>d \<in> set ds. d \<le> 9 \<Longrightarrow> digits_of (pack_digits ds) = ds"
proof (induction ds rule: pack_digits.induct)
  case (2 d)
  with pack_byte [of d "0xF"] show ?case by (simp add: digits_of_def)
next
  case (3 d e ds)
  have "e \<le> 15" using 3(2) by (auto intro: order_trans)
  with 3 pack_byte [of d e] show ?case by (simp add: digits_of_def)
qed (simp add: digits_of_def)

lemma digits_le: "d \<in> set (digits_of bs) \<Longrightarrow> d \<le> 9"
  by (auto simp: digits_of_def split: if_splits)

lemma digits_no_nul: "no_nul (map digit_char (take k (digits_of bs)))"
proof -
  have "digit_char d \<noteq> NUL" if "d \<in> set (digits_of bs)" for d
  proof -
    have "unat d \<in> set [0..<10]" using digits_le [OF that] by (simp add: word_le_nat_alt)
    moreover have "\<forall>n \<in> set [0..<10]. char_of (n + 48) \<noteq> NUL" by code_simp
    ultimately show ?thesis unfolding digit_char_def by blast
  qed
  then show ?thesis unfolding no_nul_def by (metis (no_types, lifting) imageE in_set_takeD list.set_map)
qed

text \<open>An address is decoded to its digits, in order, as many as the buffer takes but for the terminator,
  whatever the other half-bytes; data with another first byte gives the empty string. No byte outside the data or
  the buffer is touched if the sizes are right.\<close>

lemma decode_address_correct:
  assumes "1 \<le> data_size" and "data_size \<le> int (length data)" and "1 \<le> string_size" and "string_size \<le> int (length addr)"
  shows "\<exists>n s. decodeAddress (Some addr) string_size (Some data) data_size = Some (n, Some s) \<and> length s = length addr \<and>
    c_str s = (if hd data = 0x91
      then map digit_char (take (nat (string_size - 1)) (digits_of (take (nat data_size - 1) (tl data)))) else '''') \<and>
    n = length (c_str s)"
proof -
  have ne: "data \<noteq> []" using assms(1,2) by auto
  then have hd: "data ! 0 = hd data" by (simp add: hd_conv_nth)
  show ?thesis
  proof (cases "hd data = 0x91")
    case False
    have "0 < length addr" using assms(3,4) by linarith
    then have "c_str (addr[0 := NUL]) = ''''" by (cases addr) (simp_all add: c_str_def)
    with False ne hd assms(3,4) show ?thesis by (auto simp: decodeAddress_def set_char_def)
  next
    case True
    let ?ds = "digits_of (take (nat data_size - 1) (drop 1 data))" and ?lim = "nat (string_size - 1)"
    have "printed string_size (length addr) [] (0, addr)" by (simp add: printed_def)
    moreover have "?lim \<le> length addr" "1 + (nat data_size - 1) \<le> length data" using assms by linarith+
    ultimately obtain n s where r: "decode_loop (nat data_size - 1) 1 string_size data (0, addr) = Some (n, s)"
      "printed string_size (length addr) ?ds (n, s)"
      using decode_loop_printed [of string_size "length addr" "[]" "(0, addr)" 1 "nat data_size - 1" data] by force
    then have n: "n = min (length ?ds) ?lim" "length s = length addr" "take n s = map digit_char (take ?lim ?ds)"
      unfolding printed_def Let_def fst_conv snd_conv by blast+
    have "n < length s" using n assms(3,4) by linarith
    then have s: "s[n := NUL] = map digit_char (take ?lim ?ds) @ NUL # drop (n + 1) s"
      using n(3) by (simp add: upd_conv_take_nth_drop)
    have "no_nul (map digit_char (take ?lim ?ds))" by (rule digits_no_nul)
    then have c: "c_str (s[n := NUL]) = map digit_char (take ?lim ?ds)" unfolding s by (rule c_str_append)
    have "decodeAddress (Some addr) string_size (Some data) data_size = Some (n, Some (s[n := NUL]))"
      using True hd ne r(1) \<open>n < length s\<close> by (simp add: decodeAddress_def set_char_def)
    with True c n \<open>n < length s\<close> ne show ?thesis by (auto simp: drop_Suc min_def)
  qed
qed

section \<open>Reading it back\<close>

definition hex_value :: "char \<Rightarrow> nat" where
  "hex_value c = (if of_char c < (65 :: nat) then of_char c - 48 else of_char c - 55)"

fun unhex :: "string \<Rightarrow> 8 word list" where
  "unhex (c # c' # s) = of_nat (16 * hex_value c + hex_value c') # unhex s"
| "unhex _ = []"

lemma hex_value_digit: "n < 16 \<Longrightarrow> hex_value (hex_digit n) = n"
  by (simp add: hex_value_def hex_digit_def)

lemma unhex_hex [simp]: "unhex (hex bs) = bs"
proof (induction bs)
  case (Cons b bs)
  have "unat b div 16 < 16" using unsigned_less [of b, where 'a = nat] by simp
  then have "unhex (fmt_02X b @ s) = b # unhex s" for s
    by (simp add: fmt_02X_def hex_value_digit)
  with Cons show ?case by (simp add: hex_def)
qed (simp add: hex_def)

text \<open>C40: what the modem packs as an address, two digits in a byte after the byte \<open>0x91\<close>, is decoded to just these
  digits if the buffer has room for them and the terminator, and to as many as it has room for otherwise; nothing is read
  behind the data or written behind the buffer.\<close>
theorem address_roundtrip:
  assumes "\<forall>d \<in> set ds. d \<le> 9" and "1 \<le> string_size" and "string_size \<le> int (length addr)"
  shows "\<exists>s. decodeAddress (Some addr) string_size (Some (0x91 # pack_digits ds)) (int (length (pack_digits ds)) + 1) =
      Some (min (length ds) (nat (string_size - 1)), Some s)
    \<and> length s = length addr \<and> c_str s = map digit_char (take (nat (string_size - 1)) ds)"
  using decode_address_correct [OF _ _ assms(2,3), of "int (length (pack_digits ds)) + 1" "0x91 # pack_digits ds"]
    digits_of_pack [OF assms(1)] by fastforce

theorem address_roundtrip_witness:
  "\<exists>s. decodeAddress (Some (replicate 16 CHR ''x'')) 16 (Some [0x91, 0x94, 0x17, 0xF5]) 4 = Some (5, Some s) \<and> c_str s = ''49715''"
proof -
  have "pack_digits [4, 9, 7, 1, 5] = [0x94, 0x17, 0xF5]" by code_simp
  moreover have "map digit_char [4, 9, 7, 1, 5] = ''49715''" by code_simp
  moreover have "\<forall>d \<in> set [4, 9, 7, 1, 5 :: 8 word]. d \<le> 9" by code_simp
  ultimately show ?thesis
    using address_roundtrip [of "[4, 9, 7, 1, 5]" 16 "replicate 16 CHR ''x''"] by auto
qed

text \<open>\<open>hexcode\<close> returns how many bytes it has printed, as many as there are and as the buffer has room for with the
  terminator, and the digits read back give these bytes; without any the buffer is as before.\<close>
theorem hexcode_roundtrip:
  assumes "data_size \<le> int (length data)" and "string_size \<le> int (length hexstring)"
  shows "\<exists>n r. hexcode hexstring string_size data data_size = Some (n, r)
    \<and> n = min (nat data_size) (nat ((string_size - 1) div 2)) \<and> length r = length hexstring
    \<and> (if n = 0 then r = hexstring else unhex (take (2 * n) r) = take n data \<and> r ! (2 * n) = NUL)"
proof (cases "hex_count string_size data_size = 0")
  case True
  have "hexcode hexstring string_size data data_size = Some (0, hexstring)"
  proof (cases "nat data_size = 0")
    case False
    then have "nat ((string_size - 1) div 2) = 0" using True by (simp add: hex_count_def min_def split: if_splits)
    then have "\<not> 3 \<le> string_size" by linarith
    moreover obtain k where "nat data_size = Suc k" using False not0_implies_Suc by blast
    moreover have "data \<noteq> []" using assms(1) False by auto
    ultimately show ?thesis by (simp add: hexcode_def)
  qed (simp add: hexcode_def)
  with True show ?thesis by (auto simp: hex_count_def)
next
  case False
  have "2 * hex_count string_size data_size < length hexstring"
    using False assms(2) unfolding hex_count_def by linarith
  from hexcode_prints [OF assms(1) this] obtain r where r: "hexcode hexstring string_size data data_size = Some (hex_count string_size data_size, r)"
    "length r = length hexstring" "take (2 * hex_count string_size data_size) r = hex (take (hex_count string_size data_size) data)"
    "r ! (2 * hex_count string_size data_size) = NUL"
    using False by auto
  have "unhex (take (2 * hex_count string_size data_size) r) = take (hex_count string_size data_size) data"
    unfolding r(3) by simp
  with r False show ?thesis
    by (intro exI [of _ "hex_count string_size data_size"] exI [of _ r]) (simp add: hex_count_def [symmetric])
qed

theorem hexcode_roundtrip_witness:
  "\<exists>r. hexcode (replicate 8 CHR ''x'') 8 [0x0A, 0xFF, 0x30, 0x31] 4 = Some (3, r) \<and> unhex (take 6 r) = [0x0A, 0xFF, 0x30] \<and> r ! 6 = NUL"
  using hexcode_roundtrip [of 4 "[0x0A, 0xFF, 0x30, 0x31]" 8 "replicate 8 CHR ''x''"] by (auto simp: min_def)

text \<open>Without data the string is not terminated; an empty address is read before its size is looked at.\<close>

lemma hexcode_unterminated: "hexcode ''xxxx'' 4 [] 0 = Some (0, ''xxxx'')"
  by (simp add: hexcode_def)

lemma decode_reads_first: "decodeAddress (Some s) n (Some []) 0 = None"
  by (simp add: decodeAddress_def)

section \<open>The queues that reports reach\<close>

text \<open>The message of an event, and whether it goes to the ULP library first.\<close>

fun event_msg :: "modem_event \<Rightarrow> loc_eng_msg option" where
  "event_msg (ReportPosition l ext status tech) = Some (Report (LOC_ENG_MSG_REPORT_POSITION l ext status tech))"
| "event_msg (ReportSv sv) = Some (Report (LOC_ENG_MSG_REPORT_SV sv))"
| "event_msg (ReportStatus status) = Some (Report (LOC_ENG_MSG_REPORT_STATUS status))"
| "event_msg (ReportNmea nmea len) = Some (Report (LOC_ENG_MSG_REPORT_NMEA (take (nat len) nmea)))"
| "event_msg (RequestATL h t) = Some (Connection (LOC_ENG_MSG_REQUEST_ATL h t))"
| "event_msg (ReleaseATL h) = Some (Connection (LOC_ENG_MSG_RELEASE_ATL h))"
| "event_msg RequestXtraData = Some LOC_ENG_MSG_REQUEST_XTRA_DATA"
| "event_msg RequestTime = Some LOC_ENG_MSG_REQUEST_TIME"
| "event_msg RequestLocation = None"
| "event_msg (RequestNiNotify notif p) = Some (LOC_ENG_MSG_REQUEST_NI (notif\<lparr>timeout := LOC_NI_NO_RESPONSE_TIME\<rparr>) p)"
| "event_msg EngineDownEvent = Some LOC_ENG_MSG_ENGINE_DOWN"
| "event_msg EngineUpEvent = Some LOC_ENG_MSG_ENGINE_UP"

fun through_ulp :: "modem_event \<Rightarrow> bool" where
  "through_ulp (ReportPosition l ext status tech) = True"
| "through_ulp (ReportSv sv) = True"
| "through_ulp _ = False"

lemmas modem_defs = reportPosition_def reportSv_def reportStatus_def reportNmea_def requestATL_def releaseATL_def
  requestXtraData_def requestTime_def requestLocation_def requestNiNotify_def handleEngineDownEvent_def
  handleEngineUpEvent_def send_checked_def send_ulp_checked_def Let_def

lemma modem_exec_queues:
  assumes "modem_exec ulp ev d = Some d'"
  shows "d' = (case event_msg ev of None \<Rightarrow> d
    | Some m \<Rightarrow> (case m of Report r \<Rightarrow> if ulp \<and> through_ulp ev then loc_ulp_msg_sender (ULP_REPORT r) d else loc_eng_msg_sender m d
        | _ \<Rightarrow> loc_eng_msg_sender m d))"
  using assms by (cases ev) (auto simp: modem_defs split: if_splits)

lemma modem_exec_engine:
  assumes "modem_exec ulp ev d = Some d'"
  shows "d' = d \<or> (\<exists>m. d' = loc_eng_msg_sender m d) \<or> (\<exists>m. d' = loc_ulp_msg_sender m d)"
  using modem_exec_queues [OF assms] by (auto split: option.splits loc_eng_msg.splits)

end
