(* ===== verification/Loc_Cfg.thy ===== *)
theory Loc_Cfg
  imports Loc_Msg Printf
begin

text \<open>
  The configuration file \<open>gps.conf\<close>: the parser of \<open>gps/utils/loc_cfg.cpp\<close> and the table of the
  engine's parameters in \<open>loc_eng.cpp\<close>.

  \<^item> A file is the string of its contents, or \<open>None\<close> if it cannot be opened. \<open>fgets\<close>, \<open>strtok_r\<close> with the
    delimiter \<open>=\<close>, \<open>strtol\<close>, \<open>atoi\<close> and \<open>atof\<close> are those of the C library in the C locale; \<open>long\<close> has 32 bits. \<open>atof\<close>
    is exact and reads decimal numbers; infinities, not-a-number and hexadecimal fractions are not modelled.
  \<^item> A pointer of the table is the store through it, with the type of what it points to. The parser stores an \<open>int\<close>
    through pointers to \<open>uint8_t\<close>: in \<open>gps_conf\<close> the other bytes go into padding. The parser's own two variables are
    bytes at the addresses of a \<open>layout\<close>, which the linker chooses, and the bytes behind them are overwritten.
  \<^item> A store through a pointer of another type than the entry says is the fault \<open>None\<close>.
\<close>

section \<open>The C library\<close>

fun fgets_take :: "nat \<Rightarrow> string \<Rightarrow> string \<times> string" where
  "fgets_take 0 s = ('''', s)"
| "fgets_take (Suc n) [] = ('''', [])"
| "fgets_take (Suc n) (c # s) = (if c = CHR 0x0A then ([c], s) else case fgets_take n s of (l, r) \<Rightarrow> (c # l, r))"

definition fgets :: "nat \<Rightarrow> string \<Rightarrow> (string \<times> string) option" where
  "fgets n s = (if s = [] then None else Some (fgets_take (n - 1) s))"

definition strtok_eq :: "string \<Rightarrow> (string \<times> string) option" where
  "strtok_eq s =
     (let s = dropWhile (\<lambda>c. c = CHR ''='') s
      in if s = [] then None
         else Some (takeWhile (\<lambda>c. c \<noteq> CHR ''='') s, drop 1 (dropWhile (\<lambda>c. c \<noteq> CHR ''='') s)))"

definition isspace :: "char \<Rightarrow> bool" where
  "isspace c \<longleftrightarrow> c = CHR '' '' \<or> c \<in> {CHR 0x09, CHR 0x0A, CHR 0x0B, CHR 0x0C, CHR 0x0D}"

definition digit_value :: "char \<Rightarrow> int" where
  "digit_value c =
     (let n = of_char c in
      if 48 \<le> n \<and> n \<le> 57 then n - 48 else if 97 \<le> n \<and> n \<le> 122 then n - 87
      else if 65 \<le> n \<and> n \<le> 90 then n - 55 else 36)"

definition read_digits :: "int \<Rightarrow> string \<Rightarrow> int" where
  "read_digits base s = foldl (\<lambda>a c. a * base + digit_value c) 0 s"

definition sign_of :: "string \<Rightarrow> int \<times> string" where
  "sign_of s = (case s of c # r \<Rightarrow> if c = CHR ''-'' then (- 1, r) else if c = CHR ''+'' then (1, r) else (1, s) | [] \<Rightarrow> (1, s))"

definition LONG_MAX :: int where "LONG_MAX = 0x7FFFFFFF"

definition strtol :: "string \<Rightarrow> int \<Rightarrow> int" where
  "strtol s base =
     (case sign_of (dropWhile isspace s) of (sign, s) \<Rightarrow>
        let s = (if base = 16 \<and> (take 2 s = ''0x'' \<or> take 2 s = ''0X'') then drop 2 s else s);
            v = sign * read_digits base (takeWhile (\<lambda>c. digit_value c < base) s)
        in max (- LONG_MAX - 1) (min LONG_MAX v))"

definition atoi :: "string \<Rightarrow> int" where
  "atoi s = strtol s 10"

abbreviation digits_prefix :: "string \<Rightarrow> string" where
  "digits_prefix \<equiv> takeWhile (\<lambda>c. digit_value c < 10)"

definition atof :: "string \<Rightarrow> rat" where
  "atof s =
     (case sign_of (dropWhile isspace s) of (sign, s) \<Rightarrow>
        let ints = digits_prefix s; s = drop (length ints) s;
            frac = (case s of c # r \<Rightarrow> if c = CHR ''.'' then digits_prefix r else '''' | [] \<Rightarrow> '''');
            s = (case s of c # r \<Rightarrow> if c = CHR ''.'' then drop (length frac) r else s | [] \<Rightarrow> s);
            expo = (case s of c # r \<Rightarrow> if c \<in> set ''eE''
                      then (case sign_of r of (sg, r) \<Rightarrow> sg * read_digits 10 (digits_prefix r)) else 0 | [] \<Rightarrow> 0);
            n = of_int (sign * read_digits 10 (ints @ frac)); k = expo - int (length frac)
        in if 0 \<le> k then n * 10 ^ nat k else n / 10 ^ nat (- k))"

section \<open>Trimming\<close>

text \<open>The loop of \<open>trim_space\<close> in the buffer; \<open>scan\<close> and \<open>write\<close> are the two pointers, \<open>seen\<close> whether a character
  that is no space has been seen, and \<open>stop\<close> where the text has to be cut.\<close>

function trim_loop :: "string \<Rightarrow> nat \<Rightarrow> nat \<Rightarrow> bool \<Rightarrow> nat option \<Rightarrow> (string \<times> nat option) option" where
  "trim_loop buf scan write seen stop =
     (if length buf \<le> scan then None
      else if buf ! scan = NUL then Some (buf, stop)
      else let c = buf ! scan; seen = (seen \<or> \<not> isspace c) in
        if seen
        then trim_loop (buf[write := c]) (scan + 1) (write + 1) seen (if \<not> isspace c then Some (write + 1) else stop)
        else trim_loop buf (scan + 1) write seen stop)"
  by pat_completeness auto
termination by (relation "measure (\<lambda>(buf, scan, write, seen, stop). length buf - scan)") auto

declare trim_loop.simps [simp del]

definition trim_space :: "string \<Rightarrow> string option" where
  "trim_space buf =
     map_option (\<lambda>(buf, stop). case stop of None \<Rightarrow> buf | Some l \<Rightarrow> buf[l := NUL]) (trim_loop buf 0 0 False None)"

section \<open>The table and the parser\<close>

definition LOC_MAX_PARAM_STRING :: nat where "LOC_MAX_PARAM_STRING = 80"
definition LOC_MAX_PARAM_LINE :: nat where "LOC_MAX_PARAM_LINE = 80"

record cfg_mem =
  conf :: loc_gps_cfg
  statics :: "nat \<Rightarrow> 8 word"
  loc_logger :: "32 word \<times> 32 word"

record layout =
  addr_DEBUG_LEVEL :: nat
  addr_TIMESTAMP :: nat

datatype param_ptr =
    IntAt "32 word \<Rightarrow> cfg_mem \<Rightarrow> cfg_mem"
  | DoubleAt "rat \<Rightarrow> cfg_mem \<Rightarrow> cfg_mem"
  | StringAt "string \<Rightarrow> cfg_mem \<Rightarrow> cfg_mem"

record loc_param =
  param_name :: string
  param_ptr :: "param_ptr option"
  param_set :: "(8 word \<Rightarrow> cfg_mem \<Rightarrow> cfg_mem) option"
  param_type :: char

record loc_param_v =
  v_name :: string
  param_str_value :: string
  param_int_value :: "32 word"
  param_double_value :: rat

definition mark_set :: "8 word \<Rightarrow> loc_param \<Rightarrow> cfg_mem \<Rightarrow> cfg_mem" where
  "mark_set b entry m = (case param_set entry of None \<Rightarrow> m | Some f \<Rightarrow> f b m)"

definition loc_set_config_entry :: "loc_param option \<Rightarrow> loc_param_v option \<Rightarrow> cfg_mem \<Rightarrow> cfg_mem option" where
  "loc_set_config_entry config_entry config_value m =
     (case (config_entry, config_value) of
        (Some entry, Some v) \<Rightarrow>
          if param_name entry = v_name v then
            (case param_ptr entry of
               None \<Rightarrow> Some m
             | Some p \<Rightarrow>
                 if param_type entry = CHR ''s'' then
                   (case p of StringAt f \<Rightarrow>
                      Some (mark_set 1 entry (if param_str_value v = ''NULL'' then f '''' m
                        else f (strlcpy (param_str_value v) (LOC_MAX_PARAM_STRING + 1)) m)) | _ \<Rightarrow> None)
                 else if param_type entry = CHR ''n'' then
                   (case p of IntAt f \<Rightarrow> Some (mark_set 1 entry (f (param_int_value v) m)) | _ \<Rightarrow> None)
                 else if param_type entry = CHR ''f'' then
                   (case p of DoubleAt f \<Rightarrow> Some (mark_set 1 entry (f (param_double_value v) m)) | _ \<Rightarrow> None)
                 else Some m)
          else Some m
      | _ \<Rightarrow> Some m)"

text \<open>A store of an \<open>int\<close> at an address, the low byte first.\<close>

definition store_int :: "nat \<Rightarrow> 32 word \<Rightarrow> (nat \<Rightarrow> 8 word) \<Rightarrow> nat \<Rightarrow> 8 word" where
  "store_int a v b = b(a := ucast v, a + 1 := ucast (drop_bit 8 v), a + 2 := ucast (drop_bit 16 v), a + 3 := ucast (drop_bit 24 v))"

definition loc_logger_init :: "32 word \<Rightarrow> 32 word \<Rightarrow> cfg_mem \<Rightarrow> cfg_mem" where
  "loc_logger_init debug timestamp m = m\<lparr>loc_logger := (debug, timestamp)\<rparr>"

definition cfg_parameter_table :: "layout \<Rightarrow> loc_param list" where
  "cfg_parameter_table lay =
     [\<lparr>param_name = ''DEBUG_LEVEL'', param_ptr = Some (IntAt (\<lambda>v m. m\<lparr>statics := store_int (addr_DEBUG_LEVEL lay) v (statics m)\<rparr>)),
       param_set = None, param_type = CHR ''n''\<rparr>,
      \<lparr>param_name = ''TIMESTAMP'', param_ptr = Some (IntAt (\<lambda>v m. m\<lparr>statics := store_int (addr_TIMESTAMP lay) v (statics m)\<rparr>)),
       param_set = None, param_type = CHR ''n''\<rparr>]"

definition cfg_default_parameters :: "layout \<Rightarrow> cfg_mem \<Rightarrow> cfg_mem" where
  "cfg_default_parameters lay m =
     (let m = m\<lparr>statics := (statics m)(addr_DEBUG_LEVEL lay := 3)\<rparr>; m = m\<lparr>statics := (statics m)(addr_TIMESTAMP lay := 0)\<rparr>
      in loc_logger_init (ucast (statics m (addr_DEBUG_LEVEL lay))) (ucast (statics m (addr_TIMESTAMP lay))) m)"

text \<open>The value of a line. \<open>tolower\<close> of the second character is \<open>x\<close> for both letters.\<close>

definition parse_value :: "string \<Rightarrow> string \<Rightarrow> loc_param_v" where
  "parse_value name s =
     (let v = \<lparr>v_name = name, param_str_value = s, param_int_value = 0, param_double_value = 0\<rparr>
      in if take 1 s = ''0'' \<and> (take 1 (drop 1 s) = ''x'' \<or> take 1 (drop 1 s) = ''X'')
         then v\<lparr>param_int_value := word_of_int (strtol (drop 2 s) 16)\<rparr>
         else v\<lparr>param_double_value := atof s, param_int_value := word_of_int (atoi s)\<rparr>)"

definition trimmed :: "string \<Rightarrow> string option" where
  "trimmed s = map_option c_str (trim_space (s @ [NUL]))"

fun set_entries :: "loc_param list \<Rightarrow> loc_param_v \<Rightarrow> cfg_mem \<Rightarrow> cfg_mem option" where
  "set_entries [] v m = Some m"
| "set_entries (entry # table) v m = do {m \<leftarrow> loc_set_config_entry (Some entry) (Some v) m; set_entries table v m}"

text \<open>One line of the file, as it is in \<open>input_buf\<close>.\<close>

definition conf_line :: "loc_param list \<Rightarrow> string \<Rightarrow> cfg_mem \<Rightarrow> cfg_mem option" where
  "conf_line table input_buf m =
     (case strtok_eq (c_str input_buf) of
        None \<Rightarrow> Some m
      | Some (name, lasts) \<Rightarrow>
          (case strtok_eq lasts of
             None \<Rightarrow> Some m
           | Some (str_value, lasts) \<Rightarrow>
               do {name \<leftarrow> trimmed name; str_value \<leftarrow> trimmed str_value; set_entries table (parse_value name str_value) m}))"

lemma fgets_take_append: "fgets_take n s = (l, r) \<Longrightarrow> s = l @ r"
  by (induction n s arbitrary: l r rule: fgets_take.induct) (auto split: if_splits prod.splits)

lemma fgets_take_nonempty: "fgets_take (Suc n) s = (l, r) \<Longrightarrow> s \<noteq> [] \<Longrightarrow> l \<noteq> []"
  by (cases s) (auto split: if_splits prod.splits)

lemma fgets_shorter: "fgets LOC_MAX_PARAM_LINE s = Some (l, r) \<Longrightarrow> length r < length s"
proof -
  assume f: "fgets LOC_MAX_PARAM_LINE s = Some (l, r)"
  then have t: "fgets_take (LOC_MAX_PARAM_LINE - 1) s = (l, r)" "s \<noteq> []" by (simp_all add: fgets_def split: if_splits)
  have "LOC_MAX_PARAM_LINE - 1 = Suc (LOC_MAX_PARAM_LINE - 2)" by (simp add: LOC_MAX_PARAM_LINE_def)
  then have "l \<noteq> []" using fgets_take_nonempty [OF _ t(2)] t(1) by metis
  with fgets_take_append [OF t(1)] show ?thesis by simp
qed

function read_lines :: "loc_param list \<Rightarrow> string \<Rightarrow> cfg_mem \<Rightarrow> cfg_mem option" where
  "read_lines table gps_conf_fp m =
     (case fgets LOC_MAX_PARAM_LINE gps_conf_fp of
        None \<Rightarrow> Some m
      | Some (input_buf, gps_conf_fp') \<Rightarrow> do {m \<leftarrow> conf_line table (input_buf @ [NUL]) m; read_lines table gps_conf_fp' m})"
  by pat_completeness auto

termination by (relation "measure (\<lambda>(table, s, m). length s)") (auto dest: fgets_shorter)

declare read_lines.simps [simp del]

definition loc_read_conf :: "layout \<Rightarrow> string option \<Rightarrow> loc_param list \<Rightarrow> cfg_mem \<Rightarrow> cfg_mem option" where
  "loc_read_conf lay file config_table m =
     (let m = cfg_default_parameters lay m in
      case file of
        None \<Rightarrow> Some m
      | Some content \<Rightarrow>
          do {m \<leftarrow> read_lines (config_table @ cfg_parameter_table lay) content (fold (mark_set 0) config_table m);
              Some (loc_logger_init (ucast (statics m (addr_DEBUG_LEVEL lay))) (ucast (statics m (addr_TIMESTAMP lay))) m)})"

section \<open>Trimming is what it should be\<close>

text \<open>What the trimmed text should be; a text of spaces only stays as it is.\<close>

definition trim :: "string \<Rightarrow> string" where
  "trim s = (if list_all isspace s then s else rev (dropWhile isspace (rev (dropWhile isspace s))))"

lemma trim_loop_copy:
  assumes "no_nul rest"
  shows "\<exists>x. length x = Suc (length mid + length r) \<and>
    trim_loop (w @ mid @ rest @ NUL # r) (length w + length mid) (length w) True stop =
      Some (w @ rest @ x, if list_all isspace rest then stop else Some (length w + length (dropWhile isspace (rev rest))))"
  using assms
proof (induction rest arbitrary: w mid stop)
  case Nil
  have "trim_loop (w @ mid @ NUL # r) (length w + length mid) (length w) True stop = Some (w @ mid @ NUL # r, stop)"
    by (subst trim_loop.simps) (simp add: nth_append)
  then show ?case by (intro exI [of _ "mid @ NUL # r"]) simp
next
  case (Cons c rest)
  let ?buf = "w @ mid @ (c # rest) @ NUL # r" and ?stop = "if \<not> isspace c then Some (length w + 1) else stop"
  obtain mid' where mid': "?buf[length w := c] = (w @ [c]) @ mid' @ rest @ NUL # r" "length mid' = length mid"
    by (cases mid) (auto simp: list_update_append intro: that [of "ms @ [c]" for ms])
  have "trim_loop ?buf (length w + length mid) (length w) True stop =
      trim_loop (?buf[length w := c]) (length w + length mid + 1) (length w + 1) True ?stop"
    using Cons.prems by (subst trim_loop.simps) (simp add: nth_append Let_def)
  also have "\<dots> = trim_loop ((w @ [c]) @ mid' @ rest @ NUL # r) (length (w @ [c]) + length mid') (length (w @ [c])) True ?stop"
    by (simp only: mid') simp
  finally have step: "trim_loop ?buf (length w + length mid) (length w) True stop =
      trim_loop ((w @ [c]) @ mid' @ rest @ NUL # r) (length (w @ [c]) + length mid') (length (w @ [c])) True ?stop" .
  obtain x where x: "length x = Suc (length mid' + length r)"
    "trim_loop ((w @ [c]) @ mid' @ rest @ NUL # r) (length (w @ [c]) + length mid') (length (w @ [c])) True ?stop =
      Some ((w @ [c]) @ rest @ x, if list_all isspace rest then ?stop else Some (length (w @ [c]) + length (dropWhile isspace (rev rest))))"
    using Cons.IH [of mid' "w @ [c]" ?stop] Cons.prems unfolding no_nul_simps by blast
  have "dropWhile isspace (rev (c # rest)) = (if list_all isspace rest then dropWhile isspace [c] else dropWhile isspace (rev rest) @ [c])"
    by (auto simp: dropWhile_append list_all_iff)
  then have "(if list_all isspace rest then ?stop else Some (length (w @ [c]) + length (dropWhile isspace (rev rest)))) =
      (if list_all isspace (c # rest) then stop else Some (length w + length (dropWhile isspace (rev (c # rest)))))"
    by (auto simp: list_all_iff)
  then show ?case using step x mid'(2) by (intro exI [of _ x]) simp
qed

lemma trim_loop_spaces:
  assumes "list_all isspace sp"
  shows "trim_loop (pre @ sp @ rest) (length pre) w False stop = trim_loop (pre @ sp @ rest) (length pre + length sp) w False stop"
  using assms
proof (induction sp arbitrary: pre)
  case (Cons c sp)
  have "c \<noteq> NUL" using Cons.prems by (auto simp: isspace_def)
  then have "trim_loop (pre @ (c # sp) @ rest) (length pre) w False stop = trim_loop ((pre @ [c]) @ sp @ rest) (length (pre @ [c])) w False stop"
    using Cons.prems by (subst trim_loop.simps) (simp add: nth_append Let_def)
  with Cons.IH [of "pre @ [c]"] Cons.prems show ?case by simp
qed simp

lemma split_spaces:
  assumes "\<not> list_all isspace s"
  obtains sp c t where "s = sp @ c # t" "list_all isspace sp" "\<not> isspace c" "dropWhile isspace s = c # t"
proof -
  obtain c t where ct: "dropWhile isspace s = c # t"
    using assms by (cases "dropWhile isspace s") (auto simp: dropWhile_eq_Nil_conv list_all_iff)
  have "s = takeWhile isspace s @ c # t" using ct by (metis takeWhile_dropWhile_id)
  moreover have "\<not> isspace c" using ct by (metis hd_dropWhile list.distinct(1) list.sel(1))
  moreover have "list_all isspace (takeWhile isspace s)" by (auto simp: list_all_iff dest: set_takeWhileD)
  ultimately show ?thesis using that ct by blast
qed

lemma trim_space_trim:
  assumes "no_nul s"
  shows "\<exists>buf. trim_space (s @ NUL # r) = Some buf \<and> length buf = Suc (length s + length r) \<and> c_str buf = trim s"
proof (cases "list_all isspace s")
  case True
  have "trim_loop (s @ NUL # r) 0 0 False None = trim_loop (s @ NUL # r) (length s) 0 False None"
    using trim_loop_spaces [OF True, of "[]" "NUL # r" 0 None] by simp
  also have "\<dots> = Some (s @ NUL # r, None)" by (subst trim_loop.simps) simp
  finally have "trim_space (s @ NUL # r) = Some (s @ NUL # r)" by (simp add: trim_space_def)
  with True assms show ?thesis by (simp add: trim_def)
next
  case False
  then obtain sp c t where s: "s = sp @ c # t" "list_all isspace sp" "\<not> isspace c" "dropWhile isspace s = c # t"
    by (rule split_spaces)
  let ?buf = "s @ NUL # r" and ?k = "length (dropWhile isspace (rev (c # t)))"
  have c: "c \<noteq> NUL" "no_nul t" using assms by (simp_all add: s(1))
  obtain mid where mid: "?buf[0 := c] = [c] @ mid @ t @ NUL # r" "length mid = length sp"
    by (cases sp) (auto simp: s(1) list_update_append intro: that [of "ms @ [c]" for ms])
  have "trim_loop ?buf 0 0 False None = trim_loop ?buf (length sp) 0 False None"
    using trim_loop_spaces [OF s(2), of "[]" "(c # t) @ NUL # r" 0 None] by (simp add: s(1))
  also have "\<dots> = trim_loop (?buf[0 := c]) (length sp + 1) 1 True (Some 1)"
    using c s(3) by (subst trim_loop.simps) (simp add: s(1) nth_append Let_def)
  also have "\<dots> = trim_loop ([c] @ mid @ t @ NUL # r) (length [c] + length mid) (length [c]) True (Some 1)"
    by (simp only: mid) simp
  finally obtain x where x: "length x = Suc (length mid + length r)"
    "trim_loop ?buf 0 0 False None = Some ([c] @ t @ x, if list_all isspace t then Some 1 else Some (length [c] + length (dropWhile isspace (rev t))))"
    using trim_loop_copy [OF c(2), of mid r "[c]" "Some 1"] by auto
  have k: "(if list_all isspace t then Some 1 else Some (length [c] + length (dropWhile isspace (rev t)))) = Some ?k"
    using s(3) by (auto simp: dropWhile_append list_all_iff)
  have le: "?k \<le> length (c # t)" using length_dropWhile_le [of isspace "rev (c # t)"] by simp
  have take: "take ?k (c # t) = rev (dropWhile isspace (rev (c # t)))"
    by (metis append_eq_conv_conj length_rev rev_append rev_rev_ident takeWhile_dropWhile_id)
  let ?res = "((c # t) @ x)[?k := NUL]"
  have res: "trim_space ?buf = Some ?res" using x(2) k by (simp add: trim_space_def)
  have "?k < length ((c # t) @ x)" using le x(1) by simp
  then have "?res = take ?k ((c # t) @ x) @ NUL # drop (Suc ?k) ((c # t) @ x)" by (rule upd_conv_take_nth_drop)
  then have "?res = take ?k (c # t) @ NUL # drop (Suc ?k) ((c # t) @ x)" using le by (simp only: take_append diff_is_0_eq' take_0 append_Nil2)
  moreover have "no_nul (take ?k (c # t))" using c by (auto simp: no_nul_def dest: in_set_takeD)
  ultimately have "c_str ?res = take ?k (c # t)" by (simp only: c_str_append)
  then have "c_str ?res = trim s" using take False s(4) by (simp add: trim_def)
  moreover have "length ?res = Suc (length s + length r)" unfolding length_list_update using x(1) mid(2) by (simp add: s(1))
  ultimately show ?thesis using res by blast
qed



lemma trimmed_trim: "no_nul s \<Longrightarrow> trimmed s = Some (trim s)"
  using trim_space_trim [of s "[]"] by (auto simp: trimmed_def)

section \<open>The engine's parameters\<close>

definition int_param :: "string \<Rightarrow> (32 word \<Rightarrow> loc_gps_cfg \<Rightarrow> loc_gps_cfg) \<Rightarrow> loc_param" where
  "int_param name f = \<lparr>param_name = name, param_ptr = Some (IntAt (\<lambda>v m. m\<lparr>conf := f v (conf m)\<rparr>)),
     param_set = None, param_type = CHR ''n''\<rparr>"

definition float_param ::
    "string \<Rightarrow> (rat \<Rightarrow> loc_gps_cfg \<Rightarrow> loc_gps_cfg) \<Rightarrow> (8 word \<Rightarrow> loc_gps_cfg \<Rightarrow> loc_gps_cfg) \<Rightarrow> loc_param" where
  "float_param name f valid = \<lparr>param_name = name, param_ptr = Some (DoubleAt (\<lambda>x m. m\<lparr>conf := f x (conf m)\<rparr>)),
     param_set = Some (\<lambda>b m. m\<lparr>conf := valid b (conf m)\<rparr>), param_type = CHR ''f''\<rparr>"

definition gps_conf_table :: "loc_param list" where
  "gps_conf_table =
     [int_param ''INTERMEDIATE_POS'' (\<lambda>v c. c\<lparr>INTERMEDIATE_POS := v\<rparr>),
      int_param ''ACCURACY_THRES'' (\<lambda>v c. c\<lparr>ACCURACY_THRES := v\<rparr>),
      int_param ''ENABLE_WIPER'' (\<lambda>v c. c\<lparr>ENABLE_WIPER := v\<rparr>),
      int_param ''NMEA_PROVIDER'' (\<lambda>v c. c\<lparr>NMEA_PROVIDER := ucast v\<rparr>),
      int_param ''SUPL_VER'' (\<lambda>v c. c\<lparr>SUPL_VER := v\<rparr>),
      int_param ''CAPABILITIES'' (\<lambda>v c. c\<lparr>CAPABILITIES := v\<rparr>),
      float_param ''GYRO_BIAS_RANDOM_WALK'' (\<lambda>x c. c\<lparr>GYRO_BIAS_RANDOM_WALK := x\<rparr>) (\<lambda>b c. c\<lparr>GYRO_BIAS_RANDOM_WALK_VALID := b\<rparr>),
      float_param ''ACCEL_RANDOM_WALK_SPECTRAL_DENSITY'' (\<lambda>x c. c\<lparr>ACCEL_RANDOM_WALK_SPECTRAL_DENSITY := x\<rparr>) (\<lambda>b c. c\<lparr>ACCEL_RANDOM_WALK_SPECTRAL_DENSITY_VALID := b\<rparr>),
      float_param ''ANGLE_RANDOM_WALK_SPECTRAL_DENSITY'' (\<lambda>x c. c\<lparr>ANGLE_RANDOM_WALK_SPECTRAL_DENSITY := x\<rparr>) (\<lambda>b c. c\<lparr>ANGLE_RANDOM_WALK_SPECTRAL_DENSITY_VALID := b\<rparr>),
      float_param ''RATE_RANDOM_WALK_SPECTRAL_DENSITY'' (\<lambda>x c. c\<lparr>RATE_RANDOM_WALK_SPECTRAL_DENSITY := x\<rparr>) (\<lambda>b c. c\<lparr>RATE_RANDOM_WALK_SPECTRAL_DENSITY_VALID := b\<rparr>),
      float_param ''VELOCITY_RANDOM_WALK_SPECTRAL_DENSITY'' (\<lambda>x c. c\<lparr>VELOCITY_RANDOM_WALK_SPECTRAL_DENSITY := x\<rparr>) (\<lambda>b c. c\<lparr>VELOCITY_RANDOM_WALK_SPECTRAL_DENSITY_VALID := b\<rparr>),
      int_param ''SENSOR_ACCEL_BATCHES_PER_SEC'' (\<lambda>v c. c\<lparr>SENSOR_ACCEL_BATCHES_PER_SEC := v\<rparr>),
      int_param ''SENSOR_ACCEL_SAMPLES_PER_BATCH'' (\<lambda>v c. c\<lparr>SENSOR_ACCEL_SAMPLES_PER_BATCH := v\<rparr>),
      int_param ''SENSOR_GYRO_BATCHES_PER_SEC'' (\<lambda>v c. c\<lparr>SENSOR_GYRO_BATCHES_PER_SEC := v\<rparr>),
      int_param ''SENSOR_GYRO_SAMPLES_PER_BATCH'' (\<lambda>v c. c\<lparr>SENSOR_GYRO_SAMPLES_PER_BATCH := v\<rparr>),
      int_param ''SENSOR_ACCEL_BATCHES_PER_SEC_HIGH'' (\<lambda>v c. c\<lparr>SENSOR_ACCEL_BATCHES_PER_SEC_HIGH := v\<rparr>),
      int_param ''SENSOR_ACCEL_SAMPLES_PER_BATCH_HIGH'' (\<lambda>v c. c\<lparr>SENSOR_ACCEL_SAMPLES_PER_BATCH_HIGH := v\<rparr>),
      int_param ''SENSOR_GYRO_BATCHES_PER_SEC_HIGH'' (\<lambda>v c. c\<lparr>SENSOR_GYRO_BATCHES_PER_SEC_HIGH := v\<rparr>),
      int_param ''SENSOR_GYRO_SAMPLES_PER_BATCH_HIGH'' (\<lambda>v c. c\<lparr>SENSOR_GYRO_SAMPLES_PER_BATCH_HIGH := v\<rparr>),
      int_param ''SENSOR_CONTROL_MODE'' (\<lambda>v c. c\<lparr>SENSOR_CONTROL_MODE := v\<rparr>),
      int_param ''SENSOR_USAGE'' (\<lambda>v c. c\<lparr>SENSOR_USAGE := v\<rparr>),
      int_param ''SENSOR_ALGORITHM_CONFIG_MASK'' (\<lambda>v c. c\<lparr>SENSOR_ALGORITHM_CONFIG_MASK := v\<rparr>),
      int_param ''QUIPC_ENABLED'' (\<lambda>v c. c\<lparr>QUIPC_ENABLED := v\<rparr>),
      int_param ''LPP_PROFILE'' (\<lambda>v c. c\<lparr>LPP_PROFILE := v\<rparr>)]"

definition loc_eng_read_config :: "layout \<Rightarrow> string option \<Rightarrow> bool \<times> cfg_mem \<Rightarrow> (bool \<times> cfg_mem) option" where
  "loc_eng_read_config lay file state =
     (case state of (gpsConfigAlreadyRead, m) \<Rightarrow>
        if \<not> gpsConfigAlreadyRead
        then map_option (Pair True) (loc_read_conf lay file gps_conf_table (m\<lparr>conf := loc_default_parameters (conf m)\<rparr>))
        else Some (True, m))"

section \<open>No file makes the parser fault\<close>

text \<open>The type of an entry is that of its pointer.\<close>

definition typed :: "loc_param \<Rightarrow> bool" where
  "typed e \<longleftrightarrow> (case param_ptr e of None \<Rightarrow> True
     | Some (IntAt f) \<Rightarrow> param_type e = CHR ''n'' | Some (DoubleAt f) \<Rightarrow> param_type e = CHR ''f''
     | Some (StringAt f) \<Rightarrow> param_type e = CHR ''s'')"

lemma set_entry_typed: "typed e \<Longrightarrow> \<exists>m'. loc_set_config_entry (Some e) v m = Some m'"
  by (auto simp: typed_def loc_set_config_entry_def split: option.splits param_ptr.splits)

lemma set_entries_typed: "list_all typed table \<Longrightarrow> \<exists>m'. set_entries table v m = Some m'"
proof (induction table arbitrary: m)
  case (Cons e table)
  obtain m1 where "loc_set_config_entry (Some e) (Some v) m = Some m1"
    using set_entry_typed Cons.prems by (meson list.pred_inject(2))
  with Cons show ?case by auto
qed simp

lemma no_nul_c_str: "no_nul (c_str s)"
  by (auto simp: no_nul_def c_str_def dest: set_takeWhileD)

lemma strtok_no_nul:
  assumes "strtok_eq s = Some (t, r)" and "no_nul s"
  shows "no_nul t \<and> no_nul r"
  using assms
  by (auto simp: strtok_eq_def no_nul_def Let_def split: if_splits dest!: set_takeWhileD in_set_dropD set_dropWhileD)

lemma conf_line_typed:
  assumes "list_all typed table"
  shows "\<exists>m'. conf_line table input_buf m = Some m'"
proof (cases "strtok_eq (c_str input_buf)")
  case (Some nr)
  obtain n r where nr: "strtok_eq (c_str input_buf) = Some (n, r)" using Some by (cases nr) simp
  with strtok_no_nul no_nul_c_str have n: "no_nul n" "no_nul r" by blast+
  show ?thesis
  proof (cases "strtok_eq r")
    case (Some vr)
    obtain v r' where vr: "strtok_eq r = Some (v, r')" using Some by (cases vr) simp
    with strtok_no_nul n(2) have "no_nul v" by blast
    with nr vr n set_entries_typed [OF assms] show ?thesis by (simp add: conf_line_def trimmed_trim)
  qed (simp add: conf_line_def nr)
qed (simp add: conf_line_def)

lemma read_lines_typed:
  assumes "list_all typed table"
  shows "\<exists>m'. read_lines table content m = Some m'"
  using assms
proof (induction table content m rule: read_lines.induct)
  case (1 table content m)
  show ?case
  proof (cases "fgets LOC_MAX_PARAM_LINE content")
    case None
    then show ?thesis by (subst read_lines.simps) simp
  next
    case (Some lr)
    obtain l r where lr: "lr = (l, r)" by force
    obtain m1 where m1: "conf_line table (l @ [NUL]) m = Some m1" using conf_line_typed [OF "1.prems"] by blast
    with "1.IH" [OF Some lr [symmetric] m1 "1.prems"] Some lr show ?thesis by (subst read_lines.simps) simp
  qed
qed

lemma param_typed [simp]: "typed (int_param n f)" "typed (float_param n g h)"
  by (simp_all add: typed_def int_param_def float_param_def)

lemma tables_typed: "list_all typed (gps_conf_table @ cfg_parameter_table lay)"
  by (simp add: gps_conf_table_def cfg_parameter_table_def) (simp add: typed_def)


section \<open>Reading back what was printed\<close>

definition conf_text :: "(string \<times> int) list \<Rightarrow> string" where
  "conf_text kvs = concat (map (\<lambda>(n, v). n @ ''='' @ dec v @ [CHR 0x0A]) kvs)"

text \<open>A setting that fits on a line: a name that is not empty, without \<open>=\<close>, newline, NUL or space around it, and a
  32-bit number.\<close>

definition wf_setting :: "string \<times> int \<Rightarrow> bool" where
  "wf_setting kv \<longleftrightarrow> fst kv \<noteq> '''' \<and> length (fst kv) \<le> 64 \<and> - (2 ^ 31) \<le> snd kv \<and> snd kv < 2 ^ 31
     \<and> set (fst kv) \<inter> {CHR ''='', CHR 0x0A, NUL} = {} \<and> trim (fst kv) = fst kv"

lemma digit_facts:
  assumes "is_digit c"
  shows "digit_value c = of_char c - 48" "\<not> isspace c" "c \<noteq> CHR ''-''" "c \<noteq> CHR ''+''" "c \<noteq> CHR ''=''" "c \<noteq> CHR 0x0A"
    "c \<noteq> NUL" "c \<noteq> CHR ''x''" "c \<noteq> CHR ''X''" "digit_value c < 10" "c \<noteq> CHR ''.''" "c \<noteq> CHR ''e''" "c \<noteq> CHR ''E''"
  using assms by (auto simp: is_digit_def digit_value_def isspace_def Let_def)

lemma read_digits_undec: "\<forall>c \<in> set s. is_digit c \<Longrightarrow> read_digits 10 s = undec_pos s"
proof -
  assume "\<forall>c \<in> set s. is_digit c"
  then have "foldl (\<lambda>a c. a * 10 + digit_value c) n s = fold (\<lambda>c n. 10 * n + (of_char c - 48)) s n" for n
    by (induction s arbitrary: n) (simp_all add: digit_facts(1) mult.commute)
  then show ?thesis by (simp add: read_digits_def undec_pos_def)
qed

lemma digits_all: "\<forall>c \<in> set s. is_digit c \<Longrightarrow> digits_prefix s = s"
  using digit_facts(10) by (simp add: takeWhile_eq_all_conv)

lemma dec_shape:
  obtains c s where "dec_pos n = c # s"
  using dec_pos_nonempty by (metis neq_Nil_conv)

lemma sign_of_dec: "sign_of (dropWhile isspace (dec v)) = (if v < 0 then (- 1, dec_pos (- v)) else (1, dec_pos v))"
proof (cases "v < 0")
  case True
  then show ?thesis by (simp add: dec_def sign_of_def isspace_def)
next
  case False
  obtain c s where c: "dec_pos v = c # s" by (rule dec_shape)
  with dec_pos_digits [of v] False have "is_digit c" by simp
  with False c digit_facts [of c] show ?thesis by (simp add: dec_def sign_of_def)
qed

lemma strtol_dec:
  assumes "- (2 ^ 31) \<le> v" "v < 2 ^ 31"
  shows "atoi (dec v) = v"
proof -
  have "read_digits 10 (digits_prefix (dec_pos n)) = n" if "0 \<le> n" for n
    using that dec_pos_digits [OF that] by (simp add: digits_all read_digits_undec)
  then show ?thesis
    using assms by (simp add: atoi_def strtol_def sign_of_dec Let_def LONG_MAX_def)
qed

lemma atof_digits:
  assumes "0 \<le> n" and "sign_of (dropWhile isspace s) = (sg, dec_pos n)"
  shows "atof s = of_int (sg * n)"
proof -
  have r: "read_digits 10 (dec_pos n) = n" using dec_pos_digits [OF assms(1)] by (simp add: read_digits_undec assms(1))
  have p: "digits_prefix (dec_pos n) = dec_pos n" using digits_all [OF dec_pos_digits [OF assms(1)]] .
  have d: "drop (length (dec_pos n)) (dec_pos n) = []" by simp
  show ?thesis
    unfolding atof_def assms(2) prod.case Let_def p d list.case append_Nil2 r list.size by simp
qed

lemma atof_dec: "atof (dec v) = of_int v"
  using atof_digits [of "- v" "dec v" "- 1"] atof_digits [of v "dec v" 1] by (cases "v < 0") (simp_all add: sign_of_dec)

lemma dec_chars:
  assumes "c \<in> set (dec v)"
  shows "c = CHR ''-'' \<or> is_digit c"
  using assms dec_pos_digits [of v] dec_pos_digits [of "- v"] by (auto simp: dec_def split: if_splits)

lemma dec_clean:
  assumes "c \<in> set (dec v)"
  shows "\<not> isspace c" "c \<noteq> CHR ''=''" "c \<noteq> CHR 0x0A" "c \<noteq> NUL" "c \<noteq> CHR ''x''" "c \<noteq> CHR ''X''"
proof -
  consider "c = CHR ''-''" | "is_digit c" using dec_chars [OF assms] by blast
  then have "\<not> isspace c \<and> c \<noteq> CHR ''='' \<and> c \<noteq> CHR 0x0A \<and> c \<noteq> NUL \<and> c \<noteq> CHR ''x'' \<and> c \<noteq> CHR ''X''"
  proof cases
    case 1
    then show ?thesis by (simp add: isspace_def)
  next
    case 2
    then show ?thesis using digit_facts(2,5,6,7,8,9) by blast
  qed
  then show "\<not> isspace c" "c \<noteq> CHR ''=''" "c \<noteq> CHR 0x0A" "c \<noteq> NUL" "c \<noteq> CHR ''x''" "c \<noteq> CHR ''X''" by blast+
qed

lemma dec_nonempty: "dec v \<noteq> ''''"
  by (simp add: dec_def dec_pos_nonempty)

definition int_value :: "string \<times> int \<Rightarrow> loc_param_v" where
  "int_value kv = \<lparr>v_name = fst kv, param_str_value = dec (snd kv), param_int_value = word_of_int (snd kv),
     param_double_value = of_int (snd kv)\<rparr>"

lemma parse_value_dec:
  assumes "- (2 ^ 31) \<le> v" "v < 2 ^ 31"
  shows "parse_value n (dec v) = int_value (n, v)"
proof -
  have "take 1 (drop 1 (dec v)) \<noteq> ''x''" "take 1 (drop 1 (dec v)) \<noteq> ''X''"
    using dec_clean(5,6) [of _ v] by (metis in_set_dropD in_set_takeD list.set_intros(1))+
  then show ?thesis using assms by (simp add: parse_value_def int_value_def strtol_dec atof_dec)
qed

lemma strtok_split:
  assumes "CHR ''='' \<notin> set t" and "t \<noteq> ''''"
  shows "strtok_eq (t @ ''='' @ r) = Some (t, r)" "strtok_eq t = Some (t, '''')"
proof -
  obtain c s where c: "t = c # s" using assms(2) by (cases t) auto
  then have "c \<noteq> CHR ''=''" using assms(1) by auto
  then have d: "dropWhile (\<lambda>c. c = CHR ''='') (t @ x) = t @ x" for x using c by simp
  have t: "\<forall>c \<in> set t. c \<noteq> CHR ''=''" using assms(1) by auto
  show "strtok_eq (t @ ''='' @ r) = Some (t, r)"
    using t assms(2) by (simp add: strtok_eq_def d takeWhile_append2 dropWhile_append2)
  show "strtok_eq t = Some (t, '''')"
  proof -
    have "takeWhile (\<lambda>c. c \<noteq> CHR ''='') t = t" "dropWhile (\<lambda>c. c \<noteq> CHR ''='') t = ''''" using t by simp_all
    with d [of "''''"] assms(2) show ?thesis by (simp only: strtok_eq_def Let_def append_Nil2 if_False drop_Nil)
  qed
qed

lemma trim_dec: "trim (dec v @ [CHR 0x0A]) = dec v"
proof -
  have s: "\<forall>c \<in> set (dec v). \<not> isspace c" using dec_clean(1) by blast
  then have "\<not> list_all isspace (dec v @ [CHR 0x0A])" using dec_nonempty [of v] by (auto simp: list_all_iff neq_Nil_conv)
  moreover have "dropWhile isspace (dec v @ [CHR 0x0A]) = dec v @ [CHR 0x0A]"
    using s dec_nonempty [of v] by (cases "dec v") auto
  moreover have "dropWhile isspace (rev (dec v @ [CHR 0x0A])) = rev (dec v)"
    using s dec_nonempty [of v] by (cases "dec v" rule: rev_cases) (auto simp: isspace_def)
  ultimately show ?thesis by (simp add: trim_def)
qed

lemma conf_line_setting:
  assumes "wf_setting (n, v)"
  shows "conf_line table (n @ ''='' @ dec v @ [CHR 0x0A, NUL]) m = set_entries table (int_value (n, v)) m"
proof -
  have n: "n \<noteq> ''''" "CHR ''='' \<notin> set n" "no_nul n" "trim n = n" "- (2 ^ 31) \<le> v" "v < 2 ^ 31"
    using assms by (auto simp: wf_setting_def no_nul_def)
  have v: "no_nul (dec v)" "CHR ''='' \<notin> set (dec v @ [CHR 0x0A])" "dec v @ [CHR 0x0A] \<noteq> ''''" "no_nul (dec v @ [CHR 0x0A])"
    using dec_clean(2,4) [of _ v] by (auto simp: no_nul_def)
  have "c_str (n @ ''='' @ dec v @ [CHR 0x0A, NUL]) = n @ ''='' @ (dec v @ [CHR 0x0A])"
    using c_str_append [of "n @ ''='' @ dec v @ [CHR 0x0A]" "[]"] n(3) v(1) by simp
  then show ?thesis
    unfolding conf_line_def
    using strtok_split(1) [OF n(2,1)] strtok_split(2) [OF v(2,3)] trimmed_trim [OF n(3)] trimmed_trim [OF v(4)]
      trim_dec n(4) parse_value_dec [OF n(5,6)] by simp
qed

lemma fgets_take_line:
  "CHR 0x0A \<notin> set l \<Longrightarrow> length l < k \<Longrightarrow> fgets_take k (l @ CHR 0x0A # r) = (l @ [CHR 0x0A], r)"
proof (induction l arbitrary: k)
  case Nil
  then show ?case by (cases k) auto
next
  case (Cons c l)
  then show ?case by (cases k) auto
qed

lemma read_lines_settings:
  assumes "list_all typed table" and "\<forall>kv \<in> set kvs. wf_setting kv"
  shows "read_lines table (conf_text kvs) m = Some (fold (\<lambda>kv m. the (set_entries table (int_value kv) m)) kvs m)"
  using assms(2)
proof (induction kvs arbitrary: m)
  case Nil
  show ?case by (subst read_lines.simps) (simp add: conf_text_def fgets_def)
next
  case (Cons kv kvs)
  obtain n v where kv: "kv = (n, v)" by force
  have wf: "wf_setting (n, v)" using Cons.prems kv by simp
  then have "length (dec v) \<le> 11" "length n \<le> 64" "CHR 0x0A \<notin> set n" using length_dec [of v] by (auto simp: wf_setting_def)
  then have l: "CHR 0x0A \<notin> set (n @ ''='' @ dec v)" "length (n @ ''='' @ dec v) < LOC_MAX_PARAM_LINE - 1"
    using dec_clean(3) by (auto simp: LOC_MAX_PARAM_LINE_def)
  have ct: "conf_text (kv # kvs) = (n @ ''='' @ dec v) @ CHR 0x0A # conf_text kvs" by (simp add: conf_text_def kv)
  obtain m1 where m1: "set_entries table (int_value (n, v)) m = Some m1" using set_entries_typed [OF assms(1)] by blast
  have "read_lines table (conf_text (kv # kvs)) m = read_lines table (conf_text kvs) m1"
    unfolding ct using fgets_take_line [OF l] conf_line_setting [OF wf, of table m] m1
    by (subst read_lines.simps) (simp add: fgets_def)
  then show ?case using Cons m1 by (simp add: kv)
qed

section \<open>The last line of a parameter wins\<close>

text \<open>The parameters, each with the fields that hold it.\<close>

definition int_settings :: "(string \<times> (loc_gps_cfg \<Rightarrow> 32 word)) list" where
  "int_settings =
     [(''INTERMEDIATE_POS'', INTERMEDIATE_POS), (''ACCURACY_THRES'', ACCURACY_THRES), (''ENABLE_WIPER'', ENABLE_WIPER),
      (''SUPL_VER'', SUPL_VER), (''CAPABILITIES'', CAPABILITIES),
      (''SENSOR_ACCEL_BATCHES_PER_SEC'', SENSOR_ACCEL_BATCHES_PER_SEC),
      (''SENSOR_ACCEL_SAMPLES_PER_BATCH'', SENSOR_ACCEL_SAMPLES_PER_BATCH),
      (''SENSOR_GYRO_BATCHES_PER_SEC'', SENSOR_GYRO_BATCHES_PER_SEC),
      (''SENSOR_GYRO_SAMPLES_PER_BATCH'', SENSOR_GYRO_SAMPLES_PER_BATCH),
      (''SENSOR_ACCEL_BATCHES_PER_SEC_HIGH'', SENSOR_ACCEL_BATCHES_PER_SEC_HIGH),
      (''SENSOR_ACCEL_SAMPLES_PER_BATCH_HIGH'', SENSOR_ACCEL_SAMPLES_PER_BATCH_HIGH),
      (''SENSOR_GYRO_BATCHES_PER_SEC_HIGH'', SENSOR_GYRO_BATCHES_PER_SEC_HIGH),
      (''SENSOR_GYRO_SAMPLES_PER_BATCH_HIGH'', SENSOR_GYRO_SAMPLES_PER_BATCH_HIGH),
      (''SENSOR_CONTROL_MODE'', SENSOR_CONTROL_MODE), (''SENSOR_USAGE'', SENSOR_USAGE),
      (''SENSOR_ALGORITHM_CONFIG_MASK'', SENSOR_ALGORITHM_CONFIG_MASK), (''QUIPC_ENABLED'', QUIPC_ENABLED),
      (''LPP_PROFILE'', LPP_PROFILE)]"

definition float_settings :: "(string \<times> (loc_gps_cfg \<Rightarrow> 8 word) \<times> (loc_gps_cfg \<Rightarrow> rat)) list" where
  "float_settings =
     [(''GYRO_BIAS_RANDOM_WALK'', GYRO_BIAS_RANDOM_WALK_VALID, GYRO_BIAS_RANDOM_WALK),
      (''ACCEL_RANDOM_WALK_SPECTRAL_DENSITY'', ACCEL_RANDOM_WALK_SPECTRAL_DENSITY_VALID, ACCEL_RANDOM_WALK_SPECTRAL_DENSITY),
      (''ANGLE_RANDOM_WALK_SPECTRAL_DENSITY'', ANGLE_RANDOM_WALK_SPECTRAL_DENSITY_VALID, ANGLE_RANDOM_WALK_SPECTRAL_DENSITY),
      (''RATE_RANDOM_WALK_SPECTRAL_DENSITY'', RATE_RANDOM_WALK_SPECTRAL_DENSITY_VALID, RATE_RANDOM_WALK_SPECTRAL_DENSITY),
      (''VELOCITY_RANDOM_WALK_SPECTRAL_DENSITY'', VELOCITY_RANDOM_WALK_SPECTRAL_DENSITY_VALID, VELOCITY_RANDOM_WALK_SPECTRAL_DENSITY)]"

text \<open>An entry writes the field \<open>g\<close> for its parameter's name only, and then it writes \<open>h\<close>.\<close>

definition keeps :: "string \<Rightarrow> (loc_gps_cfg \<Rightarrow> 'a) \<Rightarrow> (int \<Rightarrow> 'a) \<Rightarrow> loc_param \<Rightarrow> bool" where
  "keeps name g h e \<longleftrightarrow> (\<forall>kv m m'. loc_set_config_entry (Some e) (Some (int_value kv)) m = Some m' \<longrightarrow>
     g (conf m') = (if param_name e = name \<and> fst kv = name then h (snd kv) else g (conf m)))"

lemma keeps_int:
  "(\<And>v c. g (f (word_of_int v) c) = (if n = name then h v else g c)) \<Longrightarrow> keeps name g h (int_param n f)"
  by (auto simp: keeps_def loc_set_config_entry_def int_param_def int_value_def mark_set_def)

lemma keeps_float:
  "(\<And>v c. g (ok 1 (f (of_int v) c)) = (if n = name then h v else g c)) \<Longrightarrow> keeps name g h (float_param n f ok)"
  by (auto simp: keeps_def loc_set_config_entry_def float_param_def int_value_def mark_set_def)

lemma keeps_own:
  "e \<in> set (cfg_parameter_table lay) \<Longrightarrow> param_name e \<noteq> name \<Longrightarrow> keeps name g h e"
  by (auto simp: keeps_def loc_set_config_entry_def cfg_parameter_table_def int_value_def mark_set_def split: if_splits)

lemma keeps_table:
  assumes "list_all (keeps name g h) table" "set_entries table (int_value kv) m = Some m'"
  shows "g (conf m') = (if name \<in> param_name ` set table \<and> fst kv = name then h (snd kv) else g (conf m))"
  using assms
proof (induction table arbitrary: m)
  case (Cons e table)
  obtain m1 where m1: "loc_set_config_entry (Some e) (Some (int_value kv)) m = Some m1" "set_entries table (int_value kv) m1 = Some m'"
    using Cons.prems(2) by (auto split: Option.bind_splits)
  have "g (conf m1) = (if param_name e = name \<and> fst kv = name then h (snd kv) else g (conf m))"
    using Cons.prems(1) m1(1) unfolding list.pred_inject(2) keeps_def by blast
  with Cons.IH [OF _ m1(2)] Cons.prems(1) show ?case by auto
qed simp

lemma keeps_lines:
  assumes "list_all (keeps name g h) table" "list_all typed table" "name \<in> param_name ` set table"
  shows "g (conf (fold (\<lambda>kv m. the (set_entries table (int_value kv) m)) kvs m)) =
    (case map_of (rev kvs) name of None \<Rightarrow> g (conf m) | Some v \<Rightarrow> h v)"
proof (induction kvs arbitrary: m)
  case (Cons kv kvs)
  obtain m1 where m1: "set_entries table (int_value kv) m = Some m1" using set_entries_typed [OF assms(2)] by blast
  have "map_of (rev (kv # kvs)) name = (case map_of (rev kvs) name of None \<Rightarrow> if fst kv = name then Some (snd kv) else None | Some v \<Rightarrow> Some v)"
    by (cases kv) (simp add: map_add_def split: option.split)
  with Cons [of m1] m1 keeps_table [OF assms(1) m1] assms(3) show ?case by (auto split: option.split)
qed simp


lemma keeps_int_settings:
  "list_all (\<lambda>(name, g). list_all (keeps name g word_of_int) gps_conf_table) int_settings"
  unfolding int_settings_def gps_conf_table_def list.pred_inject prod.case
  by (intro conjI TrueI keeps_int keeps_float) simp_all

lemma keeps_valid_settings:
  "list_all (\<lambda>(name, valid, g). list_all (keeps name valid (\<lambda>_. 1)) gps_conf_table) float_settings"
  unfolding float_settings_def gps_conf_table_def list.pred_inject prod.case
  by (intro conjI TrueI keeps_int keeps_float) simp_all

lemma keeps_float_settings:
  "list_all (\<lambda>(name, valid, g). list_all (keeps name g of_int) gps_conf_table) float_settings"
  unfolding float_settings_def gps_conf_table_def list.pred_inject prod.case
  by (intro conjI TrueI keeps_int keeps_float) simp_all

lemma ucast_of_int: "(ucast (word_of_int v :: 32 word) :: 8 word) = word_of_int v"
  by (transfer) (simp add: take_bit_take_bit)

lemma keeps_nmea: "list_all (keeps ''NMEA_PROVIDER'' NMEA_PROVIDER word_of_int) gps_conf_table"
  unfolding gps_conf_table_def list.pred_inject
  by (intro conjI TrueI keeps_int keeps_float) (simp_all add: ucast_of_int)


lemma names_of_settings:
  "list_all (\<lambda>(name, g). name \<in> param_name ` set gps_conf_table) int_settings"
  "list_all (\<lambda>(name, g). name \<in> param_name ` set gps_conf_table) float_settings"
  "''NMEA_PROVIDER'' \<in> param_name ` set gps_conf_table"
  unfolding int_settings_def float_settings_def gps_conf_table_def
  by (simp_all add: int_param_def float_param_def)

lemma own_names:
  "param_name ` set (cfg_parameter_table lay) = {''DEBUG_LEVEL'', ''TIMESTAMP''}"
  by (simp add: cfg_parameter_table_def)

lemma keeps_all:
  assumes "list_all (keeps name g h) gps_conf_table" "name \<noteq> ''DEBUG_LEVEL''" "name \<noteq> ''TIMESTAMP''"
  shows "list_all (keeps name g h) (gps_conf_table @ cfg_parameter_table lay)"
proof -
  have "keeps name g h e" if "e \<in> set (cfg_parameter_table lay)" for e
  proof (rule keeps_own [OF that])
    have "param_name e \<in> {''DEBUG_LEVEL'', ''TIMESTAMP''}" unfolding own_names [of lay, symmetric] using that by (rule imageI)
    then show "param_name e \<noteq> name" using assms(2,3) by auto
  qed
  with assms(1) show ?thesis by (auto simp: list_all_iff)
qed

lemma list_all_pairD: "list_all (\<lambda>(a, b). P a b) xs \<Longrightarrow> (a, b) \<in> set xs \<Longrightarrow> P a b"
  by (auto simp: list_all_iff)

lemma list_all_pairI: "(\<And>a b. (a, b) \<in> set xs \<Longrightarrow> P a b) \<Longrightarrow> list_all (\<lambda>(a, b). P a b) xs"
  by (auto simp: list_all_iff)

lemma other_names:
  "list_all (\<lambda>(name, g). name \<noteq> ''DEBUG_LEVEL'' \<and> name \<noteq> ''TIMESTAMP'') int_settings"
  "list_all (\<lambda>(name, g). name \<noteq> ''DEBUG_LEVEL'' \<and> name \<noteq> ''TIMESTAMP'') float_settings"
  unfolding int_settings_def float_settings_def by simp_all

text \<open>The store when the lines are read: the defaults, with every float marked as not set.\<close>

definition conf_start :: "loc_gps_cfg \<Rightarrow> loc_gps_cfg" where
  "conf_start c = (loc_default_parameters c)\<lparr>GYRO_BIAS_RANDOM_WALK_VALID := 0, ACCEL_RANDOM_WALK_SPECTRAL_DENSITY_VALID := 0,
     ANGLE_RANDOM_WALK_SPECTRAL_DENSITY_VALID := 0, RATE_RANDOM_WALK_SPECTRAL_DENSITY_VALID := 0,
     VELOCITY_RANDOM_WALK_SPECTRAL_DENSITY_VALID := 0\<rparr>"

lemma conf_at_start:
  "conf (fold (mark_set 0) gps_conf_table (cfg_default_parameters lay (m\<lparr>conf := loc_default_parameters (conf m)\<rparr>))) = conf_start (conf m)"
  by (simp add: gps_conf_table_def mark_set_def int_param_def float_param_def cfg_default_parameters_def loc_logger_init_def Let_def
      conf_start_def)

lemma read_settings:
  assumes "\<forall>kv \<in> set kvs. wf_setting kv"
  obtains m0 m' where "loc_eng_read_config lay (Some (conf_text kvs)) (False, m) = Some (True, m')" "conf m0 = conf_start (conf m)"
    "conf m' = conf (fold (\<lambda>kv m. the (set_entries (gps_conf_table @ cfg_parameter_table lay) (int_value kv) m)) kvs m0)"
proof -
  let ?m0 = "fold (mark_set 0) gps_conf_table (cfg_default_parameters lay (m\<lparr>conf := loc_default_parameters (conf m)\<rparr>))"
  let ?f = "fold (\<lambda>kv m. the (set_entries (gps_conf_table @ cfg_parameter_table lay) (int_value kv) m)) kvs ?m0"
  have "loc_eng_read_config lay (Some (conf_text kvs)) (False, m) =
      Some (True, loc_logger_init (ucast (statics ?f (addr_DEBUG_LEVEL lay))) (ucast (statics ?f (addr_TIMESTAMP lay))) ?f)"
    using read_lines_settings [OF tables_typed assms, of lay ?m0]
    by (simp add: loc_eng_read_config_def loc_read_conf_def Let_def)
  then show ?thesis using that conf_at_start [of lay m] by (simp add: loc_logger_init_def)
qed

lemma setting_field:
  assumes "list_all (keeps name g h) gps_conf_table" "name \<in> param_name ` set gps_conf_table"
    "name \<noteq> ''DEBUG_LEVEL''" "name \<noteq> ''TIMESTAMP''"
  shows "g (conf (fold (\<lambda>kv m. the (set_entries (gps_conf_table @ cfg_parameter_table lay) (int_value kv) m)) kvs m)) =
    (case map_of (rev kvs) name of None \<Rightarrow> g (conf m) | Some v \<Rightarrow> h v)"
  by (rule keeps_lines [OF keeps_all [OF assms(1,3,4)] tables_typed]) (use assms(2) in auto)



subsection \<open>What the parser makes of other lines\<close>

text \<open>The parser's level is one byte, and the store is an \<open>int\<close>: it overwrites the three bytes behind it.\<close>

lemma debug_level_overwrites:
  "map_option (\<lambda>m. statics m 1) (loc_set_config_entry (Some (cfg_parameter_table \<lparr>addr_DEBUG_LEVEL = 0, addr_TIMESTAMP = 1\<rparr> ! 0)) (Some (parse_value ''DEBUG_LEVEL'' ''256'')) m)
    = Some 1"
proof -
  have "param_int_value (parse_value ''DEBUG_LEVEL'' ''256'') = 256" "v_name (parse_value ''DEBUG_LEVEL'' ''256'') = ''DEBUG_LEVEL''"
    by code_simp+
  then show ?thesis by (simp add: loc_set_config_entry_def cfg_parameter_table_def mark_set_def store_int_def)
qed

text \<open>A hexadecimal number for a floating-point parameter is read as 0, and one with its high bit set as the largest positive
  number.\<close>

lemma hex_values:
  "param_double_value (parse_value n ''0x10'') = 0" "param_int_value (parse_value n ''0x10'') = 16"
  "param_int_value (parse_value n ''0xFFFFFFFF'') = 0x7FFFFFFF"
proof -
  have "strtol ''10'' 16 = 16" "strtol ''FFFFFFFF'' 16 = 0x7FFFFFFF" by code_simp+
  then show "param_double_value (parse_value n ''0x10'') = 0" "param_int_value (parse_value n ''0x10'') = 16"
    "param_int_value (parse_value n ''0xFFFFFFFF'') = 0x7FFFFFFF" by (simp_all add: parse_value_def)
qed

text \<open>A line with nothing behind the \<open>=\<close> still sets its parameter, because the newline is a value: the number 0, marked as
  set.\<close>

lemma empty_value_is_zero:
  "conf_line [float_param ''X'' f ok] (''X='' @ [CHR 0x0A, NUL]) m = Some (m\<lparr>conf := ok 1 (f 0 (conf m))\<rparr>)"
proof -
  have s: "strtok_eq (c_str (''X='' @ [CHR 0x0A, NUL])) = Some (''X'', [CHR 0x0A])" "strtok_eq [CHR 0x0A] = Some ([CHR 0x0A], '''')"
    by code_simp+
  have t: "trimmed ''X'' = Some ''X''" "trimmed [CHR 0x0A] = Some [CHR 0x0A]" by (simp_all add: trimmed_trim trim_def isspace_def)
  have v: "param_double_value (parse_value ''X'' [CHR 0x0A]) = 0" "v_name (parse_value ''X'' [CHR 0x0A]) = ''X''" by code_simp+
  show ?thesis unfolding conf_line_def s option.case prod.case t
    by (simp add: v loc_set_config_entry_def float_param_def mark_set_def)
qed

text \<open>A line of more than 79 characters is read as two: here the rest of a long value is a setting of its own.\<close>

lemma long_line_is_split:
  "fgets LOC_MAX_PARAM_LINE (replicate 79 (CHR ''a'') @ ''SUPL_VER=3'') = Some (replicate 79 (CHR ''a''), ''SUPL_VER=3'')"
  by code_simp

end
