(* ===== verification/Loc_Hal.thy ===== *)
theory Loc_Hal
  imports Loc_Api_Adapter Loc_Cfg
begin

text \<open>
  The table of the GPS interface (\<open>gps/libloc_api_50001/loc.cpp\<close>): its static variables, the choice of the
  interface for the target, the functions of the interfaces, which pass on to the engine of \<open>Loc_Eng\<close>, and the
  two callbacks that stand between the engine and the framework.

  \<^item> \<open>hal_state\<close> has the static variables of \<open>loc.cpp\<close>, the engine's data, the configuration with its flag, and
    \<open>delivered\<close>, what has reached the framework and the modem, in order. A pointer to a callback or to the ULP library is
    whether it is set.
  \<^item> \<open>hal_env\<close> is what surrounds the library: the engine's surroundings, whose configuration is that of the
    state, the files, the properties, the ULP library and what an uninitialised variable holds.
  \<^item> A read through a \<open>NULL\<close> pointer is the fault \<open>None\<close>.
\<close>

section \<open>State\<close>

record hal_env =
  engine_env :: eng_env
  conf_layout :: layout
  root_files :: "string \<Rightarrow> string option"
  properties :: "string \<Rightarrow> string option"
  open_gss :: int
  ulp_library :: "bool option option"
  adapter_ok :: bool
  some_server_type :: LocServerType

record hal_state =
  loc_afw_data :: loc_eng_data
  gps_loc_cb :: bool
  gps_sv_cb :: bool
  loc_eng_ulp_inf :: bool
  gss_fd :: int
  configuration :: "bool \<times> cfg_mem"
  adapter_ulp :: bool
  delivered :: "loc_call list"

definition hal_conf :: "hal_state \<Rightarrow> loc_gps_cfg" where
  "hal_conf h = conf (snd (configuration h))"

definition env_of :: "hal_env \<Rightarrow> hal_state \<Rightarrow> eng_env" where
  "env_of E h = (engine_env E)\<lparr>gps_conf := hal_conf h\<rparr>"

section \<open>The target\<close>

definition TARGET_NAME_OTHER :: int where "TARGET_NAME_OTHER = 0"
definition TARGET_NAME_APQ8064_STANDALONE :: int where "TARGET_NAME_APQ8064_STANDALONE = 1"
definition TARGET_NAME_APQ8064_FUSION3 :: int where "TARGET_NAME_APQ8064_FUSION3 = 2"
definition LINE_LEN :: nat where "LINE_LEN = 100"

text \<open>A text and its terminator at the start of a buffer.\<close>

definition put_text :: "string \<Rightarrow> string \<Rightarrow> string" where
  "put_text l line = l @ [NUL] @ drop (length l + 1) line"

definition read_a_line :: "(string \<Rightarrow> string option) \<Rightarrow> string \<Rightarrow> string \<Rightarrow> nat \<Rightarrow> int \<times> string" where
  "read_a_line files file_path line line_size =
     (let line = line[0 := NUL] in
      case files file_path of
        None \<Rightarrow> (- 1, line)
      | Some content \<Rightarrow>
          let line = (case fgets line_size content of None \<Rightarrow> line | Some (l, rest) \<Rightarrow> put_text l line);
              len = length (c_str line);
              len = (if len < line_size - 1 then len else line_size - 1)
          in (0, line[len := NUL]))"

definition IS_STR_END :: "char \<Rightarrow> bool" where
  "IS_STR_END c \<longleftrightarrow> c = NUL \<or> c = CHR 0x0A \<or> c = CHR 0x0D"

text \<open>\<open>stack\<close> is what the local array holds.\<close>

definition get_target_name :: "(string \<Rightarrow> string option) \<Rightarrow> string \<Rightarrow> int" where
  "get_target_name files stack =
     (let line = snd (read_a_line files ''/sys/devices/system/soc/soc0/hw_platform'' stack LINE_LEN) in
      if (take 6 line = ''Liquid'' \<and> IS_STR_END (line ! 6)) \<or> (take 4 line = ''Surf'' \<and> IS_STR_END (line ! 4))
      then (case read_a_line files ''/dev/mdm'' line LINE_LEN of (result, line) \<Rightarrow>
        if result = 0 then TARGET_NAME_APQ8064_FUSION3
        else let line = snd (read_a_line files ''/sys/devices/system/soc/soc0/id'' line LINE_LEN) in
          if take 3 line = ''109'' \<or> take 3 line = ''153'' then TARGET_NAME_APQ8064_STANDALONE
          else TARGET_NAME_OTHER)
      else TARGET_NAME_OTHER)"

section \<open>Getting the interface\<close>

definition GPS_CAPABILITY_MSB :: "32 word" where "GPS_CAPABILITY_MSB = 2"
definition GPS_CAPABILITY_MSA :: "32 word" where "GPS_CAPABILITY_MSA = 4"
definition GPS_CONF_FILE :: string where "GPS_CONF_FILE = ''/etc/gps.conf''"

text \<open>Whether the interface is returned.\<close>

definition gps_get_hardware_interface :: "hal_env \<Rightarrow> bool" where
  "gps_get_hardware_interface E =
     (let propBuf = (case properties E ''gps.disable'' of None \<Rightarrow> '''' | Some v \<Rightarrow> v) in take 1 propBuf \<noteq> ''1'')"

text \<open>\<open>ulp_library\<close> is \<open>None\<close> if it cannot be loaded, then whether it has the symbol, and whether that returns an interface.\<close>

definition loc_eng_get_ulp_inf :: "hal_env \<Rightarrow> hal_state \<Rightarrow> bool" where
  "loc_eng_get_ulp_inf E h =
     (if CAPABILITIES (hal_conf h) AND ULP_CAPABILITY = 0 then False
      else case ulp_library E of None \<Rightarrow> False | Some None \<Rightarrow> False | Some (Some present) \<Rightarrow> present)"

definition set_capabilities :: "32 word \<Rightarrow> hal_state \<Rightarrow> hal_state" where
  "set_capabilities c h = h\<lparr>configuration := (fst (configuration h),
     (snd (configuration h))\<lparr>conf := (hal_conf h)\<lparr>CAPABILITIES := c\<rparr>\<rparr>)\<rparr>"

definition get_gps_interface :: "hal_env \<Rightarrow> string \<Rightarrow> hal_state \<Rightarrow> hal_state option" where
  "get_gps_interface E stack h =
     do {c \<leftarrow> loc_eng_read_config (conf_layout E) (root_files E GPS_CONF_FILE) (configuration h);
         let h = h\<lparr>configuration := c\<rparr>;
         let h = (if CAPABILITIES (hal_conf h) AND ULP_CAPABILITY \<noteq> 0
                  then h\<lparr>loc_eng_ulp_inf := loc_eng_get_ulp_inf E h\<rparr> else h);
         Some (if get_target_name (root_files E) stack = TARGET_NAME_APQ8064_STANDALONE
               then (set_capabilities (CAPABILITIES (hal_conf h) AND NOT (GPS_CAPABILITY_MSA OR GPS_CAPABILITY_MSB)) h)
                      \<lparr>gss_fd := open_gss E\<rparr>
               else h)}"

datatype gps_extension =
    sLocEngXTRAInterface | sLocEngAGpsInterface | sLocEngNiInterface | sLocEngAGpsRilInterface
  | sLocEngInjectRawCmdInterface | sLocEngUlpPhoneContextInterface | sUlpNetworkInterface

definition loc_get_extension :: "hal_env \<Rightarrow> hal_state \<Rightarrow> string \<Rightarrow> gps_extension option" where
  "loc_get_extension E h name =
     (if name = ''gps-xtra'' then Some sLocEngXTRAInterface
      else if name = ''agps'' then Some sLocEngAGpsInterface
      else if name = ''gps-ni'' then Some sLocEngNiInterface
      else if name = ''agps_ril'' then
        (if (case properties E ''ro.baseband'' of None \<Rightarrow> ''msm'' | Some v \<Rightarrow> v) = ''csfb'' then Some sLocEngAGpsRilInterface else None)
      else if name = ''ulp-raw-cmd'' then Some sLocEngInjectRawCmdInterface
      else if name = ''ulp-phone-context'' then Some sLocEngUlpPhoneContextInterface
      else if name = ''ulp-network-interface'' then
        (if CAPABILITIES (hal_conf h) AND ULP_CAPABILITY \<noteq> 0 then Some sUlpNetworkInterface else None)
      else None)"

section \<open>Between the engine and the framework\<close>

definition loc_cb :: "hal_state \<Rightarrow> GpsLocation option \<Rightarrow> loc_call list" where
  "loc_cb h location = (if gps_loc_cb h \<and> location \<noteq> None then [LocationCb location] else [])"

definition sv_cb :: "hal_state \<Rightarrow> nat \<Rightarrow> loc_call list" where
  "sv_cb h sv_status = (if gps_sv_cb h then [SvStatusCb sv_status] else [])"

text \<open>The engine's calls of these two callbacks go through the functions of the table, the others are the framework's own.\<close>

definition pass_on :: "hal_state \<Rightarrow> loc_call \<Rightarrow> loc_call list" where
  "pass_on h c = (case c of LocationCb location \<Rightarrow> loc_cb h location | SvStatusCb sv \<Rightarrow> sv_cb h sv | _ \<Rightarrow> [c])"

definition with_engine :: "loc_eng_data \<Rightarrow> hal_state \<Rightarrow> hal_state" where
  "with_engine d h = h\<lparr>loc_afw_data := d,
     delivered := delivered h @ concat (map (pass_on h) (new_calls (loc_afw_data h) d))\<rparr>"

definition call_engine :: "hal_env \<Rightarrow> hal_call \<Rightarrow> hal_state \<Rightarrow> hal_state option" where
  "call_engine E c h = map_option (\<lambda>d. with_engine d h) (hal_exec (env_of E h) c (loc_afw_data h))"

section \<open>The functions of the interfaces\<close>

definition init_events :: "32 word" where
  "init_events = 1 OR 2 OR 64 OR 32 OR 128 OR 256 OR LOC_API_ADAPTER_BIT_NMEA_1HZ_REPORT OR 16"

definition loc_init :: "hal_env \<Rightarrow> loc_callbacks option \<Rightarrow> hal_state \<Rightarrow> (api_err option \<times> hal_state) option" where
  "loc_init E callbacks h =
     (case callbacks of None \<Rightarrow> None
      | Some cb \<Rightarrow>
        let clientCallbacks = cb\<lparr>has_location_cb := True, has_sv_status_cb := True\<rparr>;
            h = h\<lparr>gps_loc_cb := has_location_cb cb, gps_sv_cb := has_sv_status_cb cb\<rparr>
        in case loc_eng_init (env_of E h) (adapter_ok E) (Some clientCallbacks) init_events (loc_afw_data h) of (retVal, d) \<Rightarrow>
             let h' = (with_engine d h)\<lparr>adapter_ulp := (if has_context (loc_afw_data h) then adapter_ulp h else loc_eng_ulp_inf h)\<rparr>
             in map_option (Pair retVal) (call_engine E (HalUlpInit (loc_eng_ulp_inf h')) h'))"

definition loc_cleanup :: "hal_env \<Rightarrow> hal_state \<Rightarrow> hal_state option" where
  "loc_cleanup E h = map_option (\<lambda>h. h\<lparr>gps_loc_cb := False, gps_sv_cb := False\<rparr>) (call_engine E HalCleanup h)"

definition loc_set_position_mode ::
    "hal_env \<Rightarrow> 32 word \<Rightarrow> GpsPositionRecurrence \<Rightarrow> 32 word \<Rightarrow> 32 word \<Rightarrow> 32 word \<Rightarrow> hal_state \<Rightarrow> hal_state option" where
  "loc_set_position_mode E mode recur gap accu time h =
     (let locMode = (if mode = 1 then LOC_POSITION_MODE_MS_BASED else if mode = 2 then LOC_POSITION_MODE_MS_ASSISTED
                     else LOC_POSITION_MODE_STANDALONE)
      in do {params \<leftarrow> newLocPosMode locMode recur gap accu time None None; call_engine E (HalSetPositionMode params) h})"

definition loc_agps_open :: "hal_env \<Rightarrow> string option \<Rightarrow> hal_state \<Rightarrow> hal_state option" where
  "loc_agps_open E apn h = call_engine E (HalAgpsOpen AGPS_TYPE_SUPL apn AGPS_APN_BEARER_IPV4) h"

definition loc_agps_closed :: "hal_env \<Rightarrow> hal_state \<Rightarrow> hal_state option" where
  "loc_agps_closed E h = call_engine E (HalAgpsClosed AGPS_TYPE_SUPL) h"

definition loc_agps_open_failed :: "hal_env \<Rightarrow> hal_state \<Rightarrow> hal_state option" where
  "loc_agps_open_failed E h = call_engine E (HalAgpsOpenFailed AGPS_TYPE_SUPL) h"

text \<open>For another type the local variable is not set.\<close>

definition loc_agps_set_server :: "hal_env \<Rightarrow> AGpsType \<Rightarrow> string \<Rightarrow> 32 word \<Rightarrow> hal_state \<Rightarrow> hal_state option" where
  "loc_agps_set_server E type hostname port h =
     (let serverType = (case type of AGPS_TYPE_SUPL \<Rightarrow> LOC_AGPS_SUPL_SERVER | AGPS_TYPE_C2K \<Rightarrow> LOC_AGPS_CDMA_PDE_SERVER
                        | _ \<Rightarrow> some_server_type E)
      in call_engine E (HalSetServer serverType hostname port) h)"

text \<open>The others pass on what they are given.\<close>

definition loc_start :: "hal_env \<Rightarrow> hal_state \<Rightarrow> hal_state option" where
  "loc_start E h = call_engine E HalStart h"

definition loc_stop :: "hal_env \<Rightarrow> hal_state \<Rightarrow> hal_state option" where
  "loc_stop E h = call_engine E HalStop h"

definition loc_inject_time :: "hal_env \<Rightarrow> int \<Rightarrow> int \<Rightarrow> int \<Rightarrow> hal_state \<Rightarrow> hal_state option" where
  "loc_inject_time E time timeReference uncertainty h = call_engine E (HalInjectTime time timeReference uncertainty) h"

definition loc_inject_location :: "hal_env \<Rightarrow> rat \<Rightarrow> rat \<Rightarrow> rat \<Rightarrow> hal_state \<Rightarrow> hal_state option" where
  "loc_inject_location E lat long acc h = call_engine E (HalInjectLocation lat long acc) h"

definition loc_delete_aiding_data :: "hal_env \<Rightarrow> 16 word \<Rightarrow> hal_state \<Rightarrow> hal_state option" where
  "loc_delete_aiding_data E f h = call_engine E (HalDeleteAidingData f) h"

definition loc_update_criteria :: "hal_env \<Rightarrow> nat \<Rightarrow> hal_state \<Rightarrow> hal_state option" where
  "loc_update_criteria E criteria h = call_engine E (HalUpdateCriteria criteria) h"

definition loc_agps_init :: "hal_env \<Rightarrow> AGpsBearerType \<Rightarrow> hal_state \<Rightarrow> hal_state option" where
  "loc_agps_init E bearers h = call_engine E (HalAgpsInit bearers) h"

definition loc_xtra_init :: "hal_env \<Rightarrow> bool \<Rightarrow> hal_state \<Rightarrow> hal_state option" where
  "loc_xtra_init E callbacks h = call_engine E (HalXtraInit callbacks) h"

definition loc_xtra_inject_data :: "hal_env \<Rightarrow> 8 word list \<Rightarrow> hal_state \<Rightarrow> hal_state option" where
  "loc_xtra_inject_data E data h = call_engine E (HalXtraInject data) h"

definition loc_ni_init :: "hal_env \<Rightarrow> bool \<Rightarrow> hal_state \<Rightarrow> hal_state option" where
  "loc_ni_init E callbacks h = call_engine E (HalNiInit callbacks) h"

definition loc_ni_respond :: "hal_env \<Rightarrow> 32 word \<Rightarrow> int \<Rightarrow> hal_state \<Rightarrow> hal_state option" where
  "loc_ni_respond E notif_id user_response h = call_engine E (HalNiRespond notif_id user_response) h"

definition loc_agps_ril_update_network_availability :: "hal_env \<Rightarrow> int \<Rightarrow> string option \<Rightarrow> hal_state \<Rightarrow> hal_state option" where
  "loc_agps_ril_update_network_availability E available apn h = call_engine E (HalNetworkAvailability available apn) h"

definition loc_inject_raw_command :: "hal_env \<Rightarrow> 8 word list \<Rightarrow> hal_state \<Rightarrow> hal_state option" where
  "loc_inject_raw_command E command h = call_engine E (HalRawCommand command) h"

definition loc_ulp_network_init :: "hal_env \<Rightarrow> bool \<Rightarrow> hal_state \<Rightarrow> hal_state option" where
  "loc_ulp_network_init E callbacks h = call_engine E (HalNetworkInit callbacks) h"

definition loc_ulp_send_network_position :: "hal_env \<Rightarrow> nat \<Rightarrow> hal_state \<Rightarrow> hal_state option" where
  "loc_ulp_send_network_position E position_report h = call_engine E (HalNetworkPosition position_report) h"

definition loc_ulp_phone_context_init :: "hal_env \<Rightarrow> bool \<Rightarrow> hal_state \<Rightarrow> hal_state option" where
  "loc_ulp_phone_context_init E callback h = call_engine E (HalPhoneContextInit callback) h"

definition loc_ulp_phone_context_settings_update :: "hal_env \<Rightarrow> 32 word \<Rightarrow> bool \<Rightarrow> nat \<Rightarrow> hal_state \<Rightarrow> hal_state option" where
  "loc_ulp_phone_context_settings_update E context_type charging settings h = call_engine E (HalPhoneContextSettings context_type charging settings) h"

lemmas wrapper_defs =
  loc_start_def loc_stop_def loc_inject_time_def loc_inject_location_def loc_delete_aiding_data_def
  loc_update_criteria_def loc_agps_init_def loc_xtra_init_def loc_xtra_inject_data_def loc_ni_init_def
  loc_ni_respond_def loc_agps_ril_update_network_availability_def loc_inject_raw_command_def loc_ulp_network_init_def
  loc_ulp_send_network_position_def loc_ulp_phone_context_init_def loc_ulp_phone_context_settings_update_def
  loc_agps_open_def loc_agps_closed_def loc_agps_open_failed_def loc_agps_set_server_def

text \<open>Every function of the interfaces, with the framework's arguments. Five functions of the RIL interface do nothing.\<close>

datatype hal_op =
    LocInit "loc_callbacks option" | LocStart | LocStop | LocCleanup | LocInjectTime int int int
  | LocInjectLocation rat rat rat | LocDeleteAidingData "16 word"
  | LocSetPositionMode "32 word" GpsPositionRecurrence "32 word" "32 word" "32 word" | LocUpdateCriteria nat
  | LocAgpsInit AGpsBearerType | LocAgpsOpen "string option" | LocAgpsClosed | LocAgpsOpenFailed
  | LocAgpsSetServer AGpsType string "32 word" | LocXtraInit bool | LocXtraInjectData "8 word list"
  | LocNiInit bool | LocNiRespond "32 word" int | RilInit | RilSetRefLocation | RilSetSetId | RilNiMessage
  | RilUpdateNetworkState | RilUpdateNetworkAvailability int "string option" | LocInjectRawCommand "8 word list"
  | UlpNetworkInit bool | UlpSendNetworkPosition nat | UlpPhoneContextInit bool
  | UlpPhoneContextSettingsUpdate "32 word" bool nat

fun loc_interface :: "hal_env \<Rightarrow> hal_op \<Rightarrow> hal_state \<Rightarrow> hal_state option" where
  "loc_interface E (LocInit callbacks) h = map_option snd (loc_init E callbacks h)"
| "loc_interface E LocStart h = loc_start E h"
| "loc_interface E LocStop h = loc_stop E h"
| "loc_interface E LocCleanup h = loc_cleanup E h"
| "loc_interface E (LocInjectTime time ref unc) h = loc_inject_time E time ref unc h"
| "loc_interface E (LocInjectLocation lat long acc) h = loc_inject_location E lat long acc h"
| "loc_interface E (LocDeleteAidingData f) h = loc_delete_aiding_data E f h"
| "loc_interface E (LocSetPositionMode mode recur gap accu time) h = loc_set_position_mode E mode recur gap accu time h"
| "loc_interface E (LocUpdateCriteria c) h = loc_update_criteria E c h"
| "loc_interface E (LocAgpsInit bearers) h = loc_agps_init E bearers h"
| "loc_interface E (LocAgpsOpen apn) h = loc_agps_open E apn h"
| "loc_interface E LocAgpsClosed h = loc_agps_closed E h"
| "loc_interface E LocAgpsOpenFailed h = loc_agps_open_failed E h"
| "loc_interface E (LocAgpsSetServer type hostname port) h = loc_agps_set_server E type hostname port h"
| "loc_interface E (LocXtraInit cb) h = loc_xtra_init E cb h"
| "loc_interface E (LocXtraInjectData bytes) h = loc_xtra_inject_data E bytes h"
| "loc_interface E (LocNiInit cb) h = loc_ni_init E cb h"
| "loc_interface E (LocNiRespond i r) h = loc_ni_respond E i r h"
| "loc_interface E RilInit h = Some h"
| "loc_interface E RilSetRefLocation h = Some h"
| "loc_interface E RilSetSetId h = Some h"
| "loc_interface E RilNiMessage h = Some h"
| "loc_interface E RilUpdateNetworkState h = Some h"
| "loc_interface E (RilUpdateNetworkAvailability available apn) h = loc_agps_ril_update_network_availability E available apn h"
| "loc_interface E (LocInjectRawCommand c) h = loc_inject_raw_command E c h"
| "loc_interface E (UlpNetworkInit cb) h = loc_ulp_network_init E cb h"
| "loc_interface E (UlpSendNetworkPosition p) h = loc_ulp_send_network_position E p h"
| "loc_interface E (UlpPhoneContextInit cb) h = loc_ulp_phone_context_init E cb h"
| "loc_interface E (UlpPhoneContextSettingsUpdate t b s) h = loc_ulp_phone_context_settings_update E t b s h"

section \<open>The library in its surroundings\<close>

text \<open>A step of the whole: the framework calls a function, the modem's library reports something, a daemon's message
  has been read by the server, the threads for network-initiated requests change their data or send an answer, the ULP library
  hands on a report, or the engine's thread takes a message.\<close>

datatype hal_step =
    Framework hal_op | Modem modem_event | Daemon loc_eng_conn_msg | NiData ni_data | NiAnswer int ptr
  | UlpLibrary loc_eng_report | EngineThread

fun hal_run1 :: "hal_env \<Rightarrow> hal_step \<Rightarrow> hal_state \<Rightarrow> hal_state option" where
  "hal_run1 E (Framework op) h = loc_interface E op h"
| "hal_run1 E (Modem ev) h = map_option (\<lambda>d. with_engine d h) (modem_exec (adapter_ulp h) ev (loc_afw_data h))"
| "hal_run1 E (Daemon c) h = map_option (\<lambda>d. with_engine d h) (send_checked (Connection (LOC_ENG_MSG_CONN c)) (loc_afw_data h))"
| "hal_run1 E (NiData n) h = Some (with_engine ((loc_afw_data h)\<lparr>loc_eng_ni_data := n\<rparr>) h)"
| "hal_run1 E (NiAnswer r p) h = map_option (\<lambda>d. with_engine d h) (send_checked (LOC_ENG_MSG_INFORM_NI_RESPONSE r p) (loc_afw_data h))"
| "hal_run1 E (UlpLibrary r) h = map_option (\<lambda>d. with_engine d h) (send_checked (Report r) (loc_afw_data h))"
| "hal_run1 E EngineThread h =
     map_option (\<lambda>d. with_engine d h) (loc_eng_deferred_action_thread 1 (env_of E h) (loc_afw_data h))"

fun hal_run :: "hal_env \<Rightarrow> hal_step list \<Rightarrow> hal_state \<Rightarrow> hal_state option" where
  "hal_run E [] h = Some h"
| "hal_run E (s # ss) h = do {h \<leftarrow> hal_run1 E s h; hal_run E ss h}"

text \<open>The static variables when the library is loaded; \<open>mem\<close> are those of the configuration.\<close>

definition hal_start :: "cfg_mem \<Rightarrow> hal_state" where
  "hal_start mem = \<lparr>loc_afw_data = cleared_data, gps_loc_cb = False, gps_sv_cb = False, loc_eng_ulp_inf = False, gss_fd = 0,
     configuration = (False, mem), adapter_ulp = False, delivered = []\<rparr>"

section \<open>Connections other than for SUPL are never granted\<close>

fun grants :: "agps_out \<Rightarrow> bool" where
  "grants (DataConn sender status) \<longleftrightarrow> status = GPSONE_LOC_API_IF_REQUEST_SUCCESS"
| "grants (AtlOpenStatus handle ok apn bearer type) \<longleftrightarrow> ok"
| "grants _ \<longleftrightarrow> False"

definition no_grants :: "AgpsStateMachine \<Rightarrow> bool" where
  "no_grants m \<longleftrightarrow> (\<forall>x \<in> set (out m). \<not> grants x)"

definition ungranted :: "AgpsStateMachine \<Rightarrow> bool" where
  "ungranted m \<longleftrightarrow> mStatePtr m \<noteq> AgpsAcquiredState \<and> no_grants m"

lemma told_no_grant: "x \<in> set (told m n s) \<Longrightarrow> rsrcStatus n \<noteq> RSRC_GRANTED \<Longrightarrow> \<not> grants x"
  by (auto simp: told_def notifyRsrcStatus_defs Let_def split: subscriber_kind.splits AgpsRsrcStatus.splits if_splits)

lemma notify_status [simp]: "rsrcStatus (notify_group g st b) = st" "rsrcStatus (notify_one s st b) = st"
  by (simp_all add: notify_group_def notify_one_def)

lemma no_grants_state [simp]: "no_grants (m\<lparr>mStatePtr := st\<rparr>) = no_grants m" "no_grants (mark_inactive r m) = no_grants m"
  "no_grants (addSubscriber s m) = no_grants m"
  by (cases r) (simp_all add: no_grants_def addSubscriber_def)

lemma no_grants_notify [simp]: "rsrcStatus n \<noteq> RSRC_GRANTED \<Longrightarrow> no_grants m \<Longrightarrow> no_grants (notifySubscribers n m)"
  using told_no_grant
  by (cases "postNotifyDelete n") (fastforce simp: no_grants_def notifySubscribers_delete notifySubscribers_keep)+

lemma no_grants_request [simp]: "no_grants m \<Longrightarrow> no_grants (sendRsrcRequest a m)"
  by (auto simp: no_grants_def sendRsrcRequest_def Let_def)

lemma no_grants_close [simp]: "no_grants m \<Longrightarrow> no_grants (close_subscriber r m)"
  by (simp add: close_subscriber_def)

lemma no_grants_directly [simp]: "st \<noteq> RSRC_GRANTED \<Longrightarrow> no_grants m \<Longrightarrow> no_grants (notify_directly s st m)"
  using told_no_grant [of _ m "notify_one s st False" s] by (auto simp: no_grants_def notify_directly_def told_def)

lemma dispatch_ungranted:
  assumes "ungranted m" and "e = Subscribe r \<or> e = Unsubscribe r"
  shows "ungranted (dispatch e m)"
  using assms by (cases "mStatePtr m") (auto simp: ungranted_def dispatch_def Let_def split: if_splits)

lemma subscribe_ungranted: "ungranted m \<Longrightarrow> ungranted (subscribeRsrc s m)"
  using dispatch_ungranted told_no_grant [of _ m "notify_group BROADCAST_ALL RSRC_DENIED True" s]
  by (auto simp: subscribeRsrc_def notifySubscriber_eq) (auto simp: ungranted_def no_grants_def)

lemma unsubscribe_ungranted: "ungranted m \<Longrightarrow> ungranted (snd (unsubscribeRsrc s m))"
  using dispatch_ungranted by (auto simp: unsubscribeRsrc_def split: option.split)

lemma ungranted_new: "ungranted (newAgpsStateMachine t b j)"
  by (simp add: ungranted_def no_grants_def newAgpsStateMachine_def)

lemma ungranted_drop: "ungranted (dropAllSubscribers m) = ungranted m"
  by (simp add: ungranted_def no_grants_def dropAllSubscribers_def)

definition others_ungranted :: "loc_eng_data \<Rightarrow> bool" where
  "others_ungranted d \<longleftrightarrow> (\<forall>n m. n \<noteq> Agnss \<longrightarrow> nif_of n d = Some m \<longrightarrow> ungranted m)"

text \<open>Answers of the connectivity service in the queue are about SUPL.\<close>

fun about_supl :: "loc_eng_msg \<Rightarrow> bool" where
  "about_supl (Connection (LOC_ENG_MSG_ATL_OPEN_SUCCESS t apn b)) \<longleftrightarrow> t = AGPS_TYPE_SUPL"
| "about_supl (Connection (LOC_ENG_MSG_ATL_CLOSED t)) \<longleftrightarrow> t = AGPS_TYPE_SUPL"
| "about_supl (Connection (LOC_ENG_MSG_ATL_OPEN_FAILED t)) \<longleftrightarrow> t = AGPS_TYPE_SUPL"
| "about_supl _ \<longleftrightarrow> True"

lemma others_set: "others_ungranted d \<Longrightarrow> (n \<noteq> Agnss \<Longrightarrow> ungranted m) \<Longrightarrow> others_ungranted (set_nif n m d)"
  by (auto simp: others_ungranted_def)

lemma others_on_nif:
  assumes "on_nif n f d = Some d'" "others_ungranted d" "\<And>m. n \<noteq> Agnss \<Longrightarrow> ungranted m \<Longrightarrow> ungranted (f m)"
  shows "others_ungranted d'"
  using assms by (auto simp: on_nif_def bind_eq_Some_conv others_ungranted_def split: if_splits)

lemma others_conn:
  assumes "handle_conn_msg junk c d = Some d'" "others_ungranted d"
  shows "others_ungranted d'"
  using assms others_on_nif subscribe_ungranted unsubscribe_ungranted
  by (auto simp: handle_conn_msg_def split: loc_eng_conn_msg.splits option.splits if_splits)

lemma others_connection:
  assumes "handle_connection junk c d = Some d'" "others_ungranted d" "about_supl (Connection c)"
  shows "others_ungranted d'"
proof (cases c)
  case (LOC_ENG_MSG_REQUEST_ATL h t)
  then obtain n where "on_nif n (subscribeRsrc (newATLSubscriber junk h (t = AGPS_TYPE_INVALID))) d = Some d'"
    using assms(1) by (auto simp: handle_connection_def Let_def)
  from others_on_nif [OF this assms(2)] subscribe_ungranted show ?thesis by blast
next
  case (LOC_ENG_MSG_RELEASE_ATL h)
  obtain m found m1 where m: "agnss_nif d = Some m" "unsubscribeRsrc (newATLSubscriber junk h False) m = (found, m1)"
    and r: "found \<and> d' = set_nif Agnss m1 d \<or>
      on_nif Internet (\<lambda>m. snd (unsubscribeRsrc (newATLSubscriber junk h False) m)) (set_nif Agnss m1 d) = Some d'"
    using assms(1) LOC_ENG_MSG_RELEASE_ATL
    by (cases "unsubscribeRsrc (newATLSubscriber junk h False) (the (agnss_nif d))")
      (auto simp: handle_connection_def Let_def bind_eq_Some_conv split: if_splits)
  have o: "others_ungranted (set_nif Agnss m1 d)" using assms(2) by (rule others_set) simp
  from r show ?thesis using o others_on_nif [OF _ o] unsubscribe_ungranted by blast
next
  case (LOC_ENG_MSG_CONN c)
  with assms others_conn show ?thesis by (simp add: handle_connection_def)
next
  case (LOC_ENG_MSG_ATL_OPEN_SUCCESS t apn b)
  then obtain m where "d' = set_nif Agnss m d" 
    using assms(1,3) by (auto simp: handle_connection_def Let_def bind_eq_Some_conv nif_of_agps_type_def)
  then show ?thesis using assms(2) others_set by blast
next
  case (LOC_ENG_MSG_ATL_CLOSED t)
  then have "on_nif Agnss (onRsrcEvent RSRC_RELEASED) d = Some d'"
    using assms(1,3) by (simp add: handle_connection_def nif_of_agps_type_def)
  from others_on_nif [OF this assms(2)] show ?thesis by blast
next
  case (LOC_ENG_MSG_ATL_OPEN_FAILED t)
  then have "on_nif Agnss (onRsrcEvent RSRC_DENIED) d = Some d'"
    using assms(1,3) by (simp add: handle_connection_def nif_of_agps_type_def)
  from others_on_nif [OF this assms(2)] show ?thesis by blast
qed

lemma others_same: "same_conns d d' \<Longrightarrow> others_ungranted d' = others_ungranted d"
  by (simp add: others_ungranted_def conns_nif)


lemma others_frame [simp]: "others_ungranted (loc_eng_msg_sender m d) = others_ungranted d" "others_ungranted (d\<lparr>deferred_q := q\<rparr>) = others_ungranted d"
  by (simp_all add: others_ungranted_def all_nif loc_eng_msg_sender_def)

lemma others_nifs: "nifs d' = nifs d \<Longrightarrow> others_ungranted d' = others_ungranted d"
  by (simp add: others_ungranted_def all_nif nifs_def)

lemma others_up:
  assumes "loc_eng_handle_engine_up e d = Some d'" "others_ungranted d"
  shows "others_ungranted d'"
proof -
  have r: "nifs (snd (loc_eng_reinit e d)) = nifs d" by (simp add: reinit_eq nifs_def)
  obtain d2 where d2: "(if agps_status_cb (snd (loc_eng_reinit e d)) then map_option (loc_eng_agps_reinit e) (drop_both (snd (loc_eng_reinit e d)))
      else Some (snd (loc_eng_reinit e d))) = Some d2"
    and d': "d' = (let d = loc_eng_report_status GPS_STATUS_ENGINE_ON d2 in if navigating d
      then loc_eng_start_handler e ((log_calls [ResendPositionMode] d)\<lparr>navigating := False\<rparr>) else d)"
    using assms(1) by (auto simp: loc_eng_handle_engine_up_def Let_def bind_eq_Some_conv split: if_splits)
  have "others_ungranted d2"
    using d2 others_nifs [OF r] assms(2)
    by (auto simp: drop_both_def bind_eq_Some_conv agps_reinit_eq others_ungranted_def all_nif ungranted_drop split: if_splits)
  moreover have "same_conns d ((log_calls [ResendPositionMode] d)\<lparr>navigating := False\<rparr>)" for d
    by (simp add: same_conns_def log_calls_def)
  then have "same_conns d2 d'" unfolding d' Let_def by (smt (verit) conns_handlers conns_trans)
  ultimately show ?thesis using others_same by blast
qed

lemma others_msg:
  assumes "handle_msg e m d = Some d'" "others_ungranted d" "about_supl m"
  shows "others_ungranted d'"
proof -
  obtain d1 where d1: "handle_switch e m d = Some d1" "d' = delete_msg m (after_switch e m d1)"
    using assms(1) by (auto simp: handle_msg_def)
  have "others_ungranted d1"
  proof (cases m)
    case (Connection c)
    with d1(1) assms(2,3) others_connection show ?thesis by (auto simp: handle_switch_def)
  next
    case LOC_ENG_MSG_ENGINE_UP
    with d1(1) assms(2) others_up show ?thesis by (auto simp: handle_switch_def)
  next
    case LOC_ENG_MSG_STOP_FIX
    have "same_conns d (d\<lparr>stop_request_pending := True\<rparr>)" by (simp add: same_conns_def)
    with LOC_ENG_MSG_STOP_FIX d1(1) assms(2) others_same others_same [OF conns_handlers(2), of e d] show ?thesis
      by (auto simp: handle_switch_def split: if_splits)
  next
    case (LOC_ENG_MSG_DELETE_AIDING_DATA f)
    have "same_conns d (d\<lparr>aiding_data_for_deletion := a\<rparr>)" for a by (simp add: same_conns_def)
    with LOC_ENG_MSG_DELETE_AIDING_DATA d1(1) assms(2) others_same show ?thesis by (auto simp: handle_switch_def)
  qed (use d1(1) assms(2) in \<open>auto simp: handle_switch_def others_same [OF conns_log] others_same [OF conns_handlers(1)]
        others_same [OF conns_report] others_same [OF conns_ni_request] others_same [OF conns_down] split: if_splits\<close>)
  with others_same conns_after_switch d1(2) show ?thesis by blast
qed

text \<open>A round of the thread adds settings to the queue only.\<close>

lemma thread_queue:
  assumes "machines_made d" and "handle_msg e m (d\<lparr>deferred_q := q\<rparr>) = Some d'"
  shows "\<exists>ss. deferred_q d' = q @ map Setting ss"
proof -
  let ?d = "d\<lparr>deferred_q := q\<rparr>"
  have made: "machines_made ?d" using assms(1) by (simp add: machines_made_def all_nif)
  consider "agps_status_cb ?d \<or> (\<forall>c. m \<noteq> Connection c)" | c where "m = Connection c" "\<forall>n. nif_of n ?d = None"
    using made unfolding machines_made_def by blast
  then show ?thesis
  proof cases
    case 1
    from msg_step [OF made 1, of e] assms(2) show ?thesis by auto
  next
    case 2
    obtain d1 where d1: "handle_switch e m ?d = Some d1" "d' = delete_msg m (after_switch e m d1)"
      using assms(2) by (auto simp: handle_msg_def)
    have "d1 = ?d" using d1(1) 2 no_machines by (simp add: handle_switch_def)
    then have "deferred_q d' = q" using d1(2) conns_after_switch [of ?d m e] by (simp add: same_conns_def)
    then show ?thesis by (intro exI [of _ "[]"]) simp
  qed
qed

text \<open>The invariant of the whole.\<close>

definition supl_only :: "loc_eng_data \<Rightarrow> bool" where
  "supl_only d \<longleftrightarrow> machines_made d \<and> others_ungranted d \<and> list_all about_supl (deferred_q d)"

lemma supl_settings [simp]: "list_all about_supl (map Setting ss)"
  by (simp add: list_all_iff)

lemma supl_only_thread:
  assumes "loc_eng_deferred_action_thread 1 e d = Some d'" "supl_only d"
  shows "supl_only d'"
proof (cases "deferred_q d")
  case Nil
  with assms show ?thesis by simp
next
  case (Cons m q)
  let ?d = "d\<lparr>deferred_q := q\<rparr>"
  have made: "machines_made d" "about_supl m" "list_all about_supl q" "others_ungranted ?d"
    using assms(2) Cons by (simp_all add: supl_only_def)
  show ?thesis
  proof (cases "\<not> has_context d \<or> m = LOC_ENG_MSG_QUIT")
    case True
    with assms(1) Cons made show ?thesis by (auto simp: supl_only_def machines_made_def all_nif)
  next
    case False
    then have h: "handle_msg e m ?d = Some d'" using assms(1) Cons by (auto simp: bind_eq_Some_conv)
    obtain ss where "deferred_q d' = q @ map Setting ss" using thread_queue [OF made(1) h] by blast
    with nifs_thread [OF made(1) h] others_msg [OF h made(4,2)] made(3) show ?thesis by (simp add: supl_only_def)
  qed
qed

lemma supl_only_send: "supl_only d \<Longrightarrow> about_supl m \<Longrightarrow> supl_only (loc_eng_msg_sender m d)"
  by (auto simp: supl_only_def machines_made_def all_nif loc_eng_msg_sender_def others_ungranted_def)

lemma supl_only_frame: "supl_only d \<Longrightarrow> nifs d' = nifs d \<Longrightarrow> deferred_q d' = deferred_q d \<Longrightarrow> supl_only d'"
  by (simp add: supl_only_def machines_made_def all_nif others_ungranted_def nifs_def)


fun supl_call :: "hal_call \<Rightarrow> bool" where
  "supl_call (HalAgpsOpen t apn b) \<longleftrightarrow> t = AGPS_TYPE_SUPL"
| "supl_call (HalAgpsClosed t) \<longleftrightarrow> t = AGPS_TYPE_SUPL"
| "supl_call (HalAgpsOpenFailed t) \<longleftrightarrow> t = AGPS_TYPE_SUPL"
| "supl_call _ \<longleftrightarrow> True"

definition adds_supl :: "loc_eng_data \<Rightarrow> loc_eng_data \<Rightarrow> bool" where
  "adds_supl d d' \<longleftrightarrow> (\<exists>ms. deferred_q d' = deferred_q d @ ms \<and> list_all about_supl ms)"

lemma adds_supl_simps [simp]:
  "adds_supl d d" "about_supl m \<Longrightarrow> adds_supl d (loc_eng_msg_sender m d)" "adds_supl d (loc_ulp_msg_sender u d)"
  "about_supl m \<Longrightarrow> adds_supl d (when_ready m d)" "about_supl (Connection a) \<Longrightarrow> adds_supl d (when_agps_ready a d)"
  "adds_supl d (loc_eng_start e d)" "adds_supl d (loc_eng_stop e d)" "adds_supl d (loc_eng_cleanup e d)"
  by (auto simp: adds_supl_def loc_eng_msg_sender_def loc_ulp_msg_sender_def when_ready_def when_agps_ready_def loc_eng_start_def
      loc_eng_stop_def loc_eng_cleanup_def)

lemma adds_supl_trans: "adds_supl d d' \<Longrightarrow> adds_supl d' d'' \<Longrightarrow> adds_supl d d''"
  by (auto simp: adds_supl_def)

lemma adds_supl_checked:
  "send_checked m d = Some d' \<Longrightarrow> about_supl m \<Longrightarrow> adds_supl d d'" "when_ulp e u d = Some d' \<Longrightarrow> adds_supl d d'"
  by (auto simp: send_checked_def when_ulp_def split: if_splits)

lemma adds_supl_server: "adds_supl d (snd (loc_eng_set_server_proxy e t h p d))"
  by (auto simp: loc_eng_set_server_proxy_def loc_eng_set_server_def Let_def adds_supl_def loc_eng_msg_sender_def
      split: LocServerType.split option.split)

lemma adds_supl_init: "adds_supl d (loc_eng_agps_init e b d)"
  by (auto simp: loc_eng_agps_init_def agps_reinit_eq adds_supl_def log_calls_def Let_def)

lemma exec_adds:
  assumes "hal_exec e c d = Some d'" "supl_call c"
  shows "adds_supl d d'"
  using assms
proof (cases c)
  case (HalPhoneContextSettings t b s)
  then obtain d1 where d1: "when_ulp e (ULP_MSG_INJECT_PHONE_CONTEXT_SETTINGS s) d = Some d1"
    "d' = d1 \<or> send_checked (Setting (LOC_ENG_MSG_EXT_POWER_CONFIG b)) d1 = Some d'"
    using assms(1) by (auto simp: bind_eq_Some_conv split: if_splits)
  from adds_supl_checked(2) [OF d1(1)] d1(2) adds_supl_checked(1) [of "Setting (LOC_ENG_MSG_EXT_POWER_CONFIG b)" d1 d']
  show ?thesis by (auto intro: adds_supl_trans)
next
  case (HalAgpsOpen t apn b)
  with assms show ?thesis by (auto split: option.splits)
next
  case (HalNetworkAvailability a apn)
  with assms show ?thesis by (auto split: option.splits)
next
  case (HalSetServer t h p)
  with assms adds_supl_server show ?thesis by auto
next
  case (HalAgpsInit b)
  with assms adds_supl_init show ?thesis by auto
qed (auto dest: adds_supl_checked split: if_splits, auto simp: adds_supl_def)

lemma others_init: "others_ungranted d \<Longrightarrow> others_ungranted (loc_eng_agps_init e b d)"
  unfolding others_ungranted_def all_nif
  by (auto simp: loc_eng_agps_init_def agps_reinit_eq log_calls_def Let_def ungranted_new)

lemma supl_only_exec:
  assumes "hal_exec e c d = Some d'" "supl_only d" "supl_call c"
  shows "supl_only d'"
proof -
  have d: "others_ungranted d" "list_all about_supl (deferred_q d)" "machines_made d" using assms(2) by (simp_all add: supl_only_def)
  obtain ms where "deferred_q d' = deferred_q d @ ms" "list_all about_supl ms"
    using exec_adds [OF assms(1,3)] unfolding adds_supl_def by blast
  then have q: "list_all about_supl (deferred_q d')" using d(2) by simp
  have made: "machines_made d'" using nifs_hal [OF assms(1)] d(3) by blast
  have "others_ungranted d'"
  proof (cases "\<exists>b. c = HalAgpsInit b")
    case True
    then obtain b where "d' = loc_eng_agps_init e b d" using assms(1) by (auto simp only: hal_exec.simps option.inject)
    then show ?thesis using others_init d(1) by blast
  next
    case False
    then have "nifs d' = nifs d" using nifs_exec [OF assms(1)] by blast
    then show ?thesis using others_nifs d(1) by blast
  qed
  with q made show ?thesis by (simp add: supl_only_def)
qed

lemma reinit_queue: "\<exists>ss. deferred_q (snd (loc_eng_reinit e d)) = deferred_q d @ map Setting ss"
  by (cases "reinit_result (client e) (eng_calls d) = API_SUCCESS") (auto simp: reinit_eq intro: exI [of _ "[]"])

lemma init_tries_queue: "\<exists>ss. deferred_q (snd (init_tries n e d)) = deferred_q d @ map Setting ss"
proof (induction n arbitrary: d)
  case (Suc n)
  obtain r d1 where d1: "loc_eng_reinit e d = (r, d1)" by force
  then obtain s1 where "deferred_q d1 = deferred_q d @ map Setting s1" using reinit_queue [of e d] by auto
  moreover obtain ss where "deferred_q (snd (init_tries n e d1)) = deferred_q d1 @ map Setting ss" using Suc by blast
  ultimately have "deferred_q (snd (init_tries n e d1)) = deferred_q d @ map Setting (s1 @ ss)"
    "deferred_q d1 = deferred_q d @ map Setting s1" by simp_all
  then show ?case using d1 by (cases "r = API_SUCCESS \<or> n = 0") (auto simp del: map_append)
qed (auto intro: exI [of _ "[]"])

lemma init_queue:
  assumes "\<not> has_context d0" and "event \<noteq> 0" and "loc_eng_init e ok (Some cb) event d0 = (r, d)"
  shows "list_all about_supl (deferred_q d)"
proof -
  have t: "list_all about_supl (deferred_q d2)" if "init_tries 30 e d1 = (x, d2)" "deferred_q d1 = []" for d1 d2 x
    using init_tries_queue [of 30 e d1] that by (auto simp del: init_tries.simps)
  from assms show ?thesis
    by (auto dest!: t simp: loc_eng_init_def Let_def cleared_data_def log_calls_def simp del: init_tries.simps split: if_splits prod.splits)
qed

lemma supl_only_init:
  assumes "supl_only d0" and "loc_eng_init e ok (Some cb) event d0 = (r, d)"
  shows "supl_only d"
proof (cases "event = 0 \<or> has_context d0")
  case True
  with assms show ?thesis by (auto simp: loc_eng_init_def)
next
  case False
  with init_queue [OF _ _ assms(2)] init_eq [OF _ _ assms(2)] show ?thesis
    by (simp add: supl_only_def machines_made_def others_ungranted_def all_nif)
qed

lemma call_engine_supl:
  assumes "call_engine E c h = Some h'" "supl_only (loc_afw_data h)" "supl_call c"
  shows "supl_only (loc_afw_data h')"
  using assms supl_only_exec by (auto simp: call_engine_def with_engine_def)

lemma loc_init_supl:
  assumes "loc_init E cb h = Some (r, h')" "supl_only (loc_afw_data h)"
  shows "supl_only (loc_afw_data h')"
proof -
  obtain c where c: "cb = Some c" using assms(1) by (cases cb) (auto simp: loc_init_def)
  let ?h = "h\<lparr>gps_loc_cb := has_location_cb c, gps_sv_cb := has_sv_status_cb c\<rparr>"
  obtain r1 d where d: "loc_eng_init (env_of E ?h) (adapter_ok E) (Some (c\<lparr>has_location_cb := True, has_sv_status_cb := True\<rparr>))
      init_events (loc_afw_data ?h) = (r1, d)" by force
  have s: "supl_only (loc_afw_data ((with_engine d ?h)\<lparr>adapter_ulp := b\<rparr>))" for b
    using supl_only_init [OF _ d] assms(2) by (simp add: with_engine_def)
  from assms(1) d show ?thesis
    unfolding loc_init_def c by (auto simp: Let_def intro!: call_engine_supl [OF _ s])
qed

lemma interface_supl:
  assumes "loc_interface E op h = Some h'" "supl_only (loc_afw_data h)"
  shows "supl_only (loc_afw_data h')"
  using assms
proof (cases op)
  case (LocInit cb)
  with assms loc_init_supl show ?thesis by force
next
  case (LocSetPositionMode mode recur gap accu time)
  with assms show ?thesis
    by (auto simp: loc_set_position_mode_def bind_eq_Some_conv Let_def intro: call_engine_supl)
qed (auto simp: loc_cleanup_def wrapper_defs Let_def
    dest: call_engine_supl)

lemma event_supl: "event_msg ev = Some m \<Longrightarrow> about_supl m"
  by (cases ev) auto

lemma modem_supl:
  assumes "modem_exec ulp ev d = Some d'" "supl_only d"
  shows "supl_only d'"
proof (cases "event_msg ev")
  case None
  with modem_exec_queues [OF assms(1)] assms(2) show ?thesis by simp
next
  case (Some m)
  have u: "supl_only (loc_ulp_msg_sender x d)" for x
    using assms(2) by (rule supl_only_frame) (simp_all add: nifs_def loc_ulp_msg_sender_def)
  from supl_only_send [OF assms(2) event_supl [OF Some]] u modem_exec_queues [OF assms(1)] Some show ?thesis
    by (auto split: loc_eng_msg.splits if_splits)
qed

lemma checked_supl: "send_checked m d = Some d' \<Longrightarrow> supl_only d \<Longrightarrow> about_supl m \<Longrightarrow> supl_only d'"
  by (auto simp: send_checked_def supl_only_send split: if_splits)

lemma run1_supl:
  assumes "hal_run1 E s h = Some h'" "supl_only (loc_afw_data h)"
  shows "supl_only (loc_afw_data h')"
proof (cases s)
  case (Framework op)
  with assms interface_supl show ?thesis by auto
next
  case (Modem ev)
  with assms modem_supl show ?thesis by (auto simp: with_engine_def)
next
  case (NiData n)
  have "supl_only ((loc_afw_data h)\<lparr>loc_eng_ni_data := n\<rparr>)" using assms(2) by (rule supl_only_frame) simp_all
  with assms NiData show ?thesis by (auto simp: with_engine_def)
next
  case EngineThread
  with assms supl_only_thread show ?thesis
    by (auto simp: with_engine_def simp del: loc_eng_deferred_action_thread.simps)
qed (use assms checked_supl in \<open>auto simp: with_engine_def\<close>)

lemma run_supl: "hal_run E ss h = Some h' \<Longrightarrow> supl_only (loc_afw_data h) \<Longrightarrow> supl_only (loc_afw_data h')"
  by (induction ss arbitrary: h) (auto simp: bind_eq_Some_conv dest: run1_supl)

lemma interface_afw: "get_gps_interface E stack h = Some h' \<Longrightarrow> loc_afw_data h' = loc_afw_data h"
  by (auto simp: get_gps_interface_def bind_eq_Some_conv Let_def set_capabilities_def split: if_splits)

lemma supl_only_cleared: "supl_only cleared_data"
  by (simp add: supl_only_def cleared_data_def machines_made_def others_ungranted_def all_nif)

text \<open>C16: the table hands the framework's answers about a connection on as answers about SUPL, whatever connection it has been
  asked for. So the machines for the internet and for WiFi never get their connection: whatever the framework, the
  modem, the daemons and the engine's thread do in whatever order, they do not reach the acquired state and no client
  is ever told by them that its connection is open.\<close>
theorem internet_wifi_never_granted:
  assumes "get_gps_interface E stack (hal_start mem) = Some h0" and "hal_run E steps h0 = Some h"
    and "n \<noteq> Agnss" and "nif_of n (loc_afw_data h) = Some m"
  shows "mStatePtr m \<noteq> AgpsAcquiredState \<and> (\<forall>x \<in> set (out m). case x of
      DataConn sender status \<Rightarrow> status \<noteq> GPSONE_LOC_API_IF_REQUEST_SUCCESS
    | AtlOpenStatus handle ok apn bearer type \<Rightarrow> \<not> ok | _ \<Rightarrow> True)"
proof -
  have "supl_only (loc_afw_data h)"
    using run_supl [OF assms(2)] interface_afw [OF assms(1)] supl_only_cleared by (simp add: hal_start_def)
  then have "ungranted m" using assms(3,4) by (simp add: supl_only_def others_ungranted_def)
  then show ?thesis by (fastforce simp: ungranted_def no_grants_def split: agps_out.split)
qed

section \<open>What reaches the framework\<close>

definition is_report :: "loc_call \<Rightarrow> bool" where
  "is_report c = (case c of LocationCb location \<Rightarrow> True | SvStatusCb sv \<Rightarrow> True | _ \<Rightarrow> False)"

definition silenced :: "hal_state \<Rightarrow> bool" where
  "silenced h \<longleftrightarrow> \<not> gps_loc_cb h \<and> \<not> gps_sv_cb h"

text \<open>A step that leaves the callbacks unset and delivers no report.\<close>

definition silent_step :: "hal_state \<Rightarrow> hal_state \<Rightarrow> bool" where
  "silent_step h h' \<longleftrightarrow> silenced h' \<and> (\<exists>new. delivered h' = delivered h @ new \<and> (\<forall>c \<in> set new. \<not> is_report c))"

lemma pass_on_silenced: "silenced h \<Longrightarrow> c' \<in> set (pass_on h c) \<Longrightarrow> \<not> is_report c'"
  by (auto simp: pass_on_def loc_cb_def sv_cb_def silenced_def is_report_def split: loc_call.splits)

lemma silent_engine: "silenced h \<Longrightarrow> silent_step h (with_engine d h)"
  using pass_on_silenced by (auto simp: silent_step_def with_engine_def silenced_def)

lemma silent_call: "call_engine E c h = Some h' \<Longrightarrow> silenced h \<Longrightarrow> silent_step h h'"
  using silent_engine by (auto simp: call_engine_def)

lemma silent_refl: "silenced h \<Longrightarrow> silent_step h h"
  by (simp add: silent_step_def)

lemma silent_trans: "silent_step h h1 \<Longrightarrow> silent_step h1 h2 \<Longrightarrow> silent_step h h2"
  by (auto simp: silent_step_def)

lemma silent_interface:
  assumes "loc_interface E op h = Some h'" "silenced h" "\<And>cb. op \<noteq> LocInit cb"
  shows "silent_step h h'"
  using assms(1,2)
proof (cases op)
  case (LocInit cb)
  with assms(3) show ?thesis by blast
next
  case LocCleanup
  with assms silent_call show ?thesis by (auto simp: loc_cleanup_def) (simp add: silent_step_def silenced_def)
next
  case (LocSetPositionMode mode recur gap accu time)
  with assms show ?thesis
    by (auto simp: loc_set_position_mode_def bind_eq_Some_conv Let_def intro: silent_call)
qed (auto simp: wrapper_defs Let_def silent_refl
    dest: silent_call)

lemma silent_run1:
  assumes "hal_run1 E s h = Some h'" "silenced h" "\<And>cb. s \<noteq> Framework (LocInit cb)"
  shows "silent_step h h'"
proof (cases s)
  case (Framework op)
  with assms silent_interface show ?thesis by auto
next
  case EngineThread
  with assms silent_engine show ?thesis by (auto simp del: loc_eng_deferred_action_thread.simps)
qed (use assms silent_engine in auto)

lemma silent_run:
  assumes "hal_run E ss h = Some h'" "silenced h" "\<forall>cb. Framework (LocInit cb) \<notin> set ss"
  shows "silent_step h h'"
  using assms
proof (induction ss arbitrary: h)
  case (Cons s ss)
  then obtain h1 where h1: "hal_run1 E s h = Some h1" "hal_run E ss h1 = Some h'" by (auto simp: bind_eq_Some_conv)
  have "silent_step h h1" using silent_run1 [OF h1(1) Cons.prems(2)] Cons.prems(3) by auto
  moreover have "silent_step h1 h'" using Cons.IH [OF h1(2)] Cons.prems(3) \<open>silent_step h h1\<close> by (auto simp: silent_step_def)
  ultimately show ?case by (rule silent_trans)
qed (simp add: silent_refl)


section \<open>The target by its files\<close>

definition first_line :: "string \<Rightarrow> string" where
  "first_line content = takeWhile (\<lambda>c. \<not> IS_STR_END c) (take (LINE_LEN - 1) content)"

lemma fgets_take_line_end:
  "takeWhile (\<lambda>c. \<not> IS_STR_END c) (fst (fgets_take n s)) = takeWhile (\<lambda>c. \<not> IS_STR_END c) (take n s)"
  by (induction n s rule: fgets_take.induct) (auto simp: IS_STR_END_def split: prod.split)

lemma length_fgets_take: "length (fst (fgets_take n s)) \<le> n"
  by (induction n s rule: fgets_take.induct) (auto split: prod.split)

lemma takeWhile_stop: "\<not> P x \<Longrightarrow> takeWhile P (xs @ x # ys) = takeWhile P xs"
  by (induction xs) auto

lemma read_a_line_text:
  assumes "length line = LINE_LEN"
  shows "fst (read_a_line files path line LINE_LEN) = (if files path = None then - 1 else 0)"
    and "length (snd (read_a_line files path line LINE_LEN)) = LINE_LEN"
    and "takeWhile (\<lambda>c. \<not> IS_STR_END c) (snd (read_a_line files path line LINE_LEN)) =
      (case files path of None \<Rightarrow> '''' | Some content \<Rightarrow> first_line content)"
proof -
  let ?P = "\<lambda>c. \<not> IS_STR_END c"
  let ?line = "line[0 := NUL]"
  have n: "\<not> ?P NUL" by (simp add: IS_STR_END_def)
  have "0 < length line" using assms by (simp add: LINE_LEN_def)
  then obtain r where r: "?line = NUL # r" by (cases line) auto
  have lr: "Suc (length r) = LINE_LEN" using arg_cong [OF r, of length] assms by simp
  show f: "fst (read_a_line files path line LINE_LEN) = (if files path = None then - 1 else 0)"
    by (simp add: read_a_line_def Let_def split: option.split)
  have *: "length (snd (read_a_line files path line LINE_LEN)) = LINE_LEN \<and>
      takeWhile ?P (snd (read_a_line files path line LINE_LEN)) = (case files path of None \<Rightarrow> '''' | Some content \<Rightarrow> first_line content)"
  proof (cases "files path")
    case None
    then show ?thesis using r n lr by (simp add: read_a_line_def)
  next
    case (Some content)
    define l where "l = fst (fgets_take (LINE_LEN - 1) content)"
    let ?buf = "case fgets LINE_LEN content of None \<Rightarrow> ?line | Some (l, rest) \<Rightarrow> put_text l ?line"
    obtain x where x: "?buf = l @ NUL # x" "length (l @ NUL # x) = LINE_LEN"
    proof (cases "content = ''''")
      case True
      then have "l = ''''" by (cases "LINE_LEN - 1") (simp_all add: l_def)
      with True show ?thesis using that [of r] r lr by (simp add: fgets_def)
    next
      case False
      have "length l \<le> LINE_LEN - 1" unfolding l_def by (rule length_fgets_take)
      then have "length (put_text l ?line) = LINE_LEN" using assms by (simp add: put_text_def LINE_LEN_def)
      with False that [of "drop (length l + 1) ?line"] show ?thesis
        by (auto simp: fgets_def l_def put_text_def split: prod.split)
    qed
    have c: "c_str (l @ NUL # x) = c_str l" by (simp add: c_str_def takeWhile_stop)
    have len: "length (c_str l) \<le> length l" by (simp add: c_str_def length_takeWhile_le)
    have le: "length l \<le> LINE_LEN - 1" unfolding l_def by (rule length_fgets_take)
    have "(l @ NUL # x) ! length (c_str l) = NUL"
    proof (cases "no_nul l")
      case True
      then have "c_str l = l" by (auto simp: c_str_def no_nul_def takeWhile_eq_all_conv)
      then show ?thesis by simp
    next
      case False
      then have "c_str l \<noteq> l" by (auto simp: c_str_def no_nul_def takeWhile_eq_all_conv)
      then have "length (c_str l) < length l"
        using len takeWhile_eq_take [of "\<lambda>c. c \<noteq> NUL" l] by (cases "length (c_str l) = length l") (auto simp: c_str_def)
      moreover then have "l ! length (c_str l) = NUL" using nth_length_takeWhile [of "\<lambda>c. c \<noteq> NUL" l] by (simp add: c_str_def)
      ultimately show ?thesis by (simp add: nth_append)
    qed
    then have same: "(l @ NUL # x)[length (c_str l) := NUL] = l @ NUL # x" by (metis list_update_id)
    have i: "(if length (c_str l) < LINE_LEN - 1 then length (c_str l) else LINE_LEN - 1) = length (c_str l)" using len le by simp
    then have "snd (read_a_line files path line LINE_LEN) = l @ NUL # x"
      unfolding read_a_line_def Let_def Some option.case x(1) c by (simp only: i same snd_conv)
    moreover have "takeWhile ?P (l @ NUL # x) = first_line content"
      using fgets_take_line_end [of "LINE_LEN - 1" content] n by (simp add: takeWhile_stop l_def first_line_def)
    ultimately show ?thesis using x(2) Some by simp
  qed
  show "length (snd (read_a_line files path line LINE_LEN)) = LINE_LEN"
    and "takeWhile ?P (snd (read_a_line files path line LINE_LEN)) = (case files path of None \<Rightarrow> '''' | Some content \<Rightarrow> first_line content)"
    using * by blast+
qed

lemma compare_line:
  assumes "length w < length line" "\<forall>c \<in> set w. \<not> IS_STR_END c"
  shows "take (length w) line = w \<and> IS_STR_END (line ! length w) \<longleftrightarrow> takeWhile (\<lambda>c. \<not> IS_STR_END c) line = w"
  using assms
proof (induction w arbitrary: line)
  case Nil
  then show ?case by (cases line) auto
next
  case (Cons c w)
  then show ?case by (cases line) auto
qed

lemma compare_line_at:
  "n = length w \<Longrightarrow> n < length line \<Longrightarrow> \<forall>c \<in> set w. \<not> IS_STR_END c \<Longrightarrow>
    take n line = w \<and> IS_STR_END (line ! n) \<longleftrightarrow> takeWhile (\<lambda>c. \<not> IS_STR_END c) line = w"
  by hypsubst (rule compare_line)

lemma compare_start:
  assumes "\<forall>c \<in> set w. \<not> IS_STR_END c" and "n = length w"
  shows "take n line = w \<longleftrightarrow> take n (takeWhile (\<lambda>c. \<not> IS_STR_END c) line) = w"
  unfolding assms(2) using assms(1)
proof (induction w arbitrary: line)
  case (Cons c w)
  then show ?case by (cases line) auto
qed simp

text \<open>Which target it is depends on the first lines of the files only, not on what the array on the stack holds: a platform
  called exactly \<open>Liquid\<close> or \<open>Surf\<close> is a Fusion3 if the modem's device can be opened, and otherwise a stand-alone
  APQ8064 if the chip's identifier starts with 109 or 153; everything else is another target.\<close>
theorem target_name_by_first_line:
  assumes "length stack = LINE_LEN"
  shows "get_target_name files stack =
    (let line = (\<lambda>path. case files path of None \<Rightarrow> '''' | Some content \<Rightarrow> first_line content) in
     if line ''/sys/devices/system/soc/soc0/hw_platform'' \<notin> {''Liquid'', ''Surf''} then TARGET_NAME_OTHER
     else if files ''/dev/mdm'' \<noteq> None then TARGET_NAME_APQ8064_FUSION3
     else if take 3 (line ''/sys/devices/system/soc/soc0/id'') \<in> {''109'', ''153''} then TARGET_NAME_APQ8064_STANDALONE
     else TARGET_NAME_OTHER)"
proof -
  let ?hw = "''/sys/devices/system/soc/soc0/hw_platform''" and ?id = "''/sys/devices/system/soc/soc0/id''"
  obtain r1 l1 where 1: "read_a_line files ?hw stack LINE_LEN = (r1, l1)" by force
  obtain r2 l2 where 2: "read_a_line files ''/dev/mdm'' l1 LINE_LEN = (r2, l2)" by force
  obtain r3 l3 where 3: "read_a_line files ?id l2 LINE_LEN = (r3, l3)" by force
  note t1 = read_a_line_text [OF assms, of files ?hw, unfolded 1 fst_conv snd_conv]
  note t2 = read_a_line_text [OF t1(2), of files "''/dev/mdm''", unfolded 2 fst_conv snd_conv]
  note t3 = read_a_line_text [OF t2(2), of files ?id, unfolded 3 fst_conv snd_conv]
  have hw: "(take 6 l1 = ''Liquid'' \<and> IS_STR_END (l1 ! 6)) \<or> (take 4 l1 = ''Surf'' \<and> IS_STR_END (l1 ! 4))
      \<longleftrightarrow> (case files ?hw of None \<Rightarrow> '''' | Some content \<Rightarrow> first_line content) \<in> {''Liquid'', ''Surf''}"
  proof -
    have "take 6 l1 = ''Liquid'' \<and> IS_STR_END (l1 ! 6) \<longleftrightarrow> takeWhile (\<lambda>c. \<not> IS_STR_END c) l1 = ''Liquid''"
      by (rule compare_line_at) (use t1(2) in \<open>simp_all add: IS_STR_END_def LINE_LEN_def\<close>)
    moreover have "take 4 l1 = ''Surf'' \<and> IS_STR_END (l1 ! 4) \<longleftrightarrow> takeWhile (\<lambda>c. \<not> IS_STR_END c) l1 = ''Surf''"
      by (rule compare_line_at) (use t1(2) in \<open>simp_all add: IS_STR_END_def LINE_LEN_def\<close>)
    ultimately show ?thesis unfolding t1(3) by blast
  qed
  have id: "take 3 l3 = ''109'' \<or> take 3 l3 = ''153''
      \<longleftrightarrow> take 3 (case files ?id of None \<Rightarrow> '''' | Some content \<Rightarrow> first_line content) \<in> {''109'', ''153''}"
  proof -
    have "take 3 l3 = ''109'' \<longleftrightarrow> take 3 (takeWhile (\<lambda>c. \<not> IS_STR_END c) l3) = ''109''"
      "take 3 l3 = ''153'' \<longleftrightarrow> take 3 (takeWhile (\<lambda>c. \<not> IS_STR_END c) l3) = ''153''"
      by (rule compare_start; simp add: IS_STR_END_def)+
    then show ?thesis unfolding t3(3) by blast
  qed
  show ?thesis
    unfolding get_target_name_def 1 2 3 fst_conv snd_conv Let_def prod.case hw id t2(1)
    by (simp only: insert_iff) simp
qed

theorem target_name_by_first_line_witness:
  "get_target_name [''/sys/devices/system/soc/soc0/hw_platform'' \<mapsto> ''Surf'' @ [CHR 0x0A],
      ''/sys/devices/system/soc/soc0/id'' \<mapsto> ''153''] (replicate 100 (CHR ''x'')) = TARGET_NAME_APQ8064_STANDALONE"
proof -
  have "length (replicate 100 (CHR ''x'')) = LINE_LEN" by (simp add: LINE_LEN_def)
  moreover have "first_line (''Surf'' @ [CHR 0x0A]) = ''Surf''" "first_line ''153'' = ''153''"
    by (simp_all add: first_line_def LINE_LEN_def IS_STR_END_def)
  ultimately show ?thesis by (simp add: target_name_by_first_line)
qed

section \<open>From the configuration file to the framework\<close>

lemma init_first_call:
  assumes "\<not> has_context d0" "event \<noteq> 0" "has_set_capabilities_cb cb" "loc_eng_init e ok (Some cb) event d0 = (r, d)"
  shows "\<exists>cs. eng_calls d = eng_calls d0 @ CapabilitiesCb (CAPABILITIES (gps_conf e)) # cs"
proof -
  have t: "\<exists>cs. eng_calls d2 = eng_calls d1 @ cs" if "init_tries 30 e d1 = (x, d2)" for d1 d2 x
    using init_tries_eq [of 30 e d1] that by (auto simp del: init_tries.simps)
  from assms show ?thesis
    by (auto dest!: t simp: loc_eng_init_def Let_def log_calls_def simp del: init_tries.simps split: if_splits prod.splits)
qed

lemma loc_init_some:
  assumes "\<not> has_context (loc_afw_data h)" "has_set_capabilities_cb cb" "eng_calls (loc_afw_data h) = []" "delivered h = []"
  shows "\<exists>r h' cs. loc_init E (Some cb) h = Some (r, h') \<and> delivered h' = CapabilitiesCb (CAPABILITIES (hal_conf h)) # cs"
proof -
  let ?h = "h\<lparr>gps_loc_cb := has_location_cb cb, gps_sv_cb := has_sv_status_cb cb\<rparr>"
  let ?cb = "cb\<lparr>has_location_cb := True, has_sv_status_cb := True\<rparr>"
  obtain r d where d: "loc_eng_init (env_of E ?h) (adapter_ok E) (Some ?cb) init_events (loc_afw_data ?h) = (r, d)" by force
  have "init_events \<noteq> 0" by (simp add: init_events_def LOC_API_ADAPTER_BIT_NMEA_1HZ_REPORT_def)
  then obtain cs where cs: "eng_calls d = CapabilitiesCb (CAPABILITIES (hal_conf h)) # cs"
    using init_first_call [OF _ _ _ d] assms(1,2,3) by (auto simp: env_of_def hal_conf_def)
  let ?h1 = "(with_engine d ?h)\<lparr>adapter_ulp := (if has_context (loc_afw_data ?h) then adapter_ulp ?h else loc_eng_ulp_inf ?h)\<rparr>"
  have n: "new_calls d (if b then d\<lparr>ulp_initialized := True\<rparr> else d) = []" for b by (simp add: new_calls_def)
  have "loc_init E (Some cb) h = map_option (Pair r) (call_engine E (HalUlpInit (loc_eng_ulp_inf ?h1)) ?h1)"
    using d by (simp add: loc_init_def Let_def)
  moreover have "\<exists>h'. call_engine E (HalUlpInit b) ?h1 = Some h' \<and> delivered h' = delivered ?h1" for b
    using n [of b] by (simp add: call_engine_def with_engine_def)
  moreover have "\<exists>cs. delivered ?h1 = CapabilitiesCb (CAPABILITIES (hal_conf h)) # cs"
    using cs assms(3,4) by (simp add: with_engine_def new_calls_def pass_on_def)
  ultimately show ?thesis by fastforce
qed

text \<open>C31: the capabilities the framework is told when it initialises the interface are those of the last line of the
  configuration file, or the built-in ones, without the mobile-assisted and mobile-based modes on a stand-alone target; the ULP
  library is loaded, and the interface to it offered, exactly if the file asks for it, which is not affected by the
  target.\<close>
theorem capabilities_from_configuration:
  fixes mem :: cfg_mem and stack :: string
  assumes "\<forall>kv \<in> set kvs. wf_setting kv" and "root_files E GPS_CONF_FILE = Some (conf_text kvs)" and "has_set_capabilities_cb cb"
  defines "c \<equiv> (case map_of (rev kvs) ''CAPABILITIES'' of None \<Rightarrow> 7 | Some v \<Rightarrow> word_of_int v)"
  defines "caps \<equiv> (if get_target_name (root_files E) stack = TARGET_NAME_APQ8064_STANDALONE then c AND NOT 6 else c)"
  shows "\<exists>h r h'. get_gps_interface E stack (hal_start mem) = Some h \<and> loc_init E (Some cb) h = Some (r, h')
    \<and> CAPABILITIES (hal_conf h) = caps
    \<and> delivered h' \<noteq> [] \<and> hd (delivered h') = CapabilitiesCb caps
    \<and> loc_eng_ulp_inf h = (c AND ULP_CAPABILITY \<noteq> 0 \<and> ulp_library E = Some (Some True))
    \<and> (loc_get_extension E h ''ulp-network-interface'' = Some sUlpNetworkInterface \<longleftrightarrow> c AND ULP_CAPABILITY \<noteq> 0)"
proof -
  obtain m0 m' where m': "loc_eng_read_config (conf_layout E) (Some (conf_text kvs)) (False, mem) = Some (True, m')"
    and m0: "conf m0 = conf_start (conf mem)"
    and f: "conf m' = conf (fold (\<lambda>kv m. the (set_entries (gps_conf_table @ cfg_parameter_table (conf_layout E)) (int_value kv) m)) kvs m0)"
    using read_settings [OF assms(1)] by blast
  have k: "list_all (keeps ''CAPABILITIES'' CAPABILITIES word_of_int) gps_conf_table" "''CAPABILITIES'' \<in> param_name ` set gps_conf_table"
    using list_all_pairD [OF keeps_int_settings, of "''CAPABILITIES''" CAPABILITIES]
      list_all_pairD [OF names_of_settings(1), of "''CAPABILITIES''" CAPABILITIES] by (simp_all add: int_settings_def)
  have c: "CAPABILITIES (conf m') = c"
    using setting_field [OF k, of "conf_layout E" kvs m0, folded f] m0
    by (simp add: c_def conf_start_def loc_default_parameters_def split: option.split)
  let ?h1 = "(hal_start mem)\<lparr>configuration := (True, m')\<rparr>"
  let ?ulp = "c AND ULP_CAPABILITY \<noteq> 0 \<and> ulp_library E = Some (Some True)"
  let ?h2 = "?h1\<lparr>loc_eng_ulp_inf := ?ulp\<rparr>"
  let ?h = "if get_target_name (root_files E) stack = TARGET_NAME_APQ8064_STANDALONE
    then (set_capabilities caps ?h2)\<lparr>gss_fd := open_gss E\<rparr> else ?h2"
  have ulp: "(if CAPABILITIES (hal_conf ?h1) AND ULP_CAPABILITY \<noteq> 0 then ?h1\<lparr>loc_eng_ulp_inf := loc_eng_get_ulp_inf E ?h1\<rparr> else ?h1) = ?h2"
    using c by (auto simp: hal_conf_def loc_eng_get_ulp_inf_def hal_start_def split: option.split)
  have start: "configuration (hal_start mem) = (False, mem)" by (simp add: hal_start_def)
  have caps: "CAPABILITIES (hal_conf ?h2) AND NOT (GPS_CAPABILITY_MSA OR GPS_CAPABILITY_MSB) = c AND NOT 6"
    using c by (simp add: hal_conf_def GPS_CAPABILITY_MSA_def GPS_CAPABILITY_MSB_def)
  have h: "get_gps_interface E stack (hal_start mem) = Some ?h"
    unfolding get_gps_interface_def assms(2) start m' Let_def bind.bind_lunit ulp caps
    by (cases "get_target_name (root_files E) stack = TARGET_NAME_APQ8064_STANDALONE")
      (simp_all only: caps_def if_True if_False refl not_True_eq_False)
  have conf: "CAPABILITIES (hal_conf ?h) = caps" using c by (simp add: hal_conf_def set_capabilities_def caps_def)
  have "\<not> has_context (loc_afw_data ?h)" "eng_calls (loc_afw_data ?h) = []" "delivered ?h = []"
    by (simp_all add: set_capabilities_def hal_start_def cleared_data_def)
  from loc_init_some [OF this(1) assms(3) this(2,3), of E] conf
  obtain r h' cs where i: "loc_init E (Some cb) ?h = Some (r, h')" "delivered h' = CapabilitiesCb caps # cs" by auto
  have "caps AND ULP_CAPABILITY = c AND ULP_CAPABILITY"
    by (simp add: caps_def ULP_CAPABILITY_def and.assoc)
  then have "loc_get_extension E ?h ''ulp-network-interface'' = Some sUlpNetworkInterface \<longleftrightarrow> c AND ULP_CAPABILITY \<noteq> 0"
    using conf by (simp add: loc_get_extension_def)
  moreover have "loc_eng_ulp_inf ?h = ?ulp" by (simp add: set_capabilities_def)
  ultimately show ?thesis using h i conf by (intro exI [of _ ?h] exI [of _ r] exI [of _ h'] conjI) simp_all
qed

section \<open>Concrete runs\<close>

definition hal_env0 :: hal_env where
  "hal_env0 = \<lparr>engine_env = env_down, conf_layout = \<lparr>addr_DEBUG_LEVEL = 0, addr_TIMESTAMP = 4\<rparr>, root_files = Map.empty,
     properties = Map.empty, open_gss = 5, ulp_library = None, adapter_ok = True, some_server_type = LOC_AGPS_MPC_SERVER\<rparr>"

definition mem0 :: cfg_mem where
  "mem0 = \<lparr>conf = conf0, statics = \<lambda>_. 0, loc_logger = (0, 0)\<rparr>"

definition hal0 :: hal_state where
  "hal0 = (hal_start mem0)\<lparr>configuration := (True, cfg_default_parameters (conf_layout hal_env0) mem0)\<rparr>"

lemma conf0_default: "loc_default_parameters conf0 = conf0"
  by (simp add: conf0_def loc_default_parameters_def loc_gps_cfg.make_def)

lemma hal_conf0 [simp]: "hal_conf hal0 = conf0" "loc_afw_data hal0 = cleared_data" "adapter_ulp hal0 = False" "delivered hal0 = []"
  "loc_eng_ulp_inf hal0 = False"
  by (simp_all add: hal_conf_def hal0_def cfg_default_parameters_def loc_logger_init_def mem0_def hal_start_def)

lemma hal0_start: "get_gps_interface hal_env0 '''' (hal_start mem0) = Some hal0"
proof -
  have "get_target_name Map.empty '''' = TARGET_NAME_OTHER" by (simp add: get_target_name_def read_a_line_def Let_def)
  moreover have "loc_eng_read_config (conf_layout hal_env0) None (False, mem0) =
      Some (True, cfg_default_parameters (conf_layout hal_env0) mem0)"
    by (simp add: loc_eng_read_config_def loc_read_conf_def mem0_def conf0_default)
  moreover have "CAPABILITIES conf0 AND ULP_CAPABILITY = 0"
    by (simp add: conf0_def loc_default_parameters_def ULP_CAPABILITY_def)
  ultimately show ?thesis
    using hal_conf0(1) by (simp add: get_gps_interface_def hal_env0_def hal0_def hal_start_def TARGET_NAME_OTHER_def TARGET_NAME_APQ8064_STANDALONE_def)
qed

lemma env_of_hal0: "hal_conf h = conf0 \<Longrightarrow> env_of hal_env0 h = env_down"
  by (simp add: env_of_def hal_env0_def env_down_def env0_def)

text \<open>The engine after it has been set up while the modem is down: thirty tries, and nothing in the queue.\<close>

definition afw_down :: loc_eng_data where
  "afw_down = cleared_data\<lparr>has_context := True, location_cb := True, status_cb := True, sv_status_cb := True, nmea_cb := True,
     generateNmea := True, eng_calls := replicate 30 Reinit\<rparr>"

lemma init_down: "loc_eng_init env_down True (Some callbacks0) init_events cleared_data = (Some API_ENGINE_DOWN, afw_down)"
proof -
  have c: "INTERMEDIATE_POS (gps_conf env_down) = 0" "NMEA_PROVIDER (gps_conf env_down) = 0"
    by (simp_all add: env_down_def env0_def conf0_def loc_default_parameters_def)
  have e: "init_events \<noteq> 0" "init_events AND LOC_API_ADAPTER_BIT_NMEA_1HZ_REPORT \<noteq> 0"
    by (simp_all add: init_events_def LOC_API_ADAPTER_BIT_NMEA_1HZ_REPORT_def)
  show ?thesis
    using init_tries_down [of 29] e
    by (simp add: loc_eng_init_def callbacks0_def cleared_data_def afw_down_def c NMEA_PROVIDER_AP_def del: init_tries.simps)
qed

definition hal_down :: hal_state where
  "hal_down = hal0\<lparr>loc_afw_data := afw_down, gps_loc_cb := True, gps_sv_cb := True, delivered := replicate 30 Reinit\<rparr>"

lemma loc_init_down: "loc_init hal_env0 (Some callbacks0) hal0 = Some (Some API_ENGINE_DOWN, hal_down)"
proof -
  let ?h = "hal0\<lparr>gps_loc_cb := True, gps_sv_cb := True\<rparr>"
  have cb: "callbacks0\<lparr>has_location_cb := True, has_sv_status_cb := True\<rparr> = callbacks0" "has_location_cb callbacks0" "has_sv_status_cb callbacks0"
    by (simp_all add: callbacks0_def)
  have e: "env_of hal_env0 ?h = env_down" by (rule env_of_hal0) (use hal_conf0(1) in \<open>simp add: hal_conf_def\<close>)
  have "new_calls cleared_data afw_down = replicate 30 Reinit" by (simp add: new_calls_def afw_down_def cleared_data_def)
  moreover have "concat (map (pass_on h) (replicate n Reinit)) = replicate n Reinit" for h n
    by (induction n) (simp_all add: pass_on_def)
  ultimately have w: "(with_engine afw_down ?h)\<lparr>adapter_ulp := False\<rparr> = hal_down"
    by (simp add: with_engine_def hal_down_def hal0_def hal_start_def)
  have "\<not> has_context cleared_data" by (simp add: cleared_data_def)
  moreover have "call_engine hal_env0 (HalUlpInit False) hal_down = Some hal_down"
    by (simp add: call_engine_def with_engine_def new_calls_def hal_down_def)
  moreover have "adapter_ok hal_env0" by (simp add: hal_env0_def)
  moreover have "loc_eng_ulp_inf (with_engine afw_down ?h) = False" by (simp add: with_engine_def)
  ultimately show ?thesis
    using init_down e w by (simp add: loc_init_def cb)
qed


definition afw_agps :: loc_eng_data where
  "afw_agps = afw_down\<lparr>agps_status_cb := True,
     agnss_nif := Some (newAgpsStateMachine AGPS_TYPE_SUPL False AGPS_APN_BEARER_IPV4),
     internet_nif := Some (newAgpsStateMachine AGPS_TYPE_WWAN_ANY False AGPS_APN_BEARER_IPV4),
     wifi_nif := Some (newAgpsStateMachine AGPS_TYPE_WIFI True AGPS_APN_BEARER_IPV4)\<rparr>"

lemma env_hal_down: "env_of hal_env0 (hal_down\<lparr>loc_afw_data := d\<rparr>) = env_down" "env_of hal_env0 hal_down = env_down"
  using hal_conf0(1) by (auto intro!: env_of_hal0 simp: hal_conf_def hal_down_def)

text \<open>What the engine does to its data while it makes no call.\<close>

lemma with_engine_quiet:
  "eng_calls d' = eng_calls (loc_afw_data h) \<Longrightarrow> with_engine d' h = h\<lparr>loc_afw_data := d'\<rparr>"
  by (simp add: with_engine_def new_calls_def)

lemma agps_init_down: "loc_interface hal_env0 (LocAgpsInit AGPS_APN_BEARER_IPV4) hal_down = Some (hal_down\<lparr>loc_afw_data := afw_agps\<rparr>)"
proof -
  have "loc_eng_agps_init env_down AGPS_APN_BEARER_IPV4 afw_down = afw_agps"
    by (simp add: loc_eng_agps_init_def afw_down_def afw_agps_def cleared_data_def agps_reinit_eq server_settings_def env_down_def env0_def)
  moreover have "eng_calls afw_agps = eng_calls (loc_afw_data hal_down)" by (simp add: afw_agps_def hal_down_def)
  moreover have "loc_afw_data hal_down = afw_down" by (simp add: hal_down_def)
  ultimately show ?thesis by (simp add: wrapper_defs call_engine_def env_hal_down with_engine_quiet)
qed

text \<open>The modem asks for a connection to the internet; the framework says that it is open.\<close>

definition set_up :: "hal_step list" where
  "set_up = [Framework (LocInit (Some callbacks0)), Framework (LocAgpsInit AGPS_APN_BEARER_IPV4)]"

definition ask_internet :: "hal_step list" where
  "ask_internet = [Modem (RequestATL 5 AGPS_TYPE_WWAN_ANY), EngineThread, Framework (LocAgpsOpen (Some ''internet'')), EngineThread]"

lemma run_append: "hal_run E (xs @ ys) h = do {h \<leftarrow> hal_run E xs h; hal_run E ys h}"
  by (induction xs arbitrary: h) (auto split: Option.bind_split)

lemma run_set_up: "hal_run hal_env0 set_up hal0 = Some (hal_down\<lparr>loc_afw_data := afw_agps\<rparr>)"
  using agps_init_down by (simp add: set_up_def loc_init_down)

lemma afw_agps_sel [simp]:
  "deferred_q afw_agps = []" "has_context afw_agps" "agps_status_cb afw_agps" "aiding_data_for_deletion afw_agps = 0"
  "\<not> stop_request_pending afw_agps" "\<not> agps_request_pending afw_agps"
  "internet_nif afw_agps = Some (newAgpsStateMachine AGPS_TYPE_WWAN_ANY False AGPS_APN_BEARER_IPV4)"
  "agnss_nif afw_agps = Some (newAgpsStateMachine AGPS_TYPE_SUPL False AGPS_APN_BEARER_IPV4)"
  by (simp_all add: afw_agps_def afw_down_def cleared_data_def)

lemma run_ask_internet:
  "\<exists>h m. hal_run hal_env0 (set_up @ ask_internet) hal0 = Some h \<and> internet_nif (loc_afw_data h) = Some m
    \<and> mStatePtr m = AgpsPendingState \<and> requests m = [GPS_REQUEST_AGPS_DATA_CONN]"
proof -
  let ?h = "hal_down\<lparr>loc_afw_data := afw_agps\<rparr>"
  let ?q = "Connection (LOC_ENG_MSG_REQUEST_ATL 5 AGPS_TYPE_WWAN_ANY)"
  let ?o = "Connection (LOC_ENG_MSG_ATL_OPEN_SUCCESS AGPS_TYPE_SUPL ''internet'' AGPS_APN_BEARER_IPV4)"
  define m1 where "m1 = subscribeRsrc (newATLSubscriber [] 5 False) (newAgpsStateMachine AGPS_TYPE_WWAN_ANY False AGPS_APN_BEARER_IPV4)"
  let ?d1 = "afw_agps\<lparr>internet_nif := Some m1\<rparr>"
  have 1: "hal_run1 hal_env0 (Modem (RequestATL 5 AGPS_TYPE_WWAN_ANY)) ?h = Some (hal_down\<lparr>loc_afw_data := afw_agps\<lparr>deferred_q := [?q]\<rparr>\<rparr>)"
    by (simp add: requestATL_def send_checked_def with_engine_quiet loc_eng_msg_sender_def)
  have "handle_msg env_down ?q (afw_agps\<lparr>deferred_q := []\<rparr>) = Some (?d1\<lparr>deferred_q := []\<rparr>)"
    by (simp add: handle_msg_def handle_switch_def handle_connection_def on_nif_def after_switch_eq delete_pending_aiding_data_def
        delete_msg_def m1_def env_down_def env0_def)
  then have 2: "hal_run1 hal_env0 EngineThread (hal_down\<lparr>loc_afw_data := afw_agps\<lparr>deferred_q := [?q]\<rparr>\<rparr>) = Some (hal_down\<lparr>loc_afw_data := ?d1\<lparr>deferred_q := []\<rparr>\<rparr>)"
    by (simp add: env_hal_down with_engine_quiet)
  have 3: "hal_run1 hal_env0 (Framework (LocAgpsOpen (Some ''internet''))) (hal_down\<lparr>loc_afw_data := ?d1\<lparr>deferred_q := []\<rparr>\<rparr>) =
      Some (hal_down\<lparr>loc_afw_data := ?d1\<lparr>deferred_q := [?o]\<rparr>\<rparr>)"
    by (simp add: loc_agps_open_def call_engine_def when_agps_ready_def loc_eng_msg_sender_def with_engine_quiet MAX_APN_LEN_def)
  obtain m2 where m2: "grant_nif ''internet'' AGPS_APN_BEARER_IPV4 (newAgpsStateMachine AGPS_TYPE_SUPL False AGPS_APN_BEARER_IPV4) = Some m2"
    using grant_step by blast
  let ?d2 = "?d1\<lparr>agnss_nif := Some m2, deferred_q := []\<rparr>"
  have "handle_msg env_down ?o (?d1\<lparr>deferred_q := []\<rparr>) = Some ?d2"
    by (simp add: handle_msg_def handle_switch_def handle_connection_def nif_of_agps_type_def m2 after_switch_def
        delete_pending_aiding_data_def delete_msg_def)
  then have 4: "hal_run1 hal_env0 EngineThread (hal_down\<lparr>loc_afw_data := ?d1\<lparr>deferred_q := [?o]\<rparr>\<rparr>) = Some (hal_down\<lparr>loc_afw_data := ?d2\<rparr>)"
    by (simp add: env_hal_down with_engine_quiet)
  have "mStatePtr m1 = AgpsPendingState"
    by (simp add: m1_def subscribeRsrc_def newAgpsStateMachine_def dispatch_def)
  moreover have "requests m1 = [GPS_REQUEST_AGPS_DATA_CONN]"
    using requests_subscribe [OF agps_inv_new [of AGPS_TYPE_WWAN_ANY False AGPS_APN_BEARER_IPV4] wf_sub_new(2) [of "[]" 5 False]] calculation
    by (simp add: m1_def held_def requests_def newAgpsStateMachine_def)
  moreover have "hal_run hal_env0 (set_up @ ask_internet) hal0 = Some (hal_down\<lparr>loc_afw_data := ?d2\<rparr>)"
    unfolding run_append run_set_up ask_internet_def hal_run.simps bind.bind_lunit 1 2 3 4 ..
  ultimately show ?thesis by (intro exI [of _ "hal_down\<lparr>loc_afw_data := ?d2\<rparr>"] exI [of _ m1]) simp
qed


theorem internet_wifi_never_granted_witness:
  "\<exists>h m. hal_run hal_env0 (set_up @ ask_internet) hal0 = Some h \<and> nif_of Internet (loc_afw_data h) = Some m
    \<and> requests m = [GPS_REQUEST_AGPS_DATA_CONN] \<and> mStatePtr m \<noteq> AgpsAcquiredState"
proof -
  obtain h m where h: "hal_run hal_env0 (set_up @ ask_internet) hal0 = Some h" "nif_of Internet (loc_afw_data h) = Some m"
    "requests m = [GPS_REQUEST_AGPS_DATA_CONN]"
    using run_ask_internet by auto
  have "mStatePtr m \<noteq> AgpsAcquiredState"
    using internet_wifi_never_granted [OF hal0_start h(1) _ h(2)] by simp
  with h show ?thesis by blast
qed

text \<open>A satellite report after the cleanup: the engine still calls its callback, which does not call the framework's.\<close>

lemma run_after_cleanup:
  "loc_cleanup hal_env0 hal_down = Some (hal_down\<lparr>gps_loc_cb := False, gps_sv_cb := False\<rparr>)"
  "\<exists>h1. hal_run hal_env0 [Modem (ReportSv 3), EngineThread] (hal_down\<lparr>gps_loc_cb := False, gps_sv_cb := False\<rparr>) = Some h1
    \<and> eng_calls (loc_afw_data h1) = replicate 30 Reinit @ [SvStatusCb 3, GenerateNmeaSv 3]"
proof -
  let ?h = "hal_down\<lparr>gps_loc_cb := False, gps_sv_cb := False\<rparr>"
  have d: "loc_afw_data hal_down = afw_down" "adapter_ulp hal_down = False" by (simp_all add: hal_down_def)
  have a: "has_context afw_down" "\<not> navigating afw_down" "deferred_q afw_down = []" "sv_status_cb afw_down" "generateNmea afw_down"
    "mute_session_state afw_down = LOC_MUTE_SESS_NONE" "eng_calls afw_down = replicate 30 Reinit" "aiding_data_for_deletion afw_down = 0"
    "\<not> stop_request_pending afw_down" "\<not> agps_request_pending afw_down"
    by (simp_all add: afw_down_def cleared_data_def)
  have e: "env_of hal_env0 (?h\<lparr>loc_afw_data := x\<rparr>) = env_down" for x
    using hal_conf0(1) by (intro env_of_hal0) (simp add: hal_conf_def hal_down_def)
  have "loc_eng_cleanup env_down afw_down = afw_down" using a by (simp add: loc_eng_cleanup_def)
  then show "loc_cleanup hal_env0 hal_down = Some ?h"
    using d(1) with_engine_quiet [of afw_down hal_down] by (simp add: loc_cleanup_def call_engine_def env_hal_down)
  let ?d = "afw_down\<lparr>deferred_q := [Report (LOC_ENG_MSG_REPORT_SV 3)]\<rparr>"
  have 1: "hal_run1 hal_env0 (Modem (ReportSv 3)) ?h = Some (?h\<lparr>loc_afw_data := ?d\<rparr>)"
    using a d by (simp add: reportSv_def send_checked_def loc_eng_msg_sender_def with_engine_quiet)
  let ?d1 = "afw_down\<lparr>eng_calls := replicate 30 Reinit @ [SvStatusCb 3, GenerateNmeaSv 3]\<rparr>"
  have "handle_msg env_down (Report (LOC_ENG_MSG_REPORT_SV 3)) (afw_down\<lparr>deferred_q := []\<rparr>) = Some (?d1\<lparr>deferred_q := []\<rparr>)"
    using a by (simp add: handle_msg_def handle_switch_def handle_report_def after_switch_eq delete_pending_aiding_data_def delete_msg_def log_calls_def)
  then have "loc_eng_deferred_action_thread 1 env_down ?d = Some (?d1\<lparr>deferred_q := []\<rparr>)" using a by simp
  then have 2: "hal_run1 hal_env0 EngineThread (?h\<lparr>loc_afw_data := ?d\<rparr>) = Some (with_engine (?d1\<lparr>deferred_q := []\<rparr>) (?h\<lparr>loc_afw_data := ?d\<rparr>))"
    using e by (simp del: loc_eng_deferred_action_thread.simps)
  show "\<exists>h1. hal_run hal_env0 [Modem (ReportSv 3), EngineThread] ?h = Some h1
    \<and> eng_calls (loc_afw_data h1) = replicate 30 Reinit @ [SvStatusCb 3, GenerateNmeaSv 3]"
    unfolding hal_run.simps bind.bind_lunit 1 2 by (simp add: with_engine_def)
qed


definition hal_env_ulp :: hal_env where
  "hal_env_ulp = hal_env0\<lparr>root_files := [GPS_CONF_FILE \<mapsto> conf_text [(''CAPABILITIES'', 0x133)]], ulp_library := Some (Some True)\<rparr>"

theorem capabilities_from_configuration_witness:
  "\<exists>h r h'. get_gps_interface hal_env_ulp '''' (hal_start mem0) = Some h \<and> loc_init hal_env_ulp (Some (callbacks0\<lparr>has_set_capabilities_cb := True\<rparr>)) h = Some (r, h')
    \<and> hd (delivered h') = CapabilitiesCb 0x133 \<and> loc_eng_ulp_inf h"
proof -
  have wf: "\<forall>kv \<in> set [(''CAPABILITIES'', 0x133)]. wf_setting kv" by (simp add: wf_setting_def trim_def isspace_def)
  have f: "root_files hal_env_ulp GPS_CONF_FILE = Some (conf_text [(''CAPABILITIES'', 0x133)])" "ulp_library hal_env_ulp = Some (Some True)"
    by (simp_all add: hal_env_ulp_def)
  have "get_target_name (root_files hal_env_ulp) '''' \<noteq> TARGET_NAME_APQ8064_STANDALONE"
    by (simp add: get_target_name_def read_a_line_def hal_env_ulp_def GPS_CONF_FILE_def Let_def TARGET_NAME_OTHER_def TARGET_NAME_APQ8064_STANDALONE_def)
  with capabilities_from_configuration [OF wf f(1), of "callbacks0\<lparr>has_set_capabilities_cb := True\<rparr>" "''''" mem0] f(2)
  show ?thesis by (simp add: ULP_CAPABILITY_def) blast
qed

subsection \<open>What the table does not check\<close>

text \<open>The framework's callbacks are read without a test; for other types of servers than SUPL and C2K the type is what the variable on
  the stack holds; initialising does not read the configuration; a failed fix is not told.\<close>

lemma init_reads_callbacks: "loc_init E None h = None"
  by (simp add: loc_init_def)

lemma server_type_uninitialised:
  "loc_agps_set_server E AGPS_TYPE_ANY hostname port h = call_engine E (HalSetServer (some_server_type E) hostname port) h"
  by (simp add: loc_agps_set_server_def)

lemma init_reads_no_configuration: "loc_init E cb h = Some (r, h') \<Longrightarrow> configuration h' = configuration h"
  by (auto simp: loc_init_def Let_def call_engine_def with_engine_def split: option.splits prod.splits)

lemma failure_not_told: "pass_on h (LocationCb None) = []"
  by (simp add: pass_on_def loc_cb_def)

end
