(* ===== verification/Input_Ring.thy ===== *)
theory Input_Ring
  imports Prelude "HOL-Library.Word"
begin

text \<open>
  The buffer between the kernel's input devices and the sensors (\<open>libsensors/InputEventReader.cpp\<close>): a ring of
  \<open>numEvents\<close> events in an array twice as long, so that one \<open>read\<close> can go past the end of the ring; what it
  leaves there is copied to the front.

  \<^item> The pointers are indices into the array. An access outside the array is the fault \<open>None\<close>.
  \<^item> A device is the list of what successive reads of it give; a \<open>read\<close> of a device without anything blocks, which is also
    \<open>None\<close>. A \<open>read\<close> takes at most as many events as are asked for and leaves the rest.
\<close>

section \<open>Events and devices\<close>

record input_event =
  ev_sec :: int
  ev_usec :: int
  ev_type :: "16 word"
  ev_code :: "16 word"
  ev_value :: "32 word"

text \<open>An error with its number, or events, with whether an incomplete one follows them.\<close>

datatype read_result = ReadError int | ReadEvents "input_event list" bool

fun kernel_read :: "nat \<Rightarrow> read_result list \<Rightarrow> (read_result \<times> read_result list) option" where
  "kernel_read n [] = None"
| "kernel_read n (ReadError e # fd) = Some (ReadError e, fd)"
| "kernel_read n (ReadEvents evs partial # fd) =
     Some (if length evs < n \<or> length evs = n \<and> \<not> partial then (ReadEvents evs partial, fd)
           else (ReadEvents (take n evs) False, ReadEvents (drop n evs) partial # fd))"

definition EINVAL :: int where "EINVAL = 22"

section \<open>The reader\<close>

record circular_reader =
  mBuffer :: "input_event list"
  mBufferEnd :: nat
  mHead :: nat
  mCurr :: nat
  mFreeSpace :: int

text \<open>The array of a new reader holds \<open>junk\<close>.\<close>

definition newReader :: "nat \<Rightarrow> input_event list \<Rightarrow> circular_reader" where
  "newReader numEvents junk =
     \<lparr>mBuffer = junk, mBufferEnd = numEvents, mHead = 0, mCurr = 0, mFreeSpace = int numEvents\<rparr>"

text \<open>Storing at an index and copying, the two ways the array is written.\<close>

definition store_at :: "nat \<Rightarrow> 'a list \<Rightarrow> 'a list \<Rightarrow> 'a list option" where
  "store_at i xs buf = (if i + length xs \<le> length buf then Some (take i buf @ xs @ drop (i + length xs) buf) else None)"

definition fill :: "read_result list \<Rightarrow> circular_reader \<Rightarrow> (int \<times> circular_reader \<times> read_result list) option" where
  "fill fd r =
     (if mFreeSpace r = 0 then Some (0, r, fd)
      else do {
        (res, fd) \<leftarrow> kernel_read (nat (mFreeSpace r)) fd;
        case res of
          ReadError e \<Rightarrow> Some (- e, r, fd)
        | ReadEvents evs partial \<Rightarrow>
            do {
              buf \<leftarrow> store_at (mHead r) evs (mBuffer r);
              let r = r\<lparr>mBuffer := buf\<rparr>;
              if partial then Some (- EINVAL, r, fd)
              else if evs = [] then Some (0, r, fd)
              else do {
                let r = r\<lparr>mHead := mHead r + length evs, mFreeSpace := mFreeSpace r - int (length evs)\<rparr>;
                if mBufferEnd r < mHead r then do {
                  let s = mHead r - mBufferEnd r;
                  buf \<leftarrow> store_at 0 (take s (drop (mBufferEnd r) (mBuffer r))) (mBuffer r);
                  Some (int (length evs), r\<lparr>mBuffer := buf, mHead := s\<rparr>, fd)}
                else Some (int (length evs), r, fd)}}})"

text \<open>\<open>readEvent\<close> gives the event at the read position, if there is one.\<close>

definition readEvent :: "circular_reader \<Rightarrow> input_event option" where
  "readEvent r = (if int (mBufferEnd r) - mFreeSpace r \<noteq> 0 then Some (mBuffer r ! mCurr r) else None)"

definition next_event :: "circular_reader \<Rightarrow> circular_reader" where
  "next_event r =
     (let c = mCurr r + 1 in
      r\<lparr>mFreeSpace := mFreeSpace r + 1, mCurr := (if mBufferEnd r \<le> c then 0 else c)\<rparr>)"

section \<open>A queue of bounded length\<close>

text \<open>The events in the buffer, oldest first, and when the buffer is in order.\<close>

definition unread :: "circular_reader \<Rightarrow> input_event list" where
  "unread r = map (\<lambda>i. mBuffer r ! ((mCurr r + i) mod mBufferEnd r)) [0..<nat (int (mBufferEnd r) - mFreeSpace r)]"

definition ring_ok :: "circular_reader \<Rightarrow> bool" where
  "ring_ok r \<longleftrightarrow> 0 < mBufferEnd r \<and> length (mBuffer r) = 2 * mBufferEnd r \<and> mCurr r < mBufferEnd r \<and> mHead r \<le> mBufferEnd r
     \<and> 0 \<le> mFreeSpace r \<and> mFreeSpace r \<le> int (mBufferEnd r)
     \<and> mHead r mod mBufferEnd r = (mCurr r + nat (int (mBufferEnd r) - mFreeSpace r)) mod mBufferEnd r"

lemma mod_twice: "(x :: nat) < 2 * n \<Longrightarrow> x mod n = (if x < n then x else x - n)"
  by (auto simp: mod_if)

lemma ring_new: "0 < n \<Longrightarrow> length junk = 2 * n \<Longrightarrow> ring_ok (newReader n junk) \<and> unread (newReader n junk) = []"
  by (simp add: ring_ok_def unread_def newReader_def)

lemma readEvent_unread:
  assumes "ring_ok r"
  shows "readEvent r = (case unread r of [] \<Rightarrow> None | e # es \<Rightarrow> Some e)"
proof (cases "int (mBufferEnd r) - mFreeSpace r = 0")
  case False
  then obtain k where "nat (int (mBufferEnd r) - mFreeSpace r) = Suc k"
    using assms by (cases "nat (int (mBufferEnd r) - mFreeSpace r)") (auto simp: ring_ok_def)
  then have "unread r = mBuffer r ! mCurr r # map (\<lambda>i. mBuffer r ! ((mCurr r + i) mod mBufferEnd r)) [1..<Suc k]"
    using assms by (simp add: unread_def upt_conv_Cons ring_ok_def del: upt_Suc)
  then show ?thesis using False by (simp add: readEvent_def)
qed (simp add: readEvent_def unread_def)

lemma next_unread:
  assumes "ring_ok r" and "unread r \<noteq> []"
  shows "ring_ok (next_event r)" "unread (next_event r) = tl (unread r)"
proof -
  let ?n = "mBufferEnd r" and ?c = "nat (int (mBufferEnd r) - mFreeSpace r)"
  obtain k where k: "?c = Suc k" using assms(2) by (cases ?c) (auto simp: unread_def)
  have r: "0 < ?n" "mCurr r < ?n" using assms(1) by (simp_all add: ring_ok_def)
  have n: "mBufferEnd (next_event r) = ?n" "mBuffer (next_event r) = mBuffer r" "mHead (next_event r) = mHead r"
    "mFreeSpace (next_event r) = mFreeSpace r + 1" by (simp_all add: next_event_def Let_def)
  have c: "nat (int ?n - (mFreeSpace r + 1)) = k" using k by linarith
  have m: "mCurr (next_event r) = (mCurr r + 1) mod ?n" using r by (simp add: next_event_def Let_def mod_if)
  have i: "(mCurr (next_event r) + i) mod ?n = (mCurr r + Suc i) mod ?n" for i
    unfolding m by (simp add: mod_simps)
  show "ring_ok (next_event r)"
    using assms(1) i [of k] k c n m r by (auto simp: ring_ok_def)
  show "unread (next_event r) = tl (unread r)"
    unfolding unread_def n c k i by (simp add: upt_conv_Cons map_Suc_upt [symmetric] o_def del: upt_Suc map_Suc_upt)
qed


text \<open>Where the array changes when events are stored behind the head and what is past the end is copied to the front.\<close>

lemma store_at_nth:
  assumes "store_at i xs buf = Some buf'" and "p < length buf"
  shows "buf' ! p = (if i \<le> p \<and> p < i + length xs then xs ! (p - i) else buf ! p)" "length buf' = length buf"
  using assms by (auto simp: store_at_def nth_append min_def split: if_splits)

lemma store_at_some: "i + length xs \<le> length buf \<Longrightarrow> \<exists>buf'. store_at i xs buf = Some buf'"
  by (simp add: store_at_def)

definition put_ring :: "input_event list \<Rightarrow> circular_reader \<Rightarrow> circular_reader option" where
  "put_ring evs r =
     do {buf \<leftarrow> store_at (mHead r) evs (mBuffer r);
         let r = r\<lparr>mBuffer := buf, mHead := mHead r + length evs, mFreeSpace := mFreeSpace r - int (length evs)\<rparr>;
         if mBufferEnd r < mHead r then do {
           let s = mHead r - mBufferEnd r;
           buf \<leftarrow> store_at 0 (take s (drop (mBufferEnd r) (mBuffer r))) (mBuffer r);
           Some (r\<lparr>mBuffer := buf, mHead := s\<rparr>)}
         else Some r}"

lemma ring_write:
  assumes "0 < n" "c < n" "h \<le> n" "cnt + k \<le> n" "h mod n = (c + cnt) mod n" "i < cnt + k"
    and B1: "\<And>p. p < 2 * n \<Longrightarrow> buf1 ! p = (if h \<le> p \<and> p < h + k then evs ! (p - h) else buf ! p)"
    and B2: "\<And>p. p < 2 * n \<Longrightarrow> buf2 ! p = (if n < h + k \<and> p < h + k - n then buf1 ! (p + n) else buf1 ! p)"
  shows "buf2 ! ((c + i) mod n) = (if i < cnt then buf ! ((c + i) mod n) else evs ! (i - cnt))"
proof -
  have hn: "h mod n = (if h < n then h else 0)" using assms(3) by (cases "h < n") auto
  have cn: "(c + cnt) mod n = (if c + cnt < n then c + cnt else c + cnt - n)" using assms(2,4) by (intro mod_twice) linarith
  have eq: "(if h < n then h else 0) = (if c + cnt < n then c + cnt else c + cnt - n)" using assms(5) unfolding hn cn .
  have i: "(c + i) mod n = (if c + i < n then c + i else c + i - n)" using assms(2,4,6) by (intro mod_twice) linarith
  define p where "p = (c + i) mod n"
  have p: "p < n" "p = (if c + i < n then c + i else c + i - n)"
    unfolding p_def by (rule mod_less_divisor [OF assms(1)], rule i)
  have b: "buf2 ! p = (if n < h + k \<and> p < h + k - n then buf1 ! (p + n) else buf1 ! p)" using B2 p(1) by simp
  have b1: "buf1 ! p = (if h \<le> p \<and> p < h + k then evs ! (p - h) else buf ! p)"
    "buf1 ! (p + n) = (if h \<le> p + n \<and> p + n < h + k then evs ! (p + n - h) else buf ! (p + n))"
    using B1 p(1) by simp_all
  show ?thesis
  proof (cases "i < cnt")
    case True
    then have "\<not> (n < h + k \<and> p < h + k - n)" "\<not> (h \<le> p \<and> p < h + k)" using eq p assms(2,3,4) by (auto split: if_splits)
    then show ?thesis unfolding p_def [symmetric] using b b1 True by auto
  next
    case False
    then have "n < h + k \<and> p < h + k - n \<and> h \<le> p + n \<and> p + n < h + k \<and> p + n - h = i - cnt
      \<or> \<not> (n < h + k \<and> p < h + k - n) \<and> h \<le> p \<and> p < h + k \<and> p - h = i - cnt"
      using eq p assms(1,2,3,4,6) by (auto split: if_splits)
    then show ?thesis unfolding p_def [symmetric] using b b1 False by auto
  qed
qed

lemma put_ring_unread:
  assumes "ring_ok r" and "int (length evs) \<le> mFreeSpace r"
  shows "\<exists>r'. put_ring evs r = Some r' \<and> ring_ok r' \<and> unread r' = unread r @ evs
    \<and> mFreeSpace r' = mFreeSpace r - int (length evs) \<and> mBufferEnd r' = mBufferEnd r"
proof -
  let ?n = "mBufferEnd r" and ?h = "mHead r" and ?c = "mCurr r" and ?k = "length evs"
  define cnt where "cnt = nat (int ?n - mFreeSpace r)"
  have r: "0 < ?n" "length (mBuffer r) = 2 * ?n" "?c < ?n" "?h \<le> ?n" "cnt + ?k \<le> ?n" "?h mod ?n = (?c + cnt) mod ?n"
    using assms by (auto simp: ring_ok_def cnt_def)
  have f: "0 \<le> mFreeSpace r" "mFreeSpace r \<le> int ?n" using assms(1) by (simp_all add: ring_ok_def)
  have cnt': "nat (int ?n - (mFreeSpace r - int ?k)) = cnt + ?k" using f by (simp add: cnt_def)
  obtain buf1 where buf1: "store_at ?h evs (mBuffer r) = Some buf1"
    using store_at_some [of ?h evs "mBuffer r"] r by auto
  note nth1 = store_at_nth [OF buf1]
  have l1: "length buf1 = 2 * ?n" using nth1(2) [of 0] r by simp
  let ?s = "?h + ?k - ?n"
  obtain buf2 where buf2: "store_at 0 (take ?s (drop ?n buf1)) buf1 = Some buf2"
  proof -
    have "0 + length (take ?s (drop ?n buf1)) \<le> length buf1" using l1 by simp
    from store_at_some [OF this] that show thesis by blast
  qed
  note nth2 = store_at_nth [OF buf2]
  have l2: "length buf2 = 2 * ?n" using nth2(2) [of 0] l1 r(1) by simp
  define B where "B = (if ?n < ?h + ?k then buf2 else buf1)"
  define H where "H = (if ?n < ?h + ?k then ?s else ?h + ?k)"
  have put: "put_ring evs r = Some (r\<lparr>mBuffer := B, mHead := H, mFreeSpace := mFreeSpace r - int ?k\<rparr>)"
    using buf1 buf2 by (simp add: put_ring_def B_def H_def Let_def)
  have B1: "buf1 ! p = (if ?h \<le> p \<and> p < ?h + ?k then evs ! (p - ?h) else mBuffer r ! p)" if "p < 2 * ?n" for p
    using nth1(1) [of p] that r(2) by simp
  have B2: "B ! p = (if ?n < ?h + ?k \<and> p < ?h + ?k - ?n then buf1 ! (p + ?n) else buf1 ! p)" if "p < 2 * ?n" for p
  proof (cases "?n < ?h + ?k")
    case True
    have l: "length (take ?s (drop ?n buf1)) = ?s" unfolding length_take length_drop l1 using r(4,5) by linarith
    have t: "take ?s (drop ?n buf1) ! p = buf1 ! (p + ?n)" if "p < ?s" using that l1 by (simp add: add.commute)
    have "buf2 ! p = (if p < ?s then take ?s (drop ?n buf1) ! p else buf1 ! p)"
      using nth2(1) [of p] \<open>p < 2 * ?n\<close> unfolding l l1 by simp
    with t True show ?thesis by (simp add: B_def)
  next
    case False
    then show ?thesis by (simp add: B_def)
  qed
  note w = ring_write [OF r(1,3,4,5,6) _ B1 B2]
  have "unread (r\<lparr>mBuffer := B, mHead := H, mFreeSpace := mFreeSpace r - int ?k\<rparr>) = unread r @ evs"
  proof (rule nth_equalityI)
    show "length (unread (r\<lparr>mBuffer := B, mHead := H, mFreeSpace := mFreeSpace r - int ?k\<rparr>)) = length (unread r @ evs)"
      using cnt' by (simp add: unread_def cnt_def)
    fix i
    assume "i < length (unread (r\<lparr>mBuffer := B, mHead := H, mFreeSpace := mFreeSpace r - int ?k\<rparr>))"
    then have "i < cnt + ?k" using cnt' by (simp add: unread_def)
    from w [OF this] this cnt' show "unread (r\<lparr>mBuffer := B, mHead := H, mFreeSpace := mFreeSpace r - int ?k\<rparr>) ! i = (unread r @ evs) ! i"
      by (simp add: unread_def nth_append cnt_def [symmetric])
  qed
  moreover have "ring_ok (r\<lparr>mBuffer := B, mHead := H, mFreeSpace := mFreeSpace r - int ?k\<rparr>)"
  proof -
    have "H mod ?n = (?h + ?k) mod ?n" using le_mod_geq [of ?n "?h + ?k"] by (simp add: H_def)
    also have "\<dots> = (?c + (cnt + ?k)) mod ?n" using r(6) by (metis add.assoc mod_add_left_eq)
    finally have "H mod ?n = (?c + (cnt + ?k)) mod ?n" .
    moreover have "H \<le> ?n" using r(4,5) by (auto simp: H_def)
    moreover have "length B = 2 * ?n" using l1 l2 by (simp add: B_def)
    ultimately show ?thesis using r cnt' f assms(2) by (simp add: ring_ok_def)
  qed
  ultimately show ?thesis using put by simp
qed


lemma kernel_read_length:
  assumes "kernel_read n fd = Some (ReadEvents evs partial, fd')"
  shows "length evs \<le> n" "partial \<Longrightarrow> length evs < n"
  using assms by (cases "(n, fd)" rule: kernel_read.cases; auto split: if_splits)+

lemma unread_untouched:
  assumes "ring_ok r" "int (length evs) \<le> mFreeSpace r" "store_at (mHead r) evs (mBuffer r) = Some buf"
  shows "unread (r\<lparr>mBuffer := buf\<rparr>) = unread r \<and> ring_ok (r\<lparr>mBuffer := buf\<rparr>)"
proof -
  let ?n = "mBufferEnd r" and ?h = "mHead r" and ?c = "mCurr r" and ?k = "length evs"
  define cnt where "cnt = nat (int ?n - mFreeSpace r)"
  have r: "0 < ?n" "length (mBuffer r) = 2 * ?n" "?c < ?n" "?h \<le> ?n" "cnt + ?k \<le> ?n" "?h mod ?n = (?c + cnt) mod ?n"
    using assms by (auto simp: ring_ok_def cnt_def)
  note nth1 = store_at_nth [OF assms(3)]
  have l: "length buf = length (mBuffer r)" using nth1(2) [of 0] r by simp
  have "buf ! ((?c + i) mod ?n) = mBuffer r ! ((?c + i) mod ?n)" if i: "i < cnt" for i
  proof -
    define p where "p = (?c + i) mod ?n"
    have hn: "?h mod ?n = (if ?h < ?n then ?h else 0)" using r(4) by (cases "?h < ?n") auto
    have cn: "(?c + cnt) mod ?n = (if ?c + cnt < ?n then ?c + cnt else ?c + cnt - ?n)" using r by (intro mod_twice) linarith
    have eq: "(if ?h < ?n then ?h else 0) = (if ?c + cnt < ?n then ?c + cnt else ?c + cnt - ?n)" using r(6) unfolding hn cn .
    have im: "(?c + i) mod ?n = (if ?c + i < ?n then ?c + i else ?c + i - ?n)" using r i by (intro mod_twice) linarith
    have p: "p < ?n" "p = (if ?c + i < ?n then ?c + i else ?c + i - ?n)"
      unfolding p_def by (rule mod_less_divisor [OF r(1)], rule im)
    have "\<not> (?h \<le> p \<and> p < ?h + ?k)" using eq p i r by (auto split: if_splits)
    then show ?thesis unfolding p_def [symmetric] using nth1(1) [of p] p(1) r(2) by auto
  qed
  then have "unread (r\<lparr>mBuffer := buf\<rparr>) = unread r" by (simp add: unread_def cnt_def)
  with assms(1) l show ?thesis by (simp add: ring_ok_def)
qed

text \<open>What \<open>fill\<close> does to the queue, whatever the device gives: it never leaves the array, it takes as many events as fit
  and leaves the rest, and after an error or an incomplete event the queue is as before.\<close>

lemma fill_full: "mFreeSpace r = 0 \<Longrightarrow> fill fd r = Some (0, r, fd)"
  by (simp add: fill_def)

lemma fill_blocks: "mFreeSpace r \<noteq> 0 \<Longrightarrow> fill [] r = None"
  by (simp add: fill_def)

lemma fill_error: "mFreeSpace r \<noteq> 0 \<Longrightarrow> fill (ReadError e # fd) r = Some (- e, r, fd)"
  by (simp add: fill_def)

lemma fill_events:
  assumes "ring_ok r" "mFreeSpace r \<noteq> 0" "kernel_read (nat (mFreeSpace r)) fd = Some (ReadEvents evs partial, fd')"
  shows "\<exists>r'. fill fd r = Some (if partial then - EINVAL else int (length evs), r', fd') \<and> ring_ok r'
    \<and> unread r' = unread r @ (if partial then [] else evs) \<and> mBufferEnd r' = mBufferEnd r"
proof -
  have "0 \<le> mFreeSpace r" using assms(1) by (simp add: ring_ok_def)
  with kernel_read_length(1) [OF assms(3)] have le: "int (length evs) \<le> mFreeSpace r" by linarith
  have "mHead r + length evs \<le> length (mBuffer r)" using le assms(1) by (auto simp: ring_ok_def)
  then obtain buf where buf: "store_at (mHead r) evs (mBuffer r) = Some buf" using store_at_some by blast
  have u: "unread (r\<lparr>mBuffer := buf\<rparr>) = unread r" "ring_ok (r\<lparr>mBuffer := buf\<rparr>)" using unread_untouched [OF assms(1) le buf] by auto
  consider "partial" | "\<not> partial" "evs = []" | "\<not> partial" "evs \<noteq> []" by blast
  then show ?thesis
  proof cases
    case 3
    obtain r' where r': "put_ring evs r = Some r'" "ring_ok r'" "unread r' = unread r @ evs" "mBufferEnd r' = mBufferEnd r"
      using put_ring_unread [OF assms(1) le] by blast
    have "fill fd r = Some (int (length evs), r', fd')"
      using assms(2,3) 3 r'(1) buf by (auto simp: fill_def put_ring_def Let_def bind_eq_Some_conv split: if_splits)
    with r' 3 show ?thesis by simp
  qed (use assms(2,3) buf u in \<open>auto simp: fill_def\<close>)
qed


section \<open>The queue a sensor sees\<close>

text \<open>The loop of all sensors: while there is room and an event, its body, and the event is taken unless the body says otherwise.
  \<open>fuel\<close> bounds the rounds; \<open>None\<close> if they are not enough.\<close>

fun read_loop ::
    "nat \<Rightarrow> ('r \<Rightarrow> 'e option) \<Rightarrow> ('r \<Rightarrow> 'r) \<Rightarrow> ('s \<Rightarrow> bool) \<Rightarrow> ('e \<Rightarrow> 's \<Rightarrow> 's \<times> bool) \<Rightarrow> 'r \<Rightarrow> 's \<Rightarrow> ('s \<times> 'r) option" where
  "read_loop 0 peek pop room body r s = None"
| "read_loop (Suc fuel) peek pop room body r s =
     (if room s then
        (case peek r of
           None \<Rightarrow> Some (s, r)
         | Some e \<Rightarrow> (case body e s of (s, taken) \<Rightarrow> read_loop fuel peek pop room body (if taken then pop r else r) s))
      else Some (s, r))"

lemma read_loop_keeps:
  assumes "read_loop fuel peek pop room body r s = Some (s', r')" and "I s"
    and "\<And>e s. I s \<Longrightarrow> room s \<Longrightarrow> I (fst (body e s))"
  shows "I s'"
  using assms(1,2)
proof (induction fuel arbitrary: r s)
  case (Suc fuel)
  show ?case
  proof (cases "room s")
    case room: True
    show ?thesis
    proof (cases "peek r")
      case (Some e)
      obtain s1 taken where b: "body e s = (s1, taken)" by force
      have "I s1" using assms(3) [OF Suc.prems(2) room, of e] b by simp
      then show ?thesis using Suc.IH [of "if taken then pop r else r" s1] Suc.prems(1) room Some b by simp
    qed (use Suc.prems room in auto)
  qed (use Suc.prems in auto)
qed simp

text \<open>The same on the list of events.\<close>

fun consume :: "('s \<Rightarrow> bool) \<Rightarrow> ('e \<Rightarrow> 's \<Rightarrow> 's \<times> bool) \<Rightarrow> 'e list \<Rightarrow> 's \<Rightarrow> 's \<times> 'e list" where
  "consume room body [] s = (s, [])"
| "consume room body (e # es) s =
     (if room s then (case body e s of (s, taken) \<Rightarrow> if taken then consume room body es s else (s, e # es))
      else (s, e # es))"

locale bounded_fifo =
  fixes ok :: "'r \<Rightarrow> bool" and events :: "'r \<Rightarrow> 'e list" and peek :: "'r \<Rightarrow> 'e option" and pop :: "'r \<Rightarrow> 'r"
  assumes peek: "ok r \<Longrightarrow> peek r = (case events r of [] \<Rightarrow> None | e # es \<Rightarrow> Some e)"
    and pop_ok: "ok r \<Longrightarrow> events r \<noteq> [] \<Longrightarrow> ok (pop r)"
    and pop_events: "ok r \<Longrightarrow> events r \<noteq> [] \<Longrightarrow> events (pop r) = tl (events r)"
begin

lemma stops: "ok r \<Longrightarrow> \<not> room s \<Longrightarrow> read_loop (Suc fuel) peek pop room body r s = Some (s, r)"
  by simp

lemma loop_consumes:
  assumes "ok r" and "length (events r) < fuel" and "I s"
    and kept: "\<And>e s. I s \<Longrightarrow> room s \<Longrightarrow> I (fst (body e s))"
    and taken: "\<And>e s. I s \<Longrightarrow> room s \<Longrightarrow> \<not> snd (body e s) \<Longrightarrow> \<not> room (fst (body e s))"
  shows "\<exists>r'. read_loop fuel peek pop room body r s = Some (fst (consume room body (events r) s), r') \<and> ok r'
    \<and> events r' = snd (consume room body (events r) s)"
  using assms(1,2,3)
proof (induction fuel arbitrary: r s)
  case (Suc fuel)
  show ?case
  proof (cases "room s")
    case False
    with Suc.prems show ?thesis by (cases "events r") auto
  next
    case room: True
    show ?thesis
    proof (cases "events r")
      case Nil
      with Suc.prems peek [of r] show ?thesis by auto
    next
      case (Cons e es)
      obtain s1 taken where b: "body e s = (s1, taken)" by force
      have p: "peek r = Some e" using peek [OF Suc.prems(1)] Cons by simp
      show ?thesis
      proof (cases taken)
        case True
        have "ok (pop r)" "events (pop r) = es" using pop_ok pop_events Suc.prems(1) Cons by simp_all
        moreover have "I s1" using kept [OF Suc.prems(3) room, of e] b by simp
        ultimately show ?thesis using Suc.IH [of "pop r" s1] Suc.prems(2) Cons room p b True by auto
      next
        case False
        then have "\<not> room s1" using taken [OF Suc.prems(3) room, of e] b by simp
        moreover obtain f where "fuel = Suc f" using Suc.prems(2) Cons by (cases fuel) auto
        ultimately show ?thesis using Suc.prems(1) Cons room p b False by auto
      qed
    qed
  qed
qed simp

end

lemma ring_end [simp]: "mBufferEnd (next_event r) = mBufferEnd r"
  by (simp add: next_event_def Let_def)

interpretation ring: bounded_fifo "\<lambda>r. ring_ok r \<and> mBufferEnd r = n" unread readEvent next_event for n :: nat
  by unfold_locales (simp_all add: readEvent_unread next_unread)

lemma length_unread: "ring_ok r \<Longrightarrow> int (length (unread r)) = int (mBufferEnd r) - mFreeSpace r"
  by (simp add: unread_def ring_ok_def)

text \<open>The operations on the ring in a row, with the device, the events taken and what \<open>fill\<close> has returned; and on a list.\<close>

datatype ring_op = Fill | Take

fun ring_step ::
    "ring_op \<Rightarrow> circular_reader \<times> read_result list \<times> input_event list \<times> int list \<Rightarrow>
     (circular_reader \<times> read_result list \<times> input_event list \<times> int list) option" where
  "ring_step Fill (r, fd, taken, rets) = do {(ret, r, fd) \<leftarrow> fill fd r; Some (r, fd, taken, rets @ [ret])}"
| "ring_step Take (r, fd, taken, rets) =
     Some (case readEvent r of None \<Rightarrow> (r, fd, taken, rets) | Some e \<Rightarrow> (next_event r, fd, taken @ [e], rets))"

fun queue_step ::
    "nat \<Rightarrow> ring_op \<Rightarrow> input_event list \<times> read_result list \<times> input_event list \<times> int list \<Rightarrow>
     (input_event list \<times> read_result list \<times> input_event list \<times> int list) option" where
  "queue_step n Fill (q, fd, taken, rets) =
     (if length q = n then Some (q, fd, taken, rets @ [0])
      else do {(res, fd) \<leftarrow> kernel_read (n - length q) fd;
        case res of ReadError e \<Rightarrow> Some (q, fd, taken, rets @ [- e])
        | ReadEvents evs partial \<Rightarrow>
            Some (if partial then (q, fd, taken, rets @ [- EINVAL]) else (q @ evs, fd, taken, rets @ [int (length evs)]))})"
| "queue_step n Take (q, fd, taken, rets) = Some (case q of [] \<Rightarrow> (q, fd, taken, rets) | e # q \<Rightarrow> (q, fd, taken @ [e], rets))"

fun run_steps :: "('o \<Rightarrow> 'a \<Rightarrow> 'a option) \<Rightarrow> 'o list \<Rightarrow> 'a \<Rightarrow> 'a option" where
  "run_steps step [] a = Some a"
| "run_steps step (x # xs) a = do {a \<leftarrow> step x a; run_steps step xs a}"

definition queue_of :: "circular_reader \<times> read_result list \<times> input_event list \<times> int list \<Rightarrow>
    input_event list \<times> read_result list \<times> input_event list \<times> int list" where
  "queue_of x = (case x of (r, rest) \<Rightarrow> (unread r, rest))"

lemma ring_step_refines:
  assumes "ring_ok r" "mBufferEnd r = n"
  shows "map_option queue_of (ring_step x (r, rest)) = queue_step n x (unread r, rest)
    \<and> (\<forall>r' rest'. ring_step x (r, rest) = Some (r', rest') \<longrightarrow> ring_ok r' \<and> mBufferEnd r' = n)"
proof (cases x)
  case Take
  obtain fd taken rets where rest: "rest = (fd, taken, rets)" by (cases rest)
  show ?thesis
    using readEvent_unread [OF assms(1)] next_unread [OF assms(1)] assms
    by (cases "unread r") (auto simp: Take rest queue_of_def)
next
  case Fill
  obtain fd taken rets where rest: "rest = (fd, taken, rets)" by (cases rest)
  have len: "n - length (unread r) = nat (mFreeSpace r)" "length (unread r) = n \<longleftrightarrow> mFreeSpace r = 0"
    using length_unread [OF assms(1)] assms(2) by auto
  show ?thesis
  proof (cases "mFreeSpace r = 0")
    case True
    with len assms show ?thesis by (simp add: Fill rest fill_full queue_of_def)
  next
    case False
    show ?thesis
    proof (cases "kernel_read (nat (mFreeSpace r)) fd")
      case None
      then have "fd = []" by (cases "(nat (mFreeSpace r), fd)" rule: kernel_read.cases) auto
      with False len show ?thesis by (simp add: Fill rest fill_blocks)
    next
      case (Some res)
      obtain a fd' where res: "res = (a, fd')" by force
      show ?thesis
      proof (cases a)
        case (ReadError e)
        then have "fd = ReadError e # fd'" using Some res by (cases "(nat (mFreeSpace r), fd)" rule: kernel_read.cases) (auto split: if_splits)
        with False len assms show ?thesis by (simp add: Fill rest fill_error queue_of_def)
      next
        case (ReadEvents evs partial)
        have k: "kernel_read (nat (mFreeSpace r)) fd = Some (ReadEvents evs partial, fd')" using Some res ReadEvents by simp
        obtain r' where "fill fd r = Some (if partial then - EINVAL else int (length evs), r', fd')" "ring_ok r'"
          "unread r' = unread r @ (if partial then [] else evs)" "mBufferEnd r' = mBufferEnd r"
          using fill_events [OF assms(1) False k] by blast
        with k False len assms show ?thesis by (simp add: Fill rest queue_of_def)
      qed
    qed
  qed
qed

text \<open>C17: the ring with its two pointers, its double-sized array and its copying is a queue of bounded length: filling it from a
  device and taking events from it, in any order, gives the same events in the same order, the same results and leaves the
  same in the device as on a list, it blocks exactly when the list does, and never leaves its array.\<close>
theorem ring_refines_queue:
  assumes "0 < n" and "length junk = 2 * n"
  shows "map_option queue_of (run_steps ring_step ops (newReader n junk, fd, [], [])) = run_steps (queue_step n) ops ([], fd, [], [])"
proof -
  have "map_option queue_of (run_steps ring_step ops (r, rest)) = run_steps (queue_step n) ops (unread r, rest)"
    if "ring_ok r" "mBufferEnd r = n" for r rest
    using that
  proof (induction ops arbitrary: r rest)
    case Nil
    show ?case by (simp add: queue_of_def)
  next
    case (Cons x ops)
    note ref = ring_step_refines [OF Cons.prems, of x rest]
    show ?case
    proof (cases "ring_step x (r, rest)")
      case None
      then have "queue_step n x (unread r, rest) = None" using ref by simp
      with None show ?thesis by simp
    next
      case (Some y)
      obtain r' rest' where y: "y = (r', rest')" by (cases y)
      then have "queue_step n x (unread r, rest) = Some (unread r', rest')" using ref Some by (auto simp: queue_of_def)
      moreover have "ring_ok r'" "mBufferEnd r' = n" using conjunct2 [OF ref] Some unfolding y by blast+
      ultimately show ?thesis using Cons.IH [of r' rest'] Some y by simp
    qed
  qed
  from this [of "newReader n junk" "(fd, [], [])"] ring_new [OF assms] show ?thesis by (simp add: newReader_def)
qed


definition event0 :: "16 word \<Rightarrow> 16 word \<Rightarrow> 32 word \<Rightarrow> input_event" where
  "event0 type code value = \<lparr>ev_sec = 0, ev_usec = 0, ev_type = type, ev_code = code, ev_value = value\<rparr>"

theorem ring_refines_queue_witness:
  "map_option queue_of (run_steps ring_step [Fill, Take, Fill, Take, Take]
      (newReader 2 (replicate 4 (event0 0 0 0)), [ReadEvents [event0 3 1 7, event0 0 0 0] False, ReadEvents [event0 3 2 8, event0 0 0 0] False], [], []))
    = Some ([], [ReadEvents [event0 0 0 0] False], [event0 3 1 7, event0 0 0 0, event0 3 2 8], [2, 1])"
  using ring_refines_queue [of 2 "replicate 4 (event0 0 0 0)" "[Fill, Take, Fill, Take, Take]"] by simp

text \<open>Taking from an empty ring would break it: there is room for more events than the array has.\<close>

lemma next_on_empty: "mFreeSpace (next_event (newReader 4 junk)) = 5"
  by (simp add: next_event_def newReader_def)

end
