(* ===== verification/Input_Sensors.thy ===== *)
theory Input_Sensors
  imports Input_Ring Sysfs Printf
begin

text \<open>
  The light sensor, the proximity sensor and the gyroscope (\<open>libsensors/LightSensor.cpp\<close>, \<open>ProximitySensor.cpp\<close>,
  \<open>GyroSensor.cpp\<close>) and what they have in common (\<open>SensorBase.cpp\<close>).

  \<^item> The three classes have the same members and loops; \<open>input_sensor\<close> is their state, with the member that only the
    gyroscope has. Of a \<open>sensors_event_t\<close> there are the fields that are set; \<open>light\<close> and \<open>distance\<close> are the first data field.
  \<^item> \<open>float\<close> is exact, \<open>M_PI\<close> is its value as a \<open>float\<close>.
  \<^item> The kernel is a parameter: the attribute files of \<open>Sysfs\<close>, the current value of an axis, the time, and the events of a
    device as in \<open>Input_Ring\<close>. \<open>None\<close> is a call that does not return, because a read of the device blocks.
\<close>

section \<open>What the sensors have in common\<close>

record sensors_event =
  sensor :: int
  event_type :: int
  timestamp :: int
  data0 :: rat
  data1 :: rat
  data2 :: rat
  accuracy_status :: "8 word"

record input_sensor =
  mEnabled :: int
  mInputReader :: circular_reader
  mPendingEvent :: sensors_event
  mHasPendingEvent :: bool
  mEnabledTime :: int
  data_fd :: int
  input_sysfs_path :: string

record sensor_env =
  sys :: os
  abs_value :: "int \<Rightarrow> 16 word \<Rightarrow> int option"
  now :: int

definition EV_SYN :: "16 word" where "EV_SYN = 0"
definition EV_REL :: "16 word" where "EV_REL = 2"
definition EV_ABS :: "16 word" where "EV_ABS = 3"

definition timevalToNano :: "input_event \<Rightarrow> int" where
  "timevalToNano e = ev_sec e * 1000000000 + ev_usec e * 1000"

text \<open>\<open>openInput\<close>: the directory is \<open>None\<close> if it cannot be opened, otherwise its entries, each with the descriptor it opens as
  and its device's name, if it can be asked for. \<open>input_name\<close> is what the member holds.\<close>

fun find_input :: "(string \<times> (int \<times> string option) option) list \<Rightarrow> string \<Rightarrow> string \<Rightarrow> int \<times> string" where
  "find_input [] inputName input_name = (- 1, input_name)"
| "find_input ((d_name, opened) # dir) inputName input_name =
     (if d_name = ''.'' \<or> d_name = ''..'' then find_input dir inputName input_name
      else case opened of
        None \<Rightarrow> find_input dir inputName input_name
      | Some (fd, name) \<Rightarrow>
          if 0 \<le> fd \<and> (case name of None \<Rightarrow> '''' | Some n \<Rightarrow> n) = inputName then (fd, d_name)
          else find_input dir inputName input_name)"

definition openInput :: "(string \<times> (int \<times> string option) option) list option \<Rightarrow> string \<Rightarrow> string \<Rightarrow> int \<times> string" where
  "openInput dir inputName input_name =
     (case dir of None \<Rightarrow> (- 1, input_name) | Some entries \<Rightarrow> find_input entries inputName input_name)"

text \<open>Opening an attribute file and writing a text with its terminator.\<close>

definition write_attr :: "os \<Rightarrow> string \<Rightarrow> string \<Rightarrow> files \<Rightarrow> files option" where
  "write_attr os path text fs =
     (if 0 \<le> os_open os fs path
      then Some (if os_write os fs path (text @ [NUL]) then put_file path (text @ [NUL]) fs else fs) else None)"

text \<open>The loop over the events. \<open>sense\<close> is the branch for values, \<open>keep\<close> whether a report is passed on.\<close>

record loop_state =
  pending :: sensors_event
  reported :: "sensors_event list"
  count :: int
  numEventReceived :: int

definition input_body ::
    "(input_event \<Rightarrow> sensors_event \<Rightarrow> sensors_event) \<Rightarrow> (sensors_event \<Rightarrow> bool) \<Rightarrow> bool \<Rightarrow> input_event \<Rightarrow> loop_state \<Rightarrow> loop_state \<times> bool" where
  "input_body sense keep enabled e s =
     (if ev_type e = EV_SYN then
        let p = (pending s)\<lparr>timestamp := timevalToNano e\<rparr>; s = s\<lparr>pending := p\<rparr> in
        (if enabled then
           let s = (if keep p then s\<lparr>reported := reported s @ [p], numEventReceived := numEventReceived s + 1\<rparr> else s)
           in s\<lparr>count := count s - 1\<rparr>
         else s, True)
      else (s\<lparr>pending := sense e (pending s)\<rparr>, True))"

definition drain ::
    "(input_event \<Rightarrow> sensors_event \<Rightarrow> sensors_event) \<Rightarrow> (sensors_event \<Rightarrow> bool) \<Rightarrow> bool \<Rightarrow> circular_reader \<Rightarrow> loop_state \<Rightarrow>
     (loop_state \<times> circular_reader) option" where
  "drain sense keep enabled r s =
     read_loop (Suc (mBufferEnd r)) readEvent next_event (\<lambda>s. count s \<noteq> 0) (input_body sense keep enabled) r s"

text \<open>\<open>readEvents\<close> of the light and the proximity sensor: what it returns, the events written to the caller's array, and the
  sensor and its device afterwards.\<close>

definition input_readEvents ::
    "(input_event \<Rightarrow> sensors_event \<Rightarrow> sensors_event) \<Rightarrow> sensor_env \<Rightarrow> int \<Rightarrow> read_result list \<Rightarrow> input_sensor \<Rightarrow>
     (int \<times> sensors_event list \<times> input_sensor \<times> read_result list) option" where
  "input_readEvents sense env cnt fd s =
     (if cnt < 1 then Some (- EINVAL, [], s, fd)
      else if mHasPendingEvent s then
        let s = s\<lparr>mHasPendingEvent := False, mPendingEvent := (mPendingEvent s)\<lparr>timestamp := now env\<rparr>\<rparr>
        in Some (if mEnabled s \<noteq> 0 then 1 else 0, [mPendingEvent s], s, fd)
      else do {
        (n, r, fd) \<leftarrow> fill fd (mInputReader s);
        let s = s\<lparr>mInputReader := r\<rparr>;
        if n < 0 then Some (n, [], s, fd)
        else do {
          (l, r) \<leftarrow> drain sense (\<lambda>_. True) (mEnabled s \<noteq> 0) r
            \<lparr>pending = mPendingEvent s, reported = [], count = cnt, numEventReceived = 0\<rparr>;
          Some (numEventReceived l, reported l, s\<lparr>mInputReader := r, mPendingEvent := pending l\<rparr>, fd)}})"

section \<open>The light sensor\<close>

definition EVENT_TYPE_LIGHT :: "16 word" where "EVENT_TYPE_LIGHT = 0x28"

definition adcToLux :: "(32 word \<times> rat) list" where
  "adcToLux = [(360, 7), (798, 70), (1240, 1000), (1673, 10000), (3000, 16000)]"

fun find_lux :: "32 word \<Rightarrow> (32 word \<times> rat) list \<Rightarrow> rat option" where
  "find_lux index [] = None"
| "find_lux index ((adc_value, lux_value) # t) = (if index < adc_value then Some lux_value else find_lux index t)"

definition light_indexToValue :: "32 word \<Rightarrow> rat" where
  "light_indexToValue index =
     (case find_lux index adcToLux of Some lux \<Rightarrow> lux | None \<Rightarrow> snd (adcToLux ! (length adcToLux - 1)))"

definition light_sense :: "input_event \<Rightarrow> sensors_event \<Rightarrow> sensors_event" where
  "light_sense e p =
     (if ev_type e = EV_ABS \<and> ev_code e = EVENT_TYPE_LIGHT \<and> ev_value e \<noteq> - 1
      then p\<lparr>data0 := light_indexToValue (ev_value e)\<rparr> else p)"

definition light_setInitialState :: "sensor_env \<Rightarrow> input_sensor \<Rightarrow> input_sensor" where
  "light_setInitialState env s =
     (case abs_value env (data_fd s) EVENT_TYPE_LIGHT of
        None \<Rightarrow> s
      | Some v \<Rightarrow> s\<lparr>mHasPendingEvent := True, mPendingEvent := (mPendingEvent s)\<lparr>data0 := of_int v\<rparr>\<rparr>)"

definition light_setDelay :: "sensor_env \<Rightarrow> int \<Rightarrow> input_sensor \<times> files \<Rightarrow> int \<times> input_sensor \<times> files" where
  "light_setDelay env ns st =
     (case st of (s, fs) \<Rightarrow>
        (case write_attr (sys env) (input_sysfs_path s @ ''poll_delay'') (dec ns) fs of
           None \<Rightarrow> (- 1, s, fs) | Some fs \<Rightarrow> (0, s, fs)))"

text \<open>What follows a successful write is \<open>after\<close>.\<close>

definition input_enable ::
    "(sensor_env \<Rightarrow> input_sensor \<Rightarrow> input_sensor) \<Rightarrow> (sensor_env \<Rightarrow> input_sensor \<Rightarrow> input_sensor) \<Rightarrow> sensor_env \<Rightarrow> int \<Rightarrow>
     input_sensor \<times> files \<Rightarrow> int \<times> input_sensor \<times> files" where
  "input_enable before after env en st =
     (case st of (s, fs) \<Rightarrow>
        let flags = (if en \<noteq> 0 then 1 else 0) in
        if flags \<noteq> mEnabled s then
          if 0 \<le> os_open (sys env) fs (input_sysfs_path s @ ''enable'') then
            let s = (if flags \<noteq> 0 then before env s else s);
                fs = the (write_attr (sys env) (input_sysfs_path s @ ''enable'') (if flags \<noteq> 0 then ''1'' else ''0'') fs)
            in (0, after env (s\<lparr>mEnabled := flags\<rparr>), fs)
          else (- 1, s, fs)
        else (0, s, fs))"

definition light_enable :: "sensor_env \<Rightarrow> int \<Rightarrow> input_sensor \<times> files \<Rightarrow> int \<times> input_sensor \<times> files" where
  "light_enable env en st = input_enable (\<lambda>_ s. s) (\<lambda>_ s. s) env en st"

definition light_readEvents ::
    "sensor_env \<Rightarrow> int \<Rightarrow> read_result list \<Rightarrow> input_sensor \<Rightarrow> (int \<times> sensors_event list \<times> input_sensor \<times> read_result list) option" where
  "light_readEvents env cnt fd s = input_readEvents light_sense env cnt fd s"

text \<open>The constructor: a new sensor on an opened device is enabled at once. \<open>0\<close> is the only descriptor for which it is not.\<close>

definition blank_event :: "int \<Rightarrow> int \<Rightarrow> sensors_event" where
  "blank_event handle ty = \<lparr>sensor = handle, event_type = ty, timestamp = 0, data0 = 0, data1 = 0, data2 = 0, accuracy_status = 0\<rparr>"

definition new_input_sensor :: "nat \<Rightarrow> input_event list \<Rightarrow> sensors_event \<Rightarrow> int \<times> string \<Rightarrow> string \<Rightarrow> input_sensor" where
  "new_input_sensor numEvents junk ev opened old_path =
     \<lparr>mEnabled = 0, mInputReader = newReader numEvents junk, mPendingEvent = ev, mHasPendingEvent = False, mEnabledTime = 0,
      data_fd = fst opened,
      input_sysfs_path = (if fst opened \<noteq> 0 then ''/sys/class/input/'' @ snd opened @ ''/device/'' else old_path)\<rparr>"

definition ID_L :: int where "ID_L = 3"
definition ID_P :: int where "ID_P = 4"
definition ID_GY :: int where "ID_GY = 5"

definition newLightSensor ::
    "sensor_env \<Rightarrow> (string \<times> (int \<times> string option) option) list option \<Rightarrow> input_event list \<Rightarrow> string \<Rightarrow> string \<Rightarrow> files \<Rightarrow> input_sensor \<times> files" where
  "newLightSensor env dir junk old_name old_path fs =
     (let s = new_input_sensor 4 junk (blank_event ID_L 5) (openInput dir ''light_sensor'' old_name) old_path
      in if data_fd s \<noteq> 0 then snd (light_enable env 1 (s, fs)) else (s, fs))"

section \<open>The proximity sensor\<close>

definition EVENT_TYPE_PROXIMITY :: "16 word" where "EVENT_TYPE_PROXIMITY = 0x19"

definition proximity_indexToValue :: "32 word \<Rightarrow> rat" where
  "proximity_indexToValue index = of_int (uint index) * 5"

definition proximity_sense :: "input_event \<Rightarrow> sensors_event \<Rightarrow> sensors_event" where
  "proximity_sense e p =
     (if ev_type e = EV_ABS \<and> ev_code e = EVENT_TYPE_PROXIMITY then p\<lparr>data0 := proximity_indexToValue (ev_value e)\<rparr> else p)"

definition proximity_setInitialState :: "sensor_env \<Rightarrow> input_sensor \<Rightarrow> input_sensor" where
  "proximity_setInitialState env s =
     (case abs_value env (data_fd s) EVENT_TYPE_PROXIMITY of
        None \<Rightarrow> s
      | Some v \<Rightarrow> s\<lparr>mHasPendingEvent := True,
                    mPendingEvent := (mPendingEvent s)\<lparr>data0 := proximity_indexToValue (word_of_int v)\<rparr>\<rparr>)"

definition proximity_enable :: "sensor_env \<Rightarrow> int \<Rightarrow> input_sensor \<times> files \<Rightarrow> int \<times> input_sensor \<times> files" where
  "proximity_enable env en st = input_enable (\<lambda>_ s. s) proximity_setInitialState env en st"

definition proximity_readEvents ::
    "sensor_env \<Rightarrow> int \<Rightarrow> read_result list \<Rightarrow> input_sensor \<Rightarrow> (int \<times> sensors_event list \<times> input_sensor \<times> read_result list) option" where
  "proximity_readEvents env cnt fd s = input_readEvents proximity_sense env cnt fd s"

definition newProximitySensor ::
    "sensor_env \<Rightarrow> (string \<times> (int \<times> string option) option) list option \<Rightarrow> input_event list \<Rightarrow> string \<Rightarrow> string \<Rightarrow> files \<Rightarrow> input_sensor \<times> files" where
  "newProximitySensor env dir junk old_name old_path fs =
     (let s = new_input_sensor 4 junk (blank_event ID_P 8) (openInput dir ''proximity_sensor'' old_name) old_path
      in if data_fd s \<noteq> 0 then snd (proximity_enable env 1 (s, fs)) else (s, fs))"

section \<open>The gyroscope\<close>

definition EVENT_TYPE_GYRO_X :: "16 word" where "EVENT_TYPE_GYRO_X = 4"
definition EVENT_TYPE_GYRO_Y :: "16 word" where "EVENT_TYPE_GYRO_Y = 3"
definition EVENT_TYPE_GYRO_Z :: "16 word" where "EVENT_TYPE_GYRO_Z = 5"
definition M_PI :: rat where "M_PI = 13176795 / 4194304"
definition CONVERT_GYRO :: rat where "CONVERT_GYRO = (70 / 4000) * (M_PI / 180)"
definition IGNORE_EVENT_TIME :: int where "IGNORE_EVENT_TIME = 350000000"

definition gyro_sense :: "input_event \<Rightarrow> sensors_event \<Rightarrow> sensors_event" where
  "gyro_sense e p =
     (let v = of_int (sint (ev_value e)) in
      if ev_type e = EV_REL then
        if ev_code e = EVENT_TYPE_GYRO_X then p\<lparr>data0 := v * - CONVERT_GYRO\<rparr>
        else if ev_code e = EVENT_TYPE_GYRO_Y then p\<lparr>data1 := v * CONVERT_GYRO\<rparr>
        else if ev_code e = EVENT_TYPE_GYRO_Z then p\<lparr>data2 := v * CONVERT_GYRO\<rparr> else p
      else p)"

definition gyro_setInitialState :: "sensor_env \<Rightarrow> input_sensor \<Rightarrow> input_sensor" where
  "gyro_setInitialState env s =
     (case (abs_value env (data_fd s) EVENT_TYPE_GYRO_X, abs_value env (data_fd s) EVENT_TYPE_GYRO_X,
            abs_value env (data_fd s) EVENT_TYPE_GYRO_X) of
        (Some absinfo_x, Some absinfo_y, Some absinfo_z) \<Rightarrow>
          let value = of_int absinfo_x in
          s\<lparr>mPendingEvent := (mPendingEvent s)\<lparr>data0 := value * - CONVERT_GYRO, data1 := value * CONVERT_GYRO, data2 := value * CONVERT_GYRO\<rparr>,
            mHasPendingEvent := True\<rparr>
      | _ \<Rightarrow> s)"

definition gyro_enable :: "sensor_env \<Rightarrow> int \<Rightarrow> input_sensor \<times> files \<Rightarrow> int \<times> input_sensor \<times> files" where
  "gyro_enable env en st =
     input_enable (\<lambda>env s. s\<lparr>mEnabledTime := now env + IGNORE_EVENT_TIME\<rparr>) gyro_setInitialState env en st"

text \<open>Division of C, towards zero.\<close>

definition c_div :: "int \<Rightarrow> int \<Rightarrow> int" where
  "c_div a b = (if a < 0 then - (- a div b) else a div b)"

definition gyro_setDelay :: "sensor_env \<Rightarrow> int \<Rightarrow> input_sensor \<times> files \<Rightarrow> int \<times> input_sensor \<times> files" where
  "gyro_setDelay env delay_ns st =
     (case st of (s, fs) \<Rightarrow>
        (case write_attr (sys env) (input_sysfs_path s @ ''poll_delay'') (dec (c_div delay_ns 1000000)) fs of
           None \<Rightarrow> (- 1, s, fs) | Some fs \<Rightarrow> (0, s, fs)))"

definition work :: "read_result list \<Rightarrow> nat" where
  "work fd = sum_list (map (\<lambda>x. case x of ReadError e \<Rightarrow> 1 | ReadEvents evs partial \<Rightarrow> Suc (length evs)) fd)"

lemma kernel_read_work:
  assumes "kernel_read n fd = Some (res, fd')" "res \<noteq> ReadEvents [] False"
  shows "work fd' < work fd"
  using assms by (cases "(n, fd)" rule: kernel_read.cases) (auto simp: work_def split: if_splits)

lemma fill_reads:
  assumes "fill fd r = Some (n, r', fd')" "mFreeSpace r \<noteq> 0"
  shows "\<exists>res. kernel_read (nat (mFreeSpace r)) fd = Some (res, fd') \<and> (res = ReadEvents [] False \<longrightarrow> n = 0)"
proof (cases "kernel_read (nat (mFreeSpace r)) fd")
  case None
  with assms show ?thesis by (simp add: fill_def)
next
  case (Some x)
  obtain res fd1 where x: "x = (res, fd1)" by (cases x)
  have "fd1 = fd' \<and> (res = ReadEvents [] False \<longrightarrow> n = 0)"
  proof (cases res)
    case (ReadError e)
    with assms Some x show ?thesis by (simp add: fill_def)
  next
    case (ReadEvents evs partial)
    with assms Some x show ?thesis
      by (cases "store_at (mHead r) evs (mBuffer r)") (auto simp: fill_def Let_def bind_eq_Some_conv split: if_splits)
  qed
  with Some x show ?thesis by blast
qed

lemma fill_work:
  assumes "fill fd r = Some (n, r', fd')" "n \<noteq> 0"
  shows "work fd' < work fd"
proof -
  have "mFreeSpace r \<noteq> 0" using assms by (auto simp: fill_def)
  from fill_reads [OF assms(1) this] assms(2) kernel_read_work show ?thesis by blast
qed

text \<open>The loop and, if it has delivered nothing, another \<open>fill\<close> and the loop again, from the label \<open>again\<close>.\<close>

function gyro_again ::
    "int \<Rightarrow> int \<Rightarrow> read_result list \<Rightarrow> circular_reader \<Rightarrow> loop_state \<Rightarrow> (loop_state \<times> circular_reader \<times> read_result list) option" where
  "gyro_again enabled enabled_time fd r l =
     do {
       (l, r) \<leftarrow> drain gyro_sense (\<lambda>p. enabled_time \<le> timestamp p) (enabled \<noteq> 0) r l;
       if numEventReceived l = 0 \<and> enabled = 1 then
         (case fill fd r of None \<Rightarrow> None
          | Some (n, r, fd') \<Rightarrow> if n \<noteq> 0 then gyro_again enabled enabled_time fd' r l else Some (l, r, fd'))
       else Some (l, r, fd)}"
  by pat_completeness auto

termination by (relation "measure (\<lambda>(enabled, t, fd, r, l). work fd)") (auto dest: fill_work)

declare gyro_again.simps [simp del]

definition gyro_readEvents ::
    "sensor_env \<Rightarrow> int \<Rightarrow> read_result list \<Rightarrow> input_sensor \<Rightarrow> (int \<times> sensors_event list \<times> input_sensor \<times> read_result list) option" where
  "gyro_readEvents env cnt fd s =
     (if cnt < 1 then Some (- EINVAL, [], s, fd)
      else if mHasPendingEvent s then
        let s = s\<lparr>mHasPendingEvent := False, mPendingEvent := (mPendingEvent s)\<lparr>timestamp := now env\<rparr>\<rparr>
        in Some (if mEnabled s \<noteq> 0 then 1 else 0, [mPendingEvent s], s, fd)
      else do {
        (n, r, fd) \<leftarrow> fill fd (mInputReader s);
        let s = s\<lparr>mInputReader := r\<rparr>;
        if n < 0 then Some (n, [], s, fd)
        else do {
          (l, r, fd) \<leftarrow> gyro_again (mEnabled s) (mEnabledTime s) fd r
            \<lparr>pending = mPendingEvent s, reported = [], count = cnt, numEventReceived = 0\<rparr>;
          Some (numEventReceived l, reported l, s\<lparr>mInputReader := r, mPendingEvent := pending l\<rparr>, fd)}})"

definition newGyroSensor ::
    "sensor_env \<Rightarrow> (string \<times> (int \<times> string option) option) list option \<Rightarrow> input_event list \<Rightarrow> string \<Rightarrow> string \<Rightarrow> files \<Rightarrow> input_sensor \<times> files" where
  "newGyroSensor env dir junk old_name old_path fs =
     (let s = new_input_sensor 4 junk (blank_event ID_GY 4) (openInput dir ''gyro_sensor'' old_name) old_path
      in if data_fd s \<noteq> 0 then snd (gyro_enable env 1 (s, fs)) else (s, fs))"

section \<open>No report is lost\<close>

text \<open>The reports a list of events amounts to, the event held at its end, and the events a device has yet to give.\<close>

fun reports :: "(input_event \<Rightarrow> sensors_event \<Rightarrow> sensors_event) \<Rightarrow> sensors_event \<Rightarrow> input_event list \<Rightarrow> sensors_event list" where
  "reports sense p [] = []"
| "reports sense p (e # es) =
     (if ev_type e = EV_SYN then let p = p\<lparr>timestamp := timevalToNano e\<rparr> in p # reports sense p es
      else reports sense (sense e p) es)"

fun held :: "(input_event \<Rightarrow> sensors_event \<Rightarrow> sensors_event) \<Rightarrow> sensors_event \<Rightarrow> input_event list \<Rightarrow> sensors_event" where
  "held sense p [] = p"
| "held sense p (e # es) = held sense (if ev_type e = EV_SYN then p\<lparr>timestamp := timevalToNano e\<rparr> else sense e p) es"

fun device_events :: "read_result list \<Rightarrow> input_event list" where
  "device_events [] = []"
| "device_events (ReadError e # fd) = device_events fd"
| "device_events (ReadEvents evs partial # fd) = evs @ device_events fd"

fun whole :: "read_result \<Rightarrow> bool" where
  "whole (ReadError e) = True"
| "whole (ReadEvents evs partial) = (\<not> partial)"

lemma reports_append: "reports sense p (xs @ ys) = reports sense p xs @ reports sense (held sense p xs) ys"
  by (induction xs arbitrary: p) (simp_all add: Let_def)

lemma held_append: "held sense p (xs @ ys) = held sense (held sense p xs) ys"
  by (induction xs arbitrary: p) simp_all

lemma consume_reports:
  assumes "0 \<le> count s"
  shows "\<exists>ds. es = ds @ snd (consume (\<lambda>s. count s \<noteq> 0) (input_body sense keep True) es s)
    \<and> (let s' = fst (consume (\<lambda>s. count s \<noteq> 0) (input_body sense keep True) es s) in
        reported s' = reported s @ filter keep (reports sense (pending s) ds) \<and> pending s' = held sense (pending s) ds
        \<and> count s' = count s - int (length (reports sense (pending s) ds)) \<and> 0 \<le> count s'
        \<and> numEventReceived s' = numEventReceived s + int (length (filter keep (reports sense (pending s) ds)))
        \<and> (count s' = 0 \<or> ds = es))"
  using assms
proof (induction es arbitrary: s)
  case Nil
  show ?case by (rule exI [of _ "[]"]) (simp add: Nil)
next
  case (Cons e es)
  show ?case
  proof (cases "count s = 0")
    case True
    then show ?thesis by (intro exI [of _ "[]"]) simp
  next
    case False
    define s1 where "s1 = fst (input_body sense keep True e s)"
    have b: "input_body sense keep True e s = (s1, True)" by (simp add: s1_def input_body_def Let_def)
    have "0 \<le> count s1" using Cons.prems False by (auto simp: s1_def input_body_def Let_def)
    from Cons.IH [OF this] obtain ds where
      ds: "es = ds @ snd (consume (\<lambda>s. count s \<noteq> 0) (input_body sense keep True) es s1)"
        "let s' = fst (consume (\<lambda>s. count s \<noteq> 0) (input_body sense keep True) es s1) in
          reported s' = reported s1 @ filter keep (reports sense (pending s1) ds) \<and> pending s' = held sense (pending s1) ds
          \<and> count s' = count s1 - int (length (reports sense (pending s1) ds)) \<and> 0 \<le> count s'
          \<and> numEventReceived s' = numEventReceived s1 + int (length (filter keep (reports sense (pending s1) ds)))
          \<and> (count s' = 0 \<or> ds = es)"
      by blast
    have c: "consume (\<lambda>s. count s \<noteq> 0) (input_body sense keep True) (e # es) s =
        consume (\<lambda>s. count s \<noteq> 0) (input_body sense keep True) es s1"
      using False b by simp
    show ?thesis unfolding c
    proof (intro exI [of _ "e # ds"] conjI)
      show "e # es = (e # ds) @ snd (consume (\<lambda>s. count s \<noteq> 0) (input_body sense keep True) es s1)"
        using ds(1) by simp
    qed (use ds(2) in \<open>auto simp: s1_def input_body_def Let_def split: if_splits\<close>)
  qed
qed

lemma consume_disabled:
  "\<exists>s'. consume (\<lambda>s. count s \<noteq> 0) (input_body sense keep False) es s = (s', if count s = 0 then es else [])
    \<and> reported s' = reported s \<and> numEventReceived s' = numEventReceived s \<and> count s' = count s
    \<and> pending s' = (if count s = 0 then pending s else held sense (pending s) es)"
proof (induction es arbitrary: s)
  case (Cons e es)
  define s1 where "s1 = fst (input_body sense keep False e s)"
  have b: "input_body sense keep False e s = (s1, True)" by (simp add: s1_def input_body_def Let_def)
  from Cons [of s1] b show ?case by (auto simp: s1_def input_body_def Let_def)
qed simp

lemma drain_consumes:
  assumes "ring_ok r"
  shows "\<exists>r'. drain sense keep enabled r s =
      Some (fst (consume (\<lambda>s. count s \<noteq> 0) (input_body sense keep enabled) (unread r) s), r') \<and> ring_ok r' \<and> mBufferEnd r' = mBufferEnd r
    \<and> unread r' = snd (consume (\<lambda>s. count s \<noteq> 0) (input_body sense keep enabled) (unread r) s)"
proof -
  have len: "length (unread r) < Suc (mBufferEnd r)" using assms length_unread [OF assms] by (simp add: ring_ok_def)
  have "snd (input_body sense keep enabled e l)" for e l by (simp add: input_body_def Let_def)
  then show ?thesis
    using ring.loop_consumes [of r "mBufferEnd r" "Suc (mBufferEnd r)" "\<lambda>_. True" s "\<lambda>s. count s \<noteq> 0" "input_body sense keep enabled"] assms len
    by (auto simp: drain_def)
qed

lemma kernel_read_events:
  assumes "kernel_read n fd = Some (res, fd')" "list_all whole fd"
  shows "list_all whole fd'" "whole res" "device_events fd = device_events [res] @ device_events fd'" "length fd \<le> Suc (length fd')"
  using assms by (cases "(n, fd)" rule: kernel_read.cases; auto split: if_splits)+

text \<open>\<open>fill\<close> moves events from the device to the ring.\<close>

lemma fill_moves:
  assumes "ring_ok r" "list_all whole fd" "fd \<noteq> []"
  shows "\<exists>n r' fd'. fill fd r = Some (n, r', fd') \<and> ring_ok r' \<and> mBufferEnd r' = mBufferEnd r \<and> list_all whole fd'
    \<and> unread r' @ device_events fd' = unread r @ device_events fd \<and> length fd \<le> Suc (length fd')"
proof (cases "mFreeSpace r = 0")
  case True
  with assms show ?thesis by (simp add: fill_full)
next
  case False
  have "0 < mFreeSpace r" using assms(1) False by (simp add: ring_ok_def)
  have "kernel_read (nat (mFreeSpace r)) fd \<noteq> None"
    using assms(3) by (cases "(nat (mFreeSpace r), fd)" rule: kernel_read.cases) auto
  then obtain res fd' where k: "kernel_read (nat (mFreeSpace r)) fd = Some (res, fd')" by auto
  note ev = kernel_read_events [OF k assms(2)]
  show ?thesis
  proof (cases res)
    case (ReadError e)
    then have "fill fd r = Some (- e, r, fd')" using k False by (simp add: fill_def)
    with ev assms(1) ReadError show ?thesis by simp
  next
    case (ReadEvents evs partial)
    with fill_events [OF assms(1) False] k ev show ?thesis by fastforce
  qed
qed

text \<open>One call of an enabled sensor.\<close>

lemma input_readEvents_step:
  assumes "ring_ok (mInputReader s)" "list_all whole fd" "fd \<noteq> []" "1 \<le> cnt" "mEnabled s = 1" "\<not> mHasPendingEvent s"
  shows "\<exists>ret outs s' fd'. input_readEvents sense env cnt fd s = Some (ret, outs, s', fd')
    \<and> ring_ok (mInputReader s') \<and> list_all whole fd' \<and> length fd \<le> Suc (length fd') \<and> mEnabled s' = 1 \<and> \<not> mHasPendingEvent s'
    \<and> int (length outs) \<le> cnt \<and> (outs \<noteq> [] \<longrightarrow> ret = int (length outs))
    \<and> outs @ reports sense (mPendingEvent s') (unread (mInputReader s') @ device_events fd')
      = reports sense (mPendingEvent s) (unread (mInputReader s) @ device_events fd)"
proof -
  obtain n r1 fd1 where f: "fill fd (mInputReader s) = Some (n, r1, fd1)" "ring_ok r1" "list_all whole fd1" "length fd \<le> Suc (length fd1)"
    and ev: "unread r1 @ device_events fd1 = unread (mInputReader s) @ device_events fd"
    using fill_moves [OF assms(1,2,3)] by blast
  show ?thesis
  proof (cases "n < 0")
    case True
    with f ev assms show ?thesis by (simp add: input_readEvents_def Let_def)
  next
    case False
    define l0 where "l0 = \<lparr>pending = mPendingEvent s, reported = [], count = cnt, numEventReceived = 0\<rparr>"
    define c where "c = consume (\<lambda>s. count s \<noteq> 0) (input_body sense (\<lambda>_. True) True) (unread r1) l0"
    obtain l r2 where d: "drain sense (\<lambda>_. True) True r1 l0 = Some (l, r2)" "ring_ok r2" "unread r2 = snd c" "l = fst c"
      using drain_consumes [OF f(2), of sense "\<lambda>_. True" True l0] unfolding c_def by blast
    obtain ds where ds: "unread r1 = ds @ unread r2"
      "reported l = reports sense (mPendingEvent s) ds" "pending l = held sense (mPendingEvent s) ds"
      "int (length (reports sense (mPendingEvent s) ds)) \<le> cnt" "numEventReceived l = int (length (reports sense (mPendingEvent s) ds))"
      using consume_reports [of l0 "unread r1" sense "\<lambda>_. True"] assms(4) unfolding d(3,4) c_def by (auto simp: l0_def Let_def)
    have "input_readEvents sense env cnt fd s = Some (numEventReceived l, reported l, s\<lparr>mInputReader := r2, mPendingEvent := pending l\<rparr>, fd1)"
      using f(1) False assms d(1) by (simp add: input_readEvents_def Let_def l0_def)
    moreover have "reported l @ reports sense (pending l) (unread r2 @ device_events fd1)
        = reports sense (mPendingEvent s) (unread (mInputReader s) @ device_events fd)"
      unfolding ev [symmetric] ds(1,2,3) reports_append held_append append_assoc ..
    ultimately show ?thesis using f(3,4) d(2) ds(2,4,5) assms by simp
  qed
qed

text \<open>Calls in a row: what each returns and writes, and what is left.\<close>

fun read_all ::
    "(int \<Rightarrow> read_result list \<Rightarrow> input_sensor \<Rightarrow> (int \<times> sensors_event list \<times> input_sensor \<times> read_result list) option) \<Rightarrow> int list \<Rightarrow>
     read_result list \<Rightarrow> input_sensor \<Rightarrow> ((int \<times> sensors_event list) list \<times> input_sensor \<times> read_result list) option" where
  "read_all readEvents [] fd s = Some ([], s, fd)"
| "read_all readEvents (cnt # cnts) fd s =
     do {(ret, outs, s, fd) \<leftarrow> readEvents cnt fd s; (calls, s, fd) \<leftarrow> read_all readEvents cnts fd s; Some ((ret, outs) # calls, s, fd)}"

text \<open>C19: an enabled light or proximity sensor loses, repeats and reorders no report. Whatever room the framework offers in call
  after call, and however the kernel cuts its events into reads, with errors in between, the reports written, followed by those
  that the buffer and the device still hold, are the reports of all events; no call writes more than it has room for, each
  returns how many it has written, and none blocks while the device has something to read.\<close>
theorem reports_lossless:
  assumes "ring_ok (mInputReader s)" "mEnabled s = 1" "\<not> mHasPendingEvent s"
    and "list_all whole fd" "length cnts \<le> length fd" "\<forall>cnt \<in> set cnts. 1 \<le> cnt"
  shows "\<exists>calls s' fd'. read_all (input_readEvents sense env) cnts fd s = Some (calls, s', fd')
    \<and> concat (map snd calls) @ reports sense (mPendingEvent s') (unread (mInputReader s') @ device_events fd')
      = reports sense (mPendingEvent s) (unread (mInputReader s) @ device_events fd)
    \<and> list_all2 (\<lambda>(ret, outs) cnt. int (length outs) \<le> cnt \<and> (outs \<noteq> [] \<longrightarrow> ret = int (length outs))) calls cnts"
  using assms
proof (induction cnts arbitrary: fd s)
  case Nil
  then show ?case by simp
next
  case (Cons cnt cnts)
  have ne: "fd \<noteq> []" using Cons.prems(5) by auto
  have "1 \<le> cnt" using Cons.prems(6) by simp
  from input_readEvents_step [OF Cons.prems(1,4) ne this Cons.prems(2,3), of sense env]
  obtain ret outs s1 fd1 where step: "input_readEvents sense env cnt fd s = Some (ret, outs, s1, fd1)"
    "ring_ok (mInputReader s1)" "list_all whole fd1" "length fd \<le> Suc (length fd1)" "mEnabled s1 = 1" "\<not> mHasPendingEvent s1"
    "int (length outs) \<le> cnt" "outs \<noteq> [] \<longrightarrow> ret = int (length outs)"
    "outs @ reports sense (mPendingEvent s1) (unread (mInputReader s1) @ device_events fd1)
      = reports sense (mPendingEvent s) (unread (mInputReader s) @ device_events fd)"
    by blast
  have "length cnts \<le> length fd1" "\<forall>cnt \<in> set cnts. 1 \<le> cnt" using Cons.prems(5,6) step(4) by auto
  from Cons.IH [OF step(2,5,6,3) this] step show ?case by auto
qed

definition sensor0 :: "sensors_event \<Rightarrow> input_sensor" where
  "sensor0 p = \<lparr>mEnabled = 1, mInputReader = newReader 4 (replicate 8 (event0 0 0 0)), mPendingEvent = p, mHasPendingEvent = False,
     mEnabledTime = 0, data_fd = 5, input_sysfs_path = ''''\<rparr>"

theorem reports_lossless_witness:
  "\<forall>env. \<exists>calls s' fd'. read_all (light_readEvents env) [1, 3]
      [ReadEvents [event0 3 0x28 500, event0 0 0 0, event0 3 0x28 2000] False, ReadEvents [event0 0 0 0] False] (sensor0 (blank_event 3 5))
      = Some (calls, s', fd')
    \<and> concat (map snd calls) @ reports light_sense (mPendingEvent s') (unread (mInputReader s') @ device_events fd')
      = [(blank_event 3 5)\<lparr>data0 := 70\<rparr>, (blank_event 3 5)\<lparr>data0 := 16000\<rparr>]"
proof
  fix env
  have r: "ring_ok (newReader 4 (replicate 8 (event0 0 0 0))) \<and> unread (newReader 4 (replicate 8 (event0 0 0 0))) = []"
    by (rule ring_new) simp_all
  have v: "reports light_sense (blank_event 3 5) [event0 3 0x28 500, event0 0 0 0, event0 3 0x28 2000, event0 0 0 0]
      = [(blank_event 3 5)\<lparr>data0 := 70\<rparr>, (blank_event 3 5)\<lparr>data0 := 16000\<rparr>]"
    by (simp add: light_sense_def event0_def EV_SYN_def EV_ABS_def EVENT_TYPE_LIGHT_def light_indexToValue_def adcToLux_def
        timevalToNano_def blank_event_def)
  show "\<exists>calls s' fd'. read_all (light_readEvents env) [1, 3]
      [ReadEvents [event0 3 0x28 500, event0 0 0 0, event0 3 0x28 2000] False, ReadEvents [event0 0 0 0] False] (sensor0 (blank_event 3 5))
      = Some (calls, s', fd')
    \<and> concat (map snd calls) @ reports light_sense (mPendingEvent s') (unread (mInputReader s') @ device_events fd')
      = [(blank_event 3 5)\<lparr>data0 := 70\<rparr>, (blank_event 3 5)\<lparr>data0 := 16000\<rparr>]"
    using reports_lossless [of "sensor0 (blank_event 3 5)"
        "[ReadEvents [event0 3 0x28 500, event0 0 0 0, event0 3 0x28 2000] False, ReadEvents [event0 0 0 0] False]" "[1, 3]" light_sense env] r v
    unfolding light_readEvents_def by (auto simp: sensor0_def)
qed

section \<open>The gyroscope\<close>

text \<open>The gyroscope drops the reports from before \<open>mEnabledTime\<close>, and no others.\<close>

lemma fill_keeps:
  assumes "fill fd r = Some (n, r', fd')" "ring_ok r" "list_all whole fd"
  shows "ring_ok r'" "list_all whole fd'" "unread r' @ device_events fd' = unread r @ device_events fd"
proof -
  have "ring_ok r' \<and> list_all whole fd' \<and> unread r' @ device_events fd' = unread r @ device_events fd"
  proof (cases "fd = []")
    case True
    with assms show ?thesis by (cases "mFreeSpace r = 0") (auto simp: fill_def)
  next
    case False
    from fill_moves [OF assms(2,3) False] assms(1) show ?thesis by auto
  qed
  then show "ring_ok r'" "list_all whole fd'" "unread r' @ device_events fd' = unread r @ device_events fd" by auto
qed

lemma drain_reports:
  assumes "ring_ok r" "0 \<le> count l"
  shows "\<exists>l' r'. drain sense keep True r l = Some (l', r') \<and> ring_ok r' \<and> 0 \<le> count l'
    \<and> (\<forall>es. reported l' @ filter keep (reports sense (pending l') (unread r' @ es))
        = reported l @ filter keep (reports sense (pending l) (unread r @ es)))"
proof -
  define c where "c = consume (\<lambda>s. count s \<noteq> 0) (input_body sense keep True) (unread r) l"
  obtain l' r' where d: "drain sense keep True r l = Some (l', r')" "ring_ok r'" "unread r' = snd c" "l' = fst c"
    using drain_consumes [OF assms(1), of sense keep True l] unfolding c_def by blast
  obtain ds where ds: "unread r = ds @ unread r'" "reported l' = reported l @ filter keep (reports sense (pending l) ds)"
    "pending l' = held sense (pending l) ds" "0 \<le> count l'"
    using consume_reports [OF assms(2), of "unread r" sense keep] unfolding d(3,4) c_def by (auto simp: Let_def)
  have "reported l' @ filter keep (reports sense (pending l') (unread r' @ es))
      = reported l @ filter keep (reports sense (pending l) (unread r @ es))" for es
    unfolding ds(1,2,3) by (simp only: reports_append filter_append append_assoc)
  with d ds(4) show ?thesis by blast
qed

lemma gyro_again_lossless:
  assumes "gyro_again enabled t fd r l = Some (l', r', fd')" "ring_ok r" "0 \<le> count l" "list_all whole fd" "enabled = 1"
  shows "reported l' @ filter (\<lambda>p. t \<le> timestamp p) (reports gyro_sense (pending l') (unread r' @ device_events fd'))
    = reported l @ filter (\<lambda>p. t \<le> timestamp p) (reports gyro_sense (pending l) (unread r @ device_events fd))"
  using assms
proof (induction enabled t fd r l arbitrary: l' r' fd' rule: gyro_again.induct)
  case (1 enabled t fd r l)
  obtain l1 r1 where d: "drain gyro_sense (\<lambda>p. t \<le> timestamp p) (enabled \<noteq> 0) r l = Some (l1, r1)" "ring_ok r1" "0 \<le> count l1"
    "\<And>es. reported l1 @ filter (\<lambda>p. t \<le> timestamp p) (reports gyro_sense (pending l1) (unread r1 @ es))
      = reported l @ filter (\<lambda>p. t \<le> timestamp p) (reports gyro_sense (pending l) (unread r @ es))"
    using drain_reports [OF "1.prems"(2,3), of gyro_sense "\<lambda>p. t \<le> timestamp p"] "1.prems"(5) by auto
  show ?case
  proof (cases "numEventReceived l1 = 0")
    case False
    then have "l' = l1 \<and> r' = r1 \<and> fd' = fd"
      using "1.prems"(1) d(1) by (simp add: gyro_again.simps [of enabled t fd r l])
    with d(4) show ?thesis by simp
  next
    case True
    show ?thesis
    proof (cases "fill fd r1")
      case None
      then show ?thesis using "1.prems"(1,5) d(1) True by (simp add: gyro_again.simps [of 1 t fd r l])
    next
      case (Some x)
      obtain n r2 fd2 where x: "x = (n, r2, fd2)" by (cases x)
      have f: "fill fd r1 = Some (n, r2, fd2)" using Some x by simp
      note k = fill_keeps [OF f d(2) "1.prems"(4)]
      show ?thesis
      proof (cases "n = 0")
        case zero: True
        then have "l' = l1 \<and> r' = r2 \<and> fd' = fd2"
          using "1.prems"(1,5) d(1) True f by (simp add: gyro_again.simps [of 1 t fd r l])
        with d(4) k(3) show ?thesis by simp
      next
        case n: False
        have g: "gyro_again enabled t fd2 r2 l1 = Some (l', r', fd')"
          using "1.prems"(1,5) d(1) True f n by (simp add: gyro_again.simps [of 1 t fd r l])
        have c: "numEventReceived l1 = 0 \<and> enabled = 1" using True "1.prems"(5) by simp
        from "1.IH" [OF d(1) refl c f refl refl n g k(1) d(3) k(2) "1.prems"(5)]
        show ?thesis unfolding k(3) by (simp only: d(4))
      qed
    qed
  qed
qed

text \<open>A read error in that loop is taken for events: the loop goes on for as long as the error lasts.\<close>

lemma gyro_spins:
  assumes "ring_ok r" "unread r = []" "0 < count l" "numEventReceived l = 0" "e \<noteq> 0"
  shows "gyro_again 1 t (replicate k (ReadError e)) r l = None"
proof (induction k)
  case 0
  have d: "drain gyro_sense (\<lambda>p. t \<le> timestamp p) True r l = Some (l, r)"
    using readEvent_unread [OF assms(1)] assms(2,3) by (simp add: drain_def)
  have "mFreeSpace r \<noteq> 0" using length_unread [OF assms(1)] assms(1,2) by (simp add: ring_ok_def)
  then show ?case using d assms(4) fill_blocks by (simp add: gyro_again.simps [of 1 t "[]"])
next
  case (Suc k)
  have d: "drain gyro_sense (\<lambda>p. t \<le> timestamp p) True r l = Some (l, r)"
    using readEvent_unread [OF assms(1)] assms(2,3) by (simp add: drain_def)
  have "mFreeSpace r \<noteq> 0" using length_unread [OF assms(1)] assms(1,2) by (simp add: ring_ok_def)
  then show ?case
    using Suc d assms(4,5) fill_error by (simp add: gyro_again.simps [of 1 t "ReadError e # replicate k (ReadError e)"])
qed

text \<open>The first report of an enabled gyroscope has the rate around one axis for all three.\<close>

lemma gyro_initial_axes:
  assumes "abs_value env (data_fd s) EVENT_TYPE_GYRO_X = Some v"
  shows "mHasPendingEvent (gyro_setInitialState env s)"
    "data1 (mPendingEvent (gyro_setInitialState env s)) = - data0 (mPendingEvent (gyro_setInitialState env s))"
    "data2 (mPendingEvent (gyro_setInitialState env s)) = data1 (mPendingEvent (gyro_setInitialState env s))"
  using assms by (simp_all add: gyro_setInitialState_def Let_def)

section \<open>Values and enabling\<close>

text \<open>The lux value is one of the table's and grows with the reading; what a boundary reads as is not what the comments of the
  table say.\<close>

lemma lux_values: "light_indexToValue index \<in> {7, 70, 1000, 10000, 16000}"
  by (simp add: light_indexToValue_def adcToLux_def)

lemma lux_mono: "i \<le> j \<Longrightarrow> light_indexToValue i \<le> light_indexToValue j"
  by (auto simp: light_indexToValue_def adcToLux_def)

lemma lux_boundary: "light_indexToValue 359 = 7" "light_indexToValue 360 = 70" "light_indexToValue 798 = 1000"
  by (simp_all add: light_indexToValue_def adcToLux_def)

text \<open>Enabling: what is written, and that asking for the present state does nothing.\<close>

lemma input_enable_same: "mEnabled s = (if en \<noteq> 0 then 1 else 0) \<Longrightarrow> input_enable before after env en (s, fs) = (0, s, fs)"
  by (simp add: input_enable_def)

lemma light_enable_writes:
  assumes "mEnabled s \<noteq> (if en \<noteq> 0 then 1 else 0)" "0 \<le> os_open (sys env) fs (input_sysfs_path s @ ''enable'')"
    "\<And>fs path txt. os_write (sys env) fs path txt"
  shows "light_enable env en (s, fs) = (0, s\<lparr>mEnabled := (if en \<noteq> 0 then 1 else 0)\<rparr>,
    put_file (input_sysfs_path s @ ''enable'') ((if en \<noteq> 0 then ''1'' else ''0'') @ [NUL]) fs)"
  using assms by (simp add: light_enable_def input_enable_def write_attr_def Let_def)

lemma light_enable_not_pending: "\<not> mHasPendingEvent s \<Longrightarrow> \<not> mHasPendingEvent (fst (snd (light_enable env en (s, fs))))"
  by (simp add: light_enable_def input_enable_def Let_def)

text \<open>The event held is written to the caller's array even if the sensor is disabled, and then not counted.\<close>

lemma disabled_writes:
  assumes "1 \<le> cnt" "mHasPendingEvent s" "mEnabled s = 0"
  shows "\<exists>p s'. input_readEvents sense env cnt fd s = Some (0, [p], s', fd)"
  using assms by (simp add: input_readEvents_def)

text \<open>A device that is not found is enabled all the same, at a path made of what is in \<open>input_name\<close>.\<close>

lemma missing_device:
  "input_sysfs_path (new_input_sensor n junk ev (openInput None name old_name) old_path) = ''/sys/class/input/'' @ old_name @ ''/device/''"
  by (simp add: new_input_sensor_def openInput_def)

lemma find_input_first:
  assumes "\<forall>(d_name, opened) \<in> set dir1. d_name = ''.'' \<or> d_name = ''..'' \<or> opened = None
      \<or> (\<exists>fd n. opened = Some (fd, Some n) \<and> n \<noteq> inputName)"
    and "d \<noteq> ''.''" "d \<noteq> ''..''" "0 \<le> fd"
  shows "openInput (Some (dir1 @ (d, Some (fd, Some inputName)) # dir2)) inputName old_name = (fd, d)"
  using assms(1)
proof (induction dir1)
  case Nil
  then show ?case using assms(2-4) by (simp add: openInput_def)
next
  case (Cons x dir1)
  then show ?case by (cases x) (auto simp: openInput_def)
qed

end
