(* ===== verification/Akm_Sensor.thy ===== *)
theory Akm_Sensor
  imports Input_Sensors
begin

text \<open>
  The accelerometer, the magnetic field sensor, the orientation sensor and the sensor for significant motion, which share a
  device and the library \<open>libakm.so\<close> (\<open>libsensors/AkmSensor.cpp\<close>).

  \<^item> The library is a parameter, the record \<open>akm_library\<close>: its answers may depend on every call before. The log of the calls that
    switch sensors, with what they returned, is part of the state.
  \<^item> \<open>float\<close> is exact. During one call the clock stands still.
  \<^item> A store outside \<open>mDelays\<close> is the fault \<open>None\<close>.
\<close>

unbundle bit_operations_syntax

section \<open>The library\<close>

definition ENODEV :: int where "ENODEV = 19"
definition ENOENT :: int where "ENOENT = 2"
definition SENSOR_TYPE_ACCELEROMETER :: int where "SENSOR_TYPE_ACCELEROMETER = 1"
definition SENSOR_TYPE_MAGNETIC_FIELD :: int where "SENSOR_TYPE_MAGNETIC_FIELD = 2"
definition SENSOR_TYPE_ORIENTATION :: int where "SENSOR_TYPE_ORIENTATION = 3"
definition SENSOR_TYPE_TEMPERATURE :: int where "SENSOR_TYPE_TEMPERATURE = 7"
definition SENSOR_TYPE_SIGNIFICANT_MOTION :: int where "SENSOR_TYPE_SIGNIFICANT_MOTION = 17"

datatype akm_call = Switch (switched_on: bool) (call_type: int) (call_error: int)

record akm_library =
  akm_is_sensor_enabled :: "int \<Rightarrow> int"
  akm_enable_sensor :: "akm_call list \<Rightarrow> int \<Rightarrow> int"
  akm_disable_sensor :: "akm_call list \<Rightarrow> int \<Rightarrow> int"

definition stub_is_sensor_enabled :: "int \<Rightarrow> int" where "stub_is_sensor_enabled sensor_type = 0"
definition stub_enable_disable_sensor :: "int \<Rightarrow> int" where "stub_enable_disable_sensor sensor_type = - ENODEV"

definition loadAKMLibrary :: "akm_library option \<Rightarrow> int \<times> akm_library" where
  "loadAKMLibrary mLibAKM =
     (case mLibAKM of
        None \<Rightarrow> (- ENOENT, \<lparr>akm_is_sensor_enabled = stub_is_sensor_enabled, akm_enable_sensor = \<lambda>_. stub_enable_disable_sensor,
                            akm_disable_sensor = \<lambda>_. stub_enable_disable_sensor\<rparr>)
      | Some lib \<Rightarrow> (0, lib))"

section \<open>The sensor\<close>

definition Accelerometer :: nat where "Accelerometer = 0"
definition MagneticField :: nat where "MagneticField = 1"
definition Orientation :: nat where "Orientation = 2"
definition SignificantMotion :: nat where "SignificantMotion = 3"
definition numSensors :: nat where "numSensors = 4"

definition ID_A :: int where "ID_A = 0"
definition ID_M :: int where "ID_M = 1"
definition ID_O :: int where "ID_O = 2"
definition ID_SM :: int where "ID_SM = 6"

record akm_sensor =
  mAccRefCount :: int
  mMotionValue :: int
  akm_mEnabled :: "32 word"
  mPendingMask :: "32 word"
  akm_mInputReader :: circular_reader
  mPendingEvents :: "sensors_event list"
  mDelays :: "64 word list"
  akm_dev_fd :: int
  akm_data_fd :: int

definition EVENT_TYPE_ACCEL_X :: "16 word" where "EVENT_TYPE_ACCEL_X = 1"
definition EVENT_TYPE_ACCEL_Y :: "16 word" where "EVENT_TYPE_ACCEL_Y = 0"
definition EVENT_TYPE_ACCEL_Z :: "16 word" where "EVENT_TYPE_ACCEL_Z = 2"
definition EVENT_TYPE_YAW :: "16 word" where "EVENT_TYPE_YAW = 3"
definition EVENT_TYPE_PITCH :: "16 word" where "EVENT_TYPE_PITCH = 4"
definition EVENT_TYPE_ROLL :: "16 word" where "EVENT_TYPE_ROLL = 5"
definition EVENT_TYPE_MAGV_X :: "16 word" where "EVENT_TYPE_MAGV_X = 6"
definition EVENT_TYPE_MAGV_Y :: "16 word" where "EVENT_TYPE_MAGV_Y = 7"
definition EVENT_TYPE_ORIENT_STATUS :: "16 word" where "EVENT_TYPE_ORIENT_STATUS = 8"
definition EVENT_TYPE_MAGV_Z :: "16 word" where "EVENT_TYPE_MAGV_Z = 9"

definition CONVERT_A :: rat where "CONVERT_A = 980665 / 100000 / 90 / 8"
definition CONVERT_M :: rat where "CONVERT_M = 3 / 50"
definition CONVERT_O :: rat where "CONVERT_O = 1 / 64"
definition SENSOR_STATE_MASK :: "32 word" where "SENSOR_STATE_MASK = 0x7FFF"

text \<open>The conversion of a \<open>float\<close> to \<open>int\<close>.\<close>

definition to_int :: "rat \<Rightarrow> int" where
  "to_int x = (if 0 \<le> x then floor x else ceiling x)"

definition upd_event :: "nat \<Rightarrow> (sensors_event \<Rightarrow> sensors_event) \<Rightarrow> akm_sensor \<Rightarrow> akm_sensor" where
  "upd_event j f s = s\<lparr>mPendingEvents := (mPendingEvents s)[j := f (mPendingEvents s ! j)]\<rparr>"

definition mark :: "nat \<Rightarrow> akm_sensor \<Rightarrow> akm_sensor" where
  "mark j s = s\<lparr>mPendingMask := mPendingMask s OR push_bit j 1\<rparr>"

section \<open>The constructor\<close>

definition initial_value :: "sensor_env \<Rightarrow> 16 word \<Rightarrow> nat \<Rightarrow> (int \<Rightarrow> sensors_event \<Rightarrow> sensors_event) \<Rightarrow> akm_sensor \<Rightarrow> akm_sensor" where
  "initial_value env code j f s =
     (case abs_value env (akm_data_fd s) code of None \<Rightarrow> s | Some v \<Rightarrow> upd_event j (f v) s)"

definition already_enabled :: "nat \<Rightarrow> akm_sensor \<Rightarrow> akm_sensor" where
  "already_enabled j s = s\<lparr>akm_mEnabled := akm_mEnabled s OR push_bit j 1\<rparr>"

definition initial_accelerometer :: "sensor_env \<Rightarrow> akm_sensor \<Rightarrow> akm_sensor" where
  "initial_accelerometer env s =
     (let s = already_enabled Accelerometer s;
          s = initial_value env EVENT_TYPE_ACCEL_X Accelerometer (\<lambda>v p. p\<lparr>data0 := of_int v * CONVERT_A\<rparr>) s;
          s = initial_value env EVENT_TYPE_ACCEL_Y Accelerometer (\<lambda>v p. p\<lparr>data1 := of_int v * - CONVERT_A\<rparr>) s
      in initial_value env EVENT_TYPE_ACCEL_Z Accelerometer (\<lambda>v p. p\<lparr>data2 := of_int v * - CONVERT_A\<rparr>) s)"

definition initial_magnetic :: "sensor_env \<Rightarrow> akm_sensor \<Rightarrow> akm_sensor" where
  "initial_magnetic env s =
     (let s = already_enabled MagneticField s;
          s = initial_value env EVENT_TYPE_MAGV_X MagneticField (\<lambda>v p. p\<lparr>data0 := of_int v * CONVERT_M\<rparr>) s;
          s = initial_value env EVENT_TYPE_MAGV_Y MagneticField (\<lambda>v p. p\<lparr>data1 := of_int v * - CONVERT_M\<rparr>) s
      in initial_value env EVENT_TYPE_MAGV_Z MagneticField (\<lambda>v p. p\<lparr>data2 := of_int v * - CONVERT_M\<rparr>) s)"

definition initial_orientation :: "sensor_env \<Rightarrow> akm_sensor \<Rightarrow> akm_sensor" where
  "initial_orientation env s =
     (let s = already_enabled Orientation s;
          s = initial_value env EVENT_TYPE_YAW Orientation (\<lambda>v p. p\<lparr>data0 := of_int v\<rparr>) s;
          s = initial_value env EVENT_TYPE_PITCH Orientation (\<lambda>v p. p\<lparr>data1 := of_int v\<rparr>) s;
          s = initial_value env EVENT_TYPE_ROLL Orientation (\<lambda>v p. p\<lparr>data2 := - of_int v\<rparr>) s
      in initial_value env EVENT_TYPE_ORIENT_STATUS Orientation
           (\<lambda>v p. p\<lparr>accuracy_status := ucast (word_of_int v AND SENSOR_STATE_MASK)\<rparr>) s)"

definition pending_event :: "int \<Rightarrow> int \<Rightarrow> 8 word \<Rightarrow> sensors_event" where
  "pending_event handle ty status = (blank_event handle ty)\<lparr>accuracy_status := status\<rparr>"

definition newAkmSensor ::
    "sensor_env \<Rightarrow> akm_library option \<Rightarrow> (string \<times> (int \<times> string option) option) list option \<Rightarrow> input_event list \<Rightarrow> 64 word list \<Rightarrow>
     akm_sensor \<times> akm_call list" where
  "newAkmSensor env mLibAKM dir junk delays =
     (let (err, lib) = loadAKMLibrary mLibAKM;
          s = \<lparr>mAccRefCount = 0, mMotionValue = 0, akm_mEnabled = 0, mPendingMask = 0, akm_mInputReader = newReader 32 junk,
               mPendingEvents =
                 [pending_event ID_A SENSOR_TYPE_ACCELEROMETER 3, pending_event ID_M SENSOR_TYPE_MAGNETIC_FIELD 3,
                  pending_event ID_O SENSOR_TYPE_ORIENTATION 3, pending_event ID_SM SENSOR_TYPE_SIGNIFICANT_MOTION 0],
               mDelays = delays, akm_dev_fd = - 1,
               akm_data_fd = (if err = 0 then fst (openInput dir ''compass_sensor'' '''') else - 1)\<rparr>;
          s = (if akm_is_sensor_enabled lib SENSOR_TYPE_ACCELEROMETER \<noteq> 0 then initial_accelerometer env s else s);
          s = (if akm_is_sensor_enabled lib SENSOR_TYPE_MAGNETIC_FIELD \<noteq> 0 then initial_magnetic env s else s);
          s = (if akm_is_sensor_enabled lib SENSOR_TYPE_ORIENTATION \<noteq> 0 then initial_orientation env s else s)
      in (s, [Switch False SENSOR_TYPE_TEMPERATURE (akm_disable_sensor lib [] SENSOR_TYPE_TEMPERATURE)]))"

section \<open>Enabling and the delay\<close>

definition akm_what :: "int \<Rightarrow> nat option" where
  "akm_what handle =
     (if handle = ID_A then Some Accelerometer else if handle = ID_M then Some MagneticField
      else if handle = ID_O then Some Orientation else if handle = ID_SM then Some SignificantMotion else None)"

definition akm_sensor_type :: "nat \<Rightarrow> int" where
  "akm_sensor_type what =
     (if what = SignificantMotion \<or> what = Accelerometer then SENSOR_TYPE_ACCELEROMETER
      else if what = MagneticField then SENSOR_TYPE_MAGNETIC_FIELD else SENSOR_TYPE_ORIENTATION)"

definition akm_enable :: "akm_library \<Rightarrow> int \<Rightarrow> int \<Rightarrow> akm_sensor \<times> akm_call list \<Rightarrow> int \<times> akm_sensor \<times> akm_call list" where
  "akm_enable lib handle en st =
     (case st of (s, calls) \<Rightarrow>
      case akm_what handle of
        None \<Rightarrow> (- EINVAL, s, calls)
      | Some what \<Rightarrow>
          let newState = (if en \<noteq> 0 then 1 else 0) in
          if push_bit what newState \<noteq> akm_mEnabled s AND push_bit what 1 then
            let sensor_type = akm_sensor_type what;
                (err, calls) =
                  (if en \<noteq> 0 then
                     if sensor_type = SENSOR_TYPE_ACCELEROMETER \<and> 0 < mAccRefCount s then (0, calls)
                     else let err = akm_enable_sensor lib calls sensor_type in (err, calls @ [Switch True sensor_type err])
                   else
                     if sensor_type = SENSOR_TYPE_ACCELEROMETER \<and> 1 < mAccRefCount s then (0, calls)
                     else let err = akm_disable_sensor lib calls sensor_type in (err, calls @ [Switch False sensor_type err]))
            in if err = 0 then
                 let s = (if sensor_type = SENSOR_TYPE_ACCELEROMETER
                          then s\<lparr>mAccRefCount := (if en \<noteq> 0 then mAccRefCount s + 1 else mAccRefCount s - 1)\<rparr> else s)
                 in (0, s\<lparr>akm_mEnabled := (akm_mEnabled s AND NOT (push_bit what 1)) OR push_bit what newState\<rparr>, calls)
               else (err, s, calls)
          else (0, s, calls))"

text \<open>\<open>app_set_delay\<close> is the answer of the device's \<open>ioctl\<close>: \<open>0\<close> or the error.\<close>

definition akm_update_delay :: "(int \<Rightarrow> 16 word \<Rightarrow> int) \<Rightarrow> akm_sensor \<Rightarrow> int" where
  "akm_update_delay app_set_delay s =
     (if akm_mEnabled s \<noteq> 0 then
        let wanted = fold (\<lambda>i wanted. if akm_mEnabled s AND push_bit i 1 \<noteq> 0
                     then (let ns = mDelays s ! i in if wanted < ns then wanted else ns) else wanted) [0..<numSensors] (- 1 :: 64 word);
            delay = word_of_int (c_div (sint wanted) 1000000)
        in - app_set_delay (akm_dev_fd s) delay
      else 0)"

definition akm_setDelay :: "(int \<Rightarrow> 16 word \<Rightarrow> int) \<Rightarrow> int \<Rightarrow> int \<Rightarrow> akm_sensor \<Rightarrow> (int \<times> akm_sensor) option" where
  "akm_setDelay app_set_delay handle ns s =
     (let what = - 1 :: int in
      if ns < 0 then Some (- EINVAL, s)
      else if handle = ID_SM then Some (0, s)
      else
        let sensor_type = (if handle = ID_A then SENSOR_TYPE_ACCELEROMETER else if handle = ID_M then SENSOR_TYPE_MAGNETIC_FIELD
                           else if handle = ID_O then SENSOR_TYPE_ORIENTATION else 0) in
        if sensor_type = 0 then Some (- EINVAL, s)
        else if 0 \<le> what \<and> what < int (length (mDelays s)) then
          let s = s\<lparr>mDelays := (mDelays s)[nat what := word_of_int ns]\<rparr> in Some (akm_update_delay app_set_delay s, s)
        else None)"

section \<open>Reading events\<close>

definition detect_motion :: "rat \<Rightarrow> akm_sensor \<Rightarrow> akm_sensor" where
  "detect_motion z s =
     (let motionValueDiff = to_int (of_int (mMotionValue s) - z);
          s = s\<lparr>mMotionValue := to_int z\<rparr>
      in if akm_mEnabled s AND push_bit SignificantMotion 1 \<noteq> 0 \<and> (1 < motionValueDiff \<or> motionValueDiff < - 1)
         then upd_event SignificantMotion (\<lambda>p. p\<lparr>data0 := 1\<rparr>) (mark SignificantMotion s) else s)"

definition akm_processEvent :: "16 word \<Rightarrow> 32 word \<Rightarrow> akm_sensor \<Rightarrow> akm_sensor" where
  "akm_processEvent code value s =
     (let v = of_int (sint value) in
      if code = EVENT_TYPE_ACCEL_X then upd_event Accelerometer (\<lambda>p. p\<lparr>data0 := v * CONVERT_A\<rparr>) (mark Accelerometer s)
      else if code = EVENT_TYPE_ACCEL_Y then upd_event Accelerometer (\<lambda>p. p\<lparr>data1 := v * - CONVERT_A\<rparr>) (mark Accelerometer s)
      else if code = EVENT_TYPE_ACCEL_Z then
        let s = upd_event Accelerometer (\<lambda>p. p\<lparr>data2 := v * - CONVERT_A\<rparr>) (mark Accelerometer s) in
        detect_motion (data2 (mPendingEvents s ! Accelerometer)) s
      else if code = EVENT_TYPE_MAGV_X then upd_event MagneticField (\<lambda>p. p\<lparr>data0 := v * CONVERT_M\<rparr>) (mark MagneticField s)
      else if code = EVENT_TYPE_MAGV_Y then upd_event MagneticField (\<lambda>p. p\<lparr>data1 := v * - CONVERT_M\<rparr>) (mark MagneticField s)
      else if code = EVENT_TYPE_MAGV_Z then upd_event MagneticField (\<lambda>p. p\<lparr>data2 := v * - CONVERT_M\<rparr>) (mark MagneticField s)
      else if code = EVENT_TYPE_YAW then upd_event Orientation (\<lambda>p. p\<lparr>data0 := v * CONVERT_O\<rparr>) (mark Orientation s)
      else if code = EVENT_TYPE_PITCH then upd_event Orientation (\<lambda>p. p\<lparr>data1 := v * CONVERT_O\<rparr>) (mark Orientation s)
      else if code = EVENT_TYPE_ROLL then upd_event Orientation (\<lambda>p. p\<lparr>data2 := v * CONVERT_O\<rparr>) (mark Orientation s)
      else if code = EVENT_TYPE_ORIENT_STATUS then
        let status = ucast (value AND SENSOR_STATE_MASK) :: 8 word; status = (if status = 4 then 0 else status) in
        upd_event Orientation (\<lambda>p. p\<lparr>accuracy_status := status\<rparr>) (mark Orientation s)
      else s)"

record akm_run =
  akm :: akm_sensor
  akm_calls :: "akm_call list"
  akm_data :: "sensors_event list"
  akm_count :: int
  akm_received :: int

definition report_sensor :: "akm_library \<Rightarrow> int \<Rightarrow> nat \<Rightarrow> akm_run \<Rightarrow> akm_run" where
  "report_sensor lib time j x =
     (if mPendingMask (akm x) AND push_bit j 1 \<noteq> 0 then
        let s = (akm x)\<lparr>mPendingMask := mPendingMask (akm x) AND NOT (push_bit j 1)\<rparr>;
            s = upd_event j (\<lambda>p. p\<lparr>timestamp := time\<rparr>) s; x = x\<lparr>akm := s\<rparr>
        in if akm_mEnabled s AND push_bit j 1 \<noteq> 0 then
             let x = x\<lparr>akm_data := akm_data x @ [mPendingEvents s ! j], akm_count := akm_count x - 1, akm_received := akm_received x + 1\<rparr>
             in if akm_mEnabled s AND push_bit SignificantMotion 1 \<noteq> 0 \<and> j = SignificantMotion then
                  (case akm_enable lib ID_SM 0 (s, akm_calls x) of (err, s, calls) \<Rightarrow> x\<lparr>akm := s, akm_calls := calls\<rparr>)
                else x
           else x
      else x)"

fun report_pending :: "akm_library \<Rightarrow> int \<Rightarrow> nat list \<Rightarrow> akm_run \<Rightarrow> akm_run" where
  "report_pending lib time [] x = x"
| "report_pending lib time (j # js) x =
     (if akm_count x \<noteq> 0 \<and> mPendingMask (akm x) \<noteq> 0 then report_pending lib time js (report_sensor lib time j x) else x)"

definition akm_body :: "akm_library \<Rightarrow> int \<Rightarrow> input_event \<Rightarrow> akm_run \<Rightarrow> akm_run \<times> bool" where
  "akm_body lib time e x =
     (if ev_type e = EV_REL then (x\<lparr>akm := akm_processEvent (ev_code e) (ev_value e) (akm x)\<rparr>, True)
      else if ev_type e = EV_SYN then
        let x = report_pending lib time [0..<numSensors] x in (x, mPendingMask (akm x) = 0)
      else (x, True))"

definition akm_readEvents ::
    "akm_library \<Rightarrow> sensor_env \<Rightarrow> int \<Rightarrow> read_result list \<Rightarrow> akm_sensor \<times> akm_call list \<Rightarrow>
     (int \<times> sensors_event list \<times> (akm_sensor \<times> akm_call list) \<times> read_result list) option" where
  "akm_readEvents lib env cnt fd st =
     (case st of (s, calls) \<Rightarrow>
        if cnt < 1 then Some (- EINVAL, [], (s, calls), fd)
        else do {
          (n, r, fd) \<leftarrow> fill fd (akm_mInputReader s);
          let s = s\<lparr>akm_mInputReader := r\<rparr>;
          if n < 0 then Some (n, [], (s, calls), fd)
          else do {
            (x, r) \<leftarrow> read_loop (mBufferEnd r + 2) readEvent next_event (\<lambda>x. akm_count x \<noteq> 0) (akm_body lib (now env)) r
              \<lparr>akm = s, akm_calls = calls, akm_data = [], akm_count = cnt, akm_received = 0\<rparr>;
            Some (akm_received x, akm_data x, ((akm x)\<lparr>akm_mInputReader := r\<rparr>, akm_calls x), fd)}})"

section \<open>The accelerometer is shared\<close>

lemma masked_bit: "(w AND push_bit j (1 :: 32 word) \<noteq> 0) = bit w j"
  by (simp add: push_bit_of_1 and_exp_eq_0_iff_not_bit)

lemma masked_state:
  assumes "what < 32"
  shows "(push_bit what (if b then 1 else 0) \<noteq> (w :: 32 word) AND push_bit what 1) = (b \<noteq> bit w what)"
proof -
  have "(w AND push_bit what 1 = 0) = (\<not> bit w what)" using masked_bit [of w what] by blast
  moreover have "w AND push_bit what 1 = push_bit what 1" if "bit w what"
    using that by (intro bit_word_eqI) (auto simp: push_bit_of_1 bit_simps)
  moreover have "bit (push_bit what 1 :: 32 word) what"
    using assms by (simp add: push_bit_of_1 bit_simps)
  with assms have "push_bit what 1 \<noteq> (0 :: 32 word)" by auto
  ultimately show ?thesis by (cases "bit w what"; cases b) auto
qed

lemma bit_switched:
  assumes "what < 32"
  shows "bit (((w :: 32 word) AND NOT (push_bit what 1)) OR push_bit what (if b then 1 else 0)) j = (if j = what then b else bit w j)"
proof (cases "j < 32")
  case True
  then show ?thesis using assms by (auto simp: push_bit_of_1 bit_simps)
next
  case False
  then show ?thesis using assms by (auto dest: bit_imp_le_length simp: push_bit_of_1 bit_simps)
qed

text \<open>What the calls do to the accelerometer, \<open>None\<close> if one asks for the state that it is in.\<close>

fun accel_run :: "bool \<Rightarrow> akm_call list \<Rightarrow> bool option" where
  "accel_run on [] = Some on"
| "accel_run on (Switch b ty err # calls) =
     (if ty = SENSOR_TYPE_ACCELEROMETER then (if b = on then None else accel_run (if err = 0 then b else on) calls)
      else accel_run on calls)"

lemma accel_run_append: "accel_run on (xs @ ys) = do {on \<leftarrow> accel_run on xs; accel_run on ys}"
proof (induction xs arbitrary: on)
  case (Cons x xs)
  then show ?case by (cases x) auto
qed simp

definition akm_ok :: "akm_sensor \<times> akm_call list \<Rightarrow> bool" where
  "akm_ok st \<longleftrightarrow> (case st of (s, calls) \<Rightarrow>
     mAccRefCount s = of_bool (bit (akm_mEnabled s) Accelerometer) + of_bool (bit (akm_mEnabled s) SignificantMotion)
     \<and> accel_run False calls = Some (bit (akm_mEnabled s) Accelerometer \<or> bit (akm_mEnabled s) SignificantMotion))"

lemmas akm_consts = Accelerometer_def MagneticField_def Orientation_def SignificantMotion_def numSensors_def
  SENSOR_TYPE_ACCELEROMETER_def SENSOR_TYPE_MAGNETIC_FIELD_def SENSOR_TYPE_ORIENTATION_def ID_A_def ID_M_def ID_O_def ID_SM_def

text \<open>\<open>enable\<close> case by case: nothing to do, nothing to ask the library for, or the library decides.\<close>

lemma akm_what_less: "akm_what handle = Some what \<Longrightarrow> what < numSensors"
  by (auto simp: akm_what_def akm_consts split: if_splits)

lemma akm_enable_cases:
  assumes "akm_what handle = Some what"
  obtains (same) "bit (akm_mEnabled s) what = (en \<noteq> 0)" "akm_enable lib handle en (s, calls) = (0, s, calls)"
    | (switched) err calls' s' where "bit (akm_mEnabled s) what \<noteq> (en \<noteq> 0)"
        "(err, calls') = (if akm_sensor_type what = SENSOR_TYPE_ACCELEROMETER \<and> (if en \<noteq> 0 then 0 else 1) < mAccRefCount s then (0, calls)
          else (let err = (if en \<noteq> 0 then akm_enable_sensor lib else akm_disable_sensor lib) calls (akm_sensor_type what)
                in (err, calls @ [Switch (en \<noteq> 0) (akm_sensor_type what) err])))"
        "akm_enable lib handle en (s, calls) = (err, s', calls')"
        "err \<noteq> 0 \<longrightarrow> s' = s"
        "err = 0 \<longrightarrow> mAccRefCount s' = (if akm_sensor_type what = SENSOR_TYPE_ACCELEROMETER
            then mAccRefCount s + (if en \<noteq> 0 then 1 else - 1) else mAccRefCount s)
          \<and> (\<forall>j. bit (akm_mEnabled s') j = (if j = what then en \<noteq> 0 else bit (akm_mEnabled s) j))"
        "mPendingEvents s' = mPendingEvents s" "mPendingMask s' = mPendingMask s"
proof (cases "bit (akm_mEnabled s) what = (en \<noteq> 0)")
  case True
  have w: "what < 32" using akm_what_less [OF assms] by (simp add: numSensors_def)
  have "\<not> (push_bit what (if en \<noteq> 0 then 1 else 0) \<noteq> akm_mEnabled s AND push_bit what 1)"
    unfolding masked_state [OF w] using True by simp
  then have "akm_enable lib handle en (s, calls) = (0, s, calls)"
    unfolding akm_enable_def assms Let_def by simp
  with True same show thesis by blast
next
  case False
  have w: "what < 32" using akm_what_less [OF assms] by (simp add: numSensors_def)
  have c: "push_bit what (if en \<noteq> 0 then 1 else 0) \<noteq> akm_mEnabled s AND push_bit what 1"
    unfolding masked_state [OF w] using False by simp
  define ec where "ec = (if akm_sensor_type what = SENSOR_TYPE_ACCELEROMETER \<and> (if en \<noteq> 0 then 0 else 1) < mAccRefCount s then (0, calls)
          else (let err = (if en \<noteq> 0 then akm_enable_sensor lib else akm_disable_sensor lib) calls (akm_sensor_type what)
                in (err, calls @ [Switch (en \<noteq> 0) (akm_sensor_type what) err])))"
  obtain err calls' where ec: "ec = (err, calls')" by (cases ec)
  define s1 where "s1 = (if akm_sensor_type what = SENSOR_TYPE_ACCELEROMETER
    then s\<lparr>mAccRefCount := (if en \<noteq> 0 then mAccRefCount s + 1 else mAccRefCount s - 1)\<rparr> else s)"
  define s2 where "s2 = s1\<lparr>akm_mEnabled := (akm_mEnabled s1 AND NOT (push_bit what 1)) OR push_bit what (if en \<noteq> 0 then 1 else 0)\<rparr>"
  have e: "akm_enable lib handle en (s, calls) = (err, if err = 0 then s2 else s, calls')"
    unfolding akm_enable_def assms Let_def s2_def s1_def using c ec unfolding ec_def Let_def by (auto split: if_splits)
  have m: "akm_mEnabled s1 = akm_mEnabled s" by (simp add: s1_def)
  have b: "bit (akm_mEnabled s2) j = (if j = what then en \<noteq> 0 else bit (akm_mEnabled s) j)" for j
    unfolding s2_def using bit_switched [OF w, of "akm_mEnabled s" "en \<noteq> 0" j] m by simp
  have "mAccRefCount s2 = (if akm_sensor_type what = SENSOR_TYPE_ACCELEROMETER
            then mAccRefCount s + (if en \<noteq> 0 then 1 else - 1) else mAccRefCount s)"
    "mPendingEvents s2 = mPendingEvents s" "mPendingMask s2 = mPendingMask s" by (simp_all add: s2_def s1_def)
  with False ec e b switched [of err calls' "if err = 0 then s2 else s"] show thesis unfolding ec_def by simp
qed

lemma accel_switch:
  assumes "n = of_bool this + (of_bool that :: int)" "this \<noteq> b" "accel_run False calls = Some (this \<or> that)"
    and "(err, calls') = (if (if b then 0 else 1) < n then (0, calls)
      else (let err = f calls in (err, calls @ [Switch b SENSOR_TYPE_ACCELEROMETER err])))"
  shows "accel_run False calls' = Some ((if err = 0 then b else this) \<or> that)"
    "err = 0 \<Longrightarrow> n + (if b then 1 else - 1) = of_bool b + of_bool that"
  using assms by (cases this; cases that; cases b; simp add: accel_run_append Let_def)+

lemma akm_enable_ok:
  assumes "akm_ok st" "akm_enable lib handle en st = (err, st')"
  shows "akm_ok st'"
proof -
  obtain s calls where st: "st = (s, calls)" by (cases st)
  show ?thesis
  proof (cases "akm_what handle")
    case None
    then show ?thesis using assms st by (simp add: akm_enable_def)
  next
    case (Some what)
    have ref: "mAccRefCount s = of_bool (bit (akm_mEnabled s) Accelerometer) + of_bool (bit (akm_mEnabled s) SignificantMotion)"
      "accel_run False calls = Some (bit (akm_mEnabled s) Accelerometer \<or> bit (akm_mEnabled s) SignificantMotion)"
      using assms(1) by (simp_all add: akm_ok_def st)
    have what: "what < 4" using akm_what_less [OF Some] by (simp add: numSensors_def)
    from Some show ?thesis
    proof (cases rule: akm_enable_cases [where s = s and calls = calls and en = en and lib = lib])
      case same
      then show ?thesis using assms st by simp
    next
      case (switched err1 calls1 s1)
      have eq: "st' = (s1, calls1)" "err1 = err" using assms(2) switched(3) st by simp_all
      note sw = switched(1,2,4,5)
      show ?thesis
      proof (cases "akm_sensor_type what = SENSOR_TYPE_ACCELEROMETER")
        case False
        then have w: "what \<noteq> Accelerometer" "what \<noteq> SignificantMotion" by (auto simp: akm_sensor_type_def)
        have "accel_run False calls1 = accel_run False calls" using sw(2) False ref(2)
          by (simp add: accel_run_append Let_def)
        moreover have "mAccRefCount s1 = mAccRefCount s" "bit (akm_mEnabled s1) Accelerometer = bit (akm_mEnabled s) Accelerometer"
          "bit (akm_mEnabled s1) SignificantMotion = bit (akm_mEnabled s) SignificantMotion"
          using sw(3,4) False w by (cases "err1 = 0"; simp)+
        ultimately show ?thesis using ref by (simp add: akm_ok_def eq)
      next
        case True
        then have w: "what = Accelerometer \<or> what = SignificantMotion"
          using what by (auto simp: akm_sensor_type_def akm_consts split: if_splits)
        define that where "that = (if what = Accelerometer then SignificantMotion else Accelerometer)"
        have two: "that \<noteq> what" "f Accelerometer + f SignificantMotion = f what + f that"
          "(g Accelerometer \<or> g SignificantMotion) = (g what \<or> g that)" for f :: "nat \<Rightarrow> int" and g
          using w by (auto simp: that_def Accelerometer_def SignificantMotion_def)
        define f where "f = (\<lambda>calls. (if en \<noteq> 0 then akm_enable_sensor lib else akm_disable_sensor lib) calls SENSOR_TYPE_ACCELEROMETER)"
        have c: "(err1, calls1) = (if (if en \<noteq> 0 then 0 else 1) < mAccRefCount s then (0, calls)
            else (let err = f calls in (err, calls @ [Switch (en \<noteq> 0) SENSOR_TYPE_ACCELEROMETER err])))"
          using sw(2) True unfolding f_def by simp
        note ref' = ref [unfolded two(2) [of "\<lambda>j. of_bool (bit (akm_mEnabled s) j)"] two(3) [of "bit (akm_mEnabled s)"]]
        note a = accel_switch [where f = f, OF ref'(1) sw(1) ref'(2) c]
        show ?thesis
        proof (cases "err1 = 0")
          case zero: True
          have "bit (akm_mEnabled s1) what = (en \<noteq> 0)" "bit (akm_mEnabled s1) that = bit (akm_mEnabled s) that"
            "mAccRefCount s1 = mAccRefCount s + (if en \<noteq> 0 then 1 else - 1)" using sw(4) zero True two(1) by simp_all
          then show ?thesis
            unfolding akm_ok_def eq using a zero
            by (simp add: two(2) [of "\<lambda>j. of_bool (bit (akm_mEnabled s1) j)"] two(3) [of "bit (akm_mEnabled s1)"])
        next
          case False
          with sw(3) a(1) ref' show ?thesis
            unfolding akm_ok_def eq by (simp add: two(2) [of "\<lambda>j. of_bool (bit (akm_mEnabled s) j)"] two(3) [of "bit (akm_mEnabled s)"])
        qed
      qed
    qed
  qed
qed

lemma upd_event_simps [simp]:
  "mAccRefCount (upd_event j f s) = mAccRefCount s" "mMotionValue (upd_event j f s) = mMotionValue s" "mMotionValue (mark j s) = mMotionValue s" "akm_mEnabled (upd_event j f s) = akm_mEnabled s"
  "mPendingMask (upd_event j f s) = mPendingMask s" "akm_mInputReader (upd_event j f s) = akm_mInputReader s"
  "mAccRefCount (mark j s) = mAccRefCount s" "akm_mEnabled (mark j s) = akm_mEnabled s"
  "mPendingEvents (mark j s) = mPendingEvents s" "akm_mInputReader (mark j s) = akm_mInputReader s"
  "mPendingMask (mark j s) = mPendingMask s OR push_bit j 1"
  "mPendingEvents (upd_event j f s) = (mPendingEvents s)[j := f (mPendingEvents s ! j)]"
  by (simp_all add: upd_event_def mark_def)

lemma processEvent_keeps [simp]:
  "mAccRefCount (akm_processEvent code value s) = mAccRefCount s"
  "akm_mEnabled (akm_processEvent code value s) = akm_mEnabled s"
  by (simp_all add: akm_processEvent_def detect_motion_def Let_def)

text \<open>Which sensor each pending event is of.\<close>

lemma sensors_upd: "(\<And>p. sensor (f p) = sensor p) \<Longrightarrow> map sensor (xs[j := f (xs ! j)]) = map sensor xs"
  by (cases "j < length xs") (simp_all add: map_update list_update_same_conv list_update_beyond)

lemma processEvent_sensors [simp]: "map sensor (mPendingEvents (akm_processEvent code value s)) = map sensor (mPendingEvents s)"
  by (simp add: akm_processEvent_def detect_motion_def Let_def sensors_upd)

lemma report_sensor_ok:
  assumes "akm_ok (akm x, akm_calls x)"
  shows "akm_ok (akm (report_sensor lib time j x), akm_calls (report_sensor lib time j x))"
proof -
  define s where "s = upd_event j (\<lambda>p. p\<lparr>timestamp := time\<rparr>) ((akm x)\<lparr>mPendingMask := mPendingMask (akm x) AND NOT (push_bit j 1)\<rparr>)"
  have ok: "akm_ok (s, akm_calls x)" using assms by (simp add: akm_ok_def s_def)
  obtain err s2 calls2 where e: "akm_enable lib ID_SM 0 (s, akm_calls x) = (err, s2, calls2)"
    by (cases "akm_enable lib ID_SM 0 (s, akm_calls x)")
  have "akm_ok (s2, calls2)" using akm_enable_ok [OF ok e] .
  with ok e assms show ?thesis
    unfolding report_sensor_def s_def [symmetric] Let_def by simp
qed

lemma report_pending_ok:
  "akm_ok (akm x, akm_calls x) \<Longrightarrow> akm_ok (akm (report_pending lib time js x), akm_calls (report_pending lib time js x))"
  by (induction js arbitrary: x) (simp_all add: report_sensor_ok)

lemma akm_body_ok:
  assumes "akm_ok (akm x, akm_calls x)"
  shows "akm_ok (akm (fst (akm_body lib time e x)), akm_calls (fst (akm_body lib time e x)))"
  using assms report_pending_ok [OF assms] by (simp add: akm_body_def Let_def) (simp add: akm_ok_def)

lemma akm_ok_reader: "akm_ok (s\<lparr>akm_mInputReader := r\<rparr>, calls) = akm_ok (s, calls)"
  by (simp add: akm_ok_def)

text \<open>An invariant of the loop is one of \<open>readEvents\<close>.\<close>

lemma akm_readEvents_keeps:
  assumes "akm_readEvents lib env cnt fd (s, calls) = Some (ret, outs, (s', calls'), fd')"
    and start: "\<And>r. I \<lparr>akm = s\<lparr>akm_mInputReader := r\<rparr>, akm_calls = calls, akm_data = [], akm_count = cnt, akm_received = 0\<rparr>"
    and body: "\<And>e x. I x \<Longrightarrow> akm_count x \<noteq> 0 \<Longrightarrow> I (fst (akm_body lib (now env) e x))"
  shows "(\<exists>r. s' = s\<lparr>akm_mInputReader := r\<rparr>) \<and> calls' = calls \<and> outs = [] \<and> ret < 0
    \<or> (\<exists>x r. I x \<and> s' = (akm x)\<lparr>akm_mInputReader := r\<rparr> \<and> calls' = akm_calls x \<and> outs = akm_data x \<and> ret = akm_received x)"
proof (cases "cnt < 1")
  case True
  with assms(1) show ?thesis by (auto simp: akm_readEvents_def EINVAL_def intro: exI [of _ "akm_mInputReader s"])
next
  case False
  obtain n r1 fd1 where f: "fill fd (akm_mInputReader s) = Some (n, r1, fd1)"
    using assms(1) False by (cases "fill fd (akm_mInputReader s)") (auto simp: akm_readEvents_def)
  show ?thesis
  proof (cases "n < 0")
    case True
    with assms(1) False f show ?thesis by (auto simp: akm_readEvents_def)
  next
    case n: False
    define x0 where "x0 = \<lparr>akm = s\<lparr>akm_mInputReader := r1\<rparr>, akm_calls = calls, akm_data = [], akm_count = cnt, akm_received = 0\<rparr>"
    obtain x r2 where l: "read_loop (mBufferEnd r1 + 2) readEvent next_event (\<lambda>x. akm_count x \<noteq> 0) (akm_body lib (now env)) r1 x0 = Some (x, r2)"
      "ret = akm_received x" "outs = akm_data x" "s' = (akm x)\<lparr>akm_mInputReader := r2\<rparr>" "calls' = akm_calls x"
      using assms(1) False f n by (auto simp: akm_readEvents_def Let_def bind_eq_Some_conv x0_def)
    have "I x" using read_loop_keeps [where I = I, OF l(1)] start body by (simp add: x0_def)
    with l show ?thesis by blast
  qed
qed

lemma akm_readEvents_ok:
  assumes "akm_ok st" "akm_readEvents lib env cnt fd st = Some (ret, outs, st', fd')"
  shows "akm_ok st'"
proof -
  obtain s calls s' calls' where st: "st = (s, calls)" "st' = (s', calls')" by (cases st, cases st')
  have ok: "akm_ok (akm \<lparr>akm = s\<lparr>akm_mInputReader := r\<rparr>, akm_calls = calls, akm_data = [], akm_count = cnt, akm_received = 0\<rparr>,
      akm_calls \<lparr>akm = s\<lparr>akm_mInputReader := r\<rparr>, akm_calls = calls, akm_data = [], akm_count = cnt, akm_received = 0\<rparr>)" for r
    using assms(1) st by (simp add: akm_ok_reader)
  have body: "akm_ok (akm (fst (akm_body lib (now env) e x)), akm_calls (fst (akm_body lib (now env) e x)))"
    if "akm_ok (akm x, akm_calls x)" "akm_count x \<noteq> 0" for e x
    using akm_body_ok [OF that(1)] .
  note k = akm_readEvents_keeps [where I = "\<lambda>x. akm_ok (akm x, akm_calls x)", OF assms(2) [unfolded st]]
  from k [OF ok body] show ?thesis using assms(1) st by (auto simp: akm_ok_reader)
qed

text \<open>Requests and reads in any order, with the reports written. A read has its own environment and device.\<close>

datatype akm_op = AkmEnable (op_handle: int) (op_enabled: int) | AkmRead sensor_env int "read_result list"

fun akm_step ::
    "akm_library \<Rightarrow> akm_op \<Rightarrow> (akm_sensor \<times> akm_call list) \<times> sensors_event list \<Rightarrow>
     ((akm_sensor \<times> akm_call list) \<times> sensors_event list) option" where
  "akm_step lib (AkmEnable handle en) (st, outs) = (case akm_enable lib handle en st of (err, st) \<Rightarrow> Some (st, outs))"
| "akm_step lib (AkmRead env cnt fd) (st, outs) =
     do {(ret, new, st, fd) \<leftarrow> akm_readEvents lib env cnt fd st; Some (st, outs @ new)}"

lemma run_steps_keeps:
  assumes "run_steps step xs a = Some b" "I a" "\<And>x a b. step x a = Some b \<Longrightarrow> I a \<Longrightarrow> I b"
  shows "I b"
  using assms(1,2)
proof (induction xs arbitrary: a)
  case (Cons x xs)
  then obtain a' where "step x a = Some a'" "run_steps step xs a' = Some b" by (auto simp: bind_eq_Some_conv)
  with Cons assms(3) show ?case by blast
qed simp

lemma akm_step_ok:
  assumes "akm_step lib op x = Some y" "akm_ok (fst x)"
  shows "akm_ok (fst y)"
proof (cases op)
  case (AkmEnable handle en)
  obtain err st' where "akm_enable lib handle en (fst x) = (err, st')" by (cases "akm_enable lib handle en (fst x)")
  with akm_enable_ok [OF assms(2) this] assms(1) show ?thesis by (cases x) (simp add: AkmEnable; auto)
next
  case (AkmRead env cnt fd)
  obtain st outs where x: "x = (st, outs)" by (cases x)
  obtain ret new st' fd' where "akm_readEvents lib env cnt fd st = Some (ret, new, st', fd')" "fst y = st'"
    using assms(1) unfolding AkmRead x by (auto simp: bind_eq_Some_conv)
  with akm_readEvents_ok [OF _ this(1)] assms(2) show ?thesis by (simp add: x)
qed

lemma initial_value_keeps [simp]:
  "mAccRefCount (initial_value env code j f s) = mAccRefCount s" "akm_mEnabled (initial_value env code j f s) = akm_mEnabled s"
  by (simp_all add: initial_value_def split: option.splits)

lemma already_enabled_keeps [simp]:
  "mAccRefCount (already_enabled j s) = mAccRefCount s" "akm_mEnabled (already_enabled j s) = akm_mEnabled s OR push_bit j 1"
  by (simp_all add: already_enabled_def)

lemma new_akm_ok:
  assumes "akm_is_sensor_enabled (snd (loadAKMLibrary lib)) SENSOR_TYPE_ACCELEROMETER = 0"
  shows "akm_ok (newAkmSensor env lib dir junk delays)"
proof -
  obtain err l where l: "loadAKMLibrary lib = (err, l)" by (cases "loadAKMLibrary lib")
  show ?thesis using assms
    by (simp add: newAkmSensor_def l Let_def akm_ok_def initial_magnetic_def initial_orientation_def akm_consts
        SENSOR_TYPE_TEMPERATURE_def bit_simps push_bit_of_1)
qed


definition still_lib :: akm_library where
  "still_lib = \<lparr>akm_is_sensor_enabled = \<lambda>_. 0, akm_enable_sensor = \<lambda>_ _. 0, akm_disable_sensor = \<lambda>_ _. 0\<rparr>"

definition still_env :: sensor_env where
  "still_env = \<lparr>sys = \<lparr>os_open = \<lambda>_ _. 0, os_write = \<lambda>_ _ _. True, os_read = \<lambda>_ _. None, os_access = \<lambda>_ _. True, os_errno = 0\<rparr>, abs_value = \<lambda>_ _. None, now = 7\<rparr>"


lemma refcount_example:
  "(case run_steps (akm_step still_lib) [AkmEnable ID_A 1, AkmEnable ID_SM 1, AkmEnable ID_A 0]
      (newAkmSensor still_env (Some still_lib) None [] [], []) of
    None \<Rightarrow> False | Some ((s, calls), outs) \<Rightarrow> akm_mEnabled s = 8 \<and> length calls = 2)"
  by code_simp


section \<open>Significant motion is reported once\<close>

definition sm_reports :: "sensors_event list \<Rightarrow> nat" where
  "sm_reports outs = length (filter (\<lambda>p. sensor p = ID_SM) outs)"

definition sm_requests :: "akm_op list \<Rightarrow> nat" where
  "sm_requests ops = length (filter (\<lambda>op. case op of AkmEnable handle en \<Rightarrow> handle = ID_SM \<and> en \<noteq> 0 | _ \<Rightarrow> False) ops)"

definition sm_on :: "akm_sensor \<Rightarrow> nat" where
  "sm_on s = of_bool (bit (akm_mEnabled s) SignificantMotion)"

definition events_ok :: "akm_sensor \<Rightarrow> bool" where
  "events_ok s \<longleftrightarrow> map sensor (mPendingEvents s) = [ID_A, ID_M, ID_O, ID_SM]"

lemma events_ok_nth:
  assumes "events_ok s" "j < numSensors"
  shows "sensor (mPendingEvents s ! j) = ID_SM \<longleftrightarrow> j = SignificantMotion"
proof -
  have "length (mPendingEvents s) = 4" using arg_cong [OF assms(1) [unfolded events_ok_def], of length] by simp
  then have "sensor (mPendingEvents s ! j) = [ID_A, ID_M, ID_O, ID_SM] ! j"
    using assms unfolding events_ok_def by (metis nth_map numSensors_def)
  with assms(2) show ?thesis by (auto simp: akm_consts nth_Cons' less_Suc_eq numeral_eq_Suc split: if_splits)
qed

lemma enable_events: "akm_enable lib handle en (s, calls) = (err, s', calls') \<Longrightarrow> events_ok s' = events_ok s"
proof (cases "akm_what handle")
  case (Some what)
  assume e: "akm_enable lib handle en (s, calls) = (err, s', calls')"
  from Some show ?thesis
    by (cases rule: akm_enable_cases [where s = s and calls = calls and en = en and lib = lib]) (use e in \<open>simp_all add: events_ok_def\<close>)
qed (simp add: akm_enable_def)

lemma enable_sm_on:
  assumes "akm_enable lib handle en (s, calls) = (err, s', calls')"
  shows "sm_on s' \<le> sm_on s + of_bool (handle = ID_SM \<and> en \<noteq> 0)"
proof (cases "akm_what handle")
  case None
  with assms show ?thesis by (simp add: akm_enable_def)
next
  case (Some what)
  have w: "what = SignificantMotion \<longleftrightarrow> handle = ID_SM" using Some by (auto simp: akm_what_def akm_consts split: if_splits)
  from Some show ?thesis
  proof (cases rule: akm_enable_cases [where s = s and calls = calls and en = en and lib = lib])
    case (switched err1 calls1 s1)
    then show ?thesis using assms w by (cases "err1 = 0") (auto simp: sm_on_def)
  qed (use assms in simp)
qed

lemma disable_sm:
  assumes "akm_enable lib ID_SM 0 (s, calls) = (err, s', calls')" "\<forall>calls. akm_disable_sensor lib calls SENSOR_TYPE_ACCELEROMETER = 0"
  shows "sm_on s' = 0"
proof -
  have w: "akm_what ID_SM = Some SignificantMotion" by (simp add: akm_what_def akm_consts)
  have t: "akm_sensor_type SignificantMotion = SENSOR_TYPE_ACCELEROMETER" by (simp add: akm_sensor_type_def)
  from w show ?thesis
  proof (cases rule: akm_enable_cases [where s = s and calls = calls and en = 0 and lib = lib])
    case (switched err1 calls1 s1)
    then have "err1 = 0" using assms(2) t by (auto simp: Let_def split: if_splits)
    with switched assms(1) show ?thesis by (simp add: sm_on_def)
  qed (use assms(1) in \<open>simp add: sm_on_def\<close>)
qed

definition sm_ok :: "nat \<Rightarrow> akm_run \<Rightarrow> bool" where
  "sm_ok n x \<longleftrightarrow> events_ok (akm x) \<and> sm_reports (akm_data x) + sm_on (akm x) \<le> n"

lemma report_sensor_sm:
  assumes "sm_ok n x" "j < numSensors" "\<forall>calls. akm_disable_sensor lib calls SENSOR_TYPE_ACCELEROMETER = 0"
  shows "sm_ok n (report_sensor lib time j x)"
proof -
  define s where "s = upd_event j (\<lambda>p. p\<lparr>timestamp := time\<rparr>) ((akm x)\<lparr>mPendingMask := mPendingMask (akm x) AND NOT (push_bit j 1)\<rparr>)"
  have s: "events_ok s" "sm_on s = sm_on (akm x)" using assms(1) by (simp_all add: sm_ok_def s_def events_ok_def sm_on_def sensors_upd)
  obtain err s2 calls2 where e: "akm_enable lib ID_SM 0 (s, akm_calls x) = (err, s2, calls2)"
    by (cases "akm_enable lib ID_SM 0 (s, akm_calls x)")
  have s2: "events_ok s2" "sm_on s2 = 0" using enable_events [OF e] s(1) disable_sm [OF e assms(3)] by auto
  note is_sm = events_ok_nth [OF s(1) assms(2)]
  show ?thesis
  proof (cases "bit (akm_mEnabled s) j")
    case off: False
    then show ?thesis using assms(1) s unfolding report_sensor_def s_def [symmetric] Let_def masked_bit by (simp add: sm_ok_def)
  next
    case on: True
    show ?thesis
    proof (cases "j = SignificantMotion")
      case True
      then have "sm_on s = 1" using on by (simp add: sm_on_def)
      with True on show ?thesis using assms(1) s s2 e is_sm
        unfolding report_sensor_def s_def [symmetric] Let_def masked_bit by (simp add: sm_ok_def sm_reports_def)
    next
      case False
      with on show ?thesis using assms(1) s is_sm
        unfolding report_sensor_def s_def [symmetric] Let_def masked_bit by (simp add: sm_ok_def sm_reports_def)
    qed
  qed
qed

lemma report_pending_sm:
  assumes "\<forall>calls. akm_disable_sensor lib calls SENSOR_TYPE_ACCELEROMETER = 0"
  shows "\<forall>j \<in> set js. j < numSensors \<Longrightarrow> sm_ok n x \<Longrightarrow> sm_ok n (report_pending lib time js x)"
  by (induction js arbitrary: x) (simp_all add: report_sensor_sm assms)

lemma akm_body_sm:
  assumes "\<forall>calls. akm_disable_sensor lib calls SENSOR_TYPE_ACCELEROMETER = 0" "sm_ok n x"
  shows "sm_ok n (fst (akm_body lib time e x))"
  using report_pending_sm [OF assms(1), of "[0..<numSensors]" n x time] assms(2)
  by (simp add: akm_body_def Let_def) (simp add: sm_ok_def events_ok_def sm_on_def)

lemma reader_irrelevant: "events_ok (s\<lparr>akm_mInputReader := r\<rparr>) = events_ok s" "sm_on (s\<lparr>akm_mInputReader := r\<rparr>) = sm_on s"
  by (simp_all add: events_ok_def sm_on_def)

lemma akm_step_sm:
  assumes "akm_step lib op ((s, calls), outs) = Some ((s', calls'), outs')" "events_ok s"
    and lib: "\<forall>calls. akm_disable_sensor lib calls SENSOR_TYPE_ACCELEROMETER = 0"
  shows "events_ok s' \<and> sm_reports outs' + sm_on s' \<le> sm_reports outs + sm_on s + sm_requests [op]"
proof (cases op)
  case (AkmEnable handle en)
  obtain err s1 calls1 where e: "akm_enable lib handle en (s, calls) = (err, s1, calls1)" by (cases "akm_enable lib handle en (s, calls)")
  then have "s' = s1" "outs' = outs" using assms(1) by (simp_all add: AkmEnable)
  with enable_events [OF e] enable_sm_on [OF e] assms(2) show ?thesis by (auto simp: AkmEnable sm_requests_def)
next
  case (AkmRead env cnt fd)
  obtain ret new fd' where r: "akm_readEvents lib env cnt fd (s, calls) = Some (ret, new, (s', calls'), fd')" "outs' = outs @ new"
    using assms(1) unfolding AkmRead by (auto simp: bind_eq_Some_conv)
  let ?I = "sm_ok (sm_on s)"
  have start: "?I \<lparr>akm = s\<lparr>akm_mInputReader := q\<rparr>, akm_calls = calls, akm_data = [], akm_count = cnt, akm_received = 0\<rparr>" for q
    using assms(2) by (simp add: sm_ok_def events_ok_def sm_on_def sm_reports_def)
  have body: "?I (fst (akm_body lib (now env) e x))" if "?I x" "akm_count x \<noteq> 0" for e x using akm_body_sm [OF lib that(1)] .
  from akm_readEvents_keeps [where I = ?I, OF r(1) start body]
  have "events_ok s' \<and> sm_reports new + sm_on s' \<le> sm_on s"
    using assms(2) by (auto simp: sm_ok_def reader_irrelevant sm_reports_def)
  then show ?thesis by (simp add: r(2) AkmRead sm_reports_def)
qed

lemma initial_sensors:
  "(\<And>v p. sensor (f v p) = sensor p) \<Longrightarrow> map sensor (mPendingEvents (initial_value env code j f s)) = map sensor (mPendingEvents s)"
  by (simp add: initial_value_def sensors_upd split: option.splits)

definition fresh :: "akm_sensor \<Rightarrow> bool" where
  "fresh s \<longleftrightarrow> events_ok s \<and> sm_on s = 0"

lemma initial_fresh:
  assumes "fresh s"
  shows "fresh (if b then initial_accelerometer env s else s)" "fresh (if b then initial_magnetic env s else s)"
    "fresh (if b then initial_orientation env s else s)"
  using assms by (simp_all add: fresh_def events_ok_def sm_on_def initial_accelerometer_def initial_magnetic_def
      initial_orientation_def Let_def initial_sensors) (simp_all add: already_enabled_def akm_consts bit_simps push_bit_of_1)

lemma new_akm_fresh: "fresh (fst (newAkmSensor env lib dir junk delays))"
proof -
  obtain err l where l: "loadAKMLibrary lib = (err, l)" by (cases "loadAKMLibrary lib")
  show ?thesis
    unfolding newAkmSensor_def l Let_def split fst_conv
    by (intro initial_fresh) (simp add: fresh_def events_ok_def sm_on_def pending_event_def blank_event_def)
qed


lemma one_shot_example:
  "(case run_steps (akm_step still_lib)
      [AkmEnable ID_SM 1, AkmRead still_env 5 [ReadEvents [event0 2 2 1000, event0 0 0 0, event0 2 2 5000, event0 0 0 0] False]]
      (newAkmSensor still_env (Some still_lib) None (replicate 64 (event0 0 0 0)) [], []) of
    None \<Rightarrow> False | Some ((s, calls), outs) \<Rightarrow> akm_mEnabled s = 0 \<and> map sensor outs = [6])"
  by code_simp


section \<open>What goes wrong\<close>

text \<open>A library whose accelerometer is on already: the sensor counts as enabled but is not counted. It can then be enabled and the
  detection of motion switched off, and the accelerometer is off.\<close>

definition started_lib :: akm_library where
  "started_lib = still_lib\<lparr>akm_is_sensor_enabled := \<lambda>ty. if ty = 1 then 1 else 0\<rparr>"

lemma started_refcount:
  "(case run_steps (akm_step started_lib) [AkmEnable ID_A 0] (newAkmSensor still_env (Some started_lib) None [] [], []) of
    None \<Rightarrow> False | Some ((s, calls), outs) \<Rightarrow> mAccRefCount s = - 1)"
  "(case run_steps (akm_step started_lib) [AkmEnable ID_A 0, AkmEnable ID_A 1, AkmEnable ID_SM 1, AkmEnable ID_SM 0]
      (newAkmSensor still_env (Some started_lib) None [] [], []) of
    None \<Rightarrow> False | Some ((s, calls), outs) \<Rightarrow> bit (akm_mEnabled s) Accelerometer \<and> last calls = Switch False 1 0)"
  by code_simp+

text \<open>No delay of these sensors can be set: the index of \<open>mDelays\<close> is still \<open>-1\<close>.\<close>

lemma akm_setDelay_fault:
  assumes "0 \<le> ns" "handle = ID_A \<or> handle = ID_M \<or> handle = ID_O"
  shows "akm_setDelay app_set_delay handle ns s = None"
  using assms by (auto simp: akm_setDelay_def Let_def akm_consts)

text \<open>A device at rest: the first reading after the detection is enabled counts as motion, for \<open>mMotionValue\<close> starts at \<open>0\<close>.\<close>

lemma motion_at_rest:
  assumes "bit (akm_mEnabled s) SignificantMotion" "mMotionValue s = 0" "length (mPendingEvents s) = numSensors"
  shows "bit (mPendingMask (akm_processEvent EVENT_TYPE_ACCEL_Z (- 720) s)) SignificantMotion"
proof -
  have "to_int (0 - 196133 / 20000) = - 9" by code_simp
  moreover have "bit (w OR push_bit SignificantMotion 1 :: 32 word) SignificantMotion" for w
    by (simp add: push_bit_of_1 bit_simps SignificantMotion_def)
  ultimately show ?thesis
    using assms unfolding akm_processEvent_def detect_motion_def Let_def masked_bit
    by (simp add: EVENT_TYPE_ACCEL_X_def EVENT_TYPE_ACCEL_Y_def EVENT_TYPE_ACCEL_Z_def CONVERT_A_def Accelerometer_def numSensors_def)
qed

text \<open>The orientation that the constructor reads is not scaled, and its roll has the other sign.\<close>

lemma orientation_units:
  assumes "abs_value env (akm_data_fd s) EVENT_TYPE_ROLL = Some 64" "length (mPendingEvents s) = numSensors"
  shows "data2 (mPendingEvents (initial_value env EVENT_TYPE_ROLL Orientation (\<lambda>v p. p\<lparr>data2 := - of_int v\<rparr>) s) ! Orientation) = - 64"
    "data2 (mPendingEvents (akm_processEvent EVENT_TYPE_ROLL 64 s) ! Orientation) = 1"
  using assms by (simp_all add: initial_value_def akm_processEvent_def Let_def akm_consts CONVERT_O_def EVENT_TYPE_ACCEL_X_def
      EVENT_TYPE_ACCEL_Y_def EVENT_TYPE_ACCEL_Z_def EVENT_TYPE_MAGV_X_def EVENT_TYPE_MAGV_Y_def EVENT_TYPE_MAGV_Z_def
      EVENT_TYPE_YAW_def EVENT_TYPE_PITCH_def EVENT_TYPE_ROLL_def)

section \<open>A call of \<open>readEvents\<close>\<close>

text \<open>It returns if there is something to read, it writes as many reports as it returns and no more than there is room for.\<close>

definition mask_ok :: "nat \<Rightarrow> akm_sensor \<Rightarrow> bool" where
  "mask_ok k s \<longleftrightarrow> (\<forall>j. bit (mPendingMask s) j \<longrightarrow> k \<le> j \<and> j < numSensors)"

definition run_ok :: "int \<Rightarrow> akm_run \<Rightarrow> bool" where
  "run_ok cnt x \<longleftrightarrow> 0 \<le> akm_count x \<and> akm_received x = int (length (akm_data x)) \<and> akm_count x + akm_received x = cnt"

lemma enable_mask: "akm_enable lib handle en (s, calls) = (err, s', calls') \<Longrightarrow> mPendingMask s' = mPendingMask s"
proof (cases "akm_what handle")
  case (Some what)
  assume e: "akm_enable lib handle en (s, calls) = (err, s', calls')"
  from Some show ?thesis
    by (cases rule: akm_enable_cases [where s = s and calls = calls and en = en and lib = lib]) (use e in simp_all)
qed (simp add: akm_enable_def)

lemma report_sensor_run:
  assumes "run_ok cnt x" "akm_count x \<noteq> 0"
  shows "run_ok cnt (report_sensor lib time j x)"
    "bit (mPendingMask (akm (report_sensor lib time j x))) i = (bit (mPendingMask (akm x)) i \<and> i \<noteq> j)"
proof -
  define s where "s = upd_event j (\<lambda>p. p\<lparr>timestamp := time\<rparr>) ((akm x)\<lparr>mPendingMask := mPendingMask (akm x) AND NOT (push_bit j 1)\<rparr>)"
  obtain err s2 calls2 where e: "akm_enable lib ID_SM 0 (s, akm_calls x) = (err, s2, calls2)"
    by (cases "akm_enable lib ID_SM 0 (s, akm_calls x)")
  have m: "bit (mPendingMask s) i = (bit (mPendingMask (akm x)) i \<and> i \<noteq> j)"
    by (auto simp: s_def push_bit_of_1 bit_simps dest: bit_imp_le_length)
  show "run_ok cnt (report_sensor lib time j x)"
    using assms e unfolding report_sensor_def s_def [symmetric] Let_def by (auto simp: run_ok_def)
  show "bit (mPendingMask (akm (report_sensor lib time j x))) i = (bit (mPendingMask (akm x)) i \<and> i \<noteq> j)"
    using m enable_mask [OF e] e unfolding report_sensor_def s_def [symmetric] Let_def masked_bit by auto
qed

lemma report_pending_run:
  assumes "run_ok cnt x" "mask_ok k (akm x)" "k \<le> numSensors"
  shows "run_ok cnt (report_pending lib time [k..<numSensors] x)
    \<and> mask_ok 0 (akm (report_pending lib time [k..<numSensors] x))
    \<and> (mPendingMask (akm (report_pending lib time [k..<numSensors] x)) \<noteq> 0 \<longrightarrow> akm_count (report_pending lib time [k..<numSensors] x) = 0)"
  using assms
proof (induction "numSensors - k" arbitrary: k x)
  case 0
  then have "mPendingMask (akm x) = 0" by (intro bit_word_eqI) (auto simp: mask_ok_def)
  with 0 show ?case by (simp add: mask_ok_def)
next
  case (Suc n)
  show ?case
  proof (cases "akm_count x \<noteq> 0 \<and> mPendingMask (akm x) \<noteq> 0")
    case False
    then have "report_pending lib time [k..<numSensors] x = x" using Suc.hyps(2) by (auto simp: upt_conv_Cons)
    with Suc.prems False show ?thesis by (auto simp: mask_ok_def)
  next
    case True
    then have eq: "report_pending lib time [k..<numSensors] x = report_pending lib time [Suc k..<numSensors] (report_sensor lib time k x)"
      using Suc.hyps(2) by (simp add: upt_conv_Cons)
    have "mask_ok (Suc k) (akm (report_sensor lib time k x))"
      using Suc.prems(2) report_sensor_run(2) [OF Suc.prems(1) conjunct1 [OF True]] by (fastforce simp: mask_ok_def)
    with Suc.hyps report_sensor_run(1) [OF Suc.prems(1) conjunct1 [OF True]] show ?thesis unfolding eq by simp
  qed
qed

lemma mask_mark: "mask_ok 0 s \<Longrightarrow> k < numSensors \<Longrightarrow> mask_ok 0 (upd_event j f (mark k s))"
  by (auto simp: mask_ok_def push_bit_of_1 bit_simps)

lemma mask_motion: "mask_ok 0 (s\<lparr>mMotionValue := v\<rparr>) = mask_ok 0 s"
  by (simp add: mask_ok_def)

lemma sensor_less: "Accelerometer < numSensors" "MagneticField < numSensors" "Orientation < numSensors" "SignificantMotion < numSensors"
  by (simp_all add: akm_consts)

lemma detect_mask: "mask_ok 0 s \<Longrightarrow> mask_ok 0 (detect_motion z s)"
  by (simp add: detect_motion_def Let_def mask_mark mask_motion sensor_less)

lemma processEvent_mask: "mask_ok 0 s \<Longrightarrow> mask_ok 0 (akm_processEvent code value s)"
  by (simp add: akm_processEvent_def Let_def mask_mark detect_mask sensor_less)

lemma akm_body_run:
  assumes "run_ok cnt x \<and> mask_ok 0 (akm x)" "akm_count x \<noteq> 0"
  shows "run_ok cnt (fst (akm_body lib time e x)) \<and> mask_ok 0 (akm (fst (akm_body lib time e x)))"
    "\<not> snd (akm_body lib time e x) \<Longrightarrow> akm_count (fst (akm_body lib time e x)) = 0"
proof -
  have r: "run_ok cnt (report_pending lib time [0..<numSensors] x) \<and> mask_ok 0 (akm (report_pending lib time [0..<numSensors] x))
    \<and> (mPendingMask (akm (report_pending lib time [0..<numSensors] x)) \<noteq> 0 \<longrightarrow> akm_count (report_pending lib time [0..<numSensors] x) = 0)"
    by (rule report_pending_run) (use assms in simp_all)
  show "run_ok cnt (fst (akm_body lib time e x)) \<and> mask_ok 0 (akm (fst (akm_body lib time e x)))"
    using r assms processEvent_mask by (simp add: akm_body_def Let_def) (simp add: run_ok_def)
  show "\<not> snd (akm_body lib time e x) \<Longrightarrow> akm_count (fst (akm_body lib time e x)) = 0"
    using r by (auto simp: akm_body_def Let_def split: if_splits)
qed

definition akm_usable :: "akm_sensor \<Rightarrow> bool" where
  "akm_usable s \<longleftrightarrow> ring_ok (akm_mInputReader s) \<and> mask_ok 0 s"

lemma akm_loop_returns:
  assumes "ring_ok r" "run_ok cnt x0 \<and> mask_ok 0 (akm x0)"
  shows "\<exists>x r'. read_loop (mBufferEnd r + 2) readEvent next_event (\<lambda>x. akm_count x \<noteq> 0) (akm_body lib time) r x0 = Some (x, r')
    \<and> ring_ok r' \<and> run_ok cnt x \<and> mask_ok 0 (akm x)"
proof -
  let ?I = "\<lambda>x. run_ok cnt x \<and> mask_ok 0 (akm x)" and ?body = "akm_body lib time"
  have len: "length (unread r) < mBufferEnd r + 2" using length_unread [OF assms(1)] assms(1) by (simp add: ring_ok_def)
  have body: "?I (fst (?body e x))" if "?I x" "akm_count x \<noteq> 0" for e x using akm_body_run(1) [OF that] .
  have taken: "\<not> (akm_count (fst (?body e x)) \<noteq> 0)" if "?I x" "akm_count x \<noteq> 0" "\<not> snd (?body e x)" for e x
    using akm_body_run(2) [OF that] by simp
  obtain x r' where l: "read_loop (mBufferEnd r + 2) readEvent next_event (\<lambda>x. akm_count x \<noteq> 0) ?body r x0 = Some (x, r')" "ring_ok r'"
    using ring.loop_consumes [where I = ?I and room = "\<lambda>x. akm_count x \<noteq> 0" and body = ?body and s = x0, of r "mBufferEnd r",
        OF _ len assms(2) body taken] assms(1) by blast
  have "?I x" using read_loop_keeps [where I = ?I, OF l(1) assms(2) body] by blast
  with l show ?thesis by blast
qed

lemma akm_readEvents_returns:
  assumes "akm_usable s" "list_all whole fd" "fd \<noteq> []" "1 \<le> cnt"
  shows "\<exists>ret outs s' calls' fd'. akm_readEvents lib env cnt fd (s, calls) = Some (ret, outs, (s', calls'), fd')
    \<and> akm_usable s' \<and> list_all whole fd' \<and> length fd \<le> Suc (length fd')
    \<and> (ret < 0 \<and> outs = [] \<or> ret = int (length outs) \<and> ret \<le> cnt)"
proof -
  have u: "ring_ok (akm_mInputReader s)" "mask_ok 0 s" using assms(1) by (simp_all add: akm_usable_def)
  obtain n r1 fd1 where f: "fill fd (akm_mInputReader s) = Some (n, r1, fd1)" "ring_ok r1" "list_all whole fd1" "length fd \<le> Suc (length fd1)"
    using fill_moves [OF u(1) assms(2,3)] by blast
  show ?thesis
  proof (cases "n < 0")
    case True
    have "akm_usable (s\<lparr>akm_mInputReader := r1\<rparr>)" using f(2) u by (simp add: akm_usable_def mask_ok_def)
    with f True assms(4) show ?thesis by (simp add: akm_readEvents_def)
  next
    case False
    define x0 where "x0 = \<lparr>akm = s\<lparr>akm_mInputReader := r1\<rparr>, akm_calls = calls, akm_data = [], akm_count = cnt, akm_received = 0\<rparr>"
    have "run_ok cnt x0 \<and> mask_ok 0 (akm x0)" using u assms(4) by (simp add: x0_def run_ok_def mask_ok_def)
    from akm_loop_returns [OF f(2) this, of lib "now env"] obtain x r2 where
      l: "read_loop (mBufferEnd r1 + 2) readEvent next_event (\<lambda>x. akm_count x \<noteq> 0) (akm_body lib (now env)) r1 x0 = Some (x, r2)"
        "ring_ok r2" "run_ok cnt x" "mask_ok 0 (akm x)"
      by blast
    have "akm_readEvents lib env cnt fd (s, calls) = Some (akm_received x, akm_data x, ((akm x)\<lparr>akm_mInputReader := r2\<rparr>, akm_calls x), fd1)"
      using f(1) False assms(4) l(1) by (simp add: akm_readEvents_def x0_def)
    moreover have "akm_usable ((akm x)\<lparr>akm_mInputReader := r2\<rparr>)" using l by (simp add: akm_usable_def mask_ok_def)
    ultimately show ?thesis using l f(3,4) by (simp add: run_ok_def)
  qed
qed

end
