(* ===== verification/Sensors_Poll.thy ===== *)
theory Sensors_Poll
  imports Akm_Sensor
begin

text \<open>
  The sensors module (\<open>libsensors/sensors.cpp\<close>): the four drivers behind one device, which is asked to enable sensors, to set
  their delays, and polled for events.

  \<^item> The caller's array is the list of its cells, \<open>None\<close> what has not been written; the pointer into it is an integer. \<open>Overrun\<close> is
    a store outside the array, \<open>Blocked\<close> a call that waits for ever.
  \<^item> What \<open>poll\<close> answers is a parameter, the list of its answers; an answer comes with the environment from then on.
  \<^item> The pipe that wakes the poller is the number of bytes in it.
\<close>

section \<open>The sensors\<close>

record sensor_t =
  sensor_name :: string
  vendor :: string
  version :: int
  handle :: int
  sensor_type :: int
  maxRange :: rat
  resolution :: rat
  power :: rat
  minDelay :: int

definition GRAVITY_EARTH :: rat where "GRAVITY_EARTH = 980665 / 100000"
definition RANGE_A :: rat where "RANGE_A = 2 * GRAVITY_EARTH"
definition RESOLUTION_A :: rat where "RESOLUTION_A = RANGE_A / (512 * 8)"
definition RANGE_GYRO :: rat where "RANGE_GYRO = 500 * M_PI / 180"

definition sSensorList :: "sensor_t list" where
  "sSensorList =
    [\<lparr>sensor_name = ''K3DH Acceleration Sensor'', vendor = ''STMicroelectronics'', version = 1, handle = 0, sensor_type = 1,
      maxRange = RANGE_A, resolution = RESOLUTION_A, power = 1 / 4, minDelay = 15000\<rparr>,
     \<lparr>sensor_name = ''AK8975 Magnetic field Sensor'', vendor = ''Asahi Kasei Microdevices'', version = 1, handle = 1, sensor_type = 2,
      maxRange = 2000, resolution = CONVERT_M, power = 6, minDelay = 30000\<rparr>,
     \<lparr>sensor_name = ''AK8975 Orientation Sensor'', vendor = ''Asahi Kasei Microdevices'', version = 1, handle = 2, sensor_type = 3,
      maxRange = 360, resolution = CONVERT_O, power = 78 / 10, minDelay = 30000\<rparr>,
     \<lparr>sensor_name = ''GP2A Light Sensor'', vendor = ''Sharp'', version = 1, handle = 3, sensor_type = 5,
      maxRange = 3000, resolution = 1, power = 3 / 4, minDelay = 0\<rparr>,
     \<lparr>sensor_name = ''GP2A Proximity Sensor'', vendor = ''Sharp'', version = 1, handle = 4, sensor_type = 8,
      maxRange = 5, resolution = 5, power = 3 / 4, minDelay = 0\<rparr>,
     \<lparr>sensor_name = ''K3G Gyroscope Sensor'', vendor = ''STMicroelectronics'', version = 1, handle = 5, sensor_type = 4,
      maxRange = RANGE_GYRO, resolution = CONVERT_GYRO, power = 61 / 10, minDelay = 15000\<rparr>,
     \<lparr>sensor_name = ''Movement Detection Sensor'', vendor = ''STMicroelectronics'', version = 1, handle = 6, sensor_type = 17,
      maxRange = 1, resolution = 1, power = 1 / 100, minDelay = 0\<rparr>]"

definition sensors__get_sensors_list :: "int \<times> sensor_t list" where
  "sensors__get_sensors_list = (int (length sSensorList), sSensorList)"

section \<open>The device\<close>

definition light_drv :: nat where "light_drv = 0"
definition proximity_drv :: nat where "proximity_drv = 1"
definition akm_drv :: nat where "akm_drv = 2"
definition gyro_drv :: nat where "gyro_drv = 3"
definition numSensorDrivers :: nat where "numSensorDrivers = 4"
definition wake :: nat where "wake = 4"

record poll_context =
  light_s :: input_sensor
  proximity_s :: input_sensor
  akm_s :: "akm_sensor \<times> akm_call list"
  gyro_s :: input_sensor
  devs :: "read_result list list"
  poll_fds :: "int list"
  ready :: "bool list"
  wake_pipe :: nat
  sys_files :: files

definition handleToDriver :: "int \<Rightarrow> int" where
  "handleToDriver h =
     (if h = ID_A \<or> h = ID_M \<or> h = ID_O \<or> h = ID_SM then int akm_drv else if h = ID_P then int proximity_drv
      else if h = ID_L then int light_drv else if h = ID_GY then int gyro_drv else - EINVAL)"

text \<open>\<open>getFd\<close>: without the library the akm sensor has no input device.\<close>

definition akm_getFd :: "akm_library option \<Rightarrow> akm_sensor \<Rightarrow> int" where
  "akm_getFd lib s = (if lib = None then akm_dev_fd s else akm_data_fd s)"

record boot =
  boot_env :: sensor_env
  boot_lib :: "akm_library option"
  boot_dir :: "(string \<times> (int \<times> string option) option) list option"
  boot_junk :: "input_event list"
  boot_path :: string
  boot_delays :: "64 word list"
  boot_devs :: "read_result list list"
  boot_files :: files

definition new_poll_context :: "boot \<Rightarrow> poll_context" where
  "new_poll_context b =
     (let (l, fs) = newLightSensor (boot_env b) (boot_dir b) (take 8 (boot_junk b)) (boot_path b) (boot_path b) (boot_files b);
          (p, fs) = newProximitySensor (boot_env b) (boot_dir b) (take 8 (boot_junk b)) (boot_path b) (boot_path b) fs;
          a = newAkmSensor (boot_env b) (boot_lib b) (boot_dir b) (boot_junk b) (boot_delays b);
          (g, fs) = newGyroSensor (boot_env b) (boot_dir b) (take 8 (boot_junk b)) (boot_path b) (boot_path b) fs
      in \<lparr>light_s = l, proximity_s = p, akm_s = a, gyro_s = g, devs = boot_devs b,
          poll_fds = [data_fd l, data_fd p, akm_getFd (boot_lib b) (fst a), data_fd g],
          ready = [False, False, False, False, False], wake_pipe = 0, sys_files = fs\<rparr>)"

definition driver_enable :: "akm_library \<Rightarrow> sensor_env \<Rightarrow> nat \<Rightarrow> int \<Rightarrow> int \<Rightarrow> poll_context \<Rightarrow> int \<times> poll_context" where
  "driver_enable lib env i h en c =
     (if i = light_drv then (case light_enable env en (light_s c, sys_files c) of (err, s, fs) \<Rightarrow> (err, c\<lparr>light_s := s, sys_files := fs\<rparr>))
      else if i = proximity_drv then
        (case proximity_enable env en (proximity_s c, sys_files c) of (err, s, fs) \<Rightarrow> (err, c\<lparr>proximity_s := s, sys_files := fs\<rparr>))
      else if i = akm_drv then (case akm_enable lib h en (akm_s c) of (err, s) \<Rightarrow> (err, c\<lparr>akm_s := s\<rparr>))
      else (case gyro_enable env en (gyro_s c, sys_files c) of (err, s, fs) \<Rightarrow> (err, c\<lparr>gyro_s := s, sys_files := fs\<rparr>)))"

definition sensors_activate :: "akm_library \<Rightarrow> sensor_env \<Rightarrow> int \<Rightarrow> int \<Rightarrow> poll_context \<Rightarrow> int \<times> poll_context" where
  "sensors_activate lib env h enabled c =
     (let index = handleToDriver h in
      if index < 0 then (index, c)
      else
        let (err, c) = driver_enable lib env (nat index) h enabled c in
        if enabled \<noteq> 0 \<and> err = 0 then (err, c\<lparr>wake_pipe := wake_pipe c + 1\<rparr>) else (err, c))"

text \<open>The proximity sensor has the \<open>setDelay\<close> of the base class.\<close>

definition sensors_setDelay :: "(int \<Rightarrow> 16 word \<Rightarrow> int) \<Rightarrow> sensor_env \<Rightarrow> int \<Rightarrow> int \<Rightarrow> poll_context \<Rightarrow> (int \<times> poll_context) option" where
  "sensors_setDelay app_set_delay env h ns c =
     (let index = handleToDriver h in
      if index < 0 then Some (index, c)
      else if nat index = light_drv then
        (case light_setDelay env ns (light_s c, sys_files c) of (err, s, fs) \<Rightarrow> Some (err, c\<lparr>light_s := s, sys_files := fs\<rparr>))
      else if nat index = proximity_drv then Some (0, c)
      else if nat index = akm_drv then
        do {(err, s) \<leftarrow> akm_setDelay app_set_delay h ns (fst (akm_s c)); Some (err, c\<lparr>akm_s := (s, snd (akm_s c))\<rparr>)}
      else (case gyro_setDelay env ns (gyro_s c, sys_files c) of (err, s, fs) \<Rightarrow> Some (err, c\<lparr>gyro_s := s, sys_files := fs\<rparr>)))"

text \<open>Closing: each destructor disables its sensor.\<close>

definition sensors_close :: "sensor_env \<Rightarrow> poll_context \<Rightarrow> files" where
  "sensors_close env c =
     (let del = (\<lambda>enable s fs. if mEnabled s \<noteq> 0 then snd (snd (enable env 0 (s, fs))) else fs);
          fs = del light_enable (light_s c) (sys_files c);
          fs = del proximity_enable (proximity_s c) fs
      in del gyro_enable (gyro_s c) fs)"

section \<open>Polling\<close>

definition driver_pending :: "nat \<Rightarrow> poll_context \<Rightarrow> bool" where
  "driver_pending i c =
     (if i = light_drv then mHasPendingEvent (light_s c) else if i = proximity_drv then mHasPendingEvent (proximity_s c)
      else if i = akm_drv then False else mHasPendingEvent (gyro_s c))"

definition driver_read :: "akm_library \<Rightarrow> sensor_env \<Rightarrow> nat \<Rightarrow> int \<Rightarrow> poll_context \<Rightarrow> (int \<times> sensors_event list \<times> poll_context) option" where
  "driver_read lib env i cnt c =
     (if i = light_drv then
        do {(nb, outs, s, fd) \<leftarrow> light_readEvents env cnt (devs c ! i) (light_s c); Some (nb, outs, c\<lparr>light_s := s, devs := (devs c)[i := fd]\<rparr>)}
      else if i = proximity_drv then
        do {(nb, outs, s, fd) \<leftarrow> proximity_readEvents env cnt (devs c ! i) (proximity_s c);
            Some (nb, outs, c\<lparr>proximity_s := s, devs := (devs c)[i := fd]\<rparr>)}
      else if i = akm_drv then
        do {(nb, outs, s, fd) \<leftarrow> akm_readEvents lib env cnt (devs c ! i) (akm_s c); Some (nb, outs, c\<lparr>akm_s := s, devs := (devs c)[i := fd]\<rparr>)}
      else
        do {(nb, outs, s, fd) \<leftarrow> gyro_readEvents env cnt (devs c ! i) (gyro_s c); Some (nb, outs, c\<lparr>gyro_s := s, devs := (devs c)[i := fd]\<rparr>)})"

datatype 'a poll_end = Returned 'a | Blocked | Overrun

record poll_state =
  ctx :: poll_context
  cells :: "sensors_event option list"
  data_pos :: int
  space :: int
  nbEvents :: int

text \<open>Writing events through a pointer.\<close>

definition write_events :: "int \<Rightarrow> sensors_event list \<Rightarrow> sensors_event option list \<Rightarrow> sensors_event option list option" where
  "write_events p outs arr = (if outs = [] then Some arr else if p < 0 then None else store_at (nat p) (map Some outs) arr)"

fun poll_scan :: "akm_library \<Rightarrow> sensor_env \<Rightarrow> nat list \<Rightarrow> poll_state \<Rightarrow> poll_state poll_end" where
  "poll_scan lib env [] x = Returned x"
| "poll_scan lib env (i # js) x =
     (if space x \<noteq> 0 then
        if ready (ctx x) ! i \<or> driver_pending i (ctx x) then
          (case driver_read lib env i (space x) (ctx x) of
             None \<Rightarrow> Blocked
           | Some (nb, outs, c) \<Rightarrow>
               (case write_events (data_pos x) outs (cells x) of
                  None \<Rightarrow> Overrun
                | Some arr \<Rightarrow>
                    poll_scan lib env js
                      (x\<lparr>ctx := (if nb < space x then c\<lparr>ready := (ready c)[i := False]\<rparr> else c), cells := arr,
                         data_pos := data_pos x + nb, space := space x - nb, nbEvents := nbEvents x + nb\<rparr>)))
        else poll_scan lib env js x
      else Returned x)"

datatype poll_result = PollFailed int | PollReady int "bool list" sensor_env

definition read_wake :: "poll_context \<Rightarrow> poll_context" where
  "read_wake c = (if ready c ! wake then c\<lparr>wake_pipe := wake_pipe c - 1, ready := (ready c)[wake := False]\<rparr> else c)"

fun poll_loop :: "akm_library \<Rightarrow> sensor_env \<Rightarrow> poll_result list \<Rightarrow> poll_state \<Rightarrow> (int \<times> poll_state) poll_end" where
  "poll_loop lib env answers x =
     (case poll_scan lib env [0..<numSensorDrivers] x of
        Overrun \<Rightarrow> Overrun
      | Blocked \<Rightarrow> Blocked
      | Returned x \<Rightarrow>
          if space x \<noteq> 0 then
            (case answers of
               [] \<Rightarrow> Blocked
             | PollFailed errno # answers \<Rightarrow> Returned (- errno, x)
             | PollReady n revents env # answers \<Rightarrow>
                 let x = x\<lparr>ctx := read_wake ((ctx x)\<lparr>ready := revents\<rparr>)\<rparr> in
                 if n \<noteq> 0 then poll_loop lib env answers x else Returned (nbEvents x, x))
          else Returned (nbEvents x, x))"

declare poll_loop.simps [simp del]

definition pollEvents ::
    "akm_library \<Rightarrow> sensor_env \<Rightarrow> poll_result list \<Rightarrow> sensors_event option list \<Rightarrow> int \<Rightarrow> poll_context \<Rightarrow> (int \<times> poll_state) poll_end" where
  "pollEvents lib env answers data cnt c =
     poll_loop lib env answers \<lparr>ctx = c, cells = data, data_pos = 0, space = cnt, nbEvents = 0\<rparr>"

section \<open>The drivers behind one interface\<close>

text \<open>A device whose reads all succeed and give whole events.\<close>

fun clean_read :: "read_result \<Rightarrow> bool" where
  "clean_read (ReadError e) = False"
| "clean_read (ReadEvents evs partial) = (\<not> partial)"

locale event_source =
  fixes ok :: "'s \<Rightarrow> bool" and clean :: "'f \<Rightarrow> bool" and read :: "'env \<Rightarrow> int \<Rightarrow> 'f \<Rightarrow> 's \<Rightarrow> (int \<times> 'e list \<times> 's \<times> 'f) option"
  assumes reads: "ok s \<Longrightarrow> clean f \<Longrightarrow> 1 \<le> cnt \<Longrightarrow> read env cnt f s = Some (nb, outs, s', f')
    \<Longrightarrow> ok s' \<and> clean f' \<and> 0 \<le> nb \<and> nb \<le> int (length outs) \<and> int (length outs) \<le> cnt"
begin

lemma stores:
  assumes "ok s" "clean f" "1 \<le> cnt" "read env cnt f s = Some (nb, outs, s', f')"
    and "0 \<le> p" "p + cnt = int (length arr)" "\<forall>i < nat p. arr ! i \<noteq> None"
  shows "\<exists>arr'. store_at (nat p) (map Some outs) arr = Some arr' \<and> length arr' = length arr \<and> (\<forall>i < nat (p + nb). arr' ! i \<noteq> None)"
proof -
  note r = reads [OF assms(1-4)]
  from r assms(5,6) have room: "nat p + length outs \<le> length arr" by linarith
  define arr' where "arr' = take (nat p) arr @ map Some outs @ drop (nat p + length outs) arr"
  have st: "store_at (nat p) (map Some outs) arr = Some arr'" using room by (simp add: store_at_def arr'_def)
  have "arr' ! i \<noteq> None" if "i < nat (p + nb)" for i
  proof (cases "i < nat p")
    case True
    with room assms(7) show ?thesis by (simp add: arr'_def nth_append)
  next
    case False
    have "i - nat p < length outs" using that r assms(5) False by linarith
    with False room show ?thesis by (simp add: arr'_def nth_append)
  qed
  moreover have "length arr' = length arr" using room by (simp add: arr'_def)
  ultimately show ?thesis using st by blast
qed

end

lemma kernel_read_clean:
  assumes "kernel_read n fd = Some (res, fd')" "list_all clean_read fd"
  shows "clean_read res" "list_all clean_read fd'"
  using assms by (cases "(n, fd)" rule: kernel_read.cases; auto split: if_splits)+

lemma fill_clean:
  assumes "fill fd r = Some (n, r', fd')" "ring_ok r" "list_all clean_read fd"
  shows "0 \<le> n \<and> ring_ok r' \<and> list_all clean_read fd'"
proof (cases "mFreeSpace r = 0")
  case True
  with assms show ?thesis by (auto simp: fill_full)
next
  case False
  then obtain res fd1 where k: "kernel_read (nat (mFreeSpace r)) fd = Some (res, fd1)"
    using assms(1) by (cases "kernel_read (nat (mFreeSpace r)) fd") (auto simp: fill_def)
  note c = kernel_read_clean [OF k assms(3)]
  then obtain evs where res: "res = ReadEvents evs False" by (cases res) auto
  from fill_events [OF assms(2) False k [unfolded res]] assms(1) c show ?thesis by auto
qed

text \<open>What the loop keeps of the caller's array.\<close>

definition fits :: "int \<Rightarrow> loop_state \<Rightarrow> bool" where
  "fits cnt l \<longleftrightarrow> 0 \<le> count l \<and> numEventReceived l = int (length (reported l)) \<and> count l + numEventReceived l \<le> cnt"

lemma drain_fits:
  assumes "drain sense keep enabled r l = Some (l', r')" "ring_ok r" "fits cnt l"
  shows "ring_ok r' \<and> fits cnt l'"
proof -
  have "fits cnt l'"
    by (rule read_loop_keeps [where I = "fits cnt", OF assms(1) [unfolded drain_def] assms(3)])
      (auto simp: fits_def input_body_def Let_def)
  with drain_consumes [OF assms(2), of sense keep enabled l] assms(1) show ?thesis by auto
qed

lemma input_readEvents_source:
  assumes "ring_ok (mInputReader s)" "list_all clean_read fd" "1 \<le> cnt" "input_readEvents sense env cnt fd s = Some (nb, outs, s', fd')"
  shows "ring_ok (mInputReader s') \<and> list_all clean_read fd' \<and> 0 \<le> nb \<and> nb \<le> int (length outs) \<and> int (length outs) \<le> cnt"
proof (cases "mHasPendingEvent s")
  case True
  with assms show ?thesis by (auto simp: input_readEvents_def Let_def split: if_splits)
next
  case False
  obtain n r1 fd1 where f: "fill fd (mInputReader s) = Some (n, r1, fd1)"
    using assms False by (cases "fill fd (mInputReader s)") (auto simp: input_readEvents_def)
  note c = fill_clean [OF f assms(1,2)]
  obtain l r2 where d: "drain sense (\<lambda>_. True) (mEnabled s \<noteq> 0) r1 \<lparr>pending = mPendingEvent s, reported = [], count = cnt, numEventReceived = 0\<rparr>
      = Some (l, r2)" "nb = numEventReceived l" "outs = reported l" "mInputReader s' = r2" "fd' = fd1"
    using assms False f c by (auto simp: input_readEvents_def Let_def bind_eq_Some_conv)
  have "ring_ok r2 \<and> fits cnt l" using drain_fits [OF d(1), of cnt] c assms(3) by (simp add: fits_def)
  with d c show ?thesis by (auto simp: fits_def)
qed

lemma gyro_again_fits:
  assumes "gyro_again enabled t fd r l = Some (l', r', fd')" "ring_ok r" "list_all clean_read fd" "fits cnt l"
  shows "ring_ok r' \<and> list_all clean_read fd' \<and> fits cnt l'"
  using assms
proof (induction enabled t fd r l arbitrary: l' r' fd' rule: gyro_again.induct)
  case (1 enabled t fd r l)
  obtain l1 r1 where d: "drain gyro_sense (\<lambda>p. t \<le> timestamp p) (enabled \<noteq> 0) r l = Some (l1, r1)"
    using "1.prems"(1) by (cases "drain gyro_sense (\<lambda>p. t \<le> timestamp p) (enabled \<noteq> 0) r l")
      (auto simp: gyro_again.simps [of enabled t fd r l])
  note w = drain_fits [OF d "1.prems"(2,4)]
  show ?case
  proof (cases "numEventReceived l1 = 0 \<and> enabled = 1")
    case False
    then have "l' = l1 \<and> r' = r1 \<and> fd' = fd" using "1.prems"(1) d by (auto simp: gyro_again.simps [of enabled t fd r l] split: if_splits)
    with w "1.prems" show ?thesis by simp
  next
    case True
    then obtain n r2 fd2 where f: "fill fd r1 = Some (n, r2, fd2)"
      using "1.prems"(1) d by (cases "fill fd r1") (auto simp: gyro_again.simps [of 1 t fd r l])
    have fc: "0 \<le> n \<and> ring_ok r2 \<and> list_all clean_read fd2" using fill_clean [OF f] w "1.prems"(3) by blast
    show ?thesis
    proof (cases "n = 0")
      case zero: True
      then have "l' = l1 \<and> r' = r2 \<and> fd' = fd2" using "1.prems"(1) d True f by (auto simp: gyro_again.simps [of 1 t fd r l])
      with fc w show ?thesis by simp
    next
      case n: False
      then have g: "gyro_again enabled t fd2 r2 l1 = Some (l', r', fd')"
        using "1.prems"(1) d True f by (auto simp: gyro_again.simps [of 1 t fd r l])
      from "1.IH" [OF d refl True f refl refl n g] fc w show ?thesis by blast
    qed
  qed
qed

lemma gyro_readEvents_source:
  assumes "ring_ok (mInputReader s)" "list_all clean_read fd" "1 \<le> cnt" "gyro_readEvents env cnt fd s = Some (nb, outs, s', fd')"
  shows "ring_ok (mInputReader s') \<and> list_all clean_read fd' \<and> 0 \<le> nb \<and> nb \<le> int (length outs) \<and> int (length outs) \<le> cnt"
proof (cases "mHasPendingEvent s")
  case True
  with assms show ?thesis by (auto simp: gyro_readEvents_def Let_def split: if_splits)
next
  case False
  obtain n r1 fd1 where f: "fill fd (mInputReader s) = Some (n, r1, fd1)"
    using assms False by (cases "fill fd (mInputReader s)") (auto simp: gyro_readEvents_def)
  note c = fill_clean [OF f assms(1,2)]
  obtain l r2 where d: "gyro_again (mEnabled s) (mEnabledTime s) fd1 r1 \<lparr>pending = mPendingEvent s, reported = [], count = cnt, numEventReceived = 0\<rparr>
      = Some (l, r2, fd')" "nb = numEventReceived l" "outs = reported l" "mInputReader s' = r2"
    using assms False f c by (auto simp: gyro_readEvents_def Let_def bind_eq_Some_conv)
  have "ring_ok r2 \<and> list_all clean_read fd' \<and> fits cnt l"
    using gyro_again_fits [OF d(1), of cnt] c assms(3) by (simp add: fits_def)
  with d show ?thesis by (auto simp: fits_def)
qed

lemma akm_readEvents_source:
  assumes "akm_usable (fst st)" "list_all clean_read fd" "1 \<le> cnt" "akm_readEvents lib env cnt fd st = Some (nb, outs, st', fd')"
  shows "akm_usable (fst st') \<and> list_all clean_read fd' \<and> 0 \<le> nb \<and> nb \<le> int (length outs) \<and> int (length outs) \<le> cnt"
proof -
  obtain s calls s' calls' where st: "st = (s, calls)" "st' = (s', calls')" by (cases st, cases st')
  have u: "ring_ok (akm_mInputReader s)" using assms(1) by (simp add: st akm_usable_def)
  obtain n r1 fd1 where f: "fill fd (akm_mInputReader s) = Some (n, r1, fd1)"
    using assms(3,4) by (cases "fill fd (akm_mInputReader s)") (auto simp: st akm_readEvents_def)
  note c = fill_clean [OF f u assms(2)]
  define x0 where "x0 = \<lparr>akm = s\<lparr>akm_mInputReader := r1\<rparr>, akm_calls = calls, akm_data = [], akm_count = cnt, akm_received = 0\<rparr>"
  have "run_ok cnt x0 \<and> mask_ok 0 (akm x0)" using assms(1,3) by (simp add: x0_def run_ok_def mask_ok_def akm_usable_def st)
  from akm_loop_returns [OF _ this, of r1 lib "now env"] c obtain x r2 where
    l: "read_loop (mBufferEnd r1 + 2) readEvent next_event (\<lambda>x. akm_count x \<noteq> 0) (akm_body lib (now env)) r1 x0 = Some (x, r2)"
      "ring_ok r2" "run_ok cnt x" "mask_ok 0 (akm x)"
    by blast
  have "nb = akm_received x \<and> outs = akm_data x \<and> s' = (akm x)\<lparr>akm_mInputReader := r2\<rparr> \<and> fd' = fd1"
    using assms(3,4) f c l(1) by (simp add: st akm_readEvents_def x0_def)
  with l c show ?thesis by (simp add: run_ok_def akm_usable_def mask_ok_def st)
qed

interpretation light: event_source "\<lambda>s. ring_ok (mInputReader s)" "list_all clean_read" light_readEvents
  by unfold_locales (rule input_readEvents_source, auto simp: light_readEvents_def)

interpretation proximity: event_source "\<lambda>s. ring_ok (mInputReader s)" "list_all clean_read" proximity_readEvents
  by unfold_locales (rule input_readEvents_source, auto simp: proximity_readEvents_def)

interpretation akm_driver: event_source "\<lambda>st. akm_usable (fst st)" "list_all clean_read" "akm_readEvents lib" for lib
  by unfold_locales (rule akm_readEvents_source)

interpretation gyro: event_source "\<lambda>s. ring_ok (mInputReader s)" "list_all clean_read" gyro_readEvents
  by unfold_locales (rule gyro_readEvents_source)

section \<open>Polling keeps to the caller's array\<close>

definition ctx_ok :: "poll_context \<Rightarrow> bool" where
  "ctx_ok c \<longleftrightarrow> ring_ok (mInputReader (light_s c)) \<and> ring_ok (mInputReader (proximity_s c)) \<and> akm_usable (fst (akm_s c))
     \<and> ring_ok (mInputReader (gyro_s c)) \<and> length (devs c) = numSensorDrivers \<and> list_all (list_all clean_read) (devs c)"

definition poll_ok :: "nat \<Rightarrow> poll_state \<Rightarrow> bool" where
  "poll_ok n x \<longleftrightarrow> ctx_ok (ctx x) \<and> 0 \<le> data_pos x \<and> 0 \<le> space x \<and> data_pos x + space x = int n \<and> length (cells x) = n
     \<and> nbEvents x = data_pos x \<and> (\<forall>i < nat (data_pos x). cells x ! i \<noteq> None)"

lemma devs_update:
  "list_all (list_all clean_read) ds \<Longrightarrow> list_all clean_read fd \<Longrightarrow> list_all (list_all clean_read) (ds[i := fd])"
  by (auto simp: list_all_iff dest!: set_update_subset_insert [THEN subsetD])

lemma driver_read_stores:
  assumes "ctx_ok c" "i < numSensorDrivers" "1 \<le> cnt" "driver_read lib env i cnt c = Some (nb, outs, c')"
    and "0 \<le> p" "p + cnt = int (length arr)" "\<forall>i < nat p. arr ! i \<noteq> None"
  shows "ctx_ok c' \<and> 0 \<le> nb \<and> nb \<le> cnt
    \<and> (\<exists>arr'. write_events p outs arr = Some arr' \<and> length arr' = length arr \<and> (\<forall>i < nat (p + nb). arr' ! i \<noteq> None))"
proof -
  have fd: "list_all clean_read (devs c ! i)" using assms(1,2) by (simp add: ctx_ok_def list_all_length)
  have out: "write_events p outs arr = (if outs = [] then Some arr else store_at (nat p) (map Some outs) arr)"
    using assms(5) by (simp add: write_events_def)
  have none: "store_at (nat p) (map Some []) arr = Some arr" using assms(3,5,6) by (simp add: store_at_def)
  have w: "write_events p outs arr = store_at (nat p) (map Some outs) arr" using out none by auto
  consider "i = light_drv" | "i = proximity_drv" | "i = akm_drv" | "i = gyro_drv" "i \<noteq> light_drv" "i \<noteq> proximity_drv" "i \<noteq> akm_drv"
    using assms(2) by (auto simp: numSensorDrivers_def light_drv_def proximity_drv_def akm_drv_def gyro_drv_def less_Suc_eq numeral_eq_Suc)
  then show ?thesis
  proof cases
    case 1
    obtain s fd' where r: "light_readEvents env cnt (devs c ! i) (light_s c) = Some (nb, outs, s, fd')"
      "c' = c\<lparr>light_s := s, devs := (devs c)[i := fd']\<rparr>"
      using assms(4) by (auto simp: driver_read_def 1 bind_eq_Some_conv)
    have ok: "ring_ok (mInputReader (light_s c))" using assms(1) by (simp add: ctx_ok_def)
    note rd = light.reads [OF ok fd assms(3) r(1)] and st = light.stores [OF ok fd assms(3) r(1) assms(5-7)]
    have "ctx_ok c'" using assms(1) rd devs_update by (simp add: ctx_ok_def r(2))
    with rd st show ?thesis unfolding w by simp
  next
    case 2
    obtain s fd' where r: "proximity_readEvents env cnt (devs c ! i) (proximity_s c) = Some (nb, outs, s, fd')"
      "c' = c\<lparr>proximity_s := s, devs := (devs c)[i := fd']\<rparr>"
      using assms(4) by (auto simp: driver_read_def 2 light_drv_def proximity_drv_def bind_eq_Some_conv)
    have ok: "ring_ok (mInputReader (proximity_s c))" using assms(1) by (simp add: ctx_ok_def)
    note rd = proximity.reads [OF ok fd assms(3) r(1)] and st = proximity.stores [OF ok fd assms(3) r(1) assms(5-7)]
    have "ctx_ok c'" using assms(1) rd devs_update by (simp add: ctx_ok_def r(2))
    with rd st show ?thesis unfolding w by simp
  next
    case 3
    obtain s fd' where r: "akm_readEvents lib env cnt (devs c ! i) (akm_s c) = Some (nb, outs, s, fd')"
      "c' = c\<lparr>akm_s := s, devs := (devs c)[i := fd']\<rparr>"
      using assms(4) by (auto simp: driver_read_def 3 light_drv_def proximity_drv_def akm_drv_def bind_eq_Some_conv)
    have ok: "akm_usable (fst (akm_s c))" using assms(1) by (simp add: ctx_ok_def)
    note rd = akm_driver.reads [OF ok fd assms(3) r(1)] and st = akm_driver.stores [OF ok fd assms(3) r(1) assms(5-7)]
    have "ctx_ok c'" using assms(1) rd devs_update by (simp add: ctx_ok_def r(2))
    with rd st show ?thesis unfolding w by simp
  next
    case 4
    obtain s fd' where r: "gyro_readEvents env cnt (devs c ! i) (gyro_s c) = Some (nb, outs, s, fd')"
      "c' = c\<lparr>gyro_s := s, devs := (devs c)[i := fd']\<rparr>"
      using assms(4) 4(2-4) by (auto simp: driver_read_def bind_eq_Some_conv)
    have ok: "ring_ok (mInputReader (gyro_s c))" using assms(1) by (simp add: ctx_ok_def)
    note rd = gyro.reads [OF ok fd assms(3) r(1)] and st = gyro.stores [OF ok fd assms(3) r(1) assms(5-7)]
    have "ctx_ok c'" using assms(1) rd devs_update by (simp add: ctx_ok_def r(2))
    with rd st show ?thesis unfolding w by simp
  qed
qed

lemma ctx_ok_ready [simp]: "ctx_ok (c\<lparr>ready := bs\<rparr>) = ctx_ok c" "ctx_ok (c\<lparr>wake_pipe := n\<rparr>) = ctx_ok c"
  by (simp_all add: ctx_ok_def)

lemma poll_scan_ok:
  assumes "poll_ok n x" "\<forall>i \<in> set js. i < numSensorDrivers"
  shows "case poll_scan lib env js x of Overrun \<Rightarrow> False | Blocked \<Rightarrow> True | Returned x' \<Rightarrow> poll_ok n x'"
  using assms
proof (induction js arbitrary: x)
  case Nil
  then show ?case by simp
next
  case (Cons i js)
  show ?case
  proof (cases "space x \<noteq> 0 \<and> (ready (ctx x) ! i \<or> driver_pending i (ctx x))")
    case False
    with Cons show ?thesis by auto
  next
    case True
    show ?thesis
    proof (cases "driver_read lib env i (space x) (ctx x)")
      case None
      with True show ?thesis by simp
    next
      case (Some y)
      obtain nb outs c where y: "y = (nb, outs, c)" by (cases y)
      have sp: "1 \<le> space x" using True Cons.prems(1) by (auto simp: poll_ok_def)
      have p: "ctx_ok (ctx x)" "0 \<le> data_pos x" "data_pos x + space x = int (length (cells x))" "\<forall>i < nat (data_pos x). cells x ! i \<noteq> None"
        "length (cells x) = n" "nbEvents x = data_pos x"
        using Cons.prems(1) by (simp_all add: poll_ok_def)
      have i: "i < numSensorDrivers" using Cons.prems(2) by simp
      from driver_read_stores [OF p(1) i sp Some [unfolded y] p(2-4)] obtain arr where
        a: "ctx_ok c" "0 \<le> nb" "nb \<le> space x" "write_events (data_pos x) outs (cells x) = Some arr" "length arr = length (cells x)"
          "\<forall>i < nat (data_pos x + nb). arr ! i \<noteq> None"
        by blast
      have "poll_ok n (x\<lparr>ctx := (if nb < space x then c\<lparr>ready := (ready c)[i := False]\<rparr> else c), cells := arr,
                         data_pos := data_pos x + nb, space := space x - nb, nbEvents := nbEvents x + nb\<rparr>)"
        using a p by (simp add: poll_ok_def)
      from Cons.IH [OF this] Cons.prems(2) True Some y a(4) show ?thesis by simp
    qed
  qed
qed

lemma poll_loop_ok:
  assumes "poll_ok n x"
  shows "case poll_loop lib env answers x of Overrun \<Rightarrow> False | Blocked \<Rightarrow> True
    | Returned (ret, x') \<Rightarrow> poll_ok n x' \<and> (ret = nbEvents x' \<or> (\<exists>errno. PollFailed errno \<in> set answers \<and> ret = - errno))"
  using assms
proof (induction answers arbitrary: x env)
  case Nil
  have "case poll_scan lib env [0..<numSensorDrivers] x of Overrun \<Rightarrow> False | Blocked \<Rightarrow> True | Returned x' \<Rightarrow> poll_ok n x'"
    by (rule poll_scan_ok) (use Nil in simp_all)
  then show ?case by (auto simp: poll_loop.simps [of lib env "[]"] split: poll_end.splits)
next
  case (Cons answer answers)
  have scan: "case poll_scan lib env [0..<numSensorDrivers] x of Overrun \<Rightarrow> False | Blocked \<Rightarrow> True | Returned x' \<Rightarrow> poll_ok n x'"
    by (rule poll_scan_ok) (use Cons.prems in simp_all)
  show ?case
  proof (cases "poll_scan lib env [0..<numSensorDrivers] x")
    case (Returned x1)
    have ok: "poll_ok n x1" using scan Returned by simp
    show ?thesis
    proof (cases answer)
      case (PollFailed e)
      with Returned ok show ?thesis by (auto simp: poll_loop.simps [of lib env "PollFailed e # answers"])
    next
      case (PollReady k revents env')
      define x2 where "x2 = x1\<lparr>ctx := read_wake ((ctx x1)\<lparr>ready := revents\<rparr>)\<rparr>"
      have ok2: "poll_ok n x2" using ok by (simp add: x2_def poll_ok_def read_wake_def)
      have "poll_loop lib env (answer # answers) x =
          (if space x1 \<noteq> 0 then if k \<noteq> 0 then poll_loop lib env' answers x2 else Returned (nbEvents x2, x2) else Returned (nbEvents x1, x1))"
        unfolding PollReady using Returned by (simp add: poll_loop.simps [of lib env "PollReady k revents env' # answers"] x2_def Let_def)
      with Cons.IH [OF ok2, of env'] ok ok2 show ?thesis
        by (auto split: poll_end.splits)
    qed
  qed (use scan in \<open>simp_all add: poll_loop.simps [of lib env "answer # answers"]\<close>)
qed



definition demo_ctx :: "read_result list list \<Rightarrow> bool list \<Rightarrow> poll_context" where
  "demo_ctx ds bits =
     \<lparr>light_s = sensor0 (blank_event 3 5), proximity_s = sensor0 (blank_event 4 8),
      akm_s = newAkmSensor still_env (Some still_lib) None (replicate 64 (event0 0 0 0)) [], gyro_s = sensor0 (blank_event 5 4),
      devs = ds, poll_fds = [5, 6, 7, 8], ready = bits, wake_pipe = 0, sys_files = []\<rparr>"

lemma poll_example:
  "(case pollEvents still_lib still_env [PollReady 0 [False, False, False, False, False] still_env] [None, None, None] 3
      (demo_ctx [[ReadEvents [event0 3 0x28 500, event0 0 0 0] False], [], [], []] [True, False, False, False, False]) of
    Returned (ret, x) \<Rightarrow> ret = 1 | _ \<Rightarrow> False)"
  by code_simp

lemma demo_ctx_ok: "length ds = 4 \<Longrightarrow> list_all (list_all clean_read) ds \<Longrightarrow> ctx_ok (demo_ctx ds bits)"
proof -
  assume ds: "length ds = 4" "list_all (list_all clean_read) ds"
  have r: "ring_ok (newReader 4 (replicate 8 (event0 0 0 0)))" "ring_ok (newReader 32 (replicate 64 (event0 0 0 0)))"
    using ring_new by simp_all
  have "akm_usable (fst (newAkmSensor still_env (Some still_lib) None (replicate 64 (event0 0 0 0)) []))"
    using r(2) by (simp add: newAkmSensor_def loadAKMLibrary_def still_lib_def akm_usable_def mask_ok_def)
  with ds r(1) show ?thesis by (simp add: ctx_ok_def demo_ctx_def sensor0_def numSensorDrivers_def)
qed


section \<open>What goes wrong\<close>

text \<open>The error of a read is taken for a number of events: the pointer moves in front of the array, and the next report is written
  there.\<close>

lemma read_error_overruns:
  "pollEvents still_lib still_env [] [None, None, None] 3
      (demo_ctx [[ReadError 19], [ReadEvents [event0 3 0x19 1, event0 0 0 0] False], [], []] [True, True, False, False, False]) = Overrun"
  by code_simp

text \<open>Events that have been written are lost to the framework if \<open>poll\<close> then fails.\<close>

lemma poll_error_loses:
  "(case pollEvents still_lib still_env [PollFailed 4] [None, None, None] 3
      (demo_ctx [[ReadEvents [event0 3 0x28 500, event0 0 0 0] False], [], [], []] [True, False, False, False, False]) of
    Returned (ret, x) \<Rightarrow> ret = - 4 \<and> nbEvents x = 1 \<and> devs (ctx x) ! 0 = [] | _ \<Rightarrow> False)"
  by code_simp

section \<open>Routing\<close>

text \<open>Every sensor of the list has a driver, which takes its handle, and other handles are refused.\<close>

lemma listed_sensors_routed:
  "map (\<lambda>s. handleToDriver (handle s)) sSensorList = [2, 2, 2, 0, 1, 3, 2]"
  "list_all (\<lambda>s. handleToDriver (handle s) = 2 \<longrightarrow> akm_what (handle s) \<noteq> None) sSensorList"
  by (simp_all add: sSensorList_def handleToDriver_def akm_consts ID_L_def ID_P_def ID_GY_def light_drv_def proximity_drv_def
      akm_drv_def gyro_drv_def akm_what_def)

lemma unknown_handle:
  assumes "h \<notin> set (map handle sSensorList)"
  shows "sensors_activate lib env h en c = (- EINVAL, c)" "sensors_setDelay app_set_delay env h ns c = Some (- EINVAL, c)"
  using assms
  by (simp_all add: sensors_activate_def sensors_setDelay_def handleToDriver_def sSensorList_def akm_consts ID_L_def ID_P_def
      ID_GY_def EINVAL_def)

end
