(* ===== verification/Loc_Log.thy ===== *)
theory Loc_Log
  imports Printf
begin

text \<open>
  Logging in the GPS library: the names of values (\<open>gps/utils/loc_log.cpp\<close>, \<open>loc_eng_log.cpp\<close>), the identifiers of the messages
  (\<open>loc_eng_msg_id.h\<close>), time stamps, and which messages a debug level lets through (\<open>log_util.h\<close>).

  \<^item> A table is a list of names with their values. A macro or enumerator has the value that its header gives it.
  \<^item> The clock and the local time are parameters; the seconds of the clock are not negative.
\<close>

unbundle bit_operations_syntax

type_synonym loc_name_val = "string \<times> int"

definition UNKNOWN_STR :: string where "UNKNOWN_STR = ''UNKNOWN''"

section \<open>Finding names\<close>

fun find_mask :: "int \<Rightarrow> loc_name_val list \<Rightarrow> string" where
  "find_mask mask_value [] = UNKNOWN_STR"
| "find_mask mask_value ((name, val) # t) =
     (if (word_of_int val AND word_of_int mask_value :: 32 word) \<noteq> 0 then name else find_mask mask_value t)"

definition loc_get_name_from_mask :: "loc_name_val list \<Rightarrow> nat \<Rightarrow> int \<Rightarrow> string" where
  "loc_get_name_from_mask table table_size mask_value = find_mask mask_value (take table_size table)"

fun find_val :: "int \<Rightarrow> loc_name_val list \<Rightarrow> string" where
  "find_val value [] = UNKNOWN_STR"
| "find_val value ((name, val) # t) = (if val = value then name else find_val value t)"

definition loc_get_name_from_val :: "loc_name_val list \<Rightarrow> nat \<Rightarrow> int \<Rightarrow> string" where
  "loc_get_name_from_val table table_size value = find_val value (take table_size table)"

definition loc_msg_q_status :: "loc_name_val list" where
  "loc_msg_q_status = [
      (''eMSG_Q_SUCCESS'', 0), (''eMSG_Q_FAILURE_GENERAL'', - 1), (''eMSG_Q_INVALID_PARAMETER'', - 2),
      (''eMSG_Q_INVALID_HANDLE'', - 3), (''eMSG_Q_UNAVAILABLE_RESOURCE'', - 4), (''eMSG_Q_INSUFFICIENT_BUFFER'', - 5)]"

definition loc_get_msg_q_status :: "int \<Rightarrow> string" where
  "loc_get_msg_q_status status = loc_get_name_from_val loc_msg_q_status (length loc_msg_q_status) status"

definition log_succ_fail_string :: "int \<Rightarrow> string" where
  "log_succ_fail_string is_succ = (if is_succ \<noteq> 0 then ''successful'' else ''failed'')"

section \<open>The tables\<close>

text \<open>The enumerators of a C enumeration from a given value on.\<close>

fun enum_from :: "int \<Rightarrow> string list \<Rightarrow> (string \<times> int) list" where
  "enum_from v [] = []"
| "enum_from v (n # ns) = (n, v) # enum_from (v + 1) ns"

definition loc_eng_msg_ids_t :: "(string \<times> int) list" where
  "loc_eng_msg_ids_t =
     enum_from 0x200 [
        ''LOC_ENG_MSG_QUIT'', ''LOC_ENG_MSG_ENGINE_DOWN'', ''LOC_ENG_MSG_ENGINE_UP'', ''LOC_ENG_MSG_START_FIX'',
        ''LOC_ENG_MSG_STOP_FIX'', ''LOC_ENG_MSG_SET_POSITION_MODE'', ''LOC_ENG_MSG_SET_TIME'',
        ''LOC_ENG_MSG_INJECT_XTRA_DATA'', ''LOC_ENG_MSG_INJECT_LOCATION'', ''LOC_ENG_MSG_DELETE_AIDING_DATA'',
        ''LOC_ENG_MSG_SET_APN'', ''LOC_ENG_MSG_SET_SERVER_URL'', ''LOC_ENG_MSG_SET_SERVER_IPV4'', ''LOC_ENG_MSG_ENABLE_DATA'',
        ''LOC_ENG_MSG_SUPL_VERSION'', ''LOC_ENG_MSG_SET_SENSOR_CONTROL_CONFIG'', ''LOC_ENG_MSG_SET_SENSOR_PROPERTIES'',
        ''LOC_ENG_MSG_SET_SENSOR_PERF_CONTROL_CONFIG'', ''LOC_ENG_MSG_MUTE_SESSION'', ''LOC_ENG_MSG_ATL_OPEN_SUCCESS'',
        ''LOC_ENG_MSG_ATL_CLOSED'', ''LOC_ENG_MSG_ATL_OPEN_FAILED'', ''LOC_ENG_MSG_REPORT_POSITION'',
        ''LOC_ENG_MSG_REPORT_SV'', ''LOC_ENG_MSG_REPORT_STATUS'', ''LOC_ENG_MSG_REPORT_NMEA'', ''LOC_ENG_MSG_REQUEST_ATL'',
        ''LOC_ENG_MSG_RELEASE_ATL'', ''LOC_ENG_MSG_REQUEST_BIT'', ''LOC_ENG_MSG_RELEASE_BIT'', ''LOC_ENG_MSG_REQUEST_WIFI'',
        ''LOC_ENG_MSG_RELEASE_WIFI'', ''LOC_ENG_MSG_REQUEST_NI'', ''LOC_ENG_MSG_INFORM_NI_RESPONSE'',
        ''LOC_ENG_MSG_REQUEST_XTRA_DATA'', ''LOC_ENG_MSG_REQUEST_TIME'', ''LOC_ENG_MSG_EXT_POWER_CONFIG'',
        ''LOC_ENG_MSG_REQUEST_POSITION'', ''LOC_ENG_MSG_REQUEST_PHONE_CONTEXT'', ''LOC_ENG_MSG_REQUEST_NETWORK_POSIITON''] @
     enum_from 0x600 [
        ''ULP_MSG_UPDATE_CRITERIA'', ''ULP_MSG_START_FIX'', ''ULP_MSG_STOP_FIX'', ''ULP_MSG_INJECT_PHONE_CONTEXT_SETTINGS'',
        ''ULP_MSG_INJECT_NETWORK_POSITION'', ''ULP_MSG_REPORT_QUIPC_POSITION'', ''ULP_MSG_REQUEST_COARSE_POSITION'',
        ''ULP_MSG_MONITOR''] @
     enum_from 0x700 [
        ''ULP_MSG_LAST'', ''LOC_ENG_MSG_LPP_CONFIG'', ''LOC_ENG_MSG_AGPS_MODE'', ''LOC_ENG_MSG_XTRA_ENABLE'',
        ''LOC_ENG_MSG_GLONASS_CONTROL'', ''LOC_ENG_MSG_USE_SSL'', ''LOC_ENG_MSG_CERT_TYPE'', ''ULP_MSG_INJECT_RAW_COMMAND'']"

definition gps_status_name :: "loc_name_val list" where
  "gps_status_name = [
      (''GPS_STATUS_NONE'', 0), (''GPS_STATUS_SESSION_BEGIN'', 1), (''GPS_STATUS_SESSION_END'', 2),
      (''GPS_STATUS_ENGINE_ON'', 3), (''GPS_STATUS_ENGINE_OFF'', 4)]"

definition loc_eng_msgs :: "loc_name_val list" where
  "loc_eng_msgs = map (\<lambda>n. (n, the (map_of loc_eng_msg_ids_t n))) [
      ''LOC_ENG_MSG_QUIT'', ''LOC_ENG_MSG_ENGINE_DOWN'', ''LOC_ENG_MSG_ENGINE_UP'', ''LOC_ENG_MSG_START_FIX'',
      ''LOC_ENG_MSG_STOP_FIX'', ''LOC_ENG_MSG_SET_POSITION_MODE'', ''LOC_ENG_MSG_SET_TIME'', ''LOC_ENG_MSG_INJECT_XTRA_DATA'',
      ''LOC_ENG_MSG_INJECT_LOCATION'', ''LOC_ENG_MSG_DELETE_AIDING_DATA'', ''LOC_ENG_MSG_SET_APN'',
      ''LOC_ENG_MSG_SET_SERVER_URL'', ''LOC_ENG_MSG_SET_SERVER_IPV4'', ''LOC_ENG_MSG_ENABLE_DATA'',
      ''LOC_ENG_MSG_SUPL_VERSION'', ''LOC_ENG_MSG_SET_SENSOR_CONTROL_CONFIG'', ''LOC_ENG_MSG_SET_SENSOR_PROPERTIES'',
      ''LOC_ENG_MSG_SET_SENSOR_PERF_CONTROL_CONFIG'', ''LOC_ENG_MSG_MUTE_SESSION'', ''LOC_ENG_MSG_ATL_OPEN_SUCCESS'',
      ''LOC_ENG_MSG_ATL_CLOSED'', ''LOC_ENG_MSG_ATL_OPEN_FAILED'', ''LOC_ENG_MSG_REPORT_POSITION'', ''LOC_ENG_MSG_REPORT_SV'',
      ''LOC_ENG_MSG_REPORT_STATUS'', ''LOC_ENG_MSG_REPORT_NMEA'', ''LOC_ENG_MSG_REQUEST_ATL'', ''LOC_ENG_MSG_RELEASE_ATL'',
      ''LOC_ENG_MSG_REQUEST_BIT'', ''LOC_ENG_MSG_RELEASE_BIT'', ''LOC_ENG_MSG_REQUEST_WIFI'', ''LOC_ENG_MSG_RELEASE_WIFI'',
      ''LOC_ENG_MSG_REQUEST_NI'', ''LOC_ENG_MSG_INFORM_NI_RESPONSE'', ''LOC_ENG_MSG_REQUEST_XTRA_DATA'',
      ''LOC_ENG_MSG_REQUEST_TIME'', ''LOC_ENG_MSG_EXT_POWER_CONFIG'', ''LOC_ENG_MSG_REQUEST_POSITION'',
      ''LOC_ENG_MSG_REQUEST_PHONE_CONTEXT'', ''LOC_ENG_MSG_REQUEST_NETWORK_POSIITON'', ''ULP_MSG_UPDATE_CRITERIA'',
      ''ULP_MSG_START_FIX'', ''ULP_MSG_STOP_FIX'', ''ULP_MSG_INJECT_PHONE_CONTEXT_SETTINGS'',
      ''ULP_MSG_INJECT_NETWORK_POSITION'', ''ULP_MSG_REPORT_QUIPC_POSITION'', ''ULP_MSG_REQUEST_COARSE_POSITION'',
      ''LOC_ENG_MSG_LPP_CONFIG'']"

definition loc_eng_position_modes :: "loc_name_val list" where
  "loc_eng_position_modes = [
      (''LOC_POSITION_MODE_STANDALONE'', 0), (''LOC_POSITION_MODE_MS_BASED'', 1), (''LOC_POSITION_MODE_MS_ASSISTED'', 2),
      (''LOC_POSITION_MODE_RESERVED_1'', 3), (''LOC_POSITION_MODE_RESERVED_2'', 4), (''LOC_POSITION_MODE_RESERVED_3'', 5),
      (''LOC_POSITION_MODE_RESERVED_4'', 6), (''LOC_POSITION_MODE_RESERVED_5'', 7)]"

definition loc_eng_position_recurrences :: "loc_name_val list" where
  "loc_eng_position_recurrences = [
      (''GPS_POSITION_RECURRENCE_PERIODIC'', 0), (''GPS_POSITION_RECURRENCE_SINGLE'', 1)]"

definition loc_eng_aiding_data_bits :: "loc_name_val list" where
  "loc_eng_aiding_data_bits = [
      (''GPS_DELETE_EPHEMERIS'', 0x0001), (''GPS_DELETE_ALMANAC'', 0x0002), (''GPS_DELETE_POSITION'', 0x0004),
      (''GPS_DELETE_TIME'', 0x0008), (''GPS_DELETE_IONO'', 0x0010), (''GPS_DELETE_UTC'', 0x0020),
      (''GPS_DELETE_HEALTH'', 0x0040), (''GPS_DELETE_SVDIR'', 0x0080), (''GPS_DELETE_SVSTEER'', 0x0100),
      (''GPS_DELETE_SADATA'', 0x0200), (''GPS_DELETE_RTI'', 0x0400), (''GPS_DELETE_CELLDB_INFO'', 0x8000)]"

definition loc_eng_agps_types :: "loc_name_val list" where
  "loc_eng_agps_types = [
      (''AGPS_TYPE_INVALID'', - 1), (''AGPS_TYPE_ANY'', 0), (''AGPS_TYPE_SUPL'', 1), (''AGPS_TYPE_C2K'', 2),
      (''AGPS_TYPE_WWAN_ANY'', 3)]"

definition loc_eng_ni_types :: "loc_name_val list" where
  "loc_eng_ni_types = [
      (''GPS_NI_TYPE_VOICE'', 1), (''GPS_NI_TYPE_UMTS_SUPL'', 2), (''GPS_NI_TYPE_UMTS_CTRL_PLANE'', 3)]"

definition loc_eng_ni_responses :: "loc_name_val list" where
  "loc_eng_ni_responses = [
      (''GPS_NI_RESPONSE_ACCEPT'', 1), (''GPS_NI_RESPONSE_DENY'', 2), (''GPS_NI_RESPONSE_DENY'', 2)]"

definition loc_eng_ni_encodings :: "loc_name_val list" where
  "loc_eng_ni_encodings = [
      (''GPS_ENC_NONE'', 0), (''GPS_ENC_SUPL_GSM_DEFAULT'', 1), (''GPS_ENC_SUPL_UTF8'', 2), (''GPS_ENC_SUPL_UCS2'', 3),
      (''GPS_ENC_UNKNOWN'', - 1)]"

definition loc_eng_agps_bears :: "loc_name_val list" where
  "loc_eng_agps_bears = [
      (''AGPS_APN_BEARER_INVALID'', - 1), (''AGPS_APN_BEARER_IPV4'', 0), (''AGPS_APN_BEARER_IPV4'', 0),
      (''AGPS_APN_BEARER_IPV4V6'', 2)]"

definition loc_eng_server_types :: "loc_name_val list" where
  "loc_eng_server_types = [
      (''LOC_AGPS_CDMA_PDE_SERVER'', 0), (''LOC_AGPS_CUSTOM_PDE_SERVER'', 1), (''LOC_AGPS_MPC_SERVER'', 2),
      (''LOC_AGPS_SUPL_SERVER'', 3)]"

definition loc_eng_position_sess_status_types :: "loc_name_val list" where
  "loc_eng_position_sess_status_types = [
      (''LOC_SESS_SUCCESS'', 0), (''LOC_SESS_INTERMEDIATE'', 1), (''LOC_SESS_FAILURE'', 2)]"

definition loc_eng_agps_status_names :: "loc_name_val list" where
  "loc_eng_agps_status_names = [
      (''GPS_REQUEST_AGPS_DATA_CONN'', 1), (''GPS_RELEASE_AGPS_DATA_CONN'', 2), (''GPS_AGPS_DATA_CONNECTED'', 3),
      (''GPS_AGPS_DATA_CONN_DONE'', 4), (''GPS_AGPS_DATA_CONN_FAILED'', 5)]"

definition loc_get_gps_status_name :: "int \<Rightarrow> string" where
  "loc_get_gps_status_name v = loc_get_name_from_val gps_status_name (length gps_status_name) v"

definition loc_get_msg_name :: "int \<Rightarrow> string" where
  "loc_get_msg_name v = loc_get_name_from_val loc_eng_msgs (length loc_eng_msgs) v"

definition loc_get_position_mode_name :: "int \<Rightarrow> string" where
  "loc_get_position_mode_name v = loc_get_name_from_val loc_eng_position_modes (length loc_eng_position_modes) v"

definition loc_get_position_recurrence_name :: "int \<Rightarrow> string" where
  "loc_get_position_recurrence_name v = loc_get_name_from_val loc_eng_position_recurrences (length loc_eng_position_recurrences) v"

definition loc_get_aiding_data_mask_names :: "int \<Rightarrow> string option" where
  "loc_get_aiding_data_mask_names data = None"

definition loc_get_agps_type_name :: "int \<Rightarrow> string" where
  "loc_get_agps_type_name v = loc_get_name_from_val loc_eng_agps_types (length loc_eng_agps_types) v"

definition loc_get_ni_type_name :: "int \<Rightarrow> string" where
  "loc_get_ni_type_name v = loc_get_name_from_val loc_eng_ni_types (length loc_eng_ni_types) v"

definition loc_get_ni_response_name :: "int \<Rightarrow> string" where
  "loc_get_ni_response_name v = loc_get_name_from_val loc_eng_ni_responses (length loc_eng_ni_responses) v"

definition loc_get_ni_encoding_name :: "int \<Rightarrow> string" where
  "loc_get_ni_encoding_name v = loc_get_name_from_val loc_eng_ni_encodings (length loc_eng_ni_encodings) v"

definition loc_get_agps_bear_name :: "int \<Rightarrow> string" where
  "loc_get_agps_bear_name v = loc_get_name_from_val loc_eng_agps_bears (length loc_eng_agps_bears) v"

definition loc_get_server_type_name :: "int \<Rightarrow> string" where
  "loc_get_server_type_name v = loc_get_name_from_val loc_eng_server_types (length loc_eng_server_types) v"

definition loc_get_position_sess_status_name :: "int \<Rightarrow> string" where
  "loc_get_position_sess_status_name v = 
     loc_get_name_from_val loc_eng_position_sess_status_types (length loc_eng_position_sess_status_types) v"

definition loc_get_agps_status_name :: "int \<Rightarrow> string" where
  "loc_get_agps_status_name v = loc_get_name_from_val loc_eng_agps_status_names (length loc_eng_agps_status_names) v"

section \<open>Time stamps and levels\<close>

definition loc_get_time :: "string \<Rightarrow> nat \<Rightarrow> nat \<Rightarrow> string \<Rightarrow> string option" where
  "loc_get_time hms_string usec buf_size time_string =
     snprintf 0 buf_size (hms_string @ ''.'' @ fmt_0d 3 (int (usec div 1000))) time_string"

definition stamp_text :: "nat \<Rightarrow> nat \<Rightarrow> string" where
  "stamp_text sec usec =
     (let hh = sec div 3600 mod 24; mm = sec mod 3600 div 60; ss = sec mod 60
      in fmt_0d 2 (int hh) @ '':'' @ fmt_0d 2 (int mm) @ '':'' @ fmt_0d 2 (int ss) @ ''.'' @ fmt_0d 6 (int usec))"

definition get_timestamp :: "nat \<Rightarrow> nat \<Rightarrow> string \<Rightarrow> nat \<Rightarrow> string option" where
  "get_timestamp sec usec str buf_size = snprintf 0 buf_size (stamp_text sec usec) str"

record loc_logger_s =
  DEBUG_LEVEL :: "32 word"
  TIMESTAMP :: "32 word"

text \<open>The priority that the Android log is given, with the tag in front of the text; \<open>None\<close> if nothing is printed.\<close>

datatype log_priority = ALOGE | ALOGW | ALOGI | ALOGD | ALOGV

definition LOC_LOGE :: "loc_logger_s \<Rightarrow> (log_priority \<times> string) option" where
  "LOC_LOGE l = Some (ALOGE, ''E/'')"

definition LOC_LOGW :: "loc_logger_s \<Rightarrow> (log_priority \<times> string) option" where
  "LOC_LOGW l = (if 2 \<le> DEBUG_LEVEL l then Some (ALOGE, ''W/'') else if DEBUG_LEVEL l \<le> 0 then Some (ALOGW, ''W/'') else None)"

definition LOC_LOGI :: "loc_logger_s \<Rightarrow> (log_priority \<times> string) option" where
  "LOC_LOGI l = (if 3 \<le> DEBUG_LEVEL l then Some (ALOGE, ''I/'') else if DEBUG_LEVEL l \<le> 0 then Some (ALOGI, ''W/'') else None)"

definition LOC_LOGD :: "loc_logger_s \<Rightarrow> (log_priority \<times> string) option" where
  "LOC_LOGD l = (if 4 \<le> DEBUG_LEVEL l then Some (ALOGE, ''D/'') else if DEBUG_LEVEL l \<le> 0 then Some (ALOGD, ''W/'') else None)"

definition LOC_LOGV :: "loc_logger_s \<Rightarrow> (log_priority \<times> string) option" where
  "LOC_LOGV l = (if 5 \<le> DEBUG_LEVEL l then Some (ALOGE, ''V/'') else if DEBUG_LEVEL l \<le> 0 then Some (ALOGV, ''W/'') else None)"

text \<open>The text of the call flow messages, given the text of the value; \<open>junk\<close> is what is in the buffer for the time stamp.\<close>

definition LOG_text :: "loc_logger_s \<Rightarrow> nat \<Rightarrow> nat \<Rightarrow> string \<Rightarrow> string \<Rightarrow> string \<Rightarrow> int \<Rightarrow> string \<Rightarrow> string option" where
  "LOG_text l sec usec junk tag what line val =
     (let t = tag @ '' '' @ what @ '' line '' @ fmt_0d 1 line @ '' '' @ val in
      if TIMESTAMP l \<noteq> 0
      then case get_timestamp sec usec junk 32 of None \<Rightarrow> None | Some ts \<Rightarrow> Some (''['' @ c_str ts @ ''] '' @ t)
      else Some t)"

section \<open>Which values have a name\<close>

lemma find_val_map: "find_val v t = (case map_of (map (\<lambda>(n, v). (v, n)) t) v of None \<Rightarrow> UNKNOWN_STR | Some n \<Rightarrow> n)"
  by (induction t) auto

lemma find_val_filter:
  assumes "distinct (map snd t)" "(n, v) \<in> set t"
  shows "find_val v (filter P t) = (if P (n, v) then n else UNKNOWN_STR)"
  using assms
proof (induction t)
  case (Cons x t)
  obtain m w where x: "x = (m, w)" by (cases x)
  have no: "find_val v (filter P t) = UNKNOWN_STR" if "v \<notin> snd ` set t" for v
    using that by (induction t) auto
  show ?case
  proof (cases "(n, v) = x")
    case True
    then have "v \<notin> snd ` set t" using Cons.prems(1) x by auto
    with True x no show ?thesis by simp
  next
    case False
    then have "(n, v) \<in> set t" using Cons.prems(2) by simp
    then have "v \<in> snd ` set t" by force
    then have "w \<noteq> v" using Cons.prems(1) x by auto
    with Cons.IH Cons.prems(1) \<open>(n, v) \<in> set t\<close> x show ?thesis by simp
  qed
qed simp

lemma find_val_other: "v \<notin> snd ` set t \<Longrightarrow> find_val v (filter P t) = UNKNOWN_STR"
  by (induction t) auto

definition unnamed_msgs :: "string list" where
  "unnamed_msgs = [''ULP_MSG_MONITOR'', ''ULP_MSG_LAST'', ''LOC_ENG_MSG_AGPS_MODE'', ''LOC_ENG_MSG_XTRA_ENABLE'',
     ''LOC_ENG_MSG_GLONASS_CONTROL'', ''LOC_ENG_MSG_USE_SSL'', ''LOC_ENG_MSG_CERT_TYPE'', ''ULP_MSG_INJECT_RAW_COMMAND'']"

lemma msgs_filter: "loc_eng_msgs = filter (\<lambda>x. fst x \<notin> set unnamed_msgs) loc_eng_msg_ids_t"
  by code_simp

lemma ids_distinct: "distinct (map snd loc_eng_msg_ids_t)"
  by code_simp

text \<open>The name that is logged for a message is the name of the enumerator with its number, for every message but eight that
  have no entry in the table; those and all other numbers are logged as unknown.\<close>
theorem message_names:
  "loc_get_msg_name v =
     (case map_of (map (\<lambda>(n, v). (v, n)) loc_eng_msg_ids_t) v of
        None \<Rightarrow> UNKNOWN_STR
      | Some n \<Rightarrow> if n \<in> set unnamed_msgs then UNKNOWN_STR else n)"
proof (cases "map_of (map (\<lambda>(n, v). (v, n)) loc_eng_msg_ids_t) v")
  case None
  then have "v \<notin> snd ` set loc_eng_msg_ids_t" by (force simp: map_of_eq_None_iff)
  with None find_val_other show ?thesis by (simp add: loc_get_msg_name_def loc_get_name_from_val_def msgs_filter)
next
  case (Some n)
  then have "(n, v) \<in> set loc_eng_msg_ids_t" by (auto dest!: map_of_SomeD)
  from find_val_filter [OF ids_distinct this] Some show ?thesis
    by (simp add: loc_get_msg_name_def loc_get_name_from_val_def msgs_filter)
qed

text \<open>Two tables have an entry twice in place of the next one.\<close>

lemma missing_names:
  "loc_get_ni_response_name 3 = UNKNOWN_STR" "loc_get_agps_bear_name 1 = UNKNOWN_STR" "loc_get_agps_type_name 4 = UNKNOWN_STR"
  by code_simp+

text \<open>A level that is not \<open>0\<close> lets through the messages up to it; all of them get the priority of an error.\<close>

lemma log_levels:
  assumes "DEBUG_LEVEL l \<noteq> 0"
  shows "LOC_LOGW l = (if 2 \<le> DEBUG_LEVEL l then Some (ALOGE, ''W/'') else None)"
    "LOC_LOGI l = (if 3 \<le> DEBUG_LEVEL l then Some (ALOGE, ''I/'') else None)"
    "LOC_LOGD l = (if 4 \<le> DEBUG_LEVEL l then Some (ALOGE, ''D/'') else None)"
    "LOC_LOGV l = (if 5 \<le> DEBUG_LEVEL l then Some (ALOGE, ''V/'') else None)"
  using assms by (simp_all add: LOC_LOGW_def LOC_LOGI_def LOC_LOGD_def LOC_LOGV_def)

lemma log_level_zero: "DEBUG_LEVEL l = 0 \<Longrightarrow> map (map_option snd) [LOC_LOGI l, LOC_LOGD l, LOC_LOGV l] = [Some ''W/'', Some ''W/'', Some ''W/'']"
  by (simp add: LOC_LOGI_def LOC_LOGD_def LOC_LOGV_def)

section \<open>A time stamp reads back\<close>

lemma undec_zeros: "undec_pos (replicate k (CHR ''0'') @ s) = undec_pos s"
proof -
  have "fold (\<lambda>c n. 10 * n + (of_char c - 48)) (replicate k (CHR ''0'')) (0 :: int) = 0" by (induction k) simp_all
  then show ?thesis by (simp add: undec_pos_def)
qed

lemma undec_fmt: "0 \<le> x \<Longrightarrow> undec_pos (fmt_0d w x) = x"
  by (simp add: fmt_0d_def pad0_def undec_zeros)

lemma length_fmt: "0 \<le> x \<Longrightarrow> x < 10 ^ Suc k \<Longrightarrow> w = Suc k \<Longrightarrow> length (fmt_0d w x) = w"
  using length_dec_pos [of x k] by (simp add: fmt_0d_def)

definition read_stamp :: "string \<Rightarrow> int \<times> int" where
  "read_stamp t = (undec_pos (take 2 t) * 3600 + undec_pos (take 2 (drop 3 t)) * 60 + undec_pos (take 2 (drop 6 t)), undec_pos (drop 9 t))"

lemma read_stamp_parts:
  assumes "length h = 2" "length m = 2" "length s = 2"
  shows "read_stamp (h @ '':'' @ m @ '':'' @ s @ ''.'' @ u) = (undec_pos h * 3600 + undec_pos m * 60 + undec_pos s, undec_pos u)"
  using assms by (simp add: read_stamp_def)

lemma seconds_of_day: "(sec div 3600 mod 24) * 3600 + (sec mod 3600 div 60) * 60 + sec mod 60 = sec mod 86400" for sec :: nat
proof -
  have "sec mod (3600 * 24) = 3600 * (sec div 3600 mod 24) + sec mod 3600" by (rule mod_mult2_eq)
  moreover have "sec mod 3600 = sec mod 3600 div 60 * 60 + sec mod 3600 mod 60" by (rule div_mult_mod_eq [symmetric])
  moreover have "sec mod 3600 mod 60 = sec mod 60" by (rule mod_mod_cancel) simp
  moreover have "3600 * 24 = (86400 :: nat)" by simp
  ultimately show ?thesis by (metis add.assoc mult.commute)
qed

lemma stamp_parts:
  fixes hh mm ss usec :: int
  assumes "0 \<le> hh" "hh < 24" "0 \<le> mm" "mm < 60" "0 \<le> ss" "ss < 60" "0 \<le> usec" "usec < 1000000"
  shows "read_stamp (fmt_0d 2 hh @ '':'' @ fmt_0d 2 mm @ '':'' @ fmt_0d 2 ss @ ''.'' @ fmt_0d 6 usec) = (hh * 3600 + mm * 60 + ss, usec)"
    "length (fmt_0d 2 hh @ '':'' @ fmt_0d 2 mm @ '':'' @ fmt_0d 2 ss @ ''.'' @ fmt_0d 6 usec) = 15"
proof -
  have two: "length (fmt_0d 2 x) = 2" if "0 \<le> x" "x < 100" for x
    by (rule length_fmt [where k = 1]) (use that in simp_all)
  have u: "length (fmt_0d 6 usec) = 6" by (rule length_fmt [where k = 5]) (use assms(7,8) in simp_all)
  have l: "length (fmt_0d 2 hh) = 2" "length (fmt_0d 2 mm) = 2" "length (fmt_0d 2 ss) = 2"
    by (rule two; use assms in linarith)+
  show "read_stamp (fmt_0d 2 hh @ '':'' @ fmt_0d 2 mm @ '':'' @ fmt_0d 2 ss @ ''.'' @ fmt_0d 6 usec) = (hh * 3600 + mm * 60 + ss, usec)"
    unfolding read_stamp_parts [OF l] undec_fmt [OF assms(1)] undec_fmt [OF assms(3)] undec_fmt [OF assms(5)] undec_fmt [OF assms(7)] ..
  show "length (fmt_0d 2 hh @ '':'' @ fmt_0d 2 mm @ '':'' @ fmt_0d 2 ss @ ''.'' @ fmt_0d 6 usec) = 15" unfolding length_append l u by simp
qed

lemma stamp_reads_back:
  assumes "usec < 1000000"
  shows "read_stamp (stamp_text sec usec) = (int (sec mod 86400), int usec)" "length (stamp_text sec usec) = 15"
proof -
  have less: "int (sec div 3600 mod 24) < 24" "int (sec mod 3600 div 60) < 60" "int (sec mod 60) < 60" "int usec < 1000000"
    using assms by (simp_all add: less_mult_imp_div_less del: of_nat_mod of_nat_div)
  note p = stamp_parts [OF of_nat_0_le_iff less(1) of_nat_0_le_iff less(2) of_nat_0_le_iff less(3) of_nat_0_le_iff less(4)]
  have s: "int (sec div 3600 mod 24) * 3600 + int (sec mod 3600 div 60) * 60 + int (sec mod 60) = int (sec mod 86400)"
    using arg_cong [OF seconds_of_day [of sec], of int] by (simp only: of_nat_add of_nat_mult of_nat_numeral)
  show "read_stamp (stamp_text sec usec) = (int (sec mod 86400), int usec)"
    unfolding stamp_text_def Let_def p(1) s ..
  show "length (stamp_text sec usec) = 15"
    unfolding stamp_text_def Let_def p(2) ..
qed

lemma timestamp_text:
  assumes "usec < 1000000" "16 \<le> buf_size" "16 \<le> length str"
  shows "get_timestamp sec usec str buf_size = Some (stamp_text sec usec @ NUL # drop 16 str)"
    "c_str (stamp_text sec usec @ NUL # drop 16 str) = stamp_text sec usec"
proof -
  have "no_nul (stamp_text sec usec)" by (simp add: stamp_text_def Let_def)
  then show "get_timestamp sec usec str buf_size = Some (stamp_text sec usec @ NUL # drop 16 str)"
    "c_str (stamp_text sec usec @ NUL # drop 16 str) = stamp_text sec usec"
    using assms stamp_reads_back(2) [OF assms(1), of sec] by (simp_all add: get_timestamp_def snprintf_def Let_def)
qed

text \<open>The buffer of the call flow messages is long enough.\<close>

lemma stamped_line:
  assumes "usec < 1000000" "length junk = 32" "TIMESTAMP l \<noteq> 0"
  shows "LOG_text l sec usec junk tag what line val
    = Some (''['' @ stamp_text sec usec @ ''] '' @ tag @ '' '' @ what @ '' line '' @ fmt_0d 1 line @ '' '' @ val)"
  using timestamp_text [OF assms(1), of 32 junk sec] assms(2,3) by (simp add: LOG_text_def Let_def)

text \<open>A time stamp of the log reads back as the time of day, to the microsecond, if its buffer is long enough.\<close>
theorem timestamp_roundtrip:
  assumes "usec < 1000000" and "16 \<le> buf_size" and "16 \<le> length str"
  shows "\<exists>str'. get_timestamp sec usec str buf_size = Some str' \<and> length str' = length str
    \<and> read_stamp (c_str str') = (int (sec mod 86400), int usec)"
  using timestamp_text [OF assms, of sec] stamp_reads_back [OF assms(1), of sec] assms(3) by simp

theorem timestamp_roundtrip_witness:
  "\<exists>str'. get_timestamp 90061 42 (replicate 32 NUL) 32 = Some str' \<and> length str' = 32 \<and> read_stamp (c_str str') = (3661, 42)"
  using timestamp_roundtrip [of 42 32 "replicate 32 NUL" 90061] by simp

end
