(* ===== verification/Camera_Wrapper.thy ===== *)
theory Camera_Wrapper
  imports Loc_Cfg Input_Ring
begin

text \<open>
  The camera module that stands in front of the vendor's (\<open>camera/CameraWrapper.cpp\<close>): it hands on every call and changes the
  parameters and the preview a little.

  \<^item> The vendor's module is a parameter, the record \<open>vendor_module\<close>: what a call returns may depend on every call before. The log
    of the calls is part of the state.
  \<^item> \<open>CameraParameters\<close> is a class of the framework and a parameter as well, the record \<open>CameraParameters\<close>;
    \<open>params_laws\<close> is what its documentation promises.
  \<^item> Memory is the list of the live blocks. Addresses are not used again. \<open>malloc_ok n\<close> says whether the n-th allocation succeeds.
    The use of a block that is not live is the fault \<open>None\<close>.
  \<^item> \<open>gCameraWrapperLock\<close> only keeps opening and closing apart, which are single steps here.
\<close>

section \<open>What is outside the repository\<close>

text \<open>The calls of a device but those for its parameters.\<close>

datatype plain_op =
    Set_preview_window nat
  | Set_callbacks "nat list"
  | Enable_msg_type int
  | Disable_msg_type int
  | Msg_type_enabled int
  | Start_preview
  | Stop_preview
  | Preview_enabled
  | Store_meta_data_in_buffers int
  | Start_recording
  | Stop_recording
  | Recording_enabled
  | Release_recording_frame nat
  | Auto_focus
  | Cancel_auto_focus
  | Take_picture
  | Cancel_picture
  | Send_command int int int
  | Release
  | Dump int

datatype vendor_op = Plain plain_op | Set_parameters "string option" | Get_parameters | Put_parameters string

datatype vendor_call =
    Load_module
  | Get_number
  | Get_info int
  | Open_device string int nat
  | Close_device nat
  | Device_op nat vendor_op

record vendor_module =
  hw_get_module :: "vendor_call list \<Rightarrow> int"
  number_of_cameras :: "vendor_call list \<Rightarrow> int"
  camera_info :: "vendor_call list \<Rightarrow> int \<Rightarrow> int \<times> nat"
  open_camera :: "vendor_call list \<Rightarrow> string \<Rightarrow> int \<times> nat"
  device_op :: "vendor_call list \<Rightarrow> nat \<Rightarrow> vendor_op \<Rightarrow> int"
  device_parameters :: "vendor_call list \<Rightarrow> nat \<Rightarrow> string"

record 'p CameraParameters =
  unflatten :: "string \<Rightarrow> 'p"
  flatten_params :: "'p \<Rightarrow> string"
  set_param :: "string \<Rightarrow> string \<Rightarrow> 'p \<Rightarrow> 'p"
  get_param :: "'p \<Rightarrow> string \<Rightarrow> string option"
  KEY_SUPPORTED_FOCUS_MODES :: string
  KEY_PREFERRED_PREVIEW_SIZE_FOR_VIDEO :: string
  KEY_ROTATION :: string
  KEY_RECORDING_HINT :: string

record 'p camera_env =
  vendor :: vendor_module
  params_class :: "'p CameraParameters"
  malloc_ok :: "nat \<Rightarrow> bool"

section \<open>The state\<close>

datatype block = Wrapper_device int nat nat | Device_ops | Text string

record camera_state =
  previewRunning :: bool
  restartPreview :: bool
  wasVideo :: bool
  gVendorModule :: bool
  blocks :: "(nat \<times> block) list"
  next_block :: nat
  vendor_log :: "vendor_call list"

definition camera_start :: camera_state where
  "camera_start = \<lparr>previewRunning = False, restartPreview = False, wasVideo = False, gVendorModule = False, blocks = [],
     next_block = 0, vendor_log = []\<rparr>"

definition REAR_CAMERA_ID :: int where "REAR_CAMERA_ID = 0"
definition FRONT_CAMERA_ID :: int where "FRONT_CAMERA_ID = 1"
definition ENOMEM :: int where "ENOMEM = 12"

definition alloc :: "'p camera_env \<Rightarrow> block \<Rightarrow> camera_state \<Rightarrow> nat option \<times> camera_state" where
  "alloc env b st =
     (let a = next_block st; st = st\<lparr>next_block := a + 1\<rparr> in
      if malloc_ok env a then (Some a, st\<lparr>blocks := (a, b) # blocks st\<rparr>) else (None, st))"

definition release_block :: "nat \<Rightarrow> camera_state \<Rightarrow> camera_state option" where
  "release_block a st =
     (if map_of (blocks st) a = None then None else Some (st\<lparr>blocks := filter (\<lambda>(b, _). b \<noteq> a) (blocks st)\<rparr>))"

definition the_device :: "nat \<Rightarrow> camera_state \<Rightarrow> (int \<times> nat \<times> nat) option" where
  "the_device d st = (case map_of (blocks st) d of Some (Wrapper_device i h ops) \<Rightarrow> Some (i, h, ops) | _ \<Rightarrow> None)"

definition camera_id :: "nat \<Rightarrow> camera_state \<Rightarrow> int option" where
  "camera_id d st = do {(i, h, ops) \<leftarrow> the_device d st; Some i}"

definition vendor_call :: "'p camera_env \<Rightarrow> nat \<Rightarrow> vendor_op \<Rightarrow> camera_state \<Rightarrow> (int \<times> camera_state) option" where
  "vendor_call env d op st =
     do {(i, h, ops) \<leftarrow> the_device d st;
         Some (device_op (vendor env) (vendor_log st) h op, st\<lparr>vendor_log := vendor_log st @ [Device_op h op]\<rparr>)}"

definition check_vendor_module :: "'p camera_env \<Rightarrow> camera_state \<Rightarrow> int \<times> camera_state" where
  "check_vendor_module env st =
     (if gVendorModule st then (0, st)
      else let rv = hw_get_module (vendor env) (vendor_log st);
               st = st\<lparr>vendor_log := vendor_log st @ [Load_module]\<rparr>
           in (rv, st\<lparr>gVendorModule := (rv = 0)\<rparr>))"

section \<open>The parameters\<close>

definition camera_fixup_getparams :: "'p CameraParameters \<Rightarrow> int \<Rightarrow> string \<Rightarrow> string" where
  "camera_fixup_getparams L i settings =
     (let params = unflatten L settings;
          params = (if i = REAR_CAMERA_ID
                    then set_param L (KEY_SUPPORTED_FOCUS_MODES L) ''auto,macro,fixed,continuous-video,face-priority'' params
                    else params);
          params = set_param L (KEY_PREFERRED_PREVIEW_SIZE_FOR_VIDEO L) (if i \<noteq> 0 then ''640x480'' else ''1280x720'') params;
          params = set_param L (KEY_ROTATION L) ''0'' params;
          params = set_param L ''preview-frame-rate-mode'' ''frame-rate-fixed'' params
      in flatten_params L params)"

definition camera_fixup_setparams :: "'p CameraParameters \<Rightarrow> int \<Rightarrow> string \<Rightarrow> camera_state \<Rightarrow> string \<times> camera_state" where
  "camera_fixup_setparams L i settings st =
     (let params = unflatten L settings;
          isVideo = (get_param L params (KEY_RECORDING_HINT L) = Some ''true'');
          st = st\<lparr>wasVideo := isVideo \<or> wasVideo st\<rparr>;
          st = (if i = REAR_CAMERA_ID \<and> previewRunning st \<and> wasVideo st then st\<lparr>restartPreview := True\<rparr> else st)
      in (flatten_params L params, st))"

section \<open>The operations of a device\<close>

text \<open>The two shapes of a function that only hands on: with a result, and without.\<close>

definition hand_on :: "'p camera_env \<Rightarrow> int \<Rightarrow> plain_op \<Rightarrow> nat option \<Rightarrow> camera_state \<Rightarrow> (int \<times> camera_state) option" where
  "hand_on env null_result op device st =
     (case device of None \<Rightarrow> Some (null_result, st) | Some d \<Rightarrow> vendor_call env d (Plain op) st)"

definition hand_on_void :: "'p camera_env \<Rightarrow> plain_op \<Rightarrow> nat option \<Rightarrow> camera_state \<Rightarrow> camera_state option" where
  "hand_on_void env op device st =
     (case device of None \<Rightarrow> Some st | Some d \<Rightarrow> do {(ret, st) \<leftarrow> vendor_call env d (Plain op) st; Some st})"

definition camera_set_preview_window :: "'p camera_env \<Rightarrow> nat option \<Rightarrow> nat \<Rightarrow> camera_state \<Rightarrow> (int \<times> camera_state) option" where
  "camera_set_preview_window env device window st = hand_on env (- EINVAL) (Set_preview_window window) device st"

definition camera_set_callbacks :: "'p camera_env \<Rightarrow> nat option \<Rightarrow> nat list \<Rightarrow> camera_state \<Rightarrow> camera_state option" where
  "camera_set_callbacks env device callbacks st = hand_on_void env (Set_callbacks callbacks) device st"

definition camera_enable_msg_type :: "'p camera_env \<Rightarrow> nat option \<Rightarrow> int \<Rightarrow> camera_state \<Rightarrow> camera_state option" where
  "camera_enable_msg_type env device msg_type st = hand_on_void env (Enable_msg_type msg_type) device st"

definition camera_disable_msg_type :: "'p camera_env \<Rightarrow> nat option \<Rightarrow> int \<Rightarrow> camera_state \<Rightarrow> camera_state option" where
  "camera_disable_msg_type env device msg_type st = hand_on_void env (Disable_msg_type msg_type) device st"

definition camera_msg_type_enabled :: "'p camera_env \<Rightarrow> nat option \<Rightarrow> int \<Rightarrow> camera_state \<Rightarrow> (int \<times> camera_state) option" where
  "camera_msg_type_enabled env device msg_type st = hand_on env 0 (Msg_type_enabled msg_type) device st"

definition camera_start_preview :: "'p camera_env \<Rightarrow> nat option \<Rightarrow> camera_state \<Rightarrow> (int \<times> camera_state) option" where
  "camera_start_preview env device st =
     (case device of
        None \<Rightarrow> Some (- EINVAL, st)
      | Some d \<Rightarrow> do {(ret, st) \<leftarrow> vendor_call env d (Plain Start_preview) st; Some (ret, st\<lparr>previewRunning := (ret = 0)\<rparr>)})"

definition camera_stop_preview :: "'p camera_env \<Rightarrow> nat option \<Rightarrow> camera_state \<Rightarrow> camera_state option" where
  "camera_stop_preview env device st =
     (case device of
        None \<Rightarrow> Some st
      | Some d \<Rightarrow> do {(ret, st) \<leftarrow> vendor_call env d (Plain Stop_preview) (st\<lparr>previewRunning := False\<rparr>); Some st})"

definition camera_preview_enabled :: "'p camera_env \<Rightarrow> nat option \<Rightarrow> camera_state \<Rightarrow> (int \<times> camera_state) option" where
  "camera_preview_enabled env device st = hand_on env (- EINVAL) Preview_enabled device st"

definition camera_store_meta_data_in_buffers :: "'p camera_env \<Rightarrow> nat option \<Rightarrow> int \<Rightarrow> camera_state \<Rightarrow> (int \<times> camera_state) option" where
  "camera_store_meta_data_in_buffers env device enable st = hand_on env (- EINVAL) (Store_meta_data_in_buffers enable) device st"

definition camera_start_recording :: "'p camera_env \<Rightarrow> nat option \<Rightarrow> camera_state \<Rightarrow> (int \<times> camera_state) option" where
  "camera_start_recording env device st =
     (case device of None \<Rightarrow> Some (EINVAL, st) | Some d \<Rightarrow> vendor_call env d (Plain Start_recording) (st\<lparr>wasVideo := False\<rparr>))"

definition camera_stop_recording :: "'p camera_env \<Rightarrow> nat option \<Rightarrow> camera_state \<Rightarrow> camera_state option" where
  "camera_stop_recording env device st =
     (case device of
        None \<Rightarrow> Some st
      | Some d \<Rightarrow>
          do {(ret, st) \<leftarrow> vendor_call env d (Plain Stop_recording) st;
              (ret, st) \<leftarrow> vendor_call env d (Plain Stop_preview) st;
              (ret, st) \<leftarrow> vendor_call env d (Plain Start_preview) st;
              Some st})"

definition camera_recording_enabled :: "'p camera_env \<Rightarrow> nat option \<Rightarrow> camera_state \<Rightarrow> (int \<times> camera_state) option" where
  "camera_recording_enabled env device st = hand_on env (- EINVAL) Recording_enabled device st"

definition camera_release_recording_frame :: "'p camera_env \<Rightarrow> nat option \<Rightarrow> nat \<Rightarrow> camera_state \<Rightarrow> camera_state option" where
  "camera_release_recording_frame env device opaque st = hand_on_void env (Release_recording_frame opaque) device st"

definition camera_auto_focus :: "'p camera_env \<Rightarrow> nat option \<Rightarrow> camera_state \<Rightarrow> (int \<times> camera_state) option" where
  "camera_auto_focus env device st = hand_on env (- EINVAL) Auto_focus device st"

definition camera_cancel_auto_focus :: "'p camera_env \<Rightarrow> nat option \<Rightarrow> camera_state \<Rightarrow> (int \<times> camera_state) option" where
  "camera_cancel_auto_focus env device st = hand_on env (- EINVAL) Cancel_auto_focus device st"

definition camera_take_picture :: "'p camera_env \<Rightarrow> nat option \<Rightarrow> camera_state \<Rightarrow> (int \<times> camera_state) option" where
  "camera_take_picture env device st = hand_on env (- EINVAL) Take_picture device st"

definition camera_cancel_picture :: "'p camera_env \<Rightarrow> nat option \<Rightarrow> camera_state \<Rightarrow> (int \<times> camera_state) option" where
  "camera_cancel_picture env device st = hand_on env (- EINVAL) Cancel_picture device st"

text \<open>The text that \<open>strdup\<close> makes for the vendor is not freed.\<close>

definition camera_set_parameters ::
    "'p camera_env \<Rightarrow> nat option \<Rightarrow> string \<Rightarrow> camera_state \<Rightarrow> (int \<times> camera_state) option" where
  "camera_set_parameters env device params st =
     (case device of
        None \<Rightarrow> Some (- EINVAL, st)
      | Some d \<Rightarrow>
          do {i \<leftarrow> camera_id d st;
              let (fixed, st) = camera_fixup_setparams (params_class env) i params st;
              let (tmp, st) = alloc env (Text fixed) st;
              st \<leftarrow> (if restartPreview st then camera_stop_preview env device st else Some st);
              (ret, st) \<leftarrow> vendor_call env d (Set_parameters (map_option (\<lambda>_. fixed) tmp)) st;
              st \<leftarrow> (if restartPreview st
                    then do {(started, st) \<leftarrow> camera_start_preview env device st; Some (st\<lparr>restartPreview := False\<rparr>)}
                    else Some st);
              Some (ret, st)})"

definition camera_get_parameters ::
    "'p camera_env \<Rightarrow> nat option \<Rightarrow> camera_state \<Rightarrow> (nat option \<times> camera_state) option" where
  "camera_get_parameters env device st =
     (case device of
        None \<Rightarrow> Some (None, st)
      | Some d \<Rightarrow>
          do {(i, h, ops) \<leftarrow> the_device d st;
              let params = device_parameters (vendor env) (vendor_log st) h;
              let st = st\<lparr>vendor_log := vendor_log st @ [Device_op h Get_parameters]\<rparr>;
              let (tmp, st) = alloc env (Text (camera_fixup_getparams (params_class env) i params)) st;
              (ret, st) \<leftarrow> vendor_call env d (Put_parameters params) st;
              Some (tmp, st)})"

definition camera_put_parameters :: "nat option \<Rightarrow> camera_state \<Rightarrow> camera_state option" where
  "camera_put_parameters params st = (case params of None \<Rightarrow> Some st | Some a \<Rightarrow> release_block a st)"

definition camera_send_command :: "'p camera_env \<Rightarrow> nat option \<Rightarrow> int \<Rightarrow> int \<Rightarrow> int \<Rightarrow> camera_state \<Rightarrow> (int \<times> camera_state) option" where
  "camera_send_command env device cmd arg1 arg2 st = hand_on env (- EINVAL) (Send_command cmd arg1 arg2) device st"

definition camera_release :: "'p camera_env \<Rightarrow> nat option \<Rightarrow> camera_state \<Rightarrow> camera_state option" where
  "camera_release env device st = hand_on_void env Release device st"

definition camera_dump :: "'p camera_env \<Rightarrow> nat option \<Rightarrow> int \<Rightarrow> camera_state \<Rightarrow> (int \<times> camera_state) option" where
  "camera_dump env device fd st = hand_on env (- EINVAL) (Dump fd) device st"

section \<open>Opening and closing\<close>

definition camera_device_close :: "'p camera_env \<Rightarrow> nat option \<Rightarrow> camera_state \<Rightarrow> (int \<times> camera_state) option" where
  "camera_device_close env device st =
     (case device of
        None \<Rightarrow> Some (- EINVAL, st)
      | Some d \<Rightarrow>
          do {(i, h, ops) \<leftarrow> the_device d st;
              let st = st\<lparr>vendor_log := vendor_log st @ [Close_device h]\<rparr>;
              st \<leftarrow> release_block ops st;
              st \<leftarrow> release_block d st;
              Some (0, st)})"

text \<open>The result, what is stored in \<open>*device\<close> (\<open>None\<close> if nothing is), and the state. \<open>0\<close> stands for \<open>vendor\<close> and \<open>ops\<close> as
  long as they are \<open>NULL\<close>.\<close>

definition camera_device_open ::
    "'p camera_env \<Rightarrow> string option \<Rightarrow> camera_state \<Rightarrow> int \<times> nat option option \<times> camera_state" where
  "camera_device_open env name st =
     (case name of
        None \<Rightarrow> (0, None, st)
      | Some name \<Rightarrow>
          (case check_vendor_module env st of (rv, st) \<Rightarrow>
             if rv \<noteq> 0 then (- EINVAL, None, st)
             else
               let i = atoi name;
                   num_cameras = number_of_cameras (vendor env) (vendor_log st);
                   st = st\<lparr>vendor_log := vendor_log st @ [Get_number]\<rparr>
               in if num_cameras < i then (- EINVAL, Some None, st)
               else
                 (case alloc env (Wrapper_device i 0 0) st of
                    (None, st) \<Rightarrow> (- ENOMEM, Some None, st)
                  | (Some d, st) \<Rightarrow>
                      let st = st\<lparr>wasVideo := False\<rparr>;
                          (rv, h) = open_camera (vendor env) (vendor_log st) name;
                          st = st\<lparr>vendor_log := vendor_log st @ [Open_device name rv h]\<rparr>;
                          freed = (\<lambda>st. st\<lparr>blocks := filter (\<lambda>(b, _). b \<noteq> d) (blocks st)\<rparr>)
                      in if rv \<noteq> 0 then (rv, Some None, freed st)
                      else
                        (case alloc env Device_ops st of
                           (None, st) \<Rightarrow> (- ENOMEM, Some None, freed st)
                         | (Some ops, st) \<Rightarrow>
                             (0, Some (Some d), st\<lparr>blocks := map (\<lambda>(a, b). if a = d then (a, Wrapper_device i h ops) else (a, b)) (blocks st)\<rparr>)))))"

definition camera_get_number_of_cameras :: "'p camera_env \<Rightarrow> camera_state \<Rightarrow> int \<times> camera_state" where
  "camera_get_number_of_cameras env st =
     (case check_vendor_module env st of (rv, st) \<Rightarrow>
        if rv \<noteq> 0 then (0, st)
        else (number_of_cameras (vendor env) (vendor_log st), st\<lparr>vendor_log := vendor_log st @ [Get_number]\<rparr>))"

text \<open>The second result is what is stored in \<open>*info\<close>.\<close>

definition camera_get_camera_info :: "'p camera_env \<Rightarrow> int \<Rightarrow> camera_state \<Rightarrow> int \<times> nat option \<times> camera_state" where
  "camera_get_camera_info env i st =
     (case check_vendor_module env st of (rv, st) \<Rightarrow>
        if rv \<noteq> 0 then (0, None, st)
        else case camera_info (vendor env) (vendor_log st) i of
               (rv, info) \<Rightarrow> (rv, Some info, st\<lparr>vendor_log := vendor_log st @ [Get_info i]\<rparr>))"

section \<open>The module\<close>

text \<open>The table of operations. A function without result gives \<open>0\<close> here.\<close>

definition void :: "camera_state option \<Rightarrow> (int \<times> camera_state) option" where
  "void x = map_option (\<lambda>st. (0, st)) x"

fun camera_ops :: "'p camera_env \<Rightarrow> nat option \<Rightarrow> plain_op \<Rightarrow> camera_state \<Rightarrow> (int \<times> camera_state) option" where
  "camera_ops env d (Set_preview_window w) st = camera_set_preview_window env d w st"
| "camera_ops env d (Set_callbacks cs) st = void (camera_set_callbacks env d cs st)"
| "camera_ops env d (Enable_msg_type m) st = void (camera_enable_msg_type env d m st)"
| "camera_ops env d (Disable_msg_type m) st = void (camera_disable_msg_type env d m st)"
| "camera_ops env d (Msg_type_enabled m) st = camera_msg_type_enabled env d m st"
| "camera_ops env d Start_preview st = camera_start_preview env d st"
| "camera_ops env d Stop_preview st = void (camera_stop_preview env d st)"
| "camera_ops env d Preview_enabled st = camera_preview_enabled env d st"
| "camera_ops env d (Store_meta_data_in_buffers e) st = camera_store_meta_data_in_buffers env d e st"
| "camera_ops env d Start_recording st = camera_start_recording env d st"
| "camera_ops env d Stop_recording st = void (camera_stop_recording env d st)"
| "camera_ops env d Recording_enabled st = camera_recording_enabled env d st"
| "camera_ops env d (Release_recording_frame f) st = void (camera_release_recording_frame env d f st)"
| "camera_ops env d Auto_focus st = camera_auto_focus env d st"
| "camera_ops env d Cancel_auto_focus st = camera_cancel_auto_focus env d st"
| "camera_ops env d Take_picture st = camera_take_picture env d st"
| "camera_ops env d Cancel_picture st = camera_cancel_picture env d st"
| "camera_ops env d (Send_command c x y) st = camera_send_command env d c x y st"
| "camera_ops env d Release st = void (camera_release env d st)"
| "camera_ops env d (Dump fd) st = camera_dump env d fd st"

text \<open>What the framework can do, as steps.\<close>

datatype camera_op =
    Call "nat option" plain_op
  | SetParameters "nat option" string
  | GetParameters "nat option"
  | PutParameters "nat option" "nat option"
  | OpenDevice "string option"
  | CloseDevice "nat option"
  | NumberOfCameras
  | CameraInfo int

fun camera_step :: "'p camera_env \<Rightarrow> camera_op \<Rightarrow> camera_state \<Rightarrow> camera_state option" where
  "camera_step env (Call d op) st = map_option snd (camera_ops env d op st)"
| "camera_step env (SetParameters d params) st = map_option snd (camera_set_parameters env d params st)"
| "camera_step env (GetParameters d) st = map_option snd (camera_get_parameters env d st)"
| "camera_step env (PutParameters d params) st = camera_put_parameters params st"
| "camera_step env (OpenDevice name) st = Some (snd (snd (camera_device_open env name st)))"
| "camera_step env (CloseDevice d) st = map_option snd (camera_device_close env d st)"
| "camera_step env NumberOfCameras st = Some (snd (camera_get_number_of_cameras env st))"
| "camera_step env (CameraInfo i) st = Some (snd (snd (camera_get_camera_info env i st)))"

section \<open>Calls are handed on\<close>

definition is_void :: "plain_op \<Rightarrow> bool" where
  "is_void op = (case op of Set_callbacks _ \<Rightarrow> True | Enable_msg_type _ \<Rightarrow> True | Disable_msg_type _ \<Rightarrow> True | Stop_preview \<Rightarrow> True
     | Stop_recording \<Rightarrow> True | Release_recording_frame _ \<Rightarrow> True | Release \<Rightarrow> True | _ \<Rightarrow> False)"

lemma vendor_call_live:
  "the_device d st = Some (i, h, ops) \<Longrightarrow>
    vendor_call env d op st = Some (device_op (vendor env) (vendor_log st) h op, st\<lparr>vendor_log := vendor_log st @ [Device_op h op]\<rparr>)"
  by (simp add: vendor_call_def)

lemma the_device_irrelevant [simp]:
  "the_device d (st\<lparr>vendor_log := l\<rparr>) = the_device d st" "the_device d (st\<lparr>previewRunning := b\<rparr>) = the_device d st"
  "the_device d (st\<lparr>restartPreview := b\<rparr>) = the_device d st" "the_device d (st\<lparr>wasVideo := b\<rparr>) = the_device d st"
  "the_device d (st\<lparr>next_block := n\<rparr>) = the_device d st" "the_device d (st\<lparr>gVendorModule := b\<rparr>) = the_device d st"
  by (simp_all add: the_device_def)

lemmas plain_defs = hand_on_def hand_on_void_def camera_set_preview_window_def camera_set_callbacks_def camera_enable_msg_type_def
  camera_disable_msg_type_def camera_msg_type_enabled_def camera_start_preview_def camera_stop_preview_def
  camera_preview_enabled_def camera_store_meta_data_in_buffers_def camera_start_recording_def camera_stop_recording_def
  camera_recording_enabled_def camera_release_recording_frame_def camera_auto_focus_def camera_cancel_auto_focus_def
  camera_take_picture_def camera_cancel_picture_def camera_send_command_def camera_release_def camera_dump_def

text \<open>A call on an open camera reaches the vendor's device as it is, once, and its answer comes back; only the end of a
  recording makes the vendor stop and start the preview as well. No memory is touched; the flags change with the preview and at
  the start of a recording.\<close>
theorem camera_hands_on:
  assumes "the_device d st = Some (i, h, ops)"
  shows "camera_ops env (Some d) op st =
    Some (if is_void op then 0 else device_op (vendor env) (vendor_log st) h (Plain op),
      st\<lparr>vendor_log := vendor_log st @ map (\<lambda>op. Device_op h (Plain op))
            (if op = Stop_recording then [Stop_recording, Stop_preview, Start_preview] else [op]),
         previewRunning := (if op = Start_preview then device_op (vendor env) (vendor_log st) h (Plain op) = 0
            else op \<noteq> Stop_preview \<and> previewRunning st),
         wasVideo := (op \<noteq> Start_recording \<and> wasVideo st)\<rparr>)"
  using assms by (cases op) (simp_all add: plain_defs vendor_call_live void_def is_void_def)

text \<open>Without a device there is an error, which for the start of a recording is not negative.\<close>

lemma camera_null:
  "camera_ops env None op st =
    Some (if is_void op then 0 else case op of Msg_type_enabled m \<Rightarrow> 0 | Start_recording \<Rightarrow> EINVAL | _ \<Rightarrow> - EINVAL, st)"
  by (cases op) (simp_all add: plain_defs void_def is_void_def)

section \<open>Parameters\<close>

text \<open>What the class promises: a set of values by key, which \<open>set\<close> changes at one key and which survives being written as text.
  \<open>ok\<close> stands for the objects that these operations make; keys and values that separate fields are not allowed.\<close>

definition plain_text :: "string \<Rightarrow> bool" where
  "plain_text s \<longleftrightarrow> CHR ''='' \<notin> set s \<and> CHR '';'' \<notin> set s"

definition params_laws :: "'p CameraParameters \<Rightarrow> ('p \<Rightarrow> bool) \<Rightarrow> bool" where
  "params_laws L ok \<longleftrightarrow>
     (\<forall>s. ok (unflatten L s))
     \<and> (\<forall>p k v. ok p \<and> plain_text k \<and> plain_text v \<longrightarrow> ok (set_param L k v p)
          \<and> (\<forall>k'. get_param L (set_param L k v p) k' = (if k' = k then Some v else get_param L p k')))
     \<and> (\<forall>p k. ok p \<longrightarrow> get_param L (unflatten L (flatten_params L p)) k = get_param L p k)
     \<and> list_all plain_text [KEY_SUPPORTED_FOCUS_MODES L, KEY_PREFERRED_PREVIEW_SIZE_FOR_VIDEO L, KEY_ROTATION L, KEY_RECORDING_HINT L]
     \<and> distinct [KEY_SUPPORTED_FOCUS_MODES L, KEY_PREFERRED_PREVIEW_SIZE_FOR_VIDEO L, KEY_ROTATION L, KEY_RECORDING_HINT L,
          ''preview-frame-rate-mode'']"

lemma params_lawsD:
  assumes "params_laws L ok"
  shows "ok (unflatten L s)"
    and "ok p \<Longrightarrow> plain_text k \<Longrightarrow> plain_text v \<Longrightarrow> ok (set_param L k v p)"
    and "ok p \<Longrightarrow> plain_text k \<Longrightarrow> plain_text v \<Longrightarrow> get_param L (set_param L k v p) k' = (if k' = k then Some v else get_param L p k')"
    and "ok p \<Longrightarrow> get_param L (unflatten L (flatten_params L p)) k' = get_param L p k'"
    and "plain_text (KEY_SUPPORTED_FOCUS_MODES L)" "plain_text (KEY_PREFERRED_PREVIEW_SIZE_FOR_VIDEO L)" "plain_text (KEY_ROTATION L)"
    and "distinct [KEY_SUPPORTED_FOCUS_MODES L, KEY_PREFERRED_PREVIEW_SIZE_FOR_VIDEO L, KEY_ROTATION L, KEY_RECORDING_HINT L,
          ''preview-frame-rate-mode'']"
  using assms by (simp_all add: params_laws_def)

lemma plain_values:
  "plain_text ''auto,macro,fixed,continuous-video,face-priority''" "plain_text ''640x480''" "plain_text ''1280x720''"
  "plain_text ''0''" "plain_text ''frame-rate-fixed''" "plain_text ''preview-frame-rate-mode''"
  by (simp_all add: plain_text_def)

text \<open>What reading the text in place of the vendor's gives.\<close>

definition fixed_param :: "'p CameraParameters \<Rightarrow> int \<Rightarrow> string \<Rightarrow> string \<Rightarrow> string option" where
  "fixed_param L i settings k =
     (if k = ''preview-frame-rate-mode'' then Some ''frame-rate-fixed''
      else if k = KEY_ROTATION L then Some ''0''
      else if k = KEY_PREFERRED_PREVIEW_SIZE_FOR_VIDEO L then Some (if i = REAR_CAMERA_ID then ''1280x720'' else ''640x480'')
      else if k = KEY_SUPPORTED_FOCUS_MODES L \<and> i = REAR_CAMERA_ID then Some ''auto,macro,fixed,continuous-video,face-priority''
      else get_param L (unflatten L settings) k)"

lemma getparams_reads:
  assumes "params_laws L ok"
  shows "get_param L (unflatten L (camera_fixup_getparams L i settings)) k = fixed_param L i settings k"
proof -
  note laws = params_lawsD [OF assms]
  define p1 where "p1 = (if i = REAR_CAMERA_ID then set_param L (KEY_SUPPORTED_FOCUS_MODES L)
    ''auto,macro,fixed,continuous-video,face-priority'' (unflatten L settings) else unflatten L settings)"
  have p1: "ok p1" "get_param L p1 k = (if k = KEY_SUPPORTED_FOCUS_MODES L \<and> i = REAR_CAMERA_ID
      then Some ''auto,macro,fixed,continuous-video,face-priority'' else get_param L (unflatten L settings) k)" for k
    using laws(1,2,3,5) plain_values by (simp_all add: p1_def)
  define p2 where "p2 = set_param L (KEY_PREFERRED_PREVIEW_SIZE_FOR_VIDEO L) (if i \<noteq> 0 then ''640x480'' else ''1280x720'') p1"
  have v2: "plain_text (if i \<noteq> 0 then ''640x480'' else ''1280x720'')" using plain_values by simp
  have p2: "ok p2" "get_param L p2 k = (if k = KEY_PREFERRED_PREVIEW_SIZE_FOR_VIDEO L
      then Some (if i = REAR_CAMERA_ID then ''1280x720'' else ''640x480'') else get_param L p1 k)" for k
    using laws(2,3) [OF p1(1) laws(6) v2] by (simp_all add: p2_def REAR_CAMERA_ID_def)
  define p3 where "p3 = set_param L (KEY_ROTATION L) ''0'' p2"
  have p3: "ok p3" "get_param L p3 k = (if k = KEY_ROTATION L then Some ''0'' else get_param L p2 k)" for k
    using laws(2,3) [OF p2(1) laws(7) plain_values(4)] by (simp_all add: p3_def)
  define p4 where "p4 = set_param L ''preview-frame-rate-mode'' ''frame-rate-fixed'' p3"
  have p4: "ok p4" "get_param L p4 k = (if k = ''preview-frame-rate-mode'' then Some ''frame-rate-fixed'' else get_param L p3 k)" for k
    using laws(2,3) [OF p3(1) plain_values(6,5)] by (simp_all add: p4_def)
  have "camera_fixup_getparams L i settings = flatten_params L p4"
    by (simp add: camera_fixup_getparams_def Let_def p1_def p2_def p3_def p4_def)
  then show ?thesis using laws(4) [OF p4(1)] p1(2) p2(2) p3(2) p4(2) by (simp add: fixed_param_def)
qed

section \<open>Memory\<close>

text \<open>No two blocks have an address, none has one that is still to be given out, and every device has its own table of operations.
  The preview is not about to be restarted.\<close>

fun handle_of :: "block \<Rightarrow> nat list" where
  "handle_of (Wrapper_device i h ops) = [h]"
| "handle_of b = []"

fun ops_of :: "block \<Rightarrow> nat list" where
  "ops_of (Wrapper_device i h ops) = [ops]"
| "ops_of b = []"

definition collect :: "(block \<Rightarrow> nat list) \<Rightarrow> (nat \<times> block) list \<Rightarrow> nat list" where
  "collect f bs = concat (map (\<lambda>(a, b). f b) bs)"

definition blocks_ok :: "(nat \<times> block) list \<Rightarrow> nat \<Rightarrow> bool" where
  "blocks_ok bs n \<longleftrightarrow> distinct (map fst bs) \<and> (\<forall>(a, b) \<in> set bs. a < n)
     \<and> distinct (collect ops_of bs) \<and> (\<forall>ops \<in> set (collect ops_of bs). (ops, Device_ops) \<in> set bs)"

definition camera_ok :: "camera_state \<Rightarrow> bool" where
  "camera_ok st \<longleftrightarrow> blocks_ok (blocks st) (next_block st) \<and> \<not> restartPreview st"

lemma the_device_iff:
  assumes "camera_ok st"
  shows "the_device d st = Some (i, h, ops) \<longleftrightarrow> (d, Wrapper_device i h ops) \<in> set (blocks st)"
proof -
  have "distinct (map fst (blocks st))" using assms by (simp add: camera_ok_def blocks_ok_def)
  then have "map_of (blocks st) d = Some (Wrapper_device i h ops) \<longleftrightarrow> (d, Wrapper_device i h ops) \<in> set (blocks st)" by simp
  then show ?thesis by (auto simp: the_device_def split: option.splits block.splits)
qed

lemma device_not_fresh:
  assumes "camera_ok st" "the_device d st = Some x"
  shows "d \<noteq> next_block st"
proof -
  obtain i h ops where "x = (i, h, ops)" by (cases x)
  then have "(d, Wrapper_device i h ops) \<in> set (blocks st)" using assms the_device_iff by simp
  then show ?thesis using assms(1) by (auto simp: camera_ok_def blocks_ok_def)
qed

lemma the_device_alloc:
  assumes "camera_ok st" "the_device d st = Some x" "alloc env (Text t) st' = (a, st1)" "blocks st' = blocks st" "next_block st' = next_block st"
  shows "the_device d st1 = Some x"
  using assms device_not_fresh [OF assms(1,2)] by (auto simp: alloc_def the_device_def Let_def split: if_splits)

text \<open>What \<open>set_parameters\<close> does, for any class of parameters.\<close>

lemma set_parameters_run:
  fixes st :: camera_state and env :: "'p camera_env" and settings :: string
  defines "L \<equiv> params_class env" and "hist \<equiv> vendor_log st" and "made \<equiv> flatten_params (params_class env) (unflatten (params_class env) settings)"
  assumes "camera_ok st" and "the_device d st = Some (i, h, ops)" and "malloc_ok env (next_block st)"
    and "video = (wasVideo st \<or> get_param L (unflatten L settings) (KEY_RECORDING_HINT L) = Some ''true'')"
    and "restart = (i = REAR_CAMERA_ID \<and> previewRunning st \<and> video)"
  shows "\<exists>st'. camera_set_parameters env (Some d) settings st =
      Some (device_op (vendor env) (if restart then hist @ [Device_op h (Plain Stop_preview)] else hist) h (Set_parameters (Some made)), st')
    \<and> vendor_log st' = hist @ (if restart
        then [Device_op h (Plain Stop_preview), Device_op h (Set_parameters (Some made)), Device_op h (Plain Start_preview)]
        else [Device_op h (Set_parameters (Some made))])
    \<and> previewRunning st' = (if restart
        then device_op (vendor env) (hist @ [Device_op h (Plain Stop_preview), Device_op h (Set_parameters (Some made))]) h (Plain Start_preview) = 0
        else previewRunning st)
    \<and> wasVideo st' = video \<and> \<not> restartPreview st' \<and> blocks st' = (next_block st, Text made) # blocks st \<and> next_block st' = next_block st + 1"
proof -
  have no: "\<not> restartPreview st" using assms(4) by (simp add: camera_ok_def)
  define st1 where "st1 = st\<lparr>wasVideo := video, restartPreview := restart, next_block := next_block st + 1,
    blocks := (next_block st, Text made) # blocks st\<rparr>"
  have dev: "the_device d st1 = Some (i, h, ops)"
    using assms(5) device_not_fresh [OF assms(4,5)] by (simp add: st1_def the_device_def)
  have fix_params: "camera_fixup_setparams (params_class env) i settings st = (made, st\<lparr>wasVideo := video, restartPreview := restart\<rparr>)"
    using no assms(7,8) unfolding L_def
    by (cases st) (auto simp: camera_fixup_setparams_def Let_def made_def REAR_CAMERA_ID_def)
  have al: "alloc env (Text made) (st\<lparr>wasVideo := video, restartPreview := restart\<rparr>) = (Some (next_block st), st1)"
    using assms(6) by (simp add: alloc_def st1_def Let_def)
  have cid: "camera_id d st = Some i" using assms(5) by (simp add: camera_id_def)
  show ?thesis
  proof (cases restart)
    case True
    then show ?thesis
      using dev al fix_params cid
      by (simp add: camera_set_parameters_def camera_stop_preview_def camera_start_preview_def vendor_call_live hist_def)
        (simp add: st1_def)
  next
    case False
    then show ?thesis
      using dev al fix_params cid by (simp add: camera_set_parameters_def vendor_call_live hist_def) (simp add: st1_def)
  qed
qed

text \<open>C36: setting parameters of a camera hands on parameters that read the same. The preview is stopped before and started after it
  exactly if the camera is the rear one, the wrapper has a running preview, and a recording hint was set now or since the camera
  was opened or a recording started; the preview then counts as running if the vendor has started it. The text that is made
  for the vendor stays in memory.\<close>
theorem set_parameters_restarts:
  fixes st :: camera_state and env :: "'p camera_env"
  defines "L \<equiv> params_class env" and "hist \<equiv> vendor_log st"
  assumes "params_laws L ok" and "camera_ok st" and "the_device d st = Some (i, h, ops)" and "malloc_ok env (next_block st)"
    and "video = (wasVideo st \<or> get_param L (unflatten L settings) (KEY_RECORDING_HINT L) = Some ''true'')"
    and "restart = (i = REAR_CAMERA_ID \<and> previewRunning st \<and> video)"
  shows "\<exists>made st'. camera_set_parameters env (Some d) settings st =
      Some (device_op (vendor env) (if restart then hist @ [Device_op h (Plain Stop_preview)] else hist) h (Set_parameters (Some made)), st')
    \<and> (\<forall>k. get_param L (unflatten L made) k = get_param L (unflatten L settings) k)
    \<and> vendor_log st' = hist @ (if restart
        then [Device_op h (Plain Stop_preview), Device_op h (Set_parameters (Some made)), Device_op h (Plain Start_preview)]
        else [Device_op h (Set_parameters (Some made))])
    \<and> previewRunning st' = (if restart
        then device_op (vendor env) (hist @ [Device_op h (Plain Stop_preview), Device_op h (Set_parameters (Some made))]) h (Plain Start_preview) = 0
        else previewRunning st)
    \<and> wasVideo st' = video \<and> blocks st' = (next_block st, Text made) # blocks st"
  using set_parameters_run [OF assms(4-6) assms(7) [unfolded L_def] assms(8)] params_lawsD(1,4) [OF assms(3)]
  unfolding L_def hist_def by blast

text \<open>What \<open>get_parameters\<close> does.\<close>

lemma get_parameters_run:
  fixes st :: camera_state
  assumes "camera_ok st" and "the_device d st = Some (i, h, ops)" and "malloc_ok env (next_block st)"
    and "settings = device_parameters (vendor env) (vendor_log st) h"
  shows "camera_get_parameters env (Some d) st = Some (Some (next_block st),
    st\<lparr>vendor_log := vendor_log st @ [Device_op h Get_parameters, Device_op h (Put_parameters settings)], next_block := next_block st + 1,
       blocks := (next_block st, Text (camera_fixup_getparams (params_class env) i settings)) # blocks st\<rparr>)"
proof -
  define a where "a = next_block st"
  have dev: "the_device d (st\<lparr>vendor_log := l, next_block := n, blocks := (a, Text t) # blocks st\<rparr>) = Some (i, h, ops)" for l n t
    using assms(2) device_not_fresh [OF assms(1,2)] by (simp add: the_device_def a_def)
  have put: "vendor_call env d (Put_parameters t) (st\<lparr>vendor_log := l, next_block := n, blocks := (a, Text t') # blocks st\<rparr>)
      = Some (device_op (vendor env) l h (Put_parameters t),
          st\<lparr>vendor_log := l @ [Device_op h (Put_parameters t)], next_block := n, blocks := (a, Text t') # blocks st\<rparr>)" for t t' l n
    using vendor_call_live [OF dev, of env "Put_parameters t"] by simp
  show ?thesis
    using assms(2,3) by (simp add: camera_get_parameters_def alloc_def Let_def a_def [symmetric] put assms(4))
qed

lemma put_back:
  assumes "camera_ok st"
  shows "camera_put_parameters (Some (next_block st)) (st\<lparr>vendor_log := l, next_block := n, blocks := (next_block st, b) # blocks st\<rparr>)
    = Some (st\<lparr>vendor_log := l, next_block := n\<rparr>)"
proof -
  have "filter (\<lambda>(b, _). b \<noteq> next_block st) (blocks st) = blocks st"
    unfolding filter_id_conv using assms by (auto simp: camera_ok_def blocks_ok_def)
  then show ?thesis by (cases st) (simp add: camera_put_parameters_def release_block_def)
qed

text \<open>C38: the parameters that the framework reads are the vendor's, but for the rotation, the preview's frame rate mode, the preferred
  size for videos and the focus modes of the rear camera, which are fixed. The vendor gets its own text back, and handing the
  wrapper's text back leaves the memory as it was.\<close>
theorem get_parameters_fixed:
  fixes st :: camera_state and env :: "'p camera_env"
  defines "L \<equiv> params_class env"
  assumes "params_laws L ok" and "camera_ok st" and "the_device d st = Some (i, h, ops)" and "malloc_ok env (next_block st)"
    and "settings = device_parameters (vendor env) (vendor_log st) h"
  shows "\<exists>a st1 made. camera_get_parameters env (Some d) st = Some (Some a, st1) \<and> map_of (blocks st1) a = Some (Text made)
    \<and> (\<forall>k. get_param L (unflatten L made) k = fixed_param L i settings k)
    \<and> vendor_log st1 = vendor_log st @ [Device_op h Get_parameters, Device_op h (Put_parameters settings)]
    \<and> (\<exists>st2. camera_put_parameters (Some a) st1 = Some st2 \<and> blocks st2 = blocks st)"
  using get_parameters_run [OF assms(3-6)] put_back [OF assms(3)] getparams_reads [OF assms(2)]
  unfolding L_def by simp

section \<open>A class of parameters\<close>

text \<open>Texts of the form \<open>key=value;key=value\<close>, as the framework has them.\<close>

function parse_params :: "string \<Rightarrow> (string \<times> string) list" where
  "parse_params s =
     (if s = [] then []
      else let e = takeWhile (\<lambda>c. c \<noteq> CHR '';'') s; rest = parse_params (drop (length e + 1) s) in
        if CHR ''='' \<in> set e then (takeWhile (\<lambda>c. c \<noteq> CHR ''='') e, tl (dropWhile (\<lambda>c. c \<noteq> CHR ''='') e)) # rest else rest)"
  by pat_completeness auto
termination by (relation "measure length") auto

declare parse_params.simps [simp del]

fun join_params :: "(string \<times> string) list \<Rightarrow> string" where
  "join_params [] = []"
| "join_params [(k, v)] = k @ ''='' @ v"
| "join_params ((k, v) # x # p) = k @ ''='' @ v @ '';'' @ join_params (x # p)"

definition pairs_ok :: "(string \<times> string) list \<Rightarrow> bool" where
  "pairs_ok p \<longleftrightarrow> (\<forall>(k, v) \<in> set p. plain_text k \<and> CHR '';'' \<notin> set v)"

definition demo_params :: "((string \<times> string) list) CameraParameters" where
  "demo_params = \<lparr>unflatten = parse_params, flatten_params = join_params, set_param = \<lambda>k v p. (k, v) # filter (\<lambda>(k', _). k' \<noteq> k) p,
     get_param = map_of, KEY_SUPPORTED_FOCUS_MODES = ''focus-mode-values'',
     KEY_PREFERRED_PREVIEW_SIZE_FOR_VIDEO = ''preferred-preview-size-for-video'', KEY_ROTATION = ''rotation'',
     KEY_RECORDING_HINT = ''recording-hint''\<rparr>"

lemma parse_entry:
  assumes "plain_text k" "CHR '';'' \<notin> set v"
  shows "parse_params (k @ ''='' @ v) = [(k, v)]" "parse_params (k @ ''='' @ v @ '';'' @ s) = (k, v) # parse_params s"
proof -
  have k: "CHR ''='' \<notin> set k" "CHR '';'' \<notin> set k" using assms(1) by (simp_all add: plain_text_def)
  have e: "takeWhile (\<lambda>c. c \<noteq> CHR '';'') (k @ ''='' @ v) = k @ ''='' @ v"
    using k assms(2) by (subst takeWhile_eq_all_conv) auto
  have "takeWhile (\<lambda>c. c \<noteq> CHR '';'') ((k @ ''='' @ v) @ CHR '';'' # s) = (k @ ''='' @ v) @ takeWhile (\<lambda>c. c \<noteq> CHR '';'') (CHR '';'' # s)"
    by (rule takeWhile_append2) (use k assms(2) in auto)
  then have e': "takeWhile (\<lambda>c. c \<noteq> CHR '';'') (k @ CHR ''='' # v @ CHR '';'' # s) = k @ CHR ''='' # v" by simp
  have kt: "takeWhile (\<lambda>c. c \<noteq> CHR ''='') (k @ CHR ''='' # v) = k"
    using k(1) by (subst takeWhile_append2) auto
  have kd: "dropWhile (\<lambda>c. c \<noteq> CHR ''='') (k @ CHR ''='' # v) = CHR ''='' # v"
    using k(1) by (subst dropWhile_append2) auto
  show "parse_params (k @ ''='' @ v) = [(k, v)]"
  proof -
    have tv: "takeWhile (\<lambda>c. c \<noteq> CHR '';'') (k @ CHR ''='' # v) = k @ CHR ''='' # v" using assms(2) k by (subst takeWhile_eq_all_conv) auto
    show ?thesis using kt kd k by (simp add: parse_params.simps [of "k @ CHR ''='' # v"] Let_def parse_params.simps [of "[]"] tv)
  qed
  show "parse_params (k @ ''='' @ v @ '';'' @ s) = (k, v) # parse_params s"
    using e' kt kd by (simp add: parse_params.simps [of "k @ CHR ''='' # v @ CHR '';'' # s"] Let_def)
qed

lemma parse_join: "pairs_ok p \<Longrightarrow> parse_params (join_params p) = p"
proof (induction p rule: join_params.induct)
  case 1
  show ?case by (simp add: parse_params.simps)
next
  case (2 k v)
  then show ?case using parse_entry(1) [of k v] by (simp add: pairs_ok_def)
next
  case (3 k v x p)
  then show ?case using parse_entry(2) [of k v "join_params (x # p)"] by (simp add: pairs_ok_def)
qed

lemma parse_ok: "pairs_ok (parse_params s)"
proof (induction s rule: parse_params.induct)
  case (1 s)
  define e where "e = takeWhile (\<lambda>c. c \<noteq> CHR '';'') s"
  show ?case
  proof (cases "s = []")
    case True
    then show ?thesis by (simp add: parse_params.simps pairs_ok_def)
  next
    case False
    have IH: "pairs_ok (parse_params (drop (length e + 1) s))" using "1.IH" [OF False e_def] .
    have e: "CHR '';'' \<notin> set e" unfolding e_def using set_takeWhileD by fastforce
    have "plain_text (takeWhile (\<lambda>c. c \<noteq> CHR ''='') e)"
      unfolding plain_text_def using e set_takeWhileD by fastforce
    moreover have "CHR '';'' \<notin> set (tl (dropWhile (\<lambda>c. c \<noteq> CHR ''='') e))"
      using e set_dropWhileD by (metis list.set_sel(2) list.sel(2))
    ultimately show ?thesis
      using IH False unfolding parse_params.simps [of s] e_def [symmetric] Let_def by (simp add: pairs_ok_def)
  qed
qed

lemma demo_params_laws: "params_laws demo_params pairs_ok"
proof -
  have "map_of (filter (\<lambda>(k', _). k' \<noteq> k) p) k' = (if k' = k then None else map_of p k')" for k k' :: string and p :: "(string \<times> string) list"
    by (induction p) auto
  then show ?thesis
    by (auto simp: params_laws_def demo_params_def parse_ok parse_join plain_text_def) (auto simp: pairs_ok_def plain_text_def)
qed

definition demo_vendor :: vendor_module where
  "demo_vendor = \<lparr>hw_get_module = \<lambda>_. 0, number_of_cameras = \<lambda>_. 2, camera_info = \<lambda>_ i. (0, 1), open_camera = \<lambda>hist name. (0, length hist),
     device_op = \<lambda>_ _ _. 0, device_parameters = \<lambda>_ _. ''rotation=90;zoom=3''\<rparr>"

definition demo_camera_env :: "((string \<times> string) list) camera_env" where
  "demo_camera_env = \<lparr>vendor = demo_vendor, params_class = demo_params, malloc_ok = \<lambda>_. True\<rparr>"

definition rear_open :: camera_state where
  "rear_open = camera_start\<lparr>previewRunning := True, gVendorModule := True, blocks := [(0, Wrapper_device 0 9 1), (1, Device_ops)], next_block := 2\<rparr>"

lemma rear_open_ok: "camera_ok rear_open" "the_device 0 rear_open = Some (0, 9, 1)" "previewRunning rear_open" "vendor_log rear_open = []"
  by (simp_all add: camera_ok_def blocks_ok_def collect_def rear_open_def camera_start_def the_device_def)

theorem camera_hands_on_witness:
  "camera_ops demo_camera_env (Some 0) Stop_recording rear_open =
    Some (0, rear_open\<lparr>vendor_log := [Device_op 9 (Plain Stop_recording), Device_op 9 (Plain Stop_preview), Device_op 9 (Plain Start_preview)]\<rparr>)"
  using camera_hands_on [OF rear_open_ok(2), of demo_camera_env Stop_recording]
  by (simp add: is_void_def) (simp add: rear_open_def camera_start_def)

theorem set_parameters_restarts_witness:
  "\<exists>made st'. camera_set_parameters demo_camera_env (Some 0) ''zoom=3;recording-hint=true'' rear_open = Some (0, st')
    \<and> map_of (parse_params made) ''zoom'' = Some ''3''
    \<and> vendor_log st' = [Device_op 9 (Plain Stop_preview), Device_op 9 (Set_parameters (Some made)), Device_op 9 (Plain Start_preview)]
    \<and> previewRunning st'"
proof -
  have p: "params_laws (params_class demo_camera_env) pairs_ok" using demo_params_laws by (simp add: demo_camera_env_def)
  have g: "map_of (parse_params ''zoom=3;recording-hint=true'') ''zoom'' = Some ''3''"
    "map_of (parse_params ''zoom=3;recording-hint=true'') ''recording-hint'' = Some ''true''" by code_simp+
  have c: "params_class demo_camera_env = demo_params" "malloc_ok demo_camera_env n" "device_op (vendor demo_camera_env) x y z = 0"
    "get_param demo_params = map_of" "unflatten demo_params = parse_params" "KEY_RECORDING_HINT demo_params = ''recording-hint''" for n x y z
    by (simp_all add: demo_camera_env_def demo_vendor_def demo_params_def)
  have v: "True = (wasVideo rear_open \<or> get_param (params_class demo_camera_env)
      (unflatten (params_class demo_camera_env) ''zoom=3;recording-hint=true'') (KEY_RECORDING_HINT (params_class demo_camera_env)) = Some ''true'')"
    unfolding c g by simp
  have r: "True = ((0 :: int) = REAR_CAMERA_ID \<and> previewRunning rear_open \<and> True)" by (simp add: REAR_CAMERA_ID_def rear_open_ok)
  from set_parameters_restarts [OF p rear_open_ok(1,2) c(2) v r]
  obtain made st' where "camera_set_parameters demo_camera_env (Some 0) ''zoom=3;recording-hint=true'' rear_open = Some (0, st')"
    "\<forall>k. map_of (parse_params made) k = map_of (parse_params ''zoom=3;recording-hint=true'') k"
    "vendor_log st' = [] @ [Device_op 9 (Plain Stop_preview), Device_op 9 (Set_parameters (Some made)), Device_op 9 (Plain Start_preview)]"
    "previewRunning st' = (0 = (0 :: int))"
    unfolding c if_True rear_open_ok(4) by blast
  with g(1) show ?thesis by auto
qed

theorem get_parameters_fixed_witness:
  "\<exists>a st1 made. camera_get_parameters demo_camera_env (Some 0) rear_open = Some (Some a, st1) \<and> map_of (blocks st1) a = Some (Text made)
    \<and> map_of (parse_params made) ''rotation'' = Some ''0'' \<and> map_of (parse_params made) ''zoom'' = Some ''3''
    \<and> (\<exists>st2. camera_put_parameters (Some a) st1 = Some st2 \<and> blocks st2 = blocks rear_open)"
proof -
  have p: "params_laws (params_class demo_camera_env) pairs_ok" using demo_params_laws by (simp add: demo_camera_env_def)
  have g: "fixed_param demo_params 0 ''rotation=90;zoom=3'' ''rotation'' = Some ''0''"
    "fixed_param demo_params 0 ''rotation=90;zoom=3'' ''zoom'' = Some ''3''" by code_simp+
  have c: "params_class demo_camera_env = demo_params" "malloc_ok demo_camera_env n"
    "device_parameters (vendor demo_camera_env) x y = ''rotation=90;zoom=3''" for n x y
    by (simp_all add: demo_camera_env_def demo_vendor_def)
  from get_parameters_fixed [OF p rear_open_ok(1,2) c(2) refl]
  obtain a st1 made where *: "camera_get_parameters demo_camera_env (Some 0) rear_open = Some (Some a, st1)" "map_of (blocks st1) a = Some (Text made)"
    "\<forall>k. get_param demo_params (unflatten demo_params made) k = fixed_param demo_params 0 ''rotation=90;zoom=3'' k"
    "\<exists>st2. camera_put_parameters (Some a) st1 = Some st2 \<and> blocks st2 = blocks rear_open"
    unfolding c by blast
  have "map_of (parse_params made) k = fixed_param demo_params 0 ''rotation=90;zoom=3'' k" for k
    using *(3) by (simp add: demo_params_def)
  with * g show ?thesis by auto
qed

end
