(* ===== verification/Camera_Runs.thy ===== *)
theory Camera_Runs
  imports Camera_Wrapper
begin

text \<open>
  Runs of the camera wrapper: what the vendor sees of them, the invariant of the wrapper's memory and of the vendor's open devices,
  and that every operation of the module keeps it.

  \<^item> \<open>vendor_view\<close> reads the log of the calls: the devices that are open, and whether each call was on an open one.
  \<^item> \<open>cam_inv\<close> is the invariant; the \<open>kept\<close> lemmas show it for each operation, \<open>camera_run_kept\<close> for runs.
  \<^item> The last lemmas state where a device, or an error, gets lost.
\<close>

section \<open>Runs\<close>

text \<open>What the vendor sees: the devices that are open, and whether every call was on a device that was open then.\<close>

fun track :: "nat multiset \<times> bool \<Rightarrow> vendor_call \<Rightarrow> nat multiset \<times> bool" where
  "track (m, ok) (Open_device name rv h) = (if rv = 0 then add_mset h m else m, ok)"
| "track (m, ok) (Close_device h) = (m - {#h#}, ok \<and> h \<in># m)"
| "track (m, ok) (Device_op h op) = (m, ok \<and> h \<in># m)"
| "track (m, ok) Load_module = (m, ok)"
| "track (m, ok) Get_number = (m, ok)"
| "track (m, ok) (Get_info i) = (m, ok)"

definition vendor_view :: "vendor_call list \<Rightarrow> nat multiset \<times> bool" where
  "vendor_view hist = foldl track ({#}, True) hist"

lemma vendor_view_snoc: "vendor_view (hist @ [c]) = track (vendor_view hist) c"
  by (simp add: vendor_view_def)

definition live_handles :: "camera_state \<Rightarrow> nat multiset" where
  "live_handles st = mset (collect handle_of (blocks st))"

definition mem_ok :: "'p camera_env \<Rightarrow> camera_state \<Rightarrow> bool" where
  "mem_ok env st \<longleftrightarrow> blocks_ok (blocks st) (next_block st)
     \<and> snd (vendor_view (vendor_log st)) \<and> live_handles st \<subseteq># fst (vendor_view (vendor_log st))
     \<and> ((\<forall>n. malloc_ok env n) \<longrightarrow> live_handles st = fst (vendor_view (vendor_log st)))"

definition cam_inv :: "'p camera_env \<Rightarrow> camera_state \<Rightarrow> bool" where
  "cam_inv env st \<longleftrightarrow> mem_ok env st \<and> \<not> restartPreview st"

text \<open>A framework that obeys: it calls open devices only, and it hands back texts it has.\<close>

definition live_or_null :: "nat option \<Rightarrow> camera_state \<Rightarrow> bool" where
  "live_or_null d st = (case d of None \<Rightarrow> True | Some d \<Rightarrow> the_device d st \<noteq> None)"

fun obedient :: "camera_op \<Rightarrow> camera_state \<Rightarrow> bool" where
  "obedient (Call d op) st = live_or_null d st"
| "obedient (SetParameters d s) st = live_or_null d st"
| "obedient (GetParameters d) st = live_or_null d st"
| "obedient (CloseDevice d) st = live_or_null d st"
| "obedient (PutParameters d p) st = (case p of None \<Rightarrow> True | Some a \<Rightarrow> (case map_of (blocks st) a of Some (Text t) \<Rightarrow> True | _ \<Rightarrow> False))"
| "obedient (OpenDevice name) st = True"
| "obedient NumberOfCameras st = True"
| "obedient (CameraInfo i) st = True"

fun camera_run :: "'p camera_env \<Rightarrow> camera_op list \<Rightarrow> camera_state \<Rightarrow> camera_state option" where
  "camera_run env [] st = Some st"
| "camera_run env (op # ops) st = do {st \<leftarrow> camera_step env op st; camera_run env ops st}"

fun obeys :: "'p camera_env \<Rightarrow> camera_op list \<Rightarrow> camera_state \<Rightarrow> bool" where
  "obeys env [] st = True"
| "obeys env (op # ops) st = (obedient op st \<and> (case camera_step env op st of None \<Rightarrow> True | Some st' \<Rightarrow> obeys env ops st'))"

text \<open>Blocks.\<close>

lemma collect_simps [simp]: "collect f [] = []" "collect f ((a, b) # bs) = f b @ collect f bs"
  by (simp_all add: collect_def)

lemma in_collect: "x \<in> set (collect f bs) \<longleftrightarrow> (\<exists>(a, b) \<in> set bs. x \<in> set (f b))"
  by (auto simp: collect_def)

lemma collect_remove:
  "distinct (map fst bs) \<Longrightarrow> (a, b) \<in> set bs \<Longrightarrow> mset (collect f bs) = mset (f b) + mset (collect f (filter (\<lambda>(x, _). x \<noteq> a) bs))"
proof (induction bs)
  case Nil
  then show ?case by simp
next
  case (Cons p bs)
  obtain x y where p: "p = (x, y)" by (cases p)
  show ?case
  proof (cases "x = a")
    case True
    then have "a \<notin> fst ` set bs" and "y = b" using Cons.prems p by force+
    moreover from \<open>a \<notin> fst ` set bs\<close> have "filter (\<lambda>(x, _). x \<noteq> a) bs = bs" unfolding filter_id_conv by force
    ultimately show ?thesis using p True by simp
  next
    case False
    then show ?thesis using Cons p by auto
  qed
qed

lemma blocks_ok_alloc:
  assumes "blocks_ok bs n" "ops_of b = []"
  shows "blocks_ok ((n, b) # bs) (n + 1)"
  using assms by (fastforce simp: blocks_ok_def)

lemma blocks_ok_more: "blocks_ok bs n \<Longrightarrow> n \<le> m \<Longrightarrow> blocks_ok bs m"
  by (fastforce simp: blocks_ok_def)

lemma blocks_ok_open:
  assumes "blocks_ok bs n"
  shows "blocks_ok ((n + 1, Device_ops) # (n, Wrapper_device i h (n + 1)) # bs) (n + 2)"
proof -
  have "n + 1 \<notin> set (collect ops_of bs)" using assms by (fastforce simp: blocks_ok_def)
  then show ?thesis using assms by (fastforce simp: blocks_ok_def)
qed

lemma blocks_ok_release:
  assumes ok: "blocks_ok bs n" and a: "(a, b) \<in> set bs" and free: "b = Device_ops \<Longrightarrow> a \<notin> set (collect ops_of bs)"
  shows "blocks_ok (filter (\<lambda>(x, _). x \<noteq> a) bs) n"
proof -
  let ?bs = "filter (\<lambda>(x, _). x \<noteq> a) bs"
  have d: "distinct (map fst bs)" using ok by (simp add: blocks_ok_def)
  have m: "mset (collect ops_of bs) = mset (ops_of b @ collect ops_of ?bs)" using collect_remove [OF d a] by simp
  have "distinct (collect ops_of bs)" using ok by (simp add: blocks_ok_def)
  then have 1: "distinct (collect ops_of ?bs)" using mset_eq_imp_distinct_iff [OF m] by simp
  have sub: "set (collect ops_of ?bs) \<subseteq> set (collect ops_of bs)" using mset_eq_setD [OF m] by auto
  have 2: "(ops, Device_ops) \<in> set ?bs" if "ops \<in> set (collect ops_of ?bs)" for ops
  proof -
    have *: "(ops, Device_ops) \<in> set bs" "ops \<in> set (collect ops_of bs)" using that sub ok by (auto simp: blocks_ok_def)
    have "ops \<noteq> a"
    proof
      assume "ops = a"
      then have "b = Device_ops" using *(1) a d eq_key_imp_eq_value by fastforce
      with free \<open>ops = a\<close> *(2) show False by simp
    qed
    with *(1) show ?thesis by simp
  qed
  have "distinct (map fst ?bs)" using d by (rule distinct_map_filter)
  moreover have "\<forall>(x, y) \<in> set ?bs. x < n" using ok by (auto simp: blocks_ok_def)
  ultimately show ?thesis unfolding blocks_ok_def using 1 2 by blast
qed

text \<open>What keeps the memory in order.\<close>

lemma live_handle:
  assumes "mem_ok env st" "the_device d st = Some (i, h, ops)"
  shows "(d, Wrapper_device i h ops) \<in> set (blocks st)" "h \<in># live_handles st" "h \<in># fst (vendor_view (vendor_log st))"
proof -
  show in_blocks: "(d, Wrapper_device i h ops) \<in> set (blocks st)"
    using assms(2) by (auto simp: the_device_def split: option.splits block.splits dest: map_of_SomeD)
  then show "h \<in># live_handles st" unfolding live_handles_def set_mset_mset in_collect by force
  then show "h \<in># fst (vendor_view (vendor_log st))" using assms(1) unfolding mem_ok_def by (meson mset_subset_eqD)
qed

lemma view_call:
  assumes "mem_ok env st" "the_device d st = Some (i, h, ops)"
  shows "vendor_view (vendor_log st @ [Device_op h op]) = vendor_view (vendor_log st)"
proof -
  obtain m ok where v: "vendor_view (vendor_log st) = (m, ok)" by fastforce
  then show ?thesis using live_handle(3) [OF assms] by (simp add: vendor_view_snoc)
qed

lemma mem_ok_cong:
  "mem_ok env st \<Longrightarrow> blocks st' = blocks st \<Longrightarrow> next_block st' = next_block st \<Longrightarrow> vendor_view (vendor_log st') = vendor_view (vendor_log st)
    \<Longrightarrow> mem_ok env st'"
  by (simp add: mem_ok_def live_handles_def)

text \<open>A call.\<close>

lemma vendor_call_mem:
  assumes "mem_ok env st" "the_device d st = Some x"
  obtains r st' where "vendor_call env d op st = Some (r, st')" "mem_ok env st'" "blocks st' = blocks st" "the_device d st' = Some x"
    "restartPreview st' = restartPreview st"
proof -
  obtain i h ops where x: "x = (i, h, ops)" by (cases x)
  show ?thesis
  proof (rule that)
    show "vendor_call env d op st = Some (device_op (vendor env) (vendor_log st) h op, st\<lparr>vendor_log := vendor_log st @ [Device_op h op]\<rparr>)"
      using assms(2) x vendor_call_live by simp
    show "mem_ok env (st\<lparr>vendor_log := vendor_log st @ [Device_op h op]\<rparr>)"
      by (rule mem_ok_cong [OF assms(1)]) (use view_call [OF assms(1) assms(2) [unfolded x]] in simp_all)
    show "the_device d (st\<lparr>vendor_log := vendor_log st @ [Device_op h op]\<rparr>) = Some x" using assms(2) by simp
  qed simp_all
qed

lemma mem_ok_flags:
  "mem_ok env st \<Longrightarrow> mem_ok env (st\<lparr>previewRunning := b\<rparr>)" "mem_ok env st \<Longrightarrow> mem_ok env (st\<lparr>wasVideo := b\<rparr>)"
  "mem_ok env st \<Longrightarrow> mem_ok env (st\<lparr>restartPreview := b\<rparr>)" "mem_ok env st \<Longrightarrow> mem_ok env (st\<lparr>gVendorModule := b\<rparr>)"
  by (simp_all add: mem_ok_def live_handles_def)

lemma alloc_text_mem:
  assumes "mem_ok env st" "the_device d st = Some x" "alloc env (Text t) st = (a, st')"
  shows "mem_ok env st'" "the_device d st' = Some x" "restartPreview st' = restartPreview st"
proof -
  obtain i h ops where x: "x = (i, h, ops)" by (cases x)
  have "(d, Wrapper_device i h ops) \<in> set (blocks st)" using live_handle(1) assms x by simp
  then have d: "d \<noteq> next_block st" using assms(1) by (auto simp: mem_ok_def blocks_ok_def)
  have "blocks_ok (blocks st) (next_block st + 1)" "blocks_ok ((next_block st, Text t) # blocks st) (next_block st + 1)"
    using blocks_ok_more [of "blocks st" "next_block st"] blocks_ok_alloc [of "blocks st" "next_block st" "Text t"] assms(1)
    by (simp_all add: mem_ok_def)
  then show "mem_ok env st'" using assms(1,3) by (auto simp: mem_ok_def alloc_def Let_def live_handles_def split: if_splits)
  show "the_device d st' = Some x" "restartPreview st' = restartPreview st"
    using assms(2,3) d by (auto simp: the_device_def alloc_def Let_def split: if_splits)
qed

text \<open>Freeing.\<close>

lemma the_block: "blocks_ok bs n \<Longrightarrow> map_of bs a = Some b \<longleftrightarrow> (a, b) \<in> set bs"
  by (simp add: blocks_ok_def)

lemma map_of_removed: "map_of (filter (\<lambda>(x, _). x \<noteq> a) bs) k = (if k = a then None else map_of bs k)"
  by (induction bs) auto

lemma text_released:
  assumes "mem_ok env st" "map_of (blocks st) a = Some (Text t)"
  shows "\<exists>st'. release_block a st = Some st' \<and> mem_ok env st' \<and> restartPreview st' = restartPreview st"
proof -
  have b: "blocks_ok (blocks st) (next_block st)" using assms(1) by (simp add: mem_ok_def)
  have a: "(a, Text t) \<in> set (blocks st)" using assms(2) the_block [OF b] by simp
  have "blocks_ok (filter (\<lambda>(x, _). x \<noteq> a) (blocks st)) (next_block st)" by (rule blocks_ok_release [OF b a]) simp
  moreover have "mset (collect handle_of (filter (\<lambda>(x, _). x \<noteq> a) (blocks st))) = mset (collect handle_of (blocks st))"
    using collect_remove [of "blocks st" a "Text t" handle_of] a b by (simp add: blocks_ok_def)
  ultimately show ?thesis using assms by (simp add: release_block_def mem_ok_def live_handles_def)
qed

lemma release_swap: "filter (\<lambda>(x, _). x \<noteq> a) (filter (\<lambda>(x, _). x \<noteq> b) bs) = filter (\<lambda>(x, _). x \<noteq> b) (filter (\<lambda>(x, _). x \<noteq> a) bs)"
  unfolding filter_filter by (rule filter_cong) auto

lemma own_ops:
  assumes ok: "blocks_ok bs n" and d: "(d, Wrapper_device i h ops) \<in> set bs"
  shows "(ops, Device_ops) \<in> set bs" "d \<noteq> ops" "ops \<notin> set (collect ops_of (filter (\<lambda>(x, _). x \<noteq> d) bs))"
proof -
  have dist: "distinct (map fst bs)" "distinct (collect ops_of bs)" using ok by (simp_all add: blocks_ok_def)
  have "ops \<in> set (collect ops_of bs)" unfolding in_collect using d by force
  then show o: "(ops, Device_ops) \<in> set bs" using ok unfolding blocks_ok_def by blast
  then show "d \<noteq> ops" using eq_key_imp_eq_value [OF dist(1) d, of Device_ops] by blast
  have "mset (collect ops_of bs) = mset (ops # collect ops_of (filter (\<lambda>(x, _). x \<noteq> d) bs))"
    using collect_remove [OF dist(1) d, of ops_of] by simp
  then show "ops \<notin> set (collect ops_of (filter (\<lambda>(x, _). x \<noteq> d) bs))"
    using dist(2) mset_eq_imp_distinct_iff [of "collect ops_of bs" "ops # collect ops_of (filter (\<lambda>(x, _). x \<noteq> d) bs)"] by simp
qed

lemma device_released:
  assumes ok: "blocks_ok bs n" and d: "(d, Wrapper_device i h ops) \<in> set bs"
  defines "left \<equiv> filter (\<lambda>(x, _). x \<noteq> d) (filter (\<lambda>(x, _). x \<noteq> ops) bs)"
  shows "map_of bs ops = Some Device_ops" "blocks_ok left n" "mset (collect handle_of bs) = add_mset h (mset (collect handle_of left))"
proof -
  note own = own_ops [OF ok d]
  have left: "left = filter (\<lambda>(x, _). x \<noteq> ops) (filter (\<lambda>(x, _). x \<noteq> d) bs)" unfolding left_def by (rule release_swap)
  show "map_of bs ops = Some Device_ops" by (rule iffD2 [OF the_block [OF ok] own(1)])
  have o: "(ops, Device_ops) \<in> set (filter (\<lambda>(x, _). x \<noteq> d) bs)" using own(1,2) by auto
  have ok': "blocks_ok (filter (\<lambda>(x, _). x \<noteq> d) bs) n" by (rule blocks_ok_release [OF ok d]) simp
  show "blocks_ok left n" unfolding left by (rule blocks_ok_release [OF ok' o own(3)])
  have dist: "distinct (map fst bs)" "distinct (map fst (filter (\<lambda>(x, _). x \<noteq> d) bs))"
    using ok ok' unfolding blocks_ok_def by blast+
  show "mset (collect handle_of bs) = add_mset h (mset (collect handle_of left))"
    unfolding left collect_remove [OF dist(1) d] using collect_remove [OF dist(2) o, of handle_of] by (simp del: filter_filter)
qed

lemma close_mem:
  assumes "mem_ok env st" "the_device d st = Some (i, h, ops)"
  shows "\<exists>st'. camera_device_close env (Some d) st = Some (0, st') \<and> mem_ok env st' \<and> restartPreview st' = restartPreview st"
proof -
  have ok: "blocks_ok (blocks st) (next_block st)" using assms(1) by (simp add: mem_ok_def)
  note dev = device_released [OF ok live_handle(1) [OF assms]]
  let ?st = "st\<lparr>vendor_log := vendor_log st @ [Close_device h],
    blocks := filter (\<lambda>(x, _). x \<noteq> d) (filter (\<lambda>(x, _). x \<noteq> ops) (blocks st))\<rparr>"
  have "map_of (blocks st) d \<noteq> None" using assms(2) by (auto simp: the_device_def split: option.splits)
  then have "map_of (filter (\<lambda>(x, _). x \<noteq> ops) (blocks st)) d \<noteq> None" using own_ops(2) [OF ok live_handle(1) [OF assms]] by (simp add: map_of_removed)
  then have "camera_device_close env (Some d) st = Some (0, ?st)"
    using assms(2) dev(1) by (simp add: camera_device_close_def release_block_def Let_def del: filter_filter)
  moreover have "mem_ok env ?st"
  proof -
    obtain m ok where v: "vendor_view (vendor_log st) = (m, ok)" by fastforce
    have "h \<in># m" using live_handle(3) [OF assms] v by simp
    moreover have "live_handles st = add_mset h (live_handles ?st)" using dev(3) by (simp add: live_handles_def del: filter_filter)
    ultimately show ?thesis
      using assms(1) dev(2) v by (auto simp: mem_ok_def vendor_view_snoc insert_subset_eq_iff simp del: filter_filter)
  qed
  ultimately show ?thesis by auto
qed

text \<open>Every step keeps the invariant.\<close>

definition kept :: "'p camera_env \<Rightarrow> camera_state option \<Rightarrow> bool" where
  "kept env x = (case x of None \<Rightarrow> False | Some st \<Rightarrow> cam_inv env st)"

lemma ops_run:
  assumes "the_device d st = Some (i, h, ops)"
  shows "\<exists>r st'. camera_ops env (Some d) op st = Some (r, st')
    \<and> vendor_log st' = vendor_log st @ map (\<lambda>op. Device_op h (Plain op)) (if op = Stop_recording then [Stop_recording, Stop_preview, Start_preview] else [op])
    \<and> blocks st' = blocks st \<and> next_block st' = next_block st \<and> restartPreview st' = restartPreview st"
  using assms by (cases op) (simp_all add: plain_defs vendor_call_live void_def)

lemma view_calls: "h \<in># fst v \<Longrightarrow> foldl track v (map (\<lambda>op. Device_op h (f op)) ops) = v"
  by (induction ops) (cases v; simp)+

lemma call_kept:
  assumes "cam_inv env st" "live_or_null d st"
  shows "kept env (map_option snd (camera_ops env d op st))"
proof (cases d)
  case None
  then show ?thesis using assms(1) by (simp add: kept_def camera_null)
next
  case (Some a)
  then obtain i h ops where dev: "the_device a st = Some (i, h, ops)" using assms(2) by (auto simp: live_or_null_def)
  have m: "mem_ok env st" using assms(1) by (simp add: cam_inv_def)
  obtain r st' where st': "camera_ops env (Some a) op st = Some (r, st')"
    "vendor_log st' = vendor_log st @ map (\<lambda>op. Device_op h (Plain op)) (if op = Stop_recording then [Stop_recording, Stop_preview, Start_preview] else [op])"
    "blocks st' = blocks st" "next_block st' = next_block st" "restartPreview st' = restartPreview st"
    using ops_run [OF dev, of env op] by blast
  have "vendor_view (vendor_log st') = vendor_view (vendor_log st)"
    unfolding st'(2) vendor_view_def foldl_append by (rule view_calls) (use live_handle(3) [OF m dev] in \<open>simp add: vendor_view_def\<close>)
  then have "mem_ok env st'" using mem_ok_cong [OF m] st'(3,4) by blast
  then show ?thesis using Some st'(1,5) assms(1) by (simp add: kept_def cam_inv_def)
qed

lemma set_parameters_kept:
  assumes inv: "cam_inv env st" and "live_or_null d st"
  shows "kept env (map_option snd (camera_set_parameters env d params st))"
proof (cases d)
  case None
  then show ?thesis using inv by (simp add: kept_def camera_set_parameters_def)
next
  case (Some a)
  then obtain x where dev: "the_device a st = Some x" using assms(2) by (auto simp: live_or_null_def)
  obtain i h ops where x: "x = (i, h, ops)" by (cases x)
  obtain t st1 where f: "camera_fixup_setparams (params_class env) i params st = (t, st1)" by fastforce
  have m1: "mem_ok env st1" "the_device a st1 = Some x"
    using f inv dev by (auto simp: camera_fixup_setparams_def Let_def cam_inv_def mem_ok_flags)
  obtain p st2 where al: "alloc env (Text t) st1 = (p, st2)" by fastforce
  note m2 = alloc_text_mem [OF m1 al]
  obtain st3 where st3: "(if restartPreview st2 then camera_stop_preview env d st2 else Some st2) = Some st3" "mem_ok env st3"
    "the_device a st3 = Some x" "restartPreview st3 = restartPreview st2"
  proof (cases "restartPreview st2")
    case True
    have "the_device a (st2\<lparr>previewRunning := False\<rparr>) = Some x" using m2(2) by simp
    from vendor_call_mem [OF mem_ok_flags(1) [OF m2(1)] this, of "Plain Stop_preview"] show ?thesis
      using that Some True by (auto simp: camera_stop_preview_def)
  qed (use that m2 in auto)
  obtain r st4 where st4: "vendor_call env a (Set_parameters (map_option (\<lambda>_. t) p)) st3 = Some (r, st4)" "mem_ok env st4"
    "the_device a st4 = Some x" "restartPreview st4 = restartPreview st3"
    using vendor_call_mem [OF st3(2,3)] by metis
  obtain r' st5 where st5: "camera_start_preview env d st4 = Some (r', st5)" "mem_ok env st5"
  proof -
    obtain r' st' where "vendor_call env a (Plain Start_preview) st4 = Some (r', st')" "mem_ok env st'"
      using vendor_call_mem [OF st4(2,3)] by metis
    then show ?thesis using that [of r' "st'\<lparr>previewRunning := (r' = 0)\<rparr>"] Some by (simp add: camera_start_preview_def mem_ok_flags)
  qed
  have "camera_id a st = Some i" using dev x by (simp add: camera_id_def)
  then have "camera_set_parameters env d params st = Some (r, if restartPreview st4 then st5\<lparr>restartPreview := False\<rparr> else st4)"
    using Some f al st3(1) st4(1) st5(1)
    by (cases "restartPreview st2"; cases "restartPreview st4"; simp add: camera_set_parameters_def Let_def)
  then show ?thesis using st4(2) st5(2) by (simp add: kept_def cam_inv_def mem_ok_flags)
qed

lemma get_parameters_kept:
  assumes inv: "cam_inv env st" and "live_or_null d st"
  shows "kept env (map_option snd (camera_get_parameters env d st))"
proof (cases d)
  case None
  then show ?thesis using inv by (simp add: kept_def camera_get_parameters_def)
next
  case (Some a)
  then obtain i h ops where dev: "the_device a st = Some (i, h, ops)" using assms(2) by (auto simp: live_or_null_def)
  have m: "mem_ok env st" using inv by (simp add: cam_inv_def)
  define t where "t = device_parameters (vendor env) (vendor_log st) h"
  define st1 where "st1 = st\<lparr>vendor_log := vendor_log st @ [Device_op h Get_parameters]\<rparr>"
  have m1: "mem_ok env st1" "the_device a st1 = Some (i, h, ops)"
    using mem_ok_cong [OF m, of st1] view_call [OF m dev] dev by (simp_all add: st1_def)
  obtain p st2 where al: "alloc env (Text (camera_fixup_getparams (params_class env) i t)) st1 = (p, st2)" by fastforce
  note m2 = alloc_text_mem [OF m1 al]
  obtain r st3 where st3: "vendor_call env a (Put_parameters t) st2 = Some (r, st3)" "mem_ok env st3" "restartPreview st3 = restartPreview st2"
    using vendor_call_mem [OF m2(1,2)] by metis
  have "camera_get_parameters env d st = Some (p, st3)"
    using Some dev al st3(1) by (simp add: camera_get_parameters_def Let_def t_def st1_def)
  moreover have "\<not> restartPreview st3" using inv st3(3) m2(3) by (simp add: cam_inv_def st1_def)
  ultimately show ?thesis using st3(2) by (simp add: kept_def cam_inv_def)
qed

lemma vendor_module_kept:
  assumes "cam_inv env st" "check_vendor_module env st = (rv, st')"
  shows "cam_inv env st'" "c = Get_number \<or> c = Get_info i \<Longrightarrow> cam_inv env (st'\<lparr>vendor_log := vendor_log st' @ [c]\<rparr>)"
proof -
  obtain m ok where v: "vendor_view (vendor_log st) = (m, ok)" by fastforce
  then have v': "vendor_view (vendor_log st') = (m, ok)" and same: "blocks st' = blocks st" "next_block st' = next_block st" "\<not> restartPreview st'"
    using assms by (auto simp: check_vendor_module_def Let_def vendor_view_snoc cam_inv_def split: if_splits)
  show "cam_inv env st'"
    using mem_ok_cong [of env st st'] v v' same assms(1) by (simp add: cam_inv_def)
  show "cam_inv env (st'\<lparr>vendor_log := vendor_log st' @ [c]\<rparr>)" if "c = Get_number \<or> c = Get_info i"
    using mem_ok_cong [of env st "st'\<lparr>vendor_log := vendor_log st' @ [c]\<rparr>"] that v v' same assms(1) by (auto simp: cam_inv_def vendor_view_snoc)
qed

text \<open>Opening: the device that failed to open leaves no block; the one that opened has its two.\<close>

lemma fresh_filter: "blocks_ok bs n \<Longrightarrow> n \<le> a \<Longrightarrow> filter (\<lambda>(b, _). b \<noteq> a) bs = bs"
  unfolding filter_id_conv by (fastforce simp: blocks_ok_def)

lemma fresh_update: "blocks_ok bs n \<Longrightarrow> n \<le> a \<Longrightarrow> map (\<lambda>(x, y). if x = a then (x, c) else (x, y)) bs = bs"
  by (rule map_idI) (fastforce simp: blocks_ok_def)

lemma no_wrapper:
  "mem_ok env st \<Longrightarrow> next_block st \<le> n \<Longrightarrow> mem_ok env (st\<lparr>next_block := n\<rparr>)"
  using blocks_ok_more by (auto simp: mem_ok_def live_handles_def)

lemma opened_kept:
  assumes inv: "cam_inv env st" and hist: "vendor_view hist = vendor_view (vendor_log st)" and n: "n = next_block st"
  shows "rv \<noteq> 0 \<Longrightarrow> n \<le> k \<Longrightarrow> cam_inv env (st\<lparr>wasVideo := b, vendor_log := hist @ [Open_device name rv h], next_block := k\<rparr>)"
    and "\<not> malloc_ok env x \<Longrightarrow> n \<le> k \<Longrightarrow> cam_inv env (st\<lparr>wasVideo := b, vendor_log := hist @ [Open_device name 0 h], next_block := k\<rparr>)"
    and "cam_inv env (st\<lparr>wasVideo := b, vendor_log := hist @ [Open_device name 0 h], next_block := n + 2,
      blocks := (n + 1, Device_ops) # (n, Wrapper_device i h (n + 1)) # blocks st\<rparr>)"
proof -
  obtain m ok where v: "vendor_view (vendor_log st) = (m, ok)" by fastforce
  have b: "blocks_ok (blocks st) n" "ok" "live_handles st \<subseteq># m" "(\<forall>n. malloc_ok env n) \<longrightarrow> live_handles st = m" "\<not> restartPreview st"
    using inv v n by (simp_all add: cam_inv_def mem_ok_def)
  note defs = cam_inv_def mem_ok_def live_handles_def vendor_view_snoc hist v
  show "cam_inv env (st\<lparr>wasVideo := b, vendor_log := hist @ [Open_device name rv h], next_block := k\<rparr>)" if "rv \<noteq> 0" "n \<le> k"
    using b that blocks_ok_more [OF b(1)] by (simp add: defs)
  show "cam_inv env (st\<lparr>wasVideo := b, vendor_log := hist @ [Open_device name 0 h], next_block := k\<rparr>)" if "\<not> malloc_ok env x" "n \<le> k"
    using b that blocks_ok_more [OF b(1)] subset_mset.order_trans [OF b(3), of "add_mset h m"] by (auto simp: defs)
  show "cam_inv env (st\<lparr>wasVideo := b, vendor_log := hist @ [Open_device name 0 h], next_block := n + 2,
      blocks := (n + 1, Device_ops) # (n, Wrapper_device i h (n + 1)) # blocks st\<rparr>)"
    using b blocks_ok_open [OF b(1), of i h] by (simp add: defs)
qed

lemma open_kept:
  assumes inv: "cam_inv env st"
  shows "cam_inv env (snd (snd (camera_device_open env name st)))"
proof (cases name)
  case None
  then show ?thesis using inv by (simp add: camera_device_open_def)
next
  case (Some s)
  obtain rv st1 where c: "check_vendor_module env st = (rv, st1)" by fastforce
  note m1 = vendor_module_kept [OF inv c]
  define n where "n = next_block st1"
  define hist where "hist = vendor_log st1 @ [Get_number]"
  define r where "r = open_camera (vendor env) hist s"
  obtain rv' h where r: "r = (rv', h)" by (cases r)
  have ok: "blocks_ok (blocks st1) n" using m1(1) by (simp add: cam_inv_def mem_ok_def n_def)
  have "snd (vendor_view hist) = snd (vendor_view (vendor_log st1)) \<and> fst (vendor_view hist) = fst (vendor_view (vendor_log st1))"
    by (cases "vendor_view (vendor_log st1)") (simp add: hist_def vendor_view_snoc)
  then have v: "vendor_view hist = vendor_view (vendor_log st1)" by (simp add: prod_eq_iff)
  note kept = opened_kept [OF m1(1) v n_def]
  have num: "cam_inv env (st1\<lparr>vendor_log := hist\<rparr>)" using m1(2) [of Get_number] by (simp add: hist_def)
  have fresh: "filter (\<lambda>(b, _). b \<noteq> n) (blocks st1) = blocks st1"
    "map (\<lambda>(x, y). if x = n then (x, c) else (x, y)) (blocks st1) = blocks st1" for c
    using fresh_filter [OF ok] fresh_update [OF ok] by simp_all
  show ?thesis
  proof (cases "rv = 0 \<and> atoi s \<le> number_of_cameras (vendor env) (vendor_log st1)")
    case False
    then show ?thesis using Some c m1(1) num by (auto simp: camera_device_open_def Let_def hist_def)
  next
    case True
    then have "camera_device_open env name st =
      (case alloc env (Wrapper_device (atoi s) 0 0) (st1\<lparr>vendor_log := hist\<rparr>) of
                    (None, st) \<Rightarrow> (- ENOMEM, Some None, st)
                  | (Some d, st) \<Rightarrow>
                      let st = st\<lparr>wasVideo := False\<rparr>;
                          (rv, h) = open_camera (vendor env) (vendor_log st) s;
                          st = st\<lparr>vendor_log := vendor_log st @ [Open_device s rv h]\<rparr>;
                          freed = (\<lambda>st. st\<lparr>blocks := filter (\<lambda>(b, _). b \<noteq> d) (blocks st)\<rparr>)
                      in if rv \<noteq> 0 then (rv, Some None, freed st)
                      else
                        (case alloc env Device_ops st of
                           (None, st) \<Rightarrow> (- ENOMEM, Some None, freed st)
                         | (Some ops, st) \<Rightarrow>
                             (0, Some (Some d), st\<lparr>blocks := map (\<lambda>(a, b). if a = d then (a, Wrapper_device (atoi s) h ops) else (a, b)) (blocks st)\<rparr>)))"
      using Some c by (simp add: camera_device_open_def Let_def hist_def)
    then have run: "snd (snd (camera_device_open env name st)) =
      (if \<not> malloc_ok env n then st1\<lparr>vendor_log := hist, next_block := n + 1\<rparr>
       else if rv' \<noteq> 0 then st1\<lparr>wasVideo := False, vendor_log := hist @ [Open_device s rv' h], next_block := n + 1\<rparr>
       else if \<not> malloc_ok env (n + 1) then st1\<lparr>wasVideo := False, vendor_log := hist @ [Open_device s 0 h], next_block := n + 2\<rparr>
       else st1\<lparr>wasVideo := False, vendor_log := hist @ [Open_device s 0 h], next_block := n + 2,
         blocks := (n + 1, Device_ops) # (n, Wrapper_device (atoi s) h (n + 1)) # blocks st1\<rparr>)"
      using r fresh by (cases st1) (simp add: alloc_def Let_def n_def r_def)
    have "cam_inv env (st1\<lparr>vendor_log := hist, next_block := n + 1\<rparr>)"
      using num no_wrapper [of env "st1\<lparr>vendor_log := hist\<rparr>" "n + 1"] by (simp add: cam_inv_def n_def)
    then show ?thesis unfolding run using kept(1) [of rv' "n + 1"] kept(2) [of "n + 1" "n + 2"] kept(3) by simp
  qed
qed

lemma camera_step_kept:
  assumes inv: "cam_inv env st" and "obedient op st"
  shows "kept env (camera_step env op st)"
proof (cases op)
  case (Call d f)
  then show ?thesis using call_kept [OF inv] assms(2) by simp
next
  case (SetParameters d s)
  then show ?thesis using set_parameters_kept [OF inv] assms(2) by simp
next
  case (GetParameters d)
  then show ?thesis using get_parameters_kept [OF inv] assms(2) by simp
next
  case (PutParameters d p)
  have m: "mem_ok env st" "\<not> restartPreview st" using inv by (simp_all add: cam_inv_def)
  show ?thesis
  proof (cases p)
    case None
    then show ?thesis using PutParameters inv by (simp add: kept_def camera_put_parameters_def)
  next
    case (Some a)
    then obtain t where "map_of (blocks st) a = Some (Text t)"
      using assms(2) PutParameters by (auto split: option.splits block.splits)
    from text_released [OF m(1) this] show ?thesis
      using PutParameters Some m(2) by (auto simp: kept_def camera_put_parameters_def cam_inv_def)
  qed
next
  case (OpenDevice name)
  then show ?thesis using open_kept [OF inv] by (simp add: kept_def)
next
  case (CloseDevice d)
  show ?thesis
  proof (cases d)
    case None
    then show ?thesis using CloseDevice inv by (simp add: kept_def camera_device_close_def)
  next
    case (Some a)
    then obtain i h ops where "the_device a st = Some (i, h, ops)" using assms(2) CloseDevice by (auto simp: live_or_null_def)
    from close_mem [OF _ this, of env] show ?thesis using CloseDevice Some inv by (auto simp: kept_def cam_inv_def)
  qed
next
  case NumberOfCameras
  obtain rv st' where c: "check_vendor_module env st = (rv, st')" by fastforce
  then show ?thesis using vendor_module_kept [OF inv c] NumberOfCameras by (simp add: kept_def camera_get_number_of_cameras_def)
next
  case (CameraInfo i)
  obtain rv st' where c: "check_vendor_module env st = (rv, st')" by fastforce
  then show ?thesis using vendor_module_kept(1) [OF inv c] vendor_module_kept(2) [OF inv c, of "Get_info i" i] CameraInfo
    by (simp add: kept_def camera_get_camera_info_def split: prod.split)
qed

lemma camera_run_kept: "cam_inv env st \<Longrightarrow> obeys env ops st \<Longrightarrow> kept env (camera_run env ops st)"
proof (induction ops arbitrary: st)
  case Nil
  then show ?case by (simp add: kept_def)
next
  case (Cons op ops)
  then obtain st' where "camera_step env op st = Some st'" "cam_inv env st'"
    using camera_step_kept [of env st op] by (auto simp: kept_def split: option.splits)
  then show ?case using Cons by simp
qed

text \<open>C26: however the framework calls the module, as long as it calls only devices that are open and hands back only texts that it
  has, nothing is freed twice or used after it is freed, and the vendor's devices are only called while they are open. Every
  live device of the wrapper has an open device of the vendor, and if no allocation fails the vendor has no other device open.\<close>
theorem camera_memory_safe:
  assumes "obeys env ops camera_start"
  shows "\<exists>st. camera_run env ops camera_start = Some st
    \<and> snd (vendor_view (vendor_log st)) \<and> live_handles st \<subseteq># fst (vendor_view (vendor_log st))
    \<and> ((\<forall>n. malloc_ok env n) \<longrightarrow> live_handles st = fst (vendor_view (vendor_log st)))"
proof -
  have "cam_inv env camera_start" for env :: "'a camera_env"
    by (simp add: cam_inv_def mem_ok_def camera_start_def blocks_ok_def live_handles_def vendor_view_def)
  from camera_run_kept [OF this assms] show ?thesis by (auto simp: kept_def cam_inv_def mem_ok_def split: option.splits)
qed

text \<open>Where memory and devices are lost. A text is left with every set of parameters (\<open>set_parameters_restarts\<close>); if there is no
  memory for the table of operations, the wrapper gives its block back and forgets the vendor's open device.\<close>

lemma device_forgotten:
  assumes "blocks_ok (blocks st) (next_block st)" "gVendorModule st"
    and "malloc_ok env (next_block st)" "\<not> malloc_ok env (next_block st + 1)"
    and "atoi s \<le> number_of_cameras (vendor env) (vendor_log st)" "open_camera (vendor env) (vendor_log st @ [Get_number]) s = (0, h)"
  shows "\<exists>st'. camera_device_open env (Some s) st = (- ENOMEM, Some None, st') \<and> blocks st' = blocks st
    \<and> vendor_log st' = vendor_log st @ [Get_number, Open_device s 0 h]"
  using assms fresh_filter [OF assms(1)] by (simp add: camera_device_open_def check_vendor_module_def alloc_def Let_def)

text \<open>The number of cameras is not an identity of a camera, but the vendor is asked to open it.\<close>

lemma one_past_the_last:
  assumes "gVendorModule st" "malloc_ok env (next_block st)" "atoi s = number_of_cameras (vendor env) (vendor_log st)"
  shows "\<exists>rv h hist. vendor_log (snd (snd (camera_device_open env (Some s) st))) = vendor_log st @ [Get_number, Open_device s rv h]"
  using assms
  by (cases "open_camera (vendor env) (vendor_log st @ [Get_number]) s")
    (simp add: camera_device_open_def check_vendor_module_def alloc_def Let_def)

text \<open>Without a name no device is opened and none is stored, but the result is success; without the vendor's module so are the
  number of cameras, zero, and the information, which is not filled in.\<close>

lemma nothing_done:
  "camera_device_open env None st = (0, None, st)"
  "fst (check_vendor_module env st) \<noteq> 0 \<Longrightarrow> fst (camera_get_camera_info env i st) = 0 \<and> fst (snd (camera_get_camera_info env i st)) = None"
  by (auto simp: camera_device_open_def camera_get_camera_info_def split: prod.split)

text \<open>The flags are shared by the cameras and outlive a device: closing leaves them as they are.\<close>

lemma preview_outlives: "camera_device_close env d st = Some (r, st') \<Longrightarrow> previewRunning st' = previewRunning st"
  by (auto simp: camera_device_close_def release_block_def Let_def split: option.splits Option.bind_splits if_splits)

definition demo_ops :: "camera_op list" where
  "demo_ops = [NumberOfCameras, OpenDevice (Some ''0''), Call (Some 0) Start_preview, SetParameters (Some 0) ''recording-hint=true'',
     GetParameters (Some 0), PutParameters (Some 0) (Some 3), Call (Some 0) Stop_recording, CloseDevice (Some 0), OpenDevice (Some ''1'')]"

theorem camera_memory_safe_witness:
  "\<exists>st. camera_run demo_camera_env demo_ops camera_start = Some st \<and> snd (vendor_view (vendor_log st))
    \<and> live_handles st = fst (vendor_view (vendor_log st))"
proof -
  have "obeys demo_camera_env demo_ops camera_start" by code_simp
  from camera_memory_safe [OF this] show ?thesis by (auto simp: demo_camera_env_def)
qed

end
