(* ===== verification/Loc_Context.thy ===== *)
theory Loc_Context
  imports Prelude
begin

text \<open>
  The life of the engine's context (\<open>LocEngContext\<close> in \<open>loc_eng.h\<close> and \<open>loc_eng.cpp\<close>): the queue of the engine's thread is shared
  by all users of the context, who get and drop it; the last one makes the thread quit, waits for it and deletes the context.

  \<^item> \<open>ctx_step\<close> interleaves any number of users with the threads of the contexts. What is done while the lock is held is one step;
    \<open>pthread_cond_wait\<close> gives the lock away, so that what comes behind it is another one. \<open>get\<close> reads \<open>me\<close> again after it has
    unlocked.
  \<^item> The context that the message to quit carries is taken for engine data, whose field \<open>context\<close> lies behind the end of a context.
    \<open>behind c\<close> is whether the word that is read there is not zero.
  \<^item> The second queue, \<open>ulp_q\<close>, is made and destroyed together with the first and is left out, as is the use of \<open>drop\<close> by the
    thread itself, which is refused.
\<close>

section \<open>State\<close>

datatype ctx_msg = Work nat | Quit

record loc_eng_context =
  ctx_q :: "ctx_msg list"
  ctx_counter :: int

text \<open>Where a user is: \<open>Getting\<close> is before the return of \<open>get\<close>, \<open>Waiting\<close> in \<open>pthread_cond_wait\<close>, \<open>Woken\<close> behind it.\<close>

datatype user_pc = Away | Getting | Holding nat | Holding_null | Waiting nat | Woken nat

datatype hal_pc = No_thread | Listening | At_quit | Returned

record ctx_state =
  me :: "nat option"
  contexts :: "nat \<Rightarrow> loc_eng_context option"
  next_context :: nat
  users :: "nat \<Rightarrow> user_pc"
  hal :: "nat \<Rightarrow> hal_pc"
  freed_used :: bool
  spurious_wakes :: nat

definition ctx_start :: ctx_state where
  "ctx_start = \<lparr>me = None, contexts = \<lambda>_. None, next_context = 0, users = \<lambda>_. Away, hal = \<lambda>_. No_thread, freed_used = False,
     spurious_wakes = 0\<rparr>"

definition goto_user :: "nat \<Rightarrow> user_pc \<Rightarrow> ctx_state \<Rightarrow> ctx_state" where
  "goto_user u pc s = s\<lparr>users := (users s)(u := pc)\<rparr>"

definition goto_hal :: "nat \<Rightarrow> hal_pc \<Rightarrow> ctx_state \<Rightarrow> ctx_state" where
  "goto_hal c pc s = s\<lparr>hal := (hal s)(c := pc)\<rparr>"

definition upd_context :: "nat \<Rightarrow> (loc_eng_context \<Rightarrow> loc_eng_context) \<Rightarrow> ctx_state \<Rightarrow> ctx_state" where
  "upd_context c f s = (case contexts s c of None \<Rightarrow> s\<lparr>freed_used := True\<rparr> | Some x \<Rightarrow> s\<lparr>contexts := (contexts s)(c \<mapsto> f x)\<rparr>)"

section \<open>Operations\<close>

definition new_context :: "ctx_state \<Rightarrow> nat \<times> ctx_state" where
  "new_context s =
     (let c = next_context s
      in (c, s\<lparr>contexts := (contexts s)(c \<mapsto> \<lparr>ctx_q = [], ctx_counter = 0\<rparr>), next_context := c + 1, hal := (hal s)(c := Listening)\<rparr>))"

definition context_get :: "nat \<Rightarrow> ctx_state \<Rightarrow> ctx_state" where
  "context_get u s =
     (let (c, s) = (case me s of None \<Rightarrow> (case new_context s of (c, s) \<Rightarrow> (c, s\<lparr>me := Some c\<rparr>)) | Some c \<Rightarrow> (c, s))
      in goto_user u Getting (upd_context c (\<lambda>x. x\<lparr>ctx_counter := ctx_counter x + 1\<rparr>) s))"

definition get_returns :: "nat \<Rightarrow> ctx_state \<Rightarrow> ctx_state" where
  "get_returns u s = goto_user u (case me s of None \<Rightarrow> Holding_null | Some c \<Rightarrow> Holding c) s"

definition context_send :: "nat \<Rightarrow> ctx_msg \<Rightarrow> ctx_state \<Rightarrow> ctx_state" where
  "context_send c m s = upd_context c (\<lambda>x. x\<lparr>ctx_q := ctx_q x @ [m]\<rparr>) s"

text \<open>\<open>drop\<close>, up to the wait, and the rest.\<close>

definition context_drop :: "nat \<Rightarrow> nat \<Rightarrow> ctx_state \<Rightarrow> ctx_state" where
  "context_drop u c s =
     (let s = upd_context c (\<lambda>x. x\<lparr>ctx_counter := ctx_counter x - 1\<rparr>) s in
      case contexts s c of
        Some x \<Rightarrow> if ctx_counter x = 0 then goto_user u (Waiting c) (context_send c Quit s) else goto_user u Away s
      | None \<Rightarrow> goto_user u Away s)"

definition delete_context :: "nat \<Rightarrow> nat \<Rightarrow> ctx_state \<Rightarrow> ctx_state" where
  "delete_context u c s =
     (let s = upd_context c (\<lambda>x. x) s;
          s = s\<lparr>contexts := (contexts s)(c := None)\<rparr>;
          s = (case me s of None \<Rightarrow> s | Some c' \<Rightarrow> s\<lparr>contexts := (contexts s)(c' := None)\<rparr>)
      in goto_user u Away (s\<lparr>me := None\<rparr>))"

text \<open>One round of the thread: it receives a message and does what it asks for, which for work is not part of this theory. The
  message to quit makes it signal the condition, which wakes one waiting user, if there is one.\<close>

definition hal_receives :: "nat \<Rightarrow> ctx_state \<Rightarrow> ctx_state" where
  "hal_receives c s =
     (case contexts s c of
        None \<Rightarrow> goto_hal c Returned (s\<lparr>freed_used := True\<rparr>)
      | Some x \<Rightarrow>
          (case ctx_q x of
             [] \<Rightarrow> s
           | m # q \<Rightarrow> goto_hal c (if m = Quit then At_quit else Listening) (upd_context c (\<lambda>x. x\<lparr>ctx_q := q\<rparr>) s)))"

definition waits :: "user_pc \<Rightarrow> bool" where
  "waits pc = (case pc of Waiting c \<Rightarrow> True | _ \<Rightarrow> False)"

definition wake_up :: "nat \<Rightarrow> ctx_state \<Rightarrow> ctx_state" where
  "wake_up u s = (case users s u of Waiting c \<Rightarrow> goto_user u (Woken c) s | _ \<Rightarrow> s)"

definition hal_quits :: "(nat \<Rightarrow> bool) \<Rightarrow> nat \<Rightarrow> nat option \<Rightarrow> ctx_state \<Rightarrow> ctx_state" where
  "hal_quits behind c waiter s =
     (let s = goto_hal c Returned (upd_context c (\<lambda>x. x) s) in
      if \<not> behind c then s else case waiter of None \<Rightarrow> s | Some u \<Rightarrow> wake_up u s)"

inductive ctx_step :: "(nat \<Rightarrow> bool) \<Rightarrow> ctx_state \<Rightarrow> ctx_state \<Rightarrow> bool" for behind where
  get: "users s u = Away \<Longrightarrow> ctx_step behind s (context_get u s)"
| got: "users s u = Getting \<Longrightarrow> ctx_step behind s (get_returns u s)"
| send: "users s u = Holding c \<Longrightarrow> ctx_step behind s (context_send c (Work n) s)"
| drop: "users s u = Holding c \<Longrightarrow> ctx_step behind s (context_drop u c s)"
| delete: "users s u = Woken c \<Longrightarrow> ctx_step behind s (delete_context u c s)"
| receive: "hal s c = Listening \<Longrightarrow> ctx_step behind s (hal_receives c s)"
| quit: "hal s c = At_quit \<Longrightarrow> waits (users s u) \<Longrightarrow> ctx_step behind s (hal_quits behind c (Some u) s)"
| quit_unheard: "hal s c = At_quit \<Longrightarrow> \<forall>u. \<not> waits (users s u) \<Longrightarrow> ctx_step behind s (hal_quits behind c None s)"
| spurious: "waits (users s u) \<Longrightarrow> ctx_step behind s (wake_up u (s\<lparr>spurious_wakes := Suc (spurious_wakes s)\<rparr>))"

text \<open>Runs without spurious wakeups in which nobody asks for the context while its last user is dropping it.\<close>

definition dropping :: "ctx_state \<Rightarrow> bool" where
  "dropping s \<longleftrightarrow> (\<exists>u c. users s u = Waiting c \<or> users s u = Woken c)"

definition calm :: "ctx_state \<Rightarrow> ctx_state \<Rightarrow> bool" where
  "calm s s' \<longleftrightarrow> spurious_wakes s' = spurious_wakes s \<and> (dropping s \<longrightarrow> (\<forall>u. users s u = Away \<longrightarrow> users s' u = Away))"

inductive ctx_reachable :: "(nat \<Rightarrow> bool) \<Rightarrow> ctx_state \<Rightarrow> bool" for behind where
  start: "ctx_reachable behind ctx_start"
| step: "ctx_reachable behind s \<Longrightarrow> ctx_step behind s s' \<Longrightarrow> calm s s' \<Longrightarrow> ctx_reachable behind s'"

section \<open>The invariant\<close>

definition context_busy :: "nat \<Rightarrow> ctx_state \<Rightarrow> bool" where
  "context_busy c s \<longleftrightarrow> me s = Some c \<and> (\<forall>u. users s u \<in> {Away, Getting, Holding c}) \<and> finite {u. users s u \<noteq> Away}
     \<and> {u. users s u \<noteq> Away} \<noteq> {} \<and> hal s c = Listening
     \<and> (\<exists>q. Quit \<notin> set q \<and> contexts s = [c \<mapsto> \<lparr>ctx_q = q, ctx_counter = int (card {u. users s u \<noteq> Away})\<rparr>])"

definition context_ending :: "(nat \<Rightarrow> bool) \<Rightarrow> nat \<Rightarrow> nat \<Rightarrow> ctx_state \<Rightarrow> bool" where
  "context_ending behind c u s \<longleftrightarrow> me s = Some c \<and> users s = (\<lambda>_. Away)(u := Waiting c)
     \<and> (\<exists>q. contexts s = [c \<mapsto> \<lparr>ctx_q = q, ctx_counter = 0\<rparr>]
        \<and> (hal s c = Listening \<and> (\<exists>p. q = p @ [Quit] \<and> Quit \<notin> set p) \<or> hal s c = At_quit \<or> \<not> behind c \<and> hal s c = Returned))"

definition context_ended :: "nat \<Rightarrow> nat \<Rightarrow> ctx_state \<Rightarrow> bool" where
  "context_ended c u s \<longleftrightarrow> me s = Some c \<and> users s = (\<lambda>_. Away)(u := Woken c) \<and> hal s c = Returned \<and> (\<exists>x. contexts s = [c \<mapsto> x])"

definition context_none :: "ctx_state \<Rightarrow> bool" where
  "context_none s \<longleftrightarrow> me s = None \<and> users s = (\<lambda>_. Away) \<and> contexts s = Map.empty"

definition ctx_inv :: "(nat \<Rightarrow> bool) \<Rightarrow> ctx_state \<Rightarrow> bool" where
  "ctx_inv behind s \<longleftrightarrow> \<not> freed_used s \<and> (\<forall>c. contexts s c = None \<longrightarrow> hal s c \<in> {No_thread, Returned})
     \<and> (context_none s \<or> (\<exists>c. context_busy c s) \<or> (\<exists>c u. context_ending behind c u s) \<or> (\<exists>c u. context_ended c u s))"

lemmas ctx_defs = goto_user_def goto_hal_def upd_context_def new_context_def context_get_def get_returns_def context_send_def
  context_drop_def delete_context_def hal_receives_def wake_up_def hal_quits_def waits_def

lemma hal_alive:
  assumes "ctx_inv behind s" "hal s c = Listening \<or> hal s c = At_quit"
  shows "contexts s c \<noteq> None"
  using assms by (auto simp: ctx_inv_def)

lemma none_kept:
  assumes inv: "ctx_inv behind s" and none: "context_none s" and step: "ctx_step behind s s'"
  shows "ctx_inv behind s'"
  using step
proof (cases rule: ctx_step.cases)
  case (get u)
  let ?c = "next_context s"
  have "{v. ((\<lambda>_. Away)(u := Getting)) v \<noteq> Away} = {u}" by auto
  then have "context_busy ?c s'" using none get by (auto simp: context_none_def context_busy_def ctx_defs Let_def intro!: exI [of _ "[]"])
  moreover have "\<not> freed_used s'" "\<forall>c. contexts s' c = None \<longrightarrow> hal s' c \<in> {No_thread, Returned}"
    using inv none get by (auto simp: context_none_def ctx_inv_def ctx_defs Let_def)
  ultimately show ?thesis by (auto simp: ctx_inv_def)
next
  case (receive c)
  then show ?thesis using hal_alive [OF inv, of c] none by (simp add: context_none_def)
next
  case (quit c u)
  then show ?thesis using none by (simp add: context_none_def waits_def)
next
  case (quit_unheard c)
  then show ?thesis using hal_alive [OF inv, of c] none by (simp add: context_none_def)
next
  case (spurious u)
  then show ?thesis using none by (simp add: context_none_def waits_def)
qed (use none in \<open>simp_all add: context_none_def\<close>)

lemma busy_users:
  assumes "context_busy c s"
  shows "users s u = Holding c' \<Longrightarrow> c' = c" "\<not> waits (users s u)" "users s u \<noteq> Woken c'" "users s u \<noteq> Waiting c'"
proof -
  have "users s u \<in> {Away, Getting, Holding c}" using assms by (simp add: context_busy_def)
  then show "users s u = Holding c' \<Longrightarrow> c' = c" "\<not> waits (users s u)" "users s u \<noteq> Woken c'" "users s u \<noteq> Waiting c'"
    by (auto simp: waits_def)
qed

lemma busy_kept:
  assumes inv: "ctx_inv behind s" and busy: "context_busy c s" and step: "ctx_step behind s s'"
  shows "ctx_inv behind s'"
proof -
  obtain q where q: "contexts s = [c \<mapsto> \<lparr>ctx_q = q, ctx_counter = int (card {u. users s u \<noteq> Away})\<rparr>]" "Quit \<notin> set q"
    using busy by (auto simp: context_busy_def)
  have b: "me s = Some c" "finite {u. users s u \<noteq> Away}" "{u. users s u \<noteq> Away} \<noteq> {}" "hal s c = Listening"
    and us: "\<And>u. users s u \<in> {Away, Getting, Holding c}"
    using busy by (simp_all add: context_busy_def)
  have common: "\<not> freed_used s" "\<And>c'. c' \<noteq> c \<Longrightarrow> hal s c' = No_thread \<or> hal s c' = Returned"
    using inv q(1) by (auto simp: ctx_inv_def)
  have only: "c' = c" if "hal s c' = Listening \<or> hal s c' = At_quit" for c'
    using hal_alive [OF inv that] q by (simp split: if_splits)
  from step show ?thesis
  proof (cases rule: ctx_step.cases)
    case (get u)
    have set: "{v. users s' v \<noteq> Away} = insert u {v. users s v \<noteq> Away}" "u \<notin> {v. users s v \<noteq> Away}"
      using get b q by (auto simp: ctx_defs)
    have "context_busy c s'"
      unfolding context_busy_def set(1) card_insert_disjoint [OF b(2) set(2)]
      using get b us q by (auto simp: ctx_defs add.commute intro!: exI [of _ q])
    then show ?thesis using get b common q by (auto simp: ctx_inv_def ctx_defs)
  next
    case (got u)
    have set: "{v. users s' v \<noteq> Away} = {v. users s v \<noteq> Away}" using got b q by (auto simp: ctx_defs)
    have "context_busy c s'" unfolding context_busy_def set using got b us q by (auto simp: ctx_defs)
    then show ?thesis using got b common q by (auto simp: ctx_inv_def ctx_defs)
  next
    case (send u c' n)
    then have "c' = c" using busy_users(1) [OF busy] by blast
    then have "context_busy c s'" unfolding context_busy_def using send b us q by (auto simp: ctx_defs intro!: exI [of _ "q @ [Work n]"])
    then show ?thesis using send \<open>c' = c\<close> b common q by (auto simp: ctx_inv_def ctx_defs)
  next
    case (drop u c')
    then have c': "c' = c" using busy_users(1) [OF busy] by blast
    have u: "u \<in> {v. users s v \<noteq> Away}" using drop by simp
    show ?thesis
    proof (cases "{v. users s v \<noteq> Away} = {u}")
      case True
      then have others: "users s v = Away" if "v \<noteq> u" for v using that by blast
      have "context_ending behind c u s'"
        using drop c' b q True others by (auto simp: context_ending_def ctx_defs Let_def fun_eq_iff)
      then show ?thesis using drop c' b common q True by (auto simp: ctx_inv_def ctx_defs Let_def)
    next
      case False
      then have "{v. users s v \<noteq> Away} - {u} \<noteq> {}" using u by blast
      moreover have "card {v. users s v \<noteq> Away} \<noteq> 1" using False u by (metis card_1_singletonE singletonD)
      moreover have "card ({v. users s v \<noteq> Away} - {u}) = card {v. users s v \<noteq> Away} - 1" using u b(2) by simp
      moreover have "0 < card {v. users s v \<noteq> Away}" using b(2,3) by (simp add: card_gt_0_iff)
      ultimately have more: "{v. users s v \<noteq> Away} - {u} \<noteq> {}" "card ({v. users s v \<noteq> Away} - {u}) = card {v. users s v \<noteq> Away} - 1"
        "card {v. users s v \<noteq> Away} \<noteq> 1" "0 < card {v. users s v \<noteq> Away}" by blast+
      then have set: "{v. users s' v \<noteq> Away} = {v. users s v \<noteq> Away} - {u}"
        using drop c' b q by (auto simp: ctx_defs Let_def)
      have "context_busy c s'" unfolding context_busy_def set more(2)
        using drop c' b us q more by (auto simp: ctx_defs Let_def)
      then show ?thesis using drop c' b common q more by (auto simp: ctx_inv_def ctx_defs Let_def)
    qed
  next
    case (receive c')
    then have "c' = c" using only by blast
    then have "context_busy c s'" unfolding context_busy_def using receive b us q by (auto simp: ctx_defs split: list.split intro!: exI [of _ "tl q"])
    then show ?thesis using receive \<open>c' = c\<close> b common q by (auto simp: ctx_inv_def ctx_defs split: list.split)
  next
    case (quit c' u)
    then show ?thesis using busy_users(2) [OF busy] by blast
  next
    case (quit_unheard c')
    then show ?thesis using only [of c'] b(4) by simp
  next
    case (spurious u)
    then show ?thesis using busy_users(2) [OF busy] by blast
  qed (use busy_users(3) [OF busy] in simp_all)
qed

lemma not_asked:
  assumes "calm s s'" "dropping s" "users s u = Away"
  shows "s' \<noteq> context_get u s"
proof
  assume "s' = context_get u s"
  then have "users s' u = Getting" by (auto simp: ctx_defs Let_def split: option.splits)
  then show False using assms by (simp add: calm_def)
qed

lemma ending_kept:
  assumes inv: "ctx_inv behind s" and e: "context_ending behind c u s" and step: "ctx_step behind s s'" and calm: "calm s s'"
  shows "ctx_inv behind s'"
proof -
  obtain q where q: "contexts s = [c \<mapsto> \<lparr>ctx_q = q, ctx_counter = 0\<rparr>]"
    "hal s c = Listening \<and> (\<exists>p. q = p @ [Quit] \<and> Quit \<notin> set p) \<or> hal s c = At_quit \<or> \<not> behind c \<and> hal s c = Returned"
    using e by (auto simp: context_ending_def)
  have b: "me s = Some c" "users s = (\<lambda>_. Away)(u := Waiting c)" using e by (simp_all add: context_ending_def)
  then have d: "dropping s" by (auto simp: dropping_def)
  have common: "\<not> freed_used s" "\<And>c'. c' \<noteq> c \<Longrightarrow> hal s c' = No_thread \<or> hal s c' = Returned"
    using inv q(1) by (auto simp: ctx_inv_def)
  have only: "c' = c" if "hal s c' = Listening \<or> hal s c' = At_quit" for c'
    using hal_alive [OF inv that] q(1) by (simp split: if_splits)
  from step show ?thesis
  proof (cases rule: ctx_step.cases)
    case (get v)
    then show ?thesis using not_asked [OF calm d] by blast
  next
    case (receive c')
    then have c': "c' = c" using only by blast
    with receive q(2) obtain p where p: "q = p @ [Quit]" "Quit \<notin> set p" by auto
    have "context_ending behind c u s'"
      using receive c' b q(1) p by (cases p) (auto simp: context_ending_def ctx_defs)
    then show ?thesis using receive c' b common q(1) p by (cases p) (auto simp: ctx_inv_def ctx_defs)
  next
    case (quit c' v)
    then have v: "v = u" "c' = c" using b only by (auto simp: waits_def split: if_splits)
    have "context_ending behind c u s' \<or> context_ended c u s'"
      using quit v b q(1) by (auto simp: context_ending_def context_ended_def ctx_defs Let_def fun_eq_iff)
    then show ?thesis using quit v b common q(1) by (cases "behind c") (auto simp: ctx_inv_def ctx_defs Let_def)
  next
    case (quit_unheard c')
    moreover have "waits (users s u)" using b(2) by (simp add: waits_def)
    ultimately show ?thesis by blast
  next
    case (spurious v)
    then show ?thesis using calm b(2) by (auto simp: calm_def ctx_defs split: if_splits user_pc.splits)
  qed (use b in \<open>auto split: if_splits\<close>)
qed

lemma ended_kept:
  assumes inv: "ctx_inv behind s" and e: "context_ended c u s" and step: "ctx_step behind s s'" and calm: "calm s s'"
  shows "ctx_inv behind s'"
proof -
  obtain x where b: "me s = Some c" "users s = (\<lambda>_. Away)(u := Woken c)" "hal s c = Returned" "contexts s = [c \<mapsto> x]"
    using e by (auto simp: context_ended_def)
  then have d: "dropping s" by (auto simp: dropping_def)
  have common: "\<not> freed_used s" "\<And>c'. c' \<noteq> c \<Longrightarrow> hal s c' = No_thread \<or> hal s c' = Returned"
    using inv b(4) by (auto simp: ctx_inv_def)
  have dead: "hal s c' \<noteq> Listening" "hal s c' \<noteq> At_quit" for c'
    using hal_alive [OF inv, of c'] b(3,4) by (auto split: if_splits)
  from step show ?thesis
  proof (cases rule: ctx_step.cases)
    case (get v)
    then show ?thesis using not_asked [OF calm d] by blast
  next
    case (delete v c')
    then have "v = u" "c' = c" using b(2) by (auto split: if_splits)
    then have "context_none s'" using delete b by (auto simp: context_none_def ctx_defs Let_def fun_eq_iff)
    moreover have "hal s c'' = No_thread \<or> hal s c'' = Returned" for c'' using common(2) b(3) by (cases "c'' = c") auto
    ultimately show ?thesis using delete \<open>v = u\<close> \<open>c' = c\<close> b common(1) by (auto simp: ctx_inv_def ctx_defs Let_def)
  next
    case (spurious v)
    then show ?thesis using b(2) by (auto simp: waits_def split: if_splits)
  qed (use b dead in \<open>auto split: if_splits\<close>)
qed

lemma ctx_inv_reachable: "ctx_reachable behind s \<Longrightarrow> ctx_inv behind s"
proof (induction rule: ctx_reachable.induct)
  case start
  show ?case by (simp add: ctx_inv_def context_none_def ctx_start_def)
next
  case (step s s')
  from step.IH have "context_none s \<or> (\<exists>c. context_busy c s) \<or> (\<exists>c u. context_ending behind c u s) \<or> (\<exists>c u. context_ended c u s)"
    by (simp add: ctx_inv_def)
  then show ?case using none_kept busy_kept ending_kept ended_kept step by blast
qed


text \<open>A run of one user up to the wait, the start of the following ones.\<close>

definition held :: ctx_state where
  "held = get_returns 0 (context_get 0 ctx_start)"

definition waited :: ctx_state where
  "waited = context_drop 0 0 held"

lemmas demo_ctx_defs = held_def waited_def ctx_start_def ctx_defs Let_def calm_def dropping_def

lemma held_reachable: "ctx_reachable behind held"
proof -
  have "ctx_reachable behind (context_get 0 ctx_start)"
    by (rule ctx_reachable.step [OF ctx_reachable.start ctx_step.get]) (simp_all add: demo_ctx_defs)
  then show ?thesis unfolding held_def
    by (rule ctx_reachable.step [OF _ ctx_step.got]) (simp_all add: demo_ctx_defs)
qed

lemma waited_reachable: "ctx_reachable behind waited"
  unfolding waited_def
  by (rule ctx_reachable.step [OF held_reachable ctx_step.drop]) (simp_all add: demo_ctx_defs)


lemma reachable_steps: "ctx_reachable behind s \<Longrightarrow> (ctx_step behind)\<^sup>*\<^sup>* ctx_start s"
  by (induction rule: ctx_reachable.induct) auto

text \<open>If the wait gives the lock away, another user can get the context that is about to be deleted.\<close>

lemma get_while_dropping:
  assumes "behind 0"
  shows "\<exists>s. (ctx_step behind)\<^sup>*\<^sup>* ctx_start s \<and> spurious_wakes s = 0 \<and> users s 1 = Holding 0 \<and> contexts s 0 = None"
proof -
  define s1 where "s1 = get_returns 1 (context_get 1 waited)"
  define s2 where "s2 = hal_quits behind 0 (Some 0) (hal_receives 0 s1)"
  have "ctx_step behind waited (context_get 1 waited)" by (rule ctx_step.get) (simp add: demo_ctx_defs)
  moreover have "ctx_step behind (context_get 1 waited) s1"
    unfolding s1_def by (rule ctx_step.got) (simp add: demo_ctx_defs)
  moreover have "ctx_step behind s1 (hal_receives 0 s1)" by (rule ctx_step.receive) (simp add: s1_def demo_ctx_defs)
  moreover have "ctx_step behind (hal_receives 0 s1) s2"
    unfolding s2_def by (rule ctx_step.quit) (simp_all add: s1_def demo_ctx_defs)
  moreover have "ctx_step behind s2 (delete_context 0 0 s2)"
    by (rule ctx_step.delete) (simp add: s2_def s1_def demo_ctx_defs assms)
  ultimately have "(ctx_step behind)\<^sup>*\<^sup>* waited (delete_context 0 0 s2)" by (meson r_into_rtranclp rtranclp_trans)
  then have "(ctx_step behind)\<^sup>*\<^sup>* ctx_start (delete_context 0 0 s2)"
    using reachable_steps [OF waited_reachable] by (rule rtranclp_trans [rotated])
  then show ?thesis
    by (rule exI [of _ "delete_context 0 0 s2", OF conjI]) (simp add: s2_def s1_def demo_ctx_defs assms)
qed

text \<open>The wait is not in a loop: a spurious wakeup deletes the queue that the thread still listens to.\<close>

lemma spurious_drop:
  "\<exists>s. (ctx_step behind)\<^sup>*\<^sup>* ctx_start s \<and> spurious_wakes s = 1 \<and> freed_used s"
proof -
  define s1 where "s1 = wake_up 0 (waited\<lparr>spurious_wakes := Suc (spurious_wakes waited)\<rparr>)"
  define s2 where "s2 = delete_context 0 0 s1"
  have "ctx_step behind waited s1" unfolding s1_def by (rule ctx_step.spurious) (simp add: demo_ctx_defs)
  moreover have "ctx_step behind s1 s2" unfolding s2_def by (rule ctx_step.delete) (simp add: s1_def demo_ctx_defs)
  moreover have "ctx_step behind s2 (hal_receives 0 s2)" by (rule ctx_step.receive) (simp add: s2_def s1_def demo_ctx_defs)
  ultimately have "(ctx_step behind)\<^sup>*\<^sup>* waited (hal_receives 0 s2)" by (meson r_into_rtranclp rtranclp_trans)
  then have "(ctx_step behind)\<^sup>*\<^sup>* ctx_start (hal_receives 0 s2)"
    using reachable_steps [OF waited_reachable] by (rule rtranclp_trans [rotated])
  then show ?thesis
    by (rule exI [of _ "hal_receives 0 s2", OF conjI]) (simp add: s2_def s1_def demo_ctx_defs)
qed

text \<open>If the word behind the context is zero, the thread takes the message to quit for one to an engine that has been cleaned up and
  ends without the signal: the last user waits for ever.\<close>

lemma quit_unread:
  assumes "\<not> behind 0"
  shows "\<exists>s. ctx_reachable behind s \<and> users s 0 = Waiting 0 \<and> (\<forall>s'. ctx_step behind s s' \<longrightarrow> s' = s \<or> \<not> calm s s')"
proof -
  define s1 where "s1 = hal_receives 0 waited"
  define s where "s = hal_quits behind 0 (Some 0) s1"
  have "ctx_reachable behind s1"
    unfolding s1_def by (rule ctx_reachable.step [OF waited_reachable ctx_step.receive]) (simp_all add: demo_ctx_defs)
  then have r: "ctx_reachable behind s"
    unfolding s_def by (rule ctx_reachable.step [OF _ ctx_step.quit]) (simp_all add: s1_def demo_ctx_defs assms)
  have u: "users s = (\<lambda>_. Away)(0 := Waiting 0)" and h: "hal s = (\<lambda>_. No_thread)(0 := Returned)"
    by (simp_all add: s_def s1_def demo_ctx_defs assms fun_eq_iff)
  have d: "dropping s" using u by (auto simp: dropping_def)
  have "s' = s \<or> \<not> calm s s'" if "ctx_step behind s s'" for s'
    using that
  proof (cases rule: ctx_step.cases)
    case (get v)
    then show ?thesis using not_asked [OF _ d] by blast
  next
    case (spurious v)
    then show ?thesis using u by (auto simp: calm_def ctx_defs split: if_splits)
  qed (use u h in \<open>auto simp: waits_def split: if_splits\<close>)
  moreover have "users s 0 = Waiting 0" using u by simp
  ultimately show ?thesis using r by blast
qed

end
