(* ===== verification/Spec2Isabelle.thy ===== *)
theory Spec2Isabelle
  imports Msg_Q Agps Power_Hal Lights Hal_Modules Thread_Helper Loc_Eng_Facts Nmea Loc_Hal Sensors_Poll Loc_Log Camera_Runs Loc_Context
begin

text \<open>
  Verification of the device support for the MSM8660 phones: the GPS library
  (\<open>gps/libloc_api_50001\<close>, \<open>gps/utils\<close>), which is the bulk of the program, the sensors
  (\<open>libsensors\<close>), the wrapper of the camera module (\<open>camera\<close>), and the small hardware modules (\<open>power\<close>, \<open>liblights\<close>, \<open>nfc\<close>).

  \<^bold>\<open>How the program works.\<close> The framework calls the functions of the GPS interface. They put messages on
  a queue, as do the modem's adapter (a library loaded at run time) and the server for the location daemons, and one thread takes
  them off and acts: it starts and stops sessions, passes reports on to the framework, and keeps three
  state machines for the data connections that the modem and the daemons need. Requests for a
  connection go to the framework's connectivity service; its answers come back as messages. A
  location request from the network is shown to the user by the thread, with a thread of its own to
  wait for the answer. The daemons talk to the library over named pipes. The sensors module is polled
  for events by another service: it asks four drivers in turn, which read their input devices through a ring. The camera module stands in front of the vendor's and
  hands its calls on.

  \<^bold>\<open>Theories and the code they model\<close>, in order of their imports:
  \<^item> \<open>Prelude\<close>: pointers, lists, shared lemmas. \<open>Sysfs\<close>: files that may refuse to open, read or write,
    and decimal output.
  \<^item> \<open>Linked_List\<close>: \<open>gps/utils/linked_list.c\<close>, all functions on a memory of elements with addresses;
    refined to lists of values with deallocators.
  \<^item> \<open>Msg_Q\<close>: \<open>gps/utils/msg_q.c\<close> on top of it: the sequential functions and a step relation for threads
    that interleave at the mutex and the condition variable, with spurious wakeups.
  \<^item> \<open>Agps\<close>: \<open>loc_eng_agps.cpp\<close>, \<open>.h\<close>: the four states, the three kinds of subscribers, notifications and
    requests to the connectivity service.
  \<^item> \<open>Thread_Helper\<close>: \<open>loc_eng_dmn_conn_thread_helper.c\<close>: launching, synchronising and ending a thread.
  \<^item> \<open>Dmn_Conn\<close>: \<open>loc_eng_dmn_conn_glue_pipe.c\<close>, \<open>loc_eng_dmn_conn_glue_msg.c\<close>, \<open>loc_eng_dmn_conn_handler.cpp\<close>,
    \<open>loc_eng_dmn_conn.cpp\<close>: pipes as byte strings, the length-prefixed messages on them, and the server.
  \<^item> \<open>Loc_Ni\<close>: \<open>loc_eng_ni.cpp\<close>: network-initiated requests, as functions and interleaved.
  \<^item> \<open>Loc_Msg\<close>: \<open>loc_eng_msg.h\<close>, \<open>loc_eng_msg_id.h\<close>, \<open>loc.h\<close>, the parts of \<open>hardware/gps.h\<close> the engine uses.
  \<^item> \<open>Loc_Eng\<close>: \<open>loc_eng.cpp\<close>, \<open>loc_eng.h\<close>, \<open>loc_eng_xtra.cpp\<close>: the state of the engine, the functions of the
    interface and the thread; \<open>Loc_Eng_Facts\<close> has the theorems about it.
  \<^item> \<open>Loc_Context\<close>: \<open>LocEngContext\<close> in \<open>loc_eng.cpp\<close>, which owns the queue and the thread: getting and dropping it, interleaved.
  \<^item> \<open>Printf\<close>: the conversions of \<open>printf\<close> and writing into a buffer. \<open>Nmea\<close>: \<open>loc_eng_nmea.cpp\<close>, \<open>.h\<close>: the
    sentences made from position and satellite reports; they are what \<open>GenerateNmeaPos\<close> and
    \<open>GenerateNmeaSv\<close> stand for among the engine's calls.
  \<^item> \<open>Loc_Api_Adapter\<close>: \<open>LocApiAdapter.cpp\<close>: the helpers that print the modem's data, and its reports and requests as
    messages. \<open>Loc_Cfg\<close>: \<open>gps/utils/loc_cfg.cpp\<close>, \<open>.h\<close> and the parameter table of \<open>loc_eng.cpp\<close>: reading \<open>gps.conf\<close>.
  \<^item> \<open>Loc_Hal\<close>: \<open>loc.cpp\<close>: the tables of the interface with its extensions, the choice of the target, and runs
    of the whole library with everything that calls it, in any order.
  \<^item> \<open>Input_Ring\<close>: \<open>libsensors/InputEventReader.cpp\<close>: the ring of input events and the loop that reads from it.
    \<open>Input_Sensors\<close>: \<open>SensorBase.cpp\<close>, \<open>LightSensor.cpp\<close>, \<open>ProximitySensor.cpp\<close>, \<open>GyroSensor.cpp\<close>. \<open>Akm_Sensor\<close>:
    \<open>AkmSensor.cpp\<close>, four sensors on one device. \<open>Sensors_Poll\<close>: \<open>sensors.cpp\<close>, the module over the four drivers.
  \<^item> \<open>Loc_Log\<close>: \<open>loc_eng_log.cpp\<close>, \<open>gps/utils/loc_log.cpp\<close>, \<open>.h\<close>, \<open>log_util.h\<close>: names of values, time stamps, levels.
  \<^item> \<open>Camera_Wrapper\<close>: \<open>camera/CameraWrapper.cpp\<close>, all functions, with the parameters; \<open>Camera_Runs\<close>: its runs and their memory.
  \<^item> \<open>Power_Hal\<close>: \<open>power/power.c\<close>, \<open>.h\<close>. \<open>Lights\<close>: \<open>liblights/lights.c\<close>. \<open>Hal_Modules\<close>: \<open>nfc/nfc_hw.c\<close> and
    \<open>gps.c\<close>, which open devices.

  \<^bold>\<open>What is shown.\<close>
  \<^item> The queue and the list: refinement of the pointer code to lists, no leak, first in first out in
    every interleaving, no lost wakeup, no element lost or duplicated.
  \<^item> Data connections: the invariant of a machine for any sequence of calls, one request and one release
    per use, who is told what; that the engine keeps this invariant for all three machines; and, in this
    theory, a daemon's session from the bytes in the pipe to the connectivity service and back.
  \<^item> The engine: the thread works off every queue without a fault in a bounded number of rounds, deletes
    aiding data only while the modem is off, mutes a session, restarts one after the modem has
    restarted, decides what becomes of a position report, and stops at once.
  \<^item> The context: nobody uses it after its end, and the last user is woken, in runs without the two races and the stray read that are shown.
  \<^item> The daemon server: messages are read whole and in order, requests become engine messages, and what
    arbitrary bytes can do to it.
  \<^item> Network-initiated requests: answered exactly once as long as the modem does not restart, and lemmas on
    what the threads can do to each other otherwise.
  \<^item> NMEA: which sentences a report makes, with their checksums; for which lengths the buffer is enough.
  \<^item> The adapter: addresses and hexadecimal texts read back as what was printed. The configuration: no file makes
    the parser fault, the last line of a parameter wins, trimming in place is trimming.
  \<^item> The interface: which capabilities of the file reach the framework, that nothing is reported after the cleanup, and
    that connections other than for SUPL are never granted.
  \<^item> The sensors: the ring is a queue of bounded length; a sensor loses no report; the accelerometer is on exactly as long as
    one of its two users is enabled, and motion is reported once per request; polling stays in the caller's array unless a read
    fails.
  \<^item> The camera: which parameters the framework and the vendor see, when the preview is restarted, and that no memory or device is
    used after its end in any run, with what is lost where.
  \<^item> Logging: the name of every message; time stamps read back.
  \<^item> The hardware modules: the values written to the files of the kernel, ranges and overruns.

  \<^bold>\<open>Fuel and bounds.\<close> The engine's thread takes a number of rounds; \<open>engine_thread_drains\<close> shows that the
  length of the queue plus seven for every restart among the messages is enough. The server runs once for every buffer it is
  given. \<open>loc_eng_dmn_conn_glue_msgflush\<close>, which may loop for ever, is a partial function and shown not to return. The
  loop of a sensor over its ring takes one round more than the ring has places; the gyroscope's second loop ends because each
  round takes something from the device.
  Lengths on the wire are 32-bit words on the 32-bit target, as is \<open>size_t\<close>.

  \<^bold>\<open>Parameters.\<close> The modem's adapter, the name resolution, the success of \<open>pthread_create\<close>, the stack bytes that the code reads
  without setting them, the results of system calls on the kernel's files, the success of \<open>malloc\<close>, the vendor's camera module, the class
  \<open>CameraParameters\<close> of the framework (\<open>params_laws\<close> states what it promises, \<open>demo_params\<close> fulfils it).

  \<^bold>\<open>Not modelled.\<close> The graphics symbols forward to libraries that are not part of the repository, as do the declarations of
  \<open>ulp.h\<close>; \<open>loc_eng_msg.cpp\<close> is not built and nothing calls it; \<open>CameraParametersExtra.h\<close> are constants for a class of the framework; the firmware image of the NFC chip is data; the Java parts are outside the language
  modelled. The calls of the log in the other functions, locks held for wake-up and the scheduling policy have no effect on the state that is modelled.
\<close>

section \<open>From a daemon to the connectivity service and back\<close>

lemma subscribe_idle:
  fixes s :: subscriber
  assumes "mStatePtr m = AgpsReleasedState" and "mSubscribers m = []" and "wf_sub s"
  shows "subscribeRsrc s m =
    m\<lparr>mStatePtr := AgpsPendingState, mSubscribers := [clone s], out := out m @ [Servicer (nif_request m s)]\<rparr>"
  using assms clone_facts(4) [of s] clone_facts(3) [of s] clone_told [OF assms(3)]
  by (simp add: subscribeRsrc_def hasSubscribers_def dispatch_def addSubscriber_def find_sub_empty sendRsrcRequest_cases)

lemma grant_single:
  fixes s :: subscriber
  assumes "wf_sub s"
  shows "onRsrcEvent RSRC_GRANTED (m\<lparr>mStatePtr := AgpsPendingState, mSubscribers := [clone s]\<rparr>) =
    m\<lparr>mStatePtr := AgpsAcquiredState, mSubscribers := [clone s], out := out m @ [told_granted m s]\<rparr>"
  using clone_facts(4) [of s] clone_facts(3) [of s] clone_told [OF assms]
  by (simp add: dispatch_def notifySubscribers_keep told_by_status)

lemma unsubscribe_single:
  fixes s :: subscriber
  assumes "wf_sub s" and "kind s \<noteq> WIFI"
  shows "unsubscribeRsrc s (m\<lparr>mStatePtr := AgpsAcquiredState, mSubscribers := [clone s]\<rparr>) =
    (True, m\<lparr>mStatePtr := AgpsReleasedState, mSubscribers := [], out := out m @ [told_released s, Servicer (nif_release m)]\<rparr>)"
    (is "unsubscribeRsrc s ?m = _")
proof -
  have refl: "equals (clone s) s" using equals_clone [OF assms(1), of "clone s"] by simp
  then have "unsubscribeRsrc s ?m = (True, dispatch (Unsubscribe (InList 0)) ?m)"
    by (simp add: unsubscribeRsrc_def find_sub_single)
  then show ?thesis
    using assms(2) refl clone_facts(4) [of s] clone_facts(3) [of s] clone_told [OF assms(1)]
    by (simp add: dispatch_def close_subscriber_def waitForCloseComplete_def hasSubscribers_def
          hasActiveSubscribers_iff sendRsrcRequest_cases notifySubscribers_delete told_by_status)
qed

lemma bit_session:
  fixes m :: AgpsStateMachine and junk ip6 :: "8 word list" and ip4 :: "32 word"
  assumes "mStatePtr m = AgpsReleasedState" and "mSubscribers m = []"
  defines "s \<equiv> newBITSubscriber junk ip4 (Some ip6)"
  shows "\<exists>m'. grant_nif apn bearer (subscribeRsrc s m) = Some m' \<and> snd (unsubscribeRsrc s m') =
    m\<lparr>mAPN := Some (apn @ [CHR 0x00]), mAPNLen := length apn, mBearer := bearer,
      out := out m @ [Servicer (nif_request m s), DataConn IF_REQUEST_SENDER_ID_GPSONE_DAEMON GPSONE_LOC_API_IF_REQUEST_SUCCESS,
        DataConn IF_REQUEST_SENDER_ID_GPSONE_DAEMON GPSONE_LOC_API_IF_RELEASE_SUCCESS, Servicer (nif_release m)]\<rparr>"
proof -
  have s: "wf_sub s" by (simp add: s_def)
  have k: "kind s = BIT" by (simp add: s_def newBITSubscriber_def)
  then have told: "told_granted x s = DataConn IF_REQUEST_SENDER_ID_GPSONE_DAEMON GPSONE_LOC_API_IF_REQUEST_SUCCESS"
    "told_released s = DataConn IF_REQUEST_SENDER_ID_GPSONE_DAEMON GPSONE_LOC_API_IF_RELEASE_SUCCESS" for x
    by (simp_all add: told_granted_def told_released_def)
  let ?m0 = "m\<lparr>out := out m @ [Servicer (nif_request m s)], mBearer := bearer, mAPN := Some (apn @ [CHR 0x00]), mAPNLen := length apn\<rparr>"
  let ?m2 = "?m0\<lparr>out := out m @ [Servicer (nif_request m s), told_granted ?m0 s]\<rparr>"
  have "setAPN (Some apn) (length apn) (setBearer bearer (subscribeRsrc s m)) =
      Some (?m0\<lparr>mStatePtr := AgpsPendingState, mSubscribers := [clone s]\<rparr>)"
    using subscribe_idle [OF assms(1,2) s] by (simp add: setAPN_def setBearer_def)
  then have 2: "grant_nif apn bearer (subscribeRsrc s m) = Some (?m2\<lparr>mStatePtr := AgpsAcquiredState, mSubscribers := [clone s]\<rparr>)"
    using grant_single [OF s, of ?m0] by (simp add: grant_nif_def del: onRsrcEvent.simps)
  have 3: "snd (unsubscribeRsrc s (?m2\<lparr>mStatePtr := AgpsAcquiredState, mSubscribers := [clone s]\<rparr>)) =
      ?m2\<lparr>mStatePtr := AgpsReleasedState, mSubscribers := [], out := out ?m2 @ [told_released s, Servicer (nif_release ?m2)]\<rparr>"
    using unsubscribe_single [OF s, of ?m2] k by simp
  have "nif_release ?m2 = nif_release m" by (simp add: nif_release_def)
  moreover have "m\<lparr>mBearer := b, mAPN := a, mAPNLen := l, mStatePtr := AgpsReleasedState, mSubscribers := [], out := x\<rparr>
      = m\<lparr>mAPN := a, mAPNLen := l, mBearer := b, out := x\<rparr>" for a b l x
    using assms(1,2) by (cases m) simp
  ultimately show ?thesis using 2 3 told by simp
qed

text \<open>What the thread does with a message about a connection, as far as the machines go.\<close>

lemma handle_connection_msg:
  assumes "handle_connection (stack_bytes e) c d = Some d1"
  shows "\<exists>d'. handle_msg e (Connection c) d = Some d' \<and> (\<forall>n. nif_of n d' = nif_of n d1)"
  using assms conns_nif [OF conns_after_switch] by (simp add: handle_msg_def handle_switch_def)

lemma run_daemon_session:
  assumes n: "nif_of_request t = Some n" "nif_of_agps_type ty = n" and m: "nif_of n d = Some m"
    and idle: "mStatePtr m = AgpsReleasedState" "mSubscribers m = []"
  shows "\<exists>d'. run_msgs e (map Connection [LOC_ENG_MSG_CONN (loc_eng_msg_request_bit t ip4 ip6),
      LOC_ENG_MSG_ATL_OPEN_SUCCESS ty apn bearer, LOC_ENG_MSG_CONN (loc_eng_msg_release_bit t ip4 ip6)]) d = Some d'
    \<and> nif_of n d' = Some (m\<lparr>mAPN := Some (apn @ [CHR 0x00]), mAPNLen := length apn, mBearer := bearer,
      out := out m @ [Servicer (nif_request m (newBITSubscriber (stack_bytes e) ip4 (Some ip6))),
        DataConn IF_REQUEST_SENDER_ID_GPSONE_DAEMON GPSONE_LOC_API_IF_REQUEST_SUCCESS,
        DataConn IF_REQUEST_SENDER_ID_GPSONE_DAEMON GPSONE_LOC_API_IF_RELEASE_SUCCESS, Servicer (nif_release m)]\<rparr>)"
proof -
  let ?s = "newBITSubscriber (stack_bytes e) ip4 (Some ip6)"
  obtain m2 where m2: "grant_nif apn bearer (subscribeRsrc ?s m) = Some m2"
    and m3: "snd (unsubscribeRsrc ?s m2) =
    m\<lparr>mAPN := Some (apn @ [CHR 0x00]), mAPNLen := length apn, mBearer := bearer,
      out := out m @ [Servicer (nif_request m ?s), DataConn IF_REQUEST_SENDER_ID_GPSONE_DAEMON GPSONE_LOC_API_IF_REQUEST_SUCCESS,
        DataConn IF_REQUEST_SENDER_ID_GPSONE_DAEMON GPSONE_LOC_API_IF_RELEASE_SUCCESS, Servicer (nif_release m)]\<rparr>"
    using bit_session [OF idle] by blast
  obtain d1 where d1: "handle_msg e (Connection (LOC_ENG_MSG_CONN (loc_eng_msg_request_bit t ip4 ip6))) d = Some d1"
    "nif_of n d1 = Some (subscribeRsrc ?s m)"
    using handle_connection_msg [of e "LOC_ENG_MSG_CONN (loc_eng_msg_request_bit t ip4 ip6)" d "set_nif n (subscribeRsrc ?s m) d"] n m
    by (auto simp: handle_connection_def handle_conn_msg_def on_nif_def)
  obtain d2 where d2: "handle_msg e (Connection (LOC_ENG_MSG_ATL_OPEN_SUCCESS ty apn bearer)) d1 = Some d2"
    "nif_of n d2 = Some m2"
    using handle_connection_msg [of e "LOC_ENG_MSG_ATL_OPEN_SUCCESS ty apn bearer" d1 "set_nif n m2 d1"] n d1 m2
    by (auto simp: handle_connection_def)
  obtain d3 where d3: "handle_msg e (Connection (LOC_ENG_MSG_CONN (loc_eng_msg_release_bit t ip4 ip6))) d2 = Some d3"
    "nif_of n d3 = Some (snd (unsubscribeRsrc ?s m2))"
    using handle_connection_msg [of e "LOC_ENG_MSG_CONN (loc_eng_msg_release_bit t ip4 ip6)" d2
        "set_nif n (snd (unsubscribeRsrc ?s m2)) d2"] n d2
    by (auto simp: handle_connection_def handle_conn_msg_def on_nif_def)
  show ?thesis using d1(1) d2(1) d3 m3 by simp
qed

text \<open>C5: the GPSOne daemon's whole session over a data connection: its request and its release, written
  to the server's pipe, become two engine messages; with the framework's notice of the open
  connection between them the engine asks the connectivity service for the connection once, with the
  daemon's addresses, tells the daemon that it is open, tells it that it is released and asks the service
  to release it. Afterwards the machine is idle as before.\<close>
theorem daemon_session_end_to_end:
  fixes r :: ctrl_request and e :: eng_env and d :: loc_eng_data
  defines "rel \<equiv> r\<lparr>rq_release := True\<rparr>"
  assumes r: "wf_request r" "\<not> rq_release r" "rq_sender r = IF_REQUEST_SENDER_ID_GPSONE_DAEMON"
    and pipe: "pipe_has w (loc_api_server_msgqid v) i (encode_request r @ encode_request rel)"
    and v: "have_loc_api_handle v"
    and n: "nif_of_request (rq_type r) = Some n" "nif_of_agps_type ty = n" and m: "nif_of n d = Some m"
    and idle: "mStatePtr m = AgpsReleasedState" "mSubscribers m = []"
  shows "\<exists>q q' d'. server_run [Some b1, Some b2] v w = Done (v\<lparr>sent := sent v @ [q, q']\<rparr>, set_pipe i [] w)
    \<and> run_msgs e (map Connection [LOC_ENG_MSG_CONN q, LOC_ENG_MSG_ATL_OPEN_SUCCESS ty apn bearer, LOC_ENG_MSG_CONN q']) d = Some d'
    \<and> nif_of n d' = Some (m\<lparr>mAPN := Some (apn @ [CHR 0x00]), mAPNLen := length apn, mBearer := bearer,
      out := out m @ [Servicer (nif_request m (newBITSubscriber (stack_bytes e) (rq_ipv4 r) (Some (rq_ipv6 r)))),
        DataConn IF_REQUEST_SENDER_ID_GPSONE_DAEMON GPSONE_LOC_API_IF_REQUEST_SUCCESS,
        DataConn IF_REQUEST_SENDER_ID_GPSONE_DAEMON GPSONE_LOC_API_IF_RELEASE_SUCCESS, Servicer (nif_release m)]\<rparr>)"
proof -
  let ?q = "loc_eng_msg_request_bit (rq_type r) (rq_ipv4 r) (rq_ipv6 r)"
  let ?q' = "loc_eng_msg_release_bit (rq_type r) (rq_ipv4 r) (rq_ipv6 r)"
  have "server_run (map Some [b1, b2]) v w = Done (v\<lparr>sent := sent v @ concat (map request_msg [r, rel])\<rparr>, set_pipe i [] w)"
    by (rule server_run_requests) (use pipe v r in \<open>simp_all add: rel_def wf_request_def\<close>)
  moreover have "concat (map request_msg [r, rel]) = [?q, ?q']" using r by (simp add: request_msg_def rel_def)
  ultimately have "server_run [Some b1, Some b2] v w = Done (v\<lparr>sent := sent v @ [?q, ?q']\<rparr>, set_pipe i [] w)" by simp
  with run_daemon_session [OF n m idle] show ?thesis by blast
qed

definition daemon_request0 :: ctrl_request where
  "daemon_request0 = \<lparr>rq_release = False, rq_type = LOC_ENG_IF_REQUEST_TYPE_SUPL, rq_sender = IF_REQUEST_SENDER_ID_GPSONE_DAEMON,
     rq_ipv4 = 7, rq_ipv6 = replicate 16 1, rq_ssid = '''', rq_password = ''''\<rparr>"

theorem daemon_session_end_to_end_witness:
  "\<exists>d' m. run_msgs env0 (map Connection
      [LOC_ENG_MSG_CONN (loc_eng_msg_request_bit LOC_ENG_IF_REQUEST_TYPE_SUPL 7 (replicate 16 1)),
       LOC_ENG_MSG_ATL_OPEN_SUCCESS AGPS_TYPE_SUPL ''apn'' AGPS_APN_BEARER_IPV4,
       LOC_ENG_MSG_CONN (loc_eng_msg_release_bit LOC_ENG_IF_REQUEST_TYPE_SUPL 7 (replicate 16 1))])
      (cleared_data\<lparr>agnss_nif := Some supl\<rparr>) = Some d'
    \<and> agnss_nif d' = Some m \<and> requests m = [GPS_REQUEST_AGPS_DATA_CONN, GPS_RELEASE_AGPS_DATA_CONN]
    \<and> mSubscribers m = []"
proof -
  let ?r = "daemon_request0"
  let ?w = "pipe_world (encode_request ?r @ encode_request (?r\<lparr>rq_release := True\<rparr>))"
  let ?d = "cleared_data\<lparr>agnss_nif := Some supl\<rparr>"
  have r: "wf_request ?r" "\<not> rq_release ?r" "rq_sender ?r = IF_REQUEST_SENDER_ID_GPSONE_DAEMON"
    "nif_of_request (rq_type ?r) = Some Agnss" "nif_of_agps_type AGPS_TYPE_SUPL = Agnss"
    by (simp_all add: daemon_request0_def wf_request_def c_text_def SSID_BUF_SIZE_def nif_of_request_def nif_of_agps_type_def)
  have has: "pipe_has ?w (loc_api_server_msgqid sample_server) 0 (encode_request ?r @ encode_request (?r\<lparr>rq_release := True\<rparr>))"
    "have_loc_api_handle sample_server"
    by (simp_all add: sample_server_def)
  have m: "nif_of Agnss ?d = Some supl" "mStatePtr supl = AgpsReleasedState" "mSubscribers supl = []" "out supl = []"
    by (simp_all add: supl_def newAgpsStateMachine_def)
  have sent: "sent (sample_server\<lparr>sent := x\<rparr>) = x" "sent sample_server = []" for x by (simp_all add: sample_server_def)
  have q: "server_run [Some [], Some []] sample_server ?w =
      Done (sample_server\<lparr>sent := concat (map request_msg [?r, ?r\<lparr>rq_release := True\<rparr>])\<rparr>, set_pipe 0 [] ?w)"
    using server_run_requests [of ?w sample_server 0 "[?r, ?r\<lparr>rq_release := True\<rparr>]" "[]" "[[], []]"] has r(1) sent(2)
    by (simp add: wf_request_def)
  from daemon_session_end_to_end [OF r(1-3) has r(4,5) m(1-3), of "[]" "[]" env0 "''apn''" AGPS_APN_BEARER_IPV4]
  show ?thesis
    unfolding q using sent m(4)
    by (auto dest!: arg_cong [of _ _ sent] simp: request_msg_def daemon_request0_def requests_def nif_request_def nif_release_def
        setIPAddresses_def setWifiInfo_def newBITSubscriber_def m(3))
qed

end
